(* ===== verification/C_Prelude.thy ===== *)
theory C_Prelude
  imports Main "HOL-Library.Word" "HOL-Library.Monad_Syntax"
begin

text \<open>
  Shared vocabulary of the development: the machine integers of the C sources, the model of
  pointers and buffers, and the generic lemmas on lists and words that the component theories use.

  \<^item> A \<^emph>\<open>read pointer\<close> \<open>const uint8_t*\<close> is the list of the bytes from the pointed-to position to
    the end of its object. Reading past the object is \<open>None\<close>.
  \<^item> A \<^emph>\<open>write buffer\<close> \<open>uint8_t*\<close> of known size is a byte list with an offset. Writing past its end
    is \<open>None\<close>.
  \<^item> A \<^emph>\<open>growable buffer\<close> (\<open>realloc\<close>) is a record of the bytes written so far and the capacity.
  \<^item> Functions that touch memory live in the option monad: \<open>None\<close> is undefined behaviour (an access
    out of bounds, a signed overflow) or, in a build without \<open>NDEBUG\<close>, a failed \<open>assert\<close>.
    The parameter \<open>nd\<close> of such a function says whether \<open>NDEBUG\<close> is defined. A theorem that
    \<open>f True \<dots> \<noteq> None\<close> is memory safety, and one that \<open>f False \<dots> \<noteq> None\<close> adds that no
    assertion fails.
  \<^item> \<open>mem\<close> tells for a requested size whether the allocator returns memory.
\<close>

unbundle bit_operations_syntax

declare of_nat_unat [simp del]

type_synonym u8 = "8 word"
type_synonym u16 = "16 word"
type_synonym u32 = "32 word"
type_synonym u64 = "64 word"

named_theorems bytes_simp "reads and writes of byte buffers as list operations"
named_theorems safe_intro "facts that an operation has a defined result"

section \<open>Limits and error numbers\<close>

definition INT_MAX :: nat where "INT_MAX = 2147483647"
definition E2BIG :: int where "E2BIG = 7"
definition ENOMEM :: int where "ENOMEM = 12"
definition EINVAL :: int where "EINVAL = 22"

section \<open>Reading and writing memory\<close>

definition rd :: "u8 list \<Rightarrow> nat \<Rightarrow> u8 option" where
  "rd p i = (if i < length p then Some (p ! i) else None)"

definition adv :: "u8 list \<Rightarrow> nat \<Rightarrow> u8 list option" where
  "adv p n = (if n \<le> length p then Some (drop n p) else None)"

definition wr :: "u8 list \<Rightarrow> nat \<Rightarrow> u8 \<Rightarrow> u8 list option" where
  "wr b i x = (if i < length b then Some (b[i := x]) else None)"

definition c_memcpy :: "u8 list \<Rightarrow> nat \<Rightarrow> u8 list \<Rightarrow> nat \<Rightarrow> u8 list option" where
  "c_memcpy dst off src n =
     (if off + n \<le> length dst \<and> n \<le> length src
      then Some (take off dst @ take n src @ drop (off + n) dst) else None)"

definition c_slice :: "u8 list \<Rightarrow> nat \<Rightarrow> nat \<Rightarrow> u8 list option" where
  "c_slice p off n = (if off + n \<le> length p then Some (take n (drop off p)) else None)"

definition c_assert :: "bool \<Rightarrow> bool \<Rightarrow> unit option" where
  "c_assert nd P = (if nd \<or> P then Some () else None)"

definition splice :: "u8 list \<Rightarrow> nat \<Rightarrow> u8 list \<Rightarrow> u8 list" where
  "splice b off xs = take off b @ xs @ drop (off + length xs) b"

record heapbuf =
  hb_bytes :: "u8 list"
  hb_cap :: nat

definition hb_empty :: heapbuf where
  "hb_empty = \<lparr>hb_bytes = [], hb_cap = 0\<rparr>"

definition hb_write :: "heapbuf \<Rightarrow> nat \<Rightarrow> u8 list \<Rightarrow> heapbuf option" where
  "hb_write b off xs =
     (if off \<le> length (hb_bytes b) \<and> off + length xs \<le> hb_cap b
      then Some (b\<lparr>hb_bytes := splice (hb_bytes b) off xs\<rparr>) else None)"

definition hb_realloc :: "heapbuf \<Rightarrow> nat \<Rightarrow> heapbuf" where
  "hb_realloc b n = \<lparr>hb_bytes = take n (hb_bytes b), hb_cap = n\<rparr>"

definition hb_wf :: "heapbuf \<Rightarrow> bool" where
  "hb_wf b \<longleftrightarrow> length (hb_bytes b) \<le> hb_cap b"

lemma rd_Some [bytes_simp]: "i < length p \<Longrightarrow> rd p i = Some (p ! i)"
  by (simp add: rd_def)

lemma rd_eq_None [simp]: "rd p i = None \<longleftrightarrow> length p \<le> i"
  by (simp add: rd_def)

lemma rd_Cons_0 [simp]: "rd (x # xs) 0 = Some x"
  by (simp add: rd_def)

lemma rd_Cons_Suc [simp]: "rd (x # xs) (Suc i) = rd xs i"
  by (simp add: rd_def)

lemma rd_Cons_numeral [simp]: "rd (x # xs) (numeral k) = rd xs (pred_numeral k)"
  by (simp add: rd_def numeral_eq_Suc)

lemma rd_drop: "rd (drop n p) i = rd p (n + i)"
  by (auto simp: rd_def)

lemma rd_append_left: "i < length p \<Longrightarrow> rd (p @ q) i = rd p i"
  by (simp add: rd_def nth_append)

lemma adv_Some [bytes_simp]: "n \<le> length p \<Longrightarrow> adv p n = Some (drop n p)"
  by (simp add: adv_def)

lemma adv_eq_Some: "adv p n = Some q \<longleftrightarrow> n \<le> length p \<and> q = drop n p"
  by (auto simp: adv_def)

lemma c_slice_Some [bytes_simp]: "off + n \<le> length p \<Longrightarrow> c_slice p off n = Some (take n (drop off p))"
  by (simp add: c_slice_def)

lemma c_assert_True [simp]: "c_assert True P = Some ()" "c_assert nd True = Some ()"
  by (simp_all add: c_assert_def)

lemma c_assert_False [simp]: "c_assert False P = (if P then Some () else None)"
  by (simp add: c_assert_def)

lemma c_assert_holds: "P \<Longrightarrow> c_assert nd P = Some ()"
  by (simp add: c_assert_def)

lemma c_assert_eq_Some: "c_assert nd P = Some u \<longleftrightarrow> nd \<or> P"
  by (simp add: c_assert_def)

lemma length_splice [simp]:
  "off + length xs \<le> length b \<Longrightarrow> length (splice b off xs) = length b"
  by (simp add: splice_def)

lemma splice_0_all [simp]: "length xs = length b \<Longrightarrow> splice b 0 xs = xs"
  by (simp add: splice_def)

lemma splice_0: "splice b 0 xs = xs @ drop (length xs) b"
  by (simp add: splice_def)

lemma splice_end: "splice b (length b) xs = b @ xs"
  by (simp add: splice_def)

lemma splice_splice [simp]:
  assumes "off + length xs \<le> length b"
  shows "splice (splice b off xs) (off + length xs) ys = splice b off (xs @ ys)"
proof -
  have "take (off + length xs) (splice b off xs) = take off b @ xs"
    using assms by (simp add: splice_def)
  moreover have "drop (off + length xs + length ys) (splice b off xs)
      = drop (off + length xs + length ys) b"
    using assms by (auto simp: splice_def min_def ac_simps)
  ultimately show ?thesis by (simp add: splice_def add.assoc)
qed

lemma splice_adjacent:
  "\<lbrakk>off + length xs \<le> length b; off' = off + length xs\<rbrakk>
   \<Longrightarrow> splice (splice b off xs) off' ys = splice b off (xs @ ys)"
  by simp

lemma drop_splice:
  "off + length xs \<le> length b \<Longrightarrow> drop off (splice b off xs) = xs @ drop (off + length xs) b"
  by (cases xs) (auto simp: splice_def min_def)

lemma take_splice_before: "off \<le> length b \<Longrightarrow> take off (splice b off xs) = take off b"
  by (simp add: splice_def)

lemma take_splice_through:
  "off \<le> length b \<Longrightarrow> take (off + length xs) (splice b off xs) = take off b @ xs"
  by (simp add: splice_def)

lemma wr_splice: "wr b i x = (if i < length b then Some (splice b i [x]) else None)"
  by (simp add: wr_def splice_def upd_conv_take_nth_drop)

lemma c_memcpy_splice [bytes_simp]:
  "\<lbrakk>n \<le> length src; off + n \<le> length dst\<rbrakk>
   \<Longrightarrow> c_memcpy dst off src n = Some (splice dst off (take n src))"
  by (simp add: c_memcpy_def splice_def)

lemma c_memcpy_eq_Some:
  "c_memcpy dst off src n = Some r \<longleftrightarrow>
     off + n \<le> length dst \<and> n \<le> length src \<and> r = splice dst off (take n src)"
  by (auto simp: c_memcpy_def splice_def)

lemma hb_wf_empty [simp]: "hb_wf hb_empty"
  by (simp add: hb_wf_def hb_empty_def)

lemma hb_write_Some:
  "\<lbrakk>off \<le> length (hb_bytes b); off + length xs \<le> hb_cap b\<rbrakk>
   \<Longrightarrow> hb_write b off xs = Some (b\<lparr>hb_bytes := splice (hb_bytes b) off xs\<rparr>)"
  by (simp add: hb_write_def)

lemma hb_wf_write: "hb_wf b \<Longrightarrow> hb_write b off xs = Some b' \<Longrightarrow> hb_wf b'"
  by (auto simp: hb_wf_def hb_write_def splice_def split: if_splits)

lemma hb_wf_realloc [simp]: "hb_wf (hb_realloc b n)"
  by (simp add: hb_wf_def hb_realloc_def)

section \<open>The option monad\<close>

lemma bind_not_None: "(m \<bind> f) \<noteq> None \<longleftrightarrow> (\<exists>a. m = Some a \<and> f a \<noteq> None)"
  by (cases m) auto

lemma bind_Some_conv: "(m \<bind> f) = Some r \<longleftrightarrow> (\<exists>a. m = Some a \<and> f a = Some r)"
  by (cases m) auto

lemma bind_case_sum_Inr:
  "(m \<bind> case_sum (\<lambda>e. Some (Inl e)) f) = Some (Inr x) \<longleftrightarrow> (\<exists>q. m = Some (Inr q) \<and> f q = Some (Inr x))"
  by (cases m) (auto split: sum.split)

text \<open>\<open>ok Q m\<close>: the computation \<open>m\<close> has a result and it satisfies \<open>Q\<close>. The equations compute the
  weakest precondition of a composed computation; \<open>okI_mono\<close> inserts what is known of a part.\<close>

named_theorems ok_simps "weakest preconditions of computations that have a result"

definition ok :: "('a \<Rightarrow> bool) \<Rightarrow> 'a option \<Rightarrow> bool" where
  "ok Q m \<longleftrightarrow> (case m of None \<Rightarrow> False | Some x \<Rightarrow> Q x)"

lemma ok_Some [simp, ok_simps]: "ok Q (Some x) = Q x"
  by (simp add: ok_def)

lemma ok_None [simp, ok_simps]: "ok Q None = False"
  by (simp add: ok_def)

lemma ok_bind [ok_simps]: "ok Q (m \<bind> f) = ok (\<lambda>x. ok Q (f x)) m"
  by (cases m) auto

lemma ok_if [ok_simps]: "ok Q (if b then m else n) = (if b then ok Q m else ok Q n)"
  by simp

lemma ok_case_prod [ok_simps]: "ok Q (case p of (a, b) \<Rightarrow> f a b) = (case p of (a, b) \<Rightarrow> ok Q (f a b))"
  by (cases p) simp

lemma ok_case_sum [ok_simps]:
  "ok Q (case r of Inl e \<Rightarrow> f e | Inr v \<Rightarrow> g v) = (case r of Inl e \<Rightarrow> ok Q (f e) | Inr v \<Rightarrow> ok Q (g v))"
  by (cases r) simp_all

lemma ok_case_option [ok_simps]:
  "ok Q (case r of None \<Rightarrow> f | Some v \<Rightarrow> g v) = (case r of None \<Rightarrow> ok Q f | Some v \<Rightarrow> ok Q (g v))"
  by (cases r) simp_all

lemma ok_Let [ok_simps]: "ok Q (Let x f) = Let x (\<lambda>y. ok Q (f y))"
  by simp

lemma okI_mono: "\<lbrakk>ok R m; \<And>x. R x \<Longrightarrow> Q x\<rbrakk> \<Longrightarrow> ok Q m"
  by (cases m) auto

lemma okE: "\<lbrakk>ok Q m; \<And>x. \<lbrakk>m = Some x; Q x\<rbrakk> \<Longrightarrow> thesis\<rbrakk> \<Longrightarrow> thesis"
  by (cases m) auto

lemma ok_iff: "ok Q m \<longleftrightarrow> (\<exists>x. m = Some x \<and> Q x)"
  by (cases m) auto

lemma ok_assert [ok_simps]: "ok Q (c_assert nd P) \<longleftrightarrow> (nd \<or> P) \<and> Q ()"
  by (simp add: c_assert_def)

lemma ok_rd [ok_simps]: "ok Q (rd p i) \<longleftrightarrow> i < length p \<and> Q (p ! i)"
  by (simp add: rd_def)

lemma ok_adv [ok_simps]: "ok Q (adv p n) \<longleftrightarrow> n \<le> length p \<and> Q (drop n p)"
  by (simp add: adv_def)

lemma ok_slice [ok_simps]: "ok Q (c_slice p off n) \<longleftrightarrow> off + n \<le> length p \<and> Q (take n (drop off p))"
  by (simp add: c_slice_def)

lemmas bind_fundef_cong [fundef_cong] = Option.bind_cong

section \<open>Bits beyond the width of a word\<close>

lemma bit_u8_beyond [simp]: "8 \<le> n \<Longrightarrow> bit (w :: u8) n = False"
  by (simp add: impossible_bit)

lemma bit_u16_beyond [simp]: "16 \<le> n \<Longrightarrow> bit (w :: u16) n = False"
  by (simp add: impossible_bit)

lemma bit_u32_beyond [simp]: "32 \<le> n \<Longrightarrow> bit (w :: u32) n = False"
  by (simp add: impossible_bit)

section \<open>Big-endian words\<close>

definition be16 :: "u16 \<Rightarrow> u8 list" where
  "be16 v = [ucast (drop_bit 8 v), ucast v]"

definition be32 :: "u32 \<Rightarrow> u8 list" where
  "be32 v = [ucast (drop_bit 24 v), ucast (drop_bit 16 v), ucast (drop_bit 8 v), ucast v]"

definition un16 :: "u8 \<Rightarrow> u8 \<Rightarrow> u16" where
  "un16 a b = push_bit 8 (ucast a) OR ucast b"

definition un32 :: "u8 \<Rightarrow> u8 \<Rightarrow> u8 \<Rightarrow> u8 \<Rightarrow> u32" where
  "un32 a b c d = push_bit 24 (ucast a) OR push_bit 16 (ucast b) OR push_bit 8 (ucast c) OR ucast d"

lemma length_be16 [simp]: "length (be16 v) = 2"
  by (simp add: be16_def)

lemma length_be32 [simp]: "length (be32 v) = 4"
  by (simp add: be32_def)

lemma un16_be16: "un16 (ucast (drop_bit 8 v)) (ucast v) = v"
  unfolding un16_def by (rule bit_word_eqI) (auto simp: bit_simps)

lemma un32_be32:
  "un32 (ucast (drop_bit 24 v)) (ucast (drop_bit 16 v)) (ucast (drop_bit 8 v)) (ucast v) = v"
proof (rule bit_word_eqI)
  fix n
  assume "n < LENGTH(32)"
  then consider "n < 8" | "8 \<le> n" "n < 16" | "16 \<le> n" "n < 24" | "24 \<le> n" "n < 32"
    by force
  then show "bit (un32 (ucast (drop_bit 24 v)) (ucast (drop_bit 16 v)) (ucast (drop_bit 8 v))
      (ucast v)) n = bit v n"
    by cases (auto simp: un32_def bit_simps)
qed

lemma be16_un16: "be16 (un16 a b) = [a, b]"
  unfolding be16_def un16_def by (auto intro!: bit_word_eqI simp: bit_simps)

lemma be32_un32: "be32 (un32 a b c d) = [a, b, c, d]"
  unfolding be32_def un32_def by (auto intro!: bit_word_eqI simp: bit_simps)

lemma un16_inject [simp]: "un16 a b = un16 c d \<longleftrightarrow> a = c \<and> b = d"
  by (metis be16_un16 list.inject)

lemma unat_bound: "unat (w :: 'a::len word) < 2 ^ LENGTH('a)"
  by (rule unsigned_less)

lemma unat_u8_less [simp]: "unat (x :: u8) < 256"
  using unat_bound [of x] by simp

lemma unat_u16_less [simp]: "unat (x :: u16) < 65536"
  using unat_bound [of x] by simp

lemma unat_u32_less [simp]: "unat (x :: u32) < 4294967296"
  using unat_bound [of x] by simp

end
