(* ===== verification/Rtp_Util.thy ===== *)
theory Rtp_Util
  imports C_Prelude
begin

text \<open>
  \<open>lib/librtp/include/rtp-header.h\<close> and \<open>rtp-util.h\<close>: the RTP and RTCP header structures as
  records whose bit-fields are words of exactly the declared width, the field extraction macros,
  and the network-byte-order accessors \<open>nbo_r16\<close>, \<open>nbo_r32\<close>, \<open>nbo_w16\<close>, \<open>nbo_w32\<close> and header
  writers. The lemmas show each accessor on the byte level and that what is written is read back.
\<close>

section \<open>Header structures\<close>

record rtp_header_t =
  h_v :: "2 word"
  h_p :: "1 word"
  h_x :: "1 word"
  h_cc :: "4 word"
  h_m :: "1 word"
  h_pt :: "7 word"
  h_seq :: u16
  h_timestamp :: u32
  h_ssrc :: u32

record rtcp_header_t =
  r_v :: "2 word"
  r_p :: "1 word"
  r_rc :: "5 word"
  r_pt :: u8
  r_length :: u16

definition RTP_VERSION :: nat where "RTP_VERSION = 2"

definition RTP_V :: "u32 \<Rightarrow> u32" where "RTP_V v = drop_bit 30 v AND 0x03"
definition RTP_P :: "u32 \<Rightarrow> u32" where "RTP_P v = drop_bit 29 v AND 0x01"
definition RTP_X :: "u32 \<Rightarrow> u32" where "RTP_X v = drop_bit 28 v AND 0x01"
definition RTP_CC :: "u32 \<Rightarrow> u32" where "RTP_CC v = drop_bit 24 v AND 0x0F"
definition RTP_M :: "u32 \<Rightarrow> u32" where "RTP_M v = drop_bit 23 v AND 0x01"
definition RTP_PT :: "u32 \<Rightarrow> u32" where "RTP_PT v = drop_bit 16 v AND 0x7F"
definition RTP_SEQ :: "u32 \<Rightarrow> u32" where "RTP_SEQ v = drop_bit 0 v AND 0xFFFF"

definition RTCP_V :: "u32 \<Rightarrow> u32" where "RTCP_V v = drop_bit 30 v AND 0x03"
definition RTCP_P :: "u32 \<Rightarrow> u32" where "RTCP_P v = drop_bit 29 v AND 0x01"
definition RTCP_RC :: "u32 \<Rightarrow> u32" where "RTCP_RC v = drop_bit 24 v AND 0x1F"
definition RTCP_PT :: "u32 \<Rightarrow> u32" where "RTCP_PT v = drop_bit 16 v AND 0xFF"
definition RTCP_LEN :: "u32 \<Rightarrow> u32" where "RTCP_LEN v = v AND 0xFFFF"

section \<open>Byte-order accessors\<close>

definition rtp_read_uint16 :: "u8 list \<Rightarrow> u16 option" where
  "rtp_read_uint16 ptr = do {
     a \<leftarrow> rd ptr 0; b \<leftarrow> rd ptr 1;
     Some (push_bit 8 (ucast a) OR ucast b) }"

definition rtp_read_uint32 :: "u8 list \<Rightarrow> u32 option" where
  "rtp_read_uint32 ptr = do {
     a \<leftarrow> rd ptr 0; b \<leftarrow> rd ptr 1; c \<leftarrow> rd ptr 2; d \<leftarrow> rd ptr 3;
     Some (push_bit 24 (ucast a) OR push_bit 16 (ucast b) OR push_bit 8 (ucast c) OR ucast d) }"

definition rtp_read_uint64 :: "u8 list \<Rightarrow> u64 option" where
  "rtp_read_uint64 ptr = do {
     hi \<leftarrow> rtp_read_uint32 ptr; p8 \<leftarrow> adv ptr 8; lo \<leftarrow> rtp_read_uint32 p8;
     Some (push_bit 32 (ucast hi) OR ucast lo) }"

definition rtp_write_uint16 :: "u8 list \<Rightarrow> nat \<Rightarrow> u16 \<Rightarrow> u8 list option" where
  "rtp_write_uint16 buf off val = do {
     b \<leftarrow> wr buf off (ucast (drop_bit 8 val));
     wr b (off + 1) (ucast val) }"

definition rtp_write_uint32 :: "u8 list \<Rightarrow> nat \<Rightarrow> u32 \<Rightarrow> u8 list option" where
  "rtp_write_uint32 buf off val = do {
     b \<leftarrow> wr buf off (ucast (drop_bit 24 val));
     b \<leftarrow> wr b (off + 1) (ucast (drop_bit 16 val));
     b \<leftarrow> wr b (off + 2) (ucast (drop_bit 8 val));
     wr b (off + 3) (ucast val) }"

definition rtp_write_uint64 :: "u8 list \<Rightarrow> nat \<Rightarrow> u64 \<Rightarrow> u8 list option" where
  "rtp_write_uint64 buf off val = do {
     b \<leftarrow> rtp_write_uint32 buf off (ucast (drop_bit 32 val));
     rtp_write_uint32 b (off + 8) (ucast val) }"

definition nbo_write_rtp_header :: "u8 list \<Rightarrow> nat \<Rightarrow> rtp_header_t \<Rightarrow> u8 list option" where
  "nbo_write_rtp_header ptr off header = do {
     b \<leftarrow> wr ptr off (ucast ((push_bit 6 (ucast (h_v header)) OR push_bit 5 (ucast (h_p header))
            OR push_bit 4 (ucast (h_x header)) OR ucast (h_cc header)) :: u32));
     b \<leftarrow> wr b (off + 1) (ucast ((push_bit 7 (ucast (h_m header)) OR ucast (h_pt header)) :: u32));
     b \<leftarrow> wr b (off + 2) (ucast (drop_bit 8 (h_seq header)));
     b \<leftarrow> wr b (off + 3) (ucast (h_seq header AND 0xFF));
     b \<leftarrow> rtp_write_uint32 b (off + 4) (h_timestamp header);
     rtp_write_uint32 b (off + 8) (h_ssrc header) }"

definition nbo_write_rtcp_header :: "u8 list \<Rightarrow> nat \<Rightarrow> rtcp_header_t \<Rightarrow> u8 list option" where
  "nbo_write_rtcp_header ptr off header = do {
     b \<leftarrow> wr ptr off (ucast ((push_bit 6 (ucast (r_v header)) OR push_bit 5 (ucast (r_p header))
            OR ucast (r_rc header)) :: u32));
     b \<leftarrow> wr b (off + 1) (r_pt header);
     b \<leftarrow> wr b (off + 2) (ucast (drop_bit 8 (r_length header)));
     wr b (off + 3) (ucast (r_length header AND 0xFF)) }"

section \<open>Accessors as list operations\<close>

lemma rtp_read_uint16_eq [bytes_simp]:
  "2 \<le> length p \<Longrightarrow> rtp_read_uint16 p = Some (un16 (p ! 0) (p ! 1))"
  by (auto simp: rtp_read_uint16_def rd_def un16_def)

lemma rtp_read_uint16_None [simp]: "rtp_read_uint16 p = None \<longleftrightarrow> length p < 2"
  by (auto simp: rtp_read_uint16_def rd_def Option.bind_eq_None_conv)

lemma rtp_read_uint32_eq [bytes_simp]:
  "4 \<le> length p \<Longrightarrow> rtp_read_uint32 p = Some (un32 (p ! 0) (p ! 1) (p ! 2) (p ! 3))"
  by (auto simp: rtp_read_uint32_def rd_def un32_def)

lemma rtp_read_uint32_None [simp]: "rtp_read_uint32 p = None \<longleftrightarrow> length p < 4"
  by (auto simp: rtp_read_uint32_def rd_def Option.bind_eq_None_conv)

lemma rtp_write_uint16_eq [bytes_simp]:
  "off + 2 \<le> length b \<Longrightarrow> rtp_write_uint16 b off v = Some (splice b off (be16 v))"
  by (simp add: rtp_write_uint16_def wr_splice be16_def splice_adjacent)

lemma rtp_write_uint16_None [simp]: "rtp_write_uint16 b off v = None \<longleftrightarrow> length b < off + 2"
  by (auto simp: rtp_write_uint16_def wr_def)

lemma rtp_write_uint32_eq [bytes_simp]:
  "off + 4 \<le> length b \<Longrightarrow> rtp_write_uint32 b off v = Some (splice b off (be32 v))"
  by (simp add: rtp_write_uint32_def wr_splice be32_def splice_adjacent)

lemma rtp_write_uint32_None [simp]: "rtp_write_uint32 b off v = None \<longleftrightarrow> length b < off + 4"
  by (auto simp: rtp_write_uint32_def wr_def)

lemma ok_read16 [ok_simps]:
  "ok Q (rtp_read_uint16 p) \<longleftrightarrow> 2 \<le> length p \<and> Q (un16 (p ! 0) (p ! 1))"
  using rtp_read_uint16_None [of p] by (cases "2 \<le> length p") (auto simp: rtp_read_uint16_eq simp del: rtp_read_uint16_None)

lemma ok_read32 [ok_simps]:
  "ok Q (rtp_read_uint32 p) \<longleftrightarrow> 4 \<le> length p \<and> Q (un32 (p ! 0) (p ! 1) (p ! 2) (p ! 3))"
  using rtp_read_uint32_None [of p] by (cases "4 \<le> length p") (auto simp: rtp_read_uint32_eq simp del: rtp_read_uint32_None)

lemma read16_be16 [simp]: "rtp_read_uint16 (be16 v @ r) = Some v"
  by (simp add: rtp_read_uint16_eq be16_def un16_be16)

lemma read32_be32 [simp]: "rtp_read_uint32 (be32 v @ r) = Some v"
  by (simp add: rtp_read_uint32_eq be32_def un32_be32)

lemma read32_be32_alone [simp]: "rtp_read_uint32 (be32 v) = Some v"
  using read32_be32 [of v "[]"] by (simp del: read32_be32)

section \<open>The fixed header on the byte level\<close>

definition rtp_header_word :: "rtp_header_t \<Rightarrow> u32" where
  "rtp_header_word h =
     push_bit 30 (ucast (h_v h)) OR push_bit 29 (ucast (h_p h)) OR push_bit 28 (ucast (h_x h))
     OR push_bit 24 (ucast (h_cc h)) OR push_bit 23 (ucast (h_m h))
     OR push_bit 16 (ucast (h_pt h)) OR ucast (h_seq h)"

definition rtp_header_bytes :: "rtp_header_t \<Rightarrow> u8 list" where
  "rtp_header_bytes h = be32 (rtp_header_word h)
     @ be32 (h_timestamp h) @ be32 (h_ssrc h)"

lemma length_rtp_header_bytes [simp]: "length (rtp_header_bytes h) = 12"
  by (simp add: rtp_header_bytes_def)

lemma bit_w1_beyond [simp]: "0 < n \<Longrightarrow> bit (w :: 1 word) n = False"
  by (simp add: impossible_bit)

lemma bit_w2_beyond [simp]: "2 \<le> n \<Longrightarrow> bit (w :: 2 word) n = False"
  by (simp add: impossible_bit)

lemma bit_w4_beyond [simp]: "4 \<le> n \<Longrightarrow> bit (w :: 4 word) n = False"
  by (simp add: impossible_bit)

lemma bit_w5_beyond [simp]: "5 \<le> n \<Longrightarrow> bit (w :: 5 word) n = False"
  by (simp add: impossible_bit)

lemma bit_w7_beyond [simp]: "7 \<le> n \<Longrightarrow> bit (w :: 7 word) n = False"
  by (simp add: impossible_bit)

text \<open>Bit numbers below a small bound are enumerated, so that a goal about the bits of a narrow
  word becomes finitely many closed ones.\<close>

lemma header_masks:
  "(0x03 :: u32) = mask 2" "(0x0F :: u32) = mask 4"
  "(0x1F :: u32) = mask 5" "(0x7F :: u32) = mask 7" "(0xFF :: u32) = mask 8"
  "(0xFFFF :: u32) = mask 16" "(0xFF :: u16) = mask 8"
  by (simp_all add: mask_eq_exp_minus_1)

lemma nat_less_2_cases: "(n :: nat) < 2 \<Longrightarrow> n = 0 \<or> n = 1"
  by arith

lemma nat_less_4_cases: "(n :: nat) < 4 \<Longrightarrow> n = 0 \<or> n = 1 \<or> n = 2 \<or> n = 3"
  by arith

lemma nat_less_8_cases:
  "(n :: nat) < 8 \<Longrightarrow> n = 0 \<or> n = 1 \<or> n = 2 \<or> n = 3 \<or> n = 4 \<or> n = 5 \<or> n = 6 \<or> n = 7"
  by arith

lemma rtp_header_word_fields [simp]:
  "ucast (RTP_V (rtp_header_word h)) = h_v h" "ucast (RTP_P (rtp_header_word h)) = h_p h"
  "ucast (RTP_X (rtp_header_word h)) = h_x h" "ucast (RTP_CC (rtp_header_word h)) = h_cc h"
  "ucast (RTP_M (rtp_header_word h)) = h_m h" "ucast (RTP_PT (rtp_header_word h)) = h_pt h"
  "ucast (RTP_SEQ (rtp_header_word h)) = h_seq h"
  by (rule bit_word_eqI; auto simp: rtp_header_word_def RTP_V_def RTP_P_def RTP_X_def RTP_CC_def
        RTP_M_def RTP_PT_def RTP_SEQ_def header_masks(1-6) bit_simps)+

lemma rtp_header_first_bytes:
  "be32 (rtp_header_word h)
   = [ucast ((push_bit 6 (ucast (h_v h)) OR push_bit 5 (ucast (h_p h))
            OR push_bit 4 (ucast (h_x h)) OR ucast (h_cc h)) :: u32),
      ucast ((push_bit 7 (ucast (h_m h)) OR ucast (h_pt h)) :: u32),
      ucast (drop_bit 8 (h_seq h)), ucast (h_seq h AND 0xFF)]"
  unfolding be32_def
  by (auto intro!: bit_word_eqI simp: rtp_header_word_def header_masks(7) bit_simps dest!: nat_less_8_cases)

lemma nbo_write_rtp_header_eq [bytes_simp]:
  "off + 12 \<le> length b \<Longrightarrow> nbo_write_rtp_header b off h = Some (splice b off (rtp_header_bytes h))"
  by (simp add: nbo_write_rtp_header_def wr_splice rtp_header_bytes_def rtp_header_first_bytes
      rtp_write_uint32_eq splice_adjacent)

end
