(* ===== verification/Rtp_Packet.thy ===== *)
theory Rtp_Packet
  imports Rtp_Util
begin

text \<open>
  \<open>lib/librtp/source/rtp-packet.c\<close> and \<open>include/rtp-packet.h\<close>: parsing and writing of RTP packets.
  The lemmas show that parsing never reads outside the datagram and never hands out a payload that
  reaches outside it, when exactly an assertion stops the process, and that a packet written by
  \<open>rtp_packet_serialize\<close> is parsed back.
\<close>

record rtp_packet_t =
  pk_rtp :: rtp_header_t
  pk_csrc :: "u32 list"
  pk_extension :: "u8 list"
  pk_extlen :: u16
  pk_extprofile :: u16
  pk_payload :: "u8 list"
  pk_payloadlen :: int

abbreviation pk_seq :: "'p rtp_packet_t_scheme \<Rightarrow> u16" where
  "pk_seq pkt \<equiv> h_seq (pk_rtp pkt)"

abbreviation pk_timestamp :: "'p rtp_packet_t_scheme \<Rightarrow> u32" where
  "pk_timestamp pkt \<equiv> h_timestamp (pk_rtp pkt)"

section \<open>Parsing\<close>

definition parse_header :: "u8 list \<Rightarrow> rtp_header_t option" where
  "parse_header ptr = do {
     v \<leftarrow> rtp_read_uint32 ptr;
     p4 \<leftarrow> adv ptr 4; ts \<leftarrow> rtp_read_uint32 p4;
     p8 \<leftarrow> adv ptr 8; ssrc \<leftarrow> rtp_read_uint32 p8;
     Some \<lparr>h_v = ucast (RTP_V v), h_p = ucast (RTP_P v), h_x = ucast (RTP_X v),
           h_cc = ucast (RTP_CC v), h_m = ucast (RTP_M v), h_pt = ucast (RTP_PT v),
           h_seq = ucast (RTP_SEQ v), h_timestamp = ts, h_ssrc = ssrc\<rparr> }"

fun read_csrc :: "u8 list \<Rightarrow> nat \<Rightarrow> u32 list option" where
  "read_csrc ptr 0 = Some []"
| "read_csrc ptr (Suc n) = do {
     c \<leftarrow> rtp_read_uint32 ptr; p \<leftarrow> adv ptr 4; cs \<leftarrow> read_csrc p n; Some (c # cs) }"

definition parse_extension :: "bool \<Rightarrow> rtp_packet_t \<Rightarrow> (int + rtp_packet_t) option" where
  "parse_extension nd pkt =
     (if h_x (pk_rtp pkt) \<noteq> 1 then Some (Inr pkt) else do {
        let rtpext = pk_payload pkt;
        c_assert nd (pk_payloadlen pkt \<ge> 4);
        ext \<leftarrow> adv rtpext 4;
        prof \<leftarrow> rtp_read_uint16 rtpext;
        p2 \<leftarrow> adv rtpext 2; words \<leftarrow> rtp_read_uint16 p2;
        let extlen = (words * 4 :: u16);
        if int (unat extlen) + 4 > pk_payloadlen pkt then do { c_assert nd False; Some (Inl (-1)) }
        else do {
          pl \<leftarrow> adv rtpext (unat extlen + 4);
          Some (Inr (pkt\<lparr>pk_extension := ext, pk_extprofile := prof, pk_extlen := extlen,
                         pk_payload := pl,
                         pk_payloadlen := pk_payloadlen pkt - (int (unat extlen) + 4)\<rparr>)) } })"

definition parse_padding ::
  "bool \<Rightarrow> u8 list \<Rightarrow> int \<Rightarrow> rtp_packet_t \<Rightarrow> (int + rtp_packet_t) option" where
  "parse_padding nd ptr bytes pkt =
     (if h_p (pk_rtp pkt) \<noteq> 1 then Some (Inr pkt) else do {
        padding \<leftarrow> rd ptr (nat (bytes - 1));
        if pk_payloadlen pkt < int (unat padding) then do { c_assert nd False; Some (Inl (-1)) }
        else Some (Inr (pkt\<lparr>pk_payloadlen := pk_payloadlen pkt - int (unat padding)\<rparr>)) })"

definition header_need :: "rtp_header_t \<Rightarrow> int" where
  "header_need h = 12 + int (unat (h_cc h)) * 4 + (if h_x h \<noteq> 0 then 4 else 0) + (if h_p h \<noteq> 0 then 1 else 0)"

definition rtp_packet_deserialize :: "bool \<Rightarrow> u8 list \<Rightarrow> int \<Rightarrow> (int + rtp_packet_t) option" where
  "rtp_packet_deserialize nd data bytes =
     (if bytes < 12 then Some (Inl (-1)) else do {
        h \<leftarrow> parse_header data;
        c_assert nd (h_v h = 2);
        let hdrlen = 12 + unat (h_cc h) * 4;
        if h_v h \<noteq> 2 \<or> bytes < header_need h then Some (Inl (-1))
        else do {
          p12 \<leftarrow> adv data 12;
          cs \<leftarrow> read_csrc p12 (unat (h_cc h));
          c_assert nd (bytes \<ge> int hdrlen);
          pl \<leftarrow> adv data hdrlen;
          r \<leftarrow> parse_extension nd \<lparr>pk_rtp = h, pk_csrc = cs @ replicate (16 - length cs) 0,
                 pk_extension = [], pk_extlen = 0, pk_extprofile = 0,
                 pk_payload = pl, pk_payloadlen = bytes - int hdrlen\<rparr>;
          (case r of Inl e \<Rightarrow> Some (Inl e) | Inr pkt \<Rightarrow> parse_padding nd data bytes pkt) } })"

section \<open>Writing\<close>

fun write_csrc :: "u8 list \<Rightarrow> nat \<Rightarrow> u32 list \<Rightarrow> u8 list option" where
  "write_csrc b off [] = Some b"
| "write_csrc b off (c # cs) = do { b' \<leftarrow> rtp_write_uint32 b off c; write_csrc b' (off + 4) cs }"

definition rtp_packet_serialize_header ::
  "bool \<Rightarrow> rtp_packet_t \<Rightarrow> u8 list \<Rightarrow> int \<Rightarrow> (int \<times> u8 list) option" where
  "rtp_packet_serialize_header nd pkt data bytes =
     (let h = pk_rtp pkt; extlen = unat (pk_extlen pkt) in
      if h_v h \<noteq> 2 \<or> extlen mod 4 \<noteq> 0 then do { c_assert nd False; Some (-1, data) }
      else
        let hdrlen = 12 + unat (h_cc h) * 4 + (if h_x h \<noteq> 0 then 4 else 0) in
        if bytes < int (hdrlen + extlen) then Some (-1, data)
        else do {
          b \<leftarrow> nbo_write_rtp_header data 0 h;
          b \<leftarrow> (if unat (h_cc h) \<le> length (pk_csrc pkt)
               then write_csrc b 12 (take (unat (h_cc h)) (pk_csrc pkt)) else None);
          b \<leftarrow> (if h_x h = 1 then do {
                 let off = 12 + unat (h_cc h) * 4;
                 c_assert nd (extlen mod 4 = 0);
                 b \<leftarrow> rtp_write_uint16 b off (pk_extprofile pkt);
                 b \<leftarrow> rtp_write_uint16 b (off + 2) (pk_extlen pkt div 4);
                 c_memcpy b (off + 4) (pk_extension pkt) extlen }
               else Some b);
          Some (int (hdrlen + extlen), b) })"

definition rtp_packet_serialize ::
  "bool \<Rightarrow> rtp_packet_t \<Rightarrow> u8 list \<Rightarrow> int \<Rightarrow> (int \<times> u8 list) option" where
  "rtp_packet_serialize nd pkt data bytes = do {
     (hdrlen, b) \<leftarrow> rtp_packet_serialize_header nd pkt data bytes;
     if hdrlen < 12 \<or> hdrlen + pk_payloadlen pkt > bytes then Some (-1, b)
     else do {
       b \<leftarrow> (if pk_payloadlen pkt < 0 then None
            else c_memcpy b (nat hdrlen) (pk_payload pkt) (nat (pk_payloadlen pkt)));
       Some (hdrlen + pk_payloadlen pkt, b) } }"

section \<open>Parsing stays inside the datagram\<close>

lemma parse_header_Some: "12 \<le> length d \<Longrightarrow> \<exists>h. parse_header d = Some h"
  by (simp add: parse_header_def bytes_simp)

lemma unat_cc_bound: "unat (c :: 4 word) \<le> 15"
  using unat_bound [of c] by simp

lemma w1_cases: "(w :: 1 word) = 0 \<or> w = 1"
proof -
  have "unat w = 0 \<or> unat w = 1"
    using unat_bound [of w] by auto
  then show ?thesis
    by (metis unat_0 unat_1 word_unat_eq_iff)
qed

lemma w1_not_0 [simp]: "(w :: 1 word) \<noteq> 0 \<longleftrightarrow> w = 1"
  using w1_cases [of w] by auto

lemma w1_not_1: "(w :: 1 word) \<noteq> 1 \<longleftrightarrow> w = 0"
  using w1_cases [of w] by auto

lemma read_csrc_Some: "4 * n \<le> length p \<Longrightarrow> \<exists>cs. read_csrc p n = Some cs \<and> length cs = n"
proof (induction n arbitrary: p)
  case (Suc n)
  then have "4 * n \<le> length (drop 4 p)"
    by simp
  from Suc.IH [OF this] obtain cs where "read_csrc (drop 4 p) n = Some cs" "length cs = n"
    by blast
  with Suc.prems show ?case
    by (simp add: bytes_simp)
qed simp

definition ext_result :: "bool \<Rightarrow> rtp_packet_t \<Rightarrow> (int + rtp_packet_t) option" where
  "ext_result nd pkt =
     (let w = pk_payload pkt; extlen = un16 (w ! 2) (w ! 3) * 4; n = unat extlen + 4 in
      if int n > pk_payloadlen pkt then (if nd then Some (Inl (-1)) else None)
      else Some (Inr (pkt\<lparr>pk_extension := drop 4 w, pk_extprofile := un16 (w ! 0) (w ! 1),
              pk_extlen := extlen, pk_payload := drop n w,
              pk_payloadlen := pk_payloadlen pkt - int n\<rparr>)))"

lemma parse_extension_eq:
  assumes "h_x (pk_rtp pkt) = 1" "4 \<le> pk_payloadlen pkt"
    and "pk_payloadlen pkt \<le> int (length (pk_payload pkt))"
  shows "parse_extension nd pkt = ext_result nd pkt"
proof -
  have "4 \<le> length (pk_payload pkt)"
    using assms by linarith
  then show ?thesis
    using assms by (auto simp: parse_extension_def ext_result_def Let_def bytes_simp c_assert_def)
qed

definition packet0 :: "rtp_header_t \<Rightarrow> u32 list \<Rightarrow> u8 list \<Rightarrow> int \<Rightarrow> rtp_packet_t" where
  "packet0 h cs data bytes =
     \<lparr>pk_rtp = h, pk_csrc = cs @ replicate (16 - length cs) 0, pk_extension = [], pk_extlen = 0,
      pk_extprofile = 0, pk_payload = drop (12 + unat (h_cc h) * 4) data,
      pk_payloadlen = bytes - int (12 + unat (h_cc h) * 4)\<rparr>"

definition parse_rest ::
  "bool \<Rightarrow> rtp_header_t \<Rightarrow> u32 list \<Rightarrow> u8 list \<Rightarrow> int \<Rightarrow> (int + rtp_packet_t) option" where
  "parse_rest nd h cs data bytes =
       (if h_v h \<noteq> 2 then (if nd then Some (Inl (-1)) else None)
        else if bytes < header_need h then Some (Inl (-1))
        else (if h_x h = 1 then ext_result nd (packet0 h cs data bytes)
              else Some (Inr (packet0 h cs data bytes)))
          \<bind> (\<lambda>r. case r of Inl e \<Rightarrow> Some (Inl e) | Inr pkt \<Rightarrow> parse_padding nd data bytes pkt))"

text \<open>One equation for \<open>rtp_packet_deserialize\<close> on a datagram whose bytes are all there.\<close>

lemma rtp_packet_deserialize_eq:
  assumes "12 \<le> bytes" "bytes \<le> int (length data)"
  obtains h cs where "parse_header data = Some h" "length cs = unat (h_cc h)"
    and "header_need h \<le> bytes \<Longrightarrow> read_csrc (drop 12 data) (unat (h_cc h)) = Some cs"
    and "\<And>nd. rtp_packet_deserialize nd data bytes = parse_rest nd h cs data bytes"
proof -
  have len: "12 \<le> length data"
    using assms by linarith
  then obtain h where h: "parse_header data = Some h"
    using parse_header_Some by blast
  show thesis
  proof (cases "header_need h \<le> bytes")
    case False
    have "\<exists>cs :: u32 list. length cs = unat (h_cc h)"
      by (metis length_replicate)
    with False h assms that show thesis
      by (auto simp: rtp_packet_deserialize_def parse_rest_def c_assert_def)
  next
    case True
    then have need: "int (12 + unat (h_cc h) * 4) \<le> bytes"
      "h_x h = 1 \<Longrightarrow> int (12 + unat (h_cc h) * 4) + 4 \<le> bytes"
      by (auto simp: header_need_def split: if_splits)
    then have "4 * unat (h_cc h) \<le> length (drop 12 data)"
      using assms by simp
    then obtain cs where cs: "read_csrc (drop 12 data) (unat (h_cc h)) = Some cs"
      "length cs = unat (h_cc h)"
      using read_csrc_Some by blast
    have lo: "12 + unat (h_cc h) * 4 \<le> length data"
      using need(1) assms(2) by linarith
    have ext: "parse_extension nd (packet0 h cs data bytes) =
        (if h_x h = 1 then ext_result nd (packet0 h cs data bytes)
         else Some (Inr (packet0 h cs data bytes)))" for nd
    proof (cases "h_x h = 1")
      case True
      with need(2) assms(2) show ?thesis
        by (subst parse_extension_eq) (auto simp: packet0_def)
    qed (simp add: parse_extension_def packet0_def)
    have "rtp_packet_deserialize nd data bytes =
       (if h_v h \<noteq> 2 then (if nd then Some (Inl (-1)) else None)
        else parse_extension nd (packet0 h cs data bytes)
          \<bind> (\<lambda>r. case r of Inl e \<Rightarrow> Some (Inl e) | Inr pkt \<Rightarrow> parse_padding nd data bytes pkt))"
      for nd
      using assms(1) True need(1) h cs len lo
      by (auto simp: rtp_packet_deserialize_def packet0_def c_assert_def bytes_simp)
    with ext True show thesis
      using that [OF h cs(2) cs(1)] by (simp add: parse_rest_def)
  qed
qed

lemma parse_padding_eq:
  assumes "1 \<le> bytes" "bytes \<le> int (length data)"
  shows "parse_padding nd data bytes pkt =
     (if h_p (pk_rtp pkt) \<noteq> 1 then Some (Inr pkt)
      else let pad = int (unat (data ! nat (bytes - 1))) in
        if pk_payloadlen pkt < pad then (if nd then Some (Inl (-1)) else None)
        else Some (Inr (pkt\<lparr>pk_payloadlen := pk_payloadlen pkt - pad\<rparr>)))"
proof -
  have "nat (bytes - 1) < length data"
    using assms by linarith
  then show ?thesis
    by (simp add: parse_padding_def rd_Some c_assert_def Let_def)
qed

definition payload_window :: "u8 list \<Rightarrow> int \<Rightarrow> rtp_packet_t \<Rightarrow> bool" where
  "payload_window data bytes pkt \<longleftrightarrow>
     (let k = length data - length (pk_payload pkt) in
        12 \<le> k \<and> pk_payload pkt = drop k data
        \<and> 0 \<le> pk_payloadlen pkt \<and> int k + pk_payloadlen pkt \<le> bytes)"

lemma payload_windowI:
  assumes "pk_payload pkt = drop k data" "12 \<le> k" "k \<le> length data" "0 \<le> pk_payloadlen pkt"
    "int k + pk_payloadlen pkt \<le> bytes"
  shows "payload_window data bytes pkt"
  using assms by (auto simp: payload_window_def Let_def)

text \<open>Every well-formed result of the parser lies inside the datagram, and the parser without
  assertions always has a result.\<close>

lemma rtp_packet_deserialize_total:
  assumes "bytes \<le> int (length data)"
  shows "\<exists>r. rtp_packet_deserialize True data bytes = Some r"
proof (cases "12 \<le> bytes")
  case False
  then show ?thesis
    by (simp add: rtp_packet_deserialize_def)
next
  case True
  from True assms obtain h cs where "rtp_packet_deserialize True data bytes =
       parse_rest True h cs data bytes"
    by (rule rtp_packet_deserialize_eq) blast
  moreover have "\<exists>r. parse_padding True data bytes pkt = Some r" for pkt
    using True assms by (simp add: parse_padding_eq Let_def)
  ultimately show ?thesis
    by (auto simp: parse_rest_def ext_result_def Let_def split: sum.splits)
qed

lemma rtp_packet_deserialize_window:
  assumes "bytes \<le> int (length data)" and "rtp_packet_deserialize nd data bytes = Some (Inr pkt)"
  shows "payload_window data bytes pkt \<and> h_v (pk_rtp pkt) = 2 \<and> 12 \<le> bytes"
proof -
  have b: "12 \<le> bytes"
    using assms(2) by (auto simp: rtp_packet_deserialize_def split: if_splits)
  from b assms(1) obtain h cs where eq: "rtp_packet_deserialize nd data bytes =
       parse_rest nd h cs data bytes"
    by (rule rtp_packet_deserialize_eq) blast
  define k0 where "k0 = 12 + unat (h_cc h) * 4"
  have v: "h_v h = 2" and need: "header_need h \<le> bytes"
    using assms(2) eq by (auto simp: parse_rest_def split: if_splits)
  from need have k0: "int k0 \<le> bytes"
    by (auto simp: header_need_def k0_def split: if_splits)
  from assms(2) eq v need obtain q where q: "parse_padding nd data bytes q = Some (Inr pkt)"
    and src: "(if h_x h = 1 then ext_result nd (packet0 h cs data bytes)
              else Some (Inr (packet0 h cs data bytes))) = Some (Inr q)"
    by (auto simp: parse_rest_def bind_case_sum_Inr split: if_splits)
  from src have "pk_rtp q = h \<and> 0 \<le> pk_payloadlen q \<and> (\<exists>k. pk_payload q = drop k data \<and> k0 \<le> k
      \<and> int k + pk_payloadlen q = bytes)"
    using k0 by (auto simp: packet0_def ext_result_def Let_def k0_def add.assoc split: if_splits)
  then obtain k where q': "pk_rtp q = h" "0 \<le> pk_payloadlen q" "pk_payload q = drop k data"
    "k0 \<le> k" "int k + pk_payloadlen q = bytes"
    by blast
  from q have "pk_rtp pkt = h \<and> pk_payload pkt = drop k data \<and> 0 \<le> pk_payloadlen pkt
      \<and> pk_payloadlen pkt \<le> pk_payloadlen q"
    using b assms(1) q' by (auto simp: parse_padding_eq Let_def split: if_splits)
  with v b q' assms(1) show ?thesis
    by (auto intro!: payload_windowI simp: k0_def)
qed

lemma parse_padding_abort:
  assumes "1 \<le> bytes" "bytes \<le> int (length data)"
  shows "parse_padding False data bytes pkt = None \<longleftrightarrow> parse_padding True data bytes pkt = Some (Inl (-1))"
  using assms by (simp add: parse_padding_eq Let_def)

lemma ext_result_abort: "ext_result False pkt = None \<longleftrightarrow> ext_result True pkt = Some (Inl (-1))"
  "ext_result False pkt = Some r \<Longrightarrow> ext_result True pkt = Some r \<and> (\<exists>q. r = Inr q)"
  by (auto simp: ext_result_def Let_def split: if_splits)

lemma rtp_packet_deserialize_abort:
  assumes "bytes \<le> int (length data)"
  shows "rtp_packet_deserialize False data bytes = None \<longleftrightarrow>
     12 \<le> bytes \<and> (\<exists>h. parse_header data = Some h \<and>
        (h_v h \<noteq> 2 \<or> header_need h \<le> bytes \<and> rtp_packet_deserialize True data bytes = Some (Inl (-1))))"
proof (cases "12 \<le> bytes")
  case False
  then show ?thesis
    by (simp add: rtp_packet_deserialize_def)
next
  case True
  from True assms obtain h cs where h: "parse_header data = Some h"
    and eq: "\<And>nd. rtp_packet_deserialize nd data bytes = parse_rest nd h cs data bytes"
    by (rule rtp_packet_deserialize_eq) blast
  show ?thesis
  proof (cases "header_need h \<le> bytes \<and> h_v h = 2")
    case False
    then show ?thesis
      using True h eq by (auto simp: parse_rest_def)
  next
    case ok: True
    have pad: "parse_padding False data bytes pkt = None \<longleftrightarrow>
        parse_padding True data bytes pkt = Some (Inl (-1))" for pkt
      using True assms by (simp add: parse_padding_abort)
    show ?thesis
      using True ok h eq pad ext_result_abort [of "packet0 h cs data bytes"]
      by (cases "ext_result False (packet0 h cs data bytes)") (auto simp: parse_rest_def)
  qed
qed

section \<open>Writing and reading back\<close>

definition packet_header_bytes :: "rtp_packet_t \<Rightarrow> u8 list" where
  "packet_header_bytes pkt = rtp_header_bytes (pk_rtp pkt)
     @ concat (map be32 (take (unat (h_cc (pk_rtp pkt))) (pk_csrc pkt)))
     @ (if h_x (pk_rtp pkt) = 1
        then be16 (pk_extprofile pkt) @ be16 (pk_extlen pkt div 4)
             @ take (unat (pk_extlen pkt)) (pk_extension pkt) else [])"

definition packet_bytes :: "rtp_packet_t \<Rightarrow> u8 list" where
  "packet_bytes pkt = packet_header_bytes pkt @ take (nat (pk_payloadlen pkt)) (pk_payload pkt)"

definition wf_packet :: "rtp_packet_t \<Rightarrow> bool" where
  "wf_packet pkt \<longleftrightarrow> h_v (pk_rtp pkt) = 2 \<and> h_p (pk_rtp pkt) = 0 \<and> length (pk_csrc pkt) = 16
     \<and> drop (unat (h_cc (pk_rtp pkt))) (pk_csrc pkt) = replicate (16 - unat (h_cc (pk_rtp pkt))) 0
     \<and> unat (pk_extlen pkt) mod 4 = 0
     \<and> (if h_x (pk_rtp pkt) = 1 then unat (pk_extlen pkt) \<le> length (pk_extension pkt)
        else pk_extlen pkt = 0 \<and> pk_extprofile pkt = 0)
     \<and> 0 \<le> pk_payloadlen pkt \<and> pk_payloadlen pkt \<le> int (length (pk_payload pkt))"

lemma length_concat_be32 [simp]: "length (concat (map be32 cs)) = 4 * length cs"
  by (induction cs) auto

lemma write_csrc_eq:
  "off + 4 * length cs \<le> length b \<Longrightarrow> write_csrc b off cs = Some (splice b off (concat (map be32 cs)))"
proof (induction cs arbitrary: b off)
  case Nil
  then show ?case by (simp add: splice_def)
next
  case (Cons c cs)
  then show ?case
    by (simp add: rtp_write_uint32_eq splice_adjacent)
qed

lemma read_csrc_be32: "read_csrc (concat (map be32 cs) @ r) (length cs) = Some cs"
  by (induction cs) (simp_all add: adv_Some)

lemma wf_packet_cc: "wf_packet pkt \<Longrightarrow> unat (h_cc (pk_rtp pkt)) \<le> length (pk_csrc pkt)"
  using unat_cc_bound [of "h_cc (pk_rtp pkt)"] by (simp add: wf_packet_def)

lemma length_packet_header_bytes:
  assumes "wf_packet pkt"
  shows "length (packet_header_bytes pkt) =
    12 + unat (h_cc (pk_rtp pkt)) * 4 + (if h_x (pk_rtp pkt) \<noteq> 0 then 4 else 0) + unat (pk_extlen pkt)"
  using assms wf_packet_cc [OF assms]
  by (auto simp: packet_header_bytes_def wf_packet_def w1_not_1)

lemma rtp_packet_serialize_header_eq:
  assumes wf: "wf_packet pkt" and fit: "int (length (packet_header_bytes pkt)) \<le> bytes"
    and buf: "bytes \<le> int (length b)"
  shows "rtp_packet_serialize_header nd pkt b bytes =
    Some (int (length (packet_header_bytes pkt)), splice b 0 (packet_header_bytes pkt))"
proof -
  let ?h = "pk_rtp pkt"
  have len: "length (packet_header_bytes pkt) \<le> length b"
    using fit buf by linarith
  note L = length_packet_header_bytes [OF wf]
  show ?thesis
  proof (cases "h_x ?h = 1")
    case True
    have "splice (splice (splice (splice (splice b 0 (rtp_header_bytes ?h)) 12
        (concat (map be32 (take (unat (h_cc ?h)) (pk_csrc pkt)))))
        (12 + unat (h_cc ?h) * 4) (be16 (pk_extprofile pkt)))
        (14 + unat (h_cc ?h) * 4) (be16 (pk_extlen pkt div 4)))
        (16 + unat (h_cc ?h) * 4) (take (unat (pk_extlen pkt)) (pk_extension pkt))
      = splice b 0 (packet_header_bytes pkt)"
      using len True wf wf_packet_cc [OF wf] unfolding L
      by (simp add: packet_header_bytes_def splice_adjacent wf_packet_def)
    with True wf wf_packet_cc [OF wf] len fit show ?thesis
      unfolding L
      by (simp add: rtp_packet_serialize_header_def Let_def wf_packet_def bytes_simp write_csrc_eq)
  next
    case False
    have "splice (splice b 0 (rtp_header_bytes ?h)) 12
        (concat (map be32 (take (unat (h_cc ?h)) (pk_csrc pkt))))
      = splice b 0 (packet_header_bytes pkt)"
      using len False wf wf_packet_cc [OF wf] unfolding L
      by (simp add: packet_header_bytes_def splice_adjacent wf_packet_def)
    with False wf wf_packet_cc [OF wf] len fit show ?thesis
      unfolding L
      by (simp add: rtp_packet_serialize_header_def Let_def wf_packet_def bytes_simp write_csrc_eq w1_not_1)
  qed
qed

lemma rtp_packet_serialize_eq:
  assumes wf: "wf_packet pkt" and fit: "int (length (packet_bytes pkt)) \<le> bytes"
    and buf: "bytes \<le> int (length b)"
  shows "rtp_packet_serialize nd pkt b bytes =
    Some (int (length (packet_bytes pkt)), splice b 0 (packet_bytes pkt))"
proof -
  let ?H = "packet_header_bytes pkt" and ?n = "nat (pk_payloadlen pkt)"
  have n: "0 \<le> pk_payloadlen pkt" "?n \<le> length (pk_payload pkt)"
    using wf by (auto simp: wf_packet_def)
  have H: "12 \<le> length ?H"
    by (simp add: packet_header_bytes_def)
  have fitH: "int (length ?H) + pk_payloadlen pkt \<le> bytes"
    using fit n by (simp add: packet_bytes_def)
  then have "rtp_packet_serialize_header nd pkt b bytes = Some (int (length ?H), splice b 0 ?H)"
    using wf buf n by (intro rtp_packet_serialize_header_eq) auto
  moreover have "length ?H + ?n \<le> length b"
    using fitH buf n by linarith
  ultimately show ?thesis
    using H fitH n by (simp add: rtp_packet_serialize_def packet_bytes_def bytes_simp splice_adjacent)
qed

lemma u16_div_mult_4:
  assumes "unat (x :: u16) mod 4 = 0"
  shows "x div 4 * 4 = x"
proof -
  have "unat (x div 4 * 4) = unat x div 4 * 4 mod 2 ^ 16"
    by (simp add: unat_word_ariths unat_div mod_mult_left_eq)
  also have "\<dots> = unat x"
    using assms unat_u16_less [of x] by (simp add: mod_0_imp_dvd)
  finally show ?thesis
    by (simp add: word_unat_eq_iff)
qed

lemma parse_header_bytes: "parse_header (rtp_header_bytes h @ r) = Some h"
  by (simp add: parse_header_def rtp_header_bytes_def adv_Some)

lemma parse_extension_bytes:
  assumes "h_x (pk_rtp pkt) = 1" "unat extlen mod 4 = 0" "length e = unat extlen"
    "pk_payload pkt = be16 prof @ be16 (extlen div 4) @ e @ pl"
    "pk_payloadlen pkt = int (4 + length e + length pl)"
  shows "parse_extension nd pkt = Some (Inr (pkt\<lparr>pk_extension := e @ pl, pk_extprofile := prof,
      pk_extlen := extlen, pk_payload := pl, pk_payloadlen := int (length pl)\<rparr>))"
  using assms by (simp add: parse_extension_def Let_def adv_Some u16_div_mult_4)

lemma rtp_packet_deserialize_bytes:
  assumes wf: "wf_packet pkt"
  shows "rtp_packet_deserialize nd (packet_bytes pkt) (int (length (packet_bytes pkt))) =
    Some (Inr (pkt\<lparr>pk_extension := (if h_x (pk_rtp pkt) = 1 then take (unat (pk_extlen pkt)) (pk_extension pkt)
                      @ take (nat (pk_payloadlen pkt)) (pk_payload pkt) else []),
                   pk_payload := take (nat (pk_payloadlen pkt)) (pk_payload pkt)\<rparr>))"
proof -
  let ?h = "pk_rtp pkt" and ?pl = "take (nat (pk_payloadlen pkt)) (pk_payload pkt)"
  let ?cs = "take (unat (h_cc ?h)) (pk_csrc pkt)"
  let ?E = "if h_x ?h = 1 then be16 (pk_extprofile pkt) @ be16 (pk_extlen pkt div 4)
             @ take (unat (pk_extlen pkt)) (pk_extension pkt) else []"
  have B: "packet_bytes pkt = rtp_header_bytes ?h @ concat (map be32 ?cs) @ ?E @ ?pl"
    by (simp add: packet_bytes_def packet_header_bytes_def)
  have cs: "length ?cs = unat (h_cc ?h)"
    using wf_packet_cc [OF wf] by simp
  have pl: "length ?pl = nat (pk_payloadlen pkt)" "0 \<le> pk_payloadlen pkt"
    using wf by (auto simp: wf_packet_def)
  have csrc: "?cs @ replicate (16 - length ?cs) 0 = pk_csrc pkt"
    using wf cs by (metis append_take_drop_id wf_packet_def)
  have e: "h_x ?h = 1 \<Longrightarrow> length (take (unat (pk_extlen pkt)) (pk_extension pkt)) = unat (pk_extlen pkt)"
    using wf by (simp add: wf_packet_def)
  have need: "header_need ?h \<le> int (length (packet_bytes pkt))"
    using wf cs e by (auto simp: B header_need_def wf_packet_def)
  have drops: "drop 12 (packet_bytes pkt) = concat (map be32 ?cs) @ ?E @ ?pl"
    "drop (12 + unat (h_cc ?h) * 4) (packet_bytes pkt) = ?E @ ?pl"
    using cs by (simp_all add: B)
  have csok: "read_csrc (concat (map be32 ?cs) @ ?E @ ?pl) (unat (h_cc ?h)) = Some ?cs"
    using read_csrc_be32 [of ?cs "?E @ ?pl"] cs by simp
  have lens: "12 + unat (h_cc ?h) * 4 \<le> length (packet_bytes pkt)"
    using cs by (simp add: B)
  have hd: "parse_header (packet_bytes pkt) = Some ?h"
    by (simp add: B parse_header_bytes)
  define p0 where "p0 = packet0 ?h ?cs (packet_bytes pkt) (int (length (packet_bytes pkt)))"
  have "rtp_packet_deserialize nd (packet_bytes pkt) (int (length (packet_bytes pkt))) =
     parse_extension nd p0 \<bind> (\<lambda>r. case r of Inl e \<Rightarrow> Some (Inl e)
       | Inr q \<Rightarrow> parse_padding nd (packet_bytes pkt) (int (length (packet_bytes pkt))) q)"
    using wf need lens hd csok drops
    by (simp add: rtp_packet_deserialize_def p0_def packet0_def adv_Some wf_packet_def c_assert_def)
  also have "\<dots> = Some (Inr (pkt\<lparr>pk_extension := (if h_x ?h = 1 then take (unat (pk_extlen pkt)) (pk_extension pkt)
                      @ ?pl else []), pk_payload := ?pl\<rparr>))"
  proof (cases "h_x ?h = 1")
    case True
    have "parse_extension nd p0 = Some (Inr (p0\<lparr>pk_extension := take (unat (pk_extlen pkt)) (pk_extension pkt) @ ?pl,
        pk_extprofile := pk_extprofile pkt, pk_extlen := pk_extlen pkt, pk_payload := ?pl,
        pk_payloadlen := int (length ?pl)\<rparr>))"
    proof (rule parse_extension_bytes)
      show "pk_payload p0 = be16 (pk_extprofile pkt) @ be16 (pk_extlen pkt div 4) @
          take (unat (pk_extlen pkt)) (pk_extension pkt) @ ?pl"
        using drops(2) True by (simp add: p0_def packet0_def)
      show "pk_payloadlen p0 = int (4 + length (take (unat (pk_extlen pkt)) (pk_extension pkt)) + length ?pl)"
        using cs True by (simp add: p0_def packet0_def B)
    qed (use True wf e in \<open>auto simp: wf_packet_def p0_def packet0_def\<close>)
    with True wf csrc pl show ?thesis
      by (simp add: parse_padding_def wf_packet_def p0_def packet0_def)
  next
    case False
    with wf csrc pl drops(2) cs show ?thesis
      by (simp add: parse_extension_def parse_padding_def wf_packet_def p0_def packet0_def B)
  qed
  finally show ?thesis .
qed

section \<open>Properties\<close>

text \<open>C21: A datagram of any content, of which all \<open>bytes\<close> bytes are there, is parsed without a read
  outside it. A packet that is accepted has version 2, and its payload pointer and length describe
  a part of the datagram that starts after the fixed header.\<close>

theorem deserialize_safe:
  assumes "bytes \<le> int (length data)"
  shows "\<exists>r. rtp_packet_deserialize True data bytes = Some r \<and>
    (\<forall>pkt. r = Inr pkt \<longrightarrow> h_v (pk_rtp pkt) = 2 \<and> payload_window data bytes pkt)"
  using rtp_packet_deserialize_total [OF assms] rtp_packet_deserialize_window [OF assms] by blast

theorem deserialize_safe_witness:
  "\<exists>r. rtp_packet_deserialize True [0x90, 96, 0, 7, 0, 0, 0, 1, 0, 0, 0, 2, 0xBE, 0xDE, 0xFF, 0xFF] 16 = Some r \<and>
    (\<forall>pkt. r = Inr pkt \<longrightarrow> h_v (pk_rtp pkt) = 2 \<and>
       payload_window [0x90, 96, 0, 7, 0, 0, 0, 1, 0, 0, 0, 2, 0xBE, 0xDE, 0xFF, 0xFF] 16 pkt)"
  by (rule deserialize_safe) simp



text \<open>C20: A well-formed packet that fits the buffer is written in full, nothing behind it changes, and
  parsing the written bytes gives the packet back: the header, the CSRC list, the extension and the
  payload.\<close>

theorem packet_roundtrip:
  assumes "wf_packet pkt" "int (length (packet_bytes pkt)) \<le> bytes" "bytes \<le> int (length b)"
  shows "\<exists>n b'. rtp_packet_serialize nd pkt b bytes = Some (int n, b') \<and> length b' = length b
    \<and> drop n b' = drop n b
    \<and> rtp_packet_deserialize nd (take n b') (int n) =
        Some (Inr (pkt\<lparr>pk_extension := (if h_x (pk_rtp pkt) = 1
                         then take (unat (pk_extlen pkt)) (pk_extension pkt)
                              @ take (nat (pk_payloadlen pkt)) (pk_payload pkt) else []),
                       pk_payload := take (nat (pk_payloadlen pkt)) (pk_payload pkt)\<rparr>))"
proof (intro exI conjI)
  let ?n = "length (packet_bytes pkt)" and ?b = "splice b 0 (packet_bytes pkt)"
  have n: "?n \<le> length b"
    using assms by linarith
  show "rtp_packet_serialize nd pkt b bytes = Some (int ?n, ?b)"
    using assms by (rule rtp_packet_serialize_eq)
  show "length ?b = length b" "drop ?n ?b = drop ?n b"
    using n by (simp_all add: splice_0)
  have "take ?n ?b = packet_bytes pkt"
    by (simp add: splice_0)
  then show "rtp_packet_deserialize nd (take ?n ?b) (int ?n) =
        Some (Inr (pkt\<lparr>pk_extension := (if h_x (pk_rtp pkt) = 1
                         then take (unat (pk_extlen pkt)) (pk_extension pkt)
                              @ take (nat (pk_payloadlen pkt)) (pk_payload pkt) else []),
                       pk_payload := take (nat (pk_payloadlen pkt)) (pk_payload pkt)\<rparr>))"
    using rtp_packet_deserialize_bytes [OF assms(1)] by simp
qed

definition example_packet :: rtp_packet_t where
  "example_packet = \<lparr>pk_rtp = \<lparr>h_v = 2, h_p = 0, h_x = 1, h_cc = 1, h_m = 1, h_pt = 96, h_seq = 0xFFFF,
      h_timestamp = 90000, h_ssrc = 0xDEADBEEF\<rparr>, pk_csrc = 5 # replicate 15 0,
    pk_extension = [1, 2, 3, 4], pk_extlen = 4, pk_extprofile = 0xBEDE, pk_payload = [65, 66, 67],
    pk_payloadlen = 3\<rparr>"

theorem packet_roundtrip_witness:
  "\<exists>n b'. rtp_packet_serialize False example_packet (replicate 40 0) 40 = Some (int n, b')
    \<and> rtp_packet_deserialize False (take n b') (int n) =
        Some (Inr (example_packet\<lparr>pk_extension := [1, 2, 3, 4, 65, 66, 67]\<rparr>))"
proof -
  have "wf_packet example_packet" "int (length (packet_bytes example_packet)) \<le> 40"
    by code_simp+
  from packet_roundtrip [OF this, of "replicate 40 0" False]
  show ?thesis
    by (auto simp: example_packet_def)
qed

lemma un16_wrap: "un16 (c + 64) d * 4 = un16 c d * 4"
proof -
  have "un16 (c + 64) d * 4 = push_bit 2 (un16 (c + 64) d)" "un16 c d * 4 = push_bit 2 (un16 c d)"
    by (simp_all add: push_bit_eq_mult)
  moreover have "bit (c + 64) n = bit c n" if "n < 6" for n
  proof -
    have "take_bit 6 (uint (c + 64)) = take_bit 6 (uint c)"
      by (simp add: uint_word_ariths take_bit_eq_mod mod_mod_cancel)
    with that show ?thesis
      by (metis bit_take_bit_iff bit_uint_iff bit_imp_le_length)
  qed
  ultimately show ?thesis
    by (auto intro!: bit_word_eqI simp: un16_def bit_simps)
qed

lemma adv_drop_4: "adv (a # b # c # d # rest) (n + 4) = adv rest n"
  by (simp add: adv_def numeral_eq_Suc)

lemma rd_same_tail:
  "\<lbrakk>length p = length q; k \<le> i; drop k p = drop k q\<rbrakk> \<Longrightarrow> rd p i = rd q i"
  by (metis le_add_diff_inverse rd_drop)

text \<open>The length of a header extension is multiplied by four in 16 bits. A datagram that announces
  16384 more words of extension than another is parsed exactly as the other: the upper two bits of
  the announced length are lost instead of being rejected as too long.\<close>

theorem extension_length_wraps:
  assumes "h_x h = 1" "h_cc h = 0"
  shows "rtp_packet_deserialize nd (rtp_header_bytes h @ [a, b, c + 64, d] @ rest) n =
    rtp_packet_deserialize nd (rtp_header_bytes h @ [a, b, c, d] @ rest) n"
proof (cases "16 \<le> n")
  case True
  let ?p = "rtp_header_bytes h @ [a, b, c + 64, d] @ rest"
  let ?q = "rtp_header_bytes h @ [a, b, c, d] @ rest"
  from True have "rd ?p (nat (n - 1)) = rd ?q (nat (n - 1))"
    by (intro rd_same_tail [where k = 15]) auto
  then have pad: "parse_padding nd ?p n pkt = parse_padding nd ?q n pkt" for pkt
    by (simp add: parse_padding_def)
  have ext: "parse_extension nd (pkt\<lparr>pk_payload := [a, b, c + 64, d] @ rest\<rparr>)
      = parse_extension nd (pkt\<lparr>pk_payload := [a, b, c, d] @ rest\<rparr>)"
    if "h_x (pk_rtp pkt) = 1" for pkt
    using that by (simp add: parse_extension_def Let_def rtp_read_uint16_eq adv_Some un16_wrap adv_drop_4)
  have rw: "rtp_packet_deserialize nd (rtp_header_bytes h @ w) n = do {
      c_assert nd (h_v h = 2);
      if h_v h \<noteq> 2 \<or> n < header_need h then Some (Inl (-1))
      else parse_extension nd (\<lparr>pk_rtp = h, pk_csrc = replicate 16 0, pk_extension = [], pk_extlen = 0,
             pk_extprofile = 0, pk_payload = [], pk_payloadlen = n - 12\<rparr>\<lparr>pk_payload := w\<rparr>)
        \<bind> (\<lambda>r. case r of Inl e \<Rightarrow> Some (Inl e)
               | Inr pkt \<Rightarrow> parse_padding nd (rtp_header_bytes h @ w) n pkt) }" for w
    using True assms by (simp add: rtp_packet_deserialize_def parse_header_bytes adv_Some)
  show ?thesis
    using assms by (simp only: rw pad, subst ext) simp_all
next
  case False
  then have "n < header_need h"
    using assms by (simp add: header_need_def)
  with assms show ?thesis
    by (simp add: rtp_packet_deserialize_def parse_header_bytes)
qed

theorem extension_length_wraps_witness:
  "\<exists>pkt. rtp_packet_deserialize False
      (rtp_header_bytes \<lparr>h_v = 2, h_p = 0, h_x = 1, h_cc = 0, h_m = 1, h_pt = 96, h_seq = 1,
         h_timestamp = 2, h_ssrc = 3\<rparr> @ [0xBE, 0xDE, 64, 0] @ [7, 8]) 18 = Some (Inr pkt)
    \<and> pk_extlen pkt = 0 \<and> pk_payload pkt = [7, 8]"
proof -
  let ?h = "\<lparr>h_v = 2, h_p = 0, h_x = 1, h_cc = 0, h_m = 1, h_pt = 96, h_seq = 1,
         h_timestamp = 2, h_ssrc = 3\<rparr>"
  have "rtp_packet_deserialize False (rtp_header_bytes ?h @ [0xBE, 0xDE, 0 + 64, 0] @ [7, 8]) 18 =
      rtp_packet_deserialize False (rtp_header_bytes ?h @ [0xBE, 0xDE, 0, 0] @ [7, 8]) 18"
    by (rule extension_length_wraps) simp_all
  also have "\<dots> = Some (Inr \<lparr>pk_rtp = ?h, pk_csrc = replicate 16 0, pk_extension = [7, 8], pk_extlen = 0,
      pk_extprofile = 0xBEDE, pk_payload = [7, 8], pk_payloadlen = 2\<rparr>)"
    by code_simp
  finally show ?thesis
    by simp
qed

end
