(* ===== verification/Rtp_Payload_Helper.thy ===== *)
theory Rtp_Payload_Helper
  imports Rtp_Packet
begin

text \<open>
  \<open>lib/librtp/include/rtp-payload.h\<close>, \<open>payload/rtp-payload-helper.c\<close> and the small unpackers built on
  the helper (\<open>rtp-unpack.c\<close>, \<open>rtp-ts-unpack.c\<close>, \<open>rtp-ps-unpack.c\<close>, \<open>rtp-mp4v-es-unpack.c\<close>,
  \<open>rtp-mpeg1or2es-unpack.c\<close>). The callbacks of \<open>struct rtp_payload_t\<close> thread the state \<open>'s\<close> of
  their owner; a pointer with a length that is passed to a callback is the list of these bytes.
  The contract of a payload decoder is the locale \<open>payload_decoder\<close>: whatever datagram arrives,
  the decoder answers, stays inside its memory and keeps its invariant.
\<close>

section \<open>Callbacks\<close>

record 's rtp_payload_t =
  alloc_cb :: "'s \<Rightarrow> nat \<Rightarrow> u8 list option \<times> 's"
  free_cb :: "'s \<Rightarrow> u8 list \<Rightarrow> 's"
  packet_cb :: "'s \<Rightarrow> u8 list \<Rightarrow> u32 \<Rightarrow> int \<Rightarrow> int \<times> 's"

definition RTP_PAYLOAD_FLAG_PACKET_LOST :: int where "RTP_PAYLOAD_FLAG_PACKET_LOST = 0x0100"
definition RTP_PAYLOAD_FLAG_PACKET_CORRUPT :: int where "RTP_PAYLOAD_FLAG_PACKET_CORRUPT = 0x0200"
definition RTP_PAYLOAD_MAX_SIZE :: nat where "RTP_PAYLOAD_MAX_SIZE = 10 * 1024 * 1024"

text \<open>\<open>size += size / 4 > step ? size / 4 : step\<close>\<close>

definition grow_size :: "nat \<Rightarrow> nat \<Rightarrow> nat" where
  "grow_size step n = n + (if n div 4 > step then n div 4 else step)"

lemma grow_size_ge [simp]: "n \<le> grow_size step n"
  by (simp add: grow_size_def)

lemma grow_size_ge_left [simp]: "m \<le> grow_size step (m + n)"
  by (rule order_trans [OF _ grow_size_ge]) simp

lemma ok_hb_write [ok_simps]:
  "ok Q (hb_write b off xs) \<longleftrightarrow> off \<le> length (hb_bytes b) \<and> off + length xs \<le> hb_cap b
     \<and> Q (b\<lparr>hb_bytes := splice (hb_bytes b) off xs\<rparr>)"
  by (auto simp: hb_write_def)

lemma grow_size_mono: "m \<le> n \<Longrightarrow> grow_size k m \<le> grow_size k n"
  using div_le_mono [of m n 4] by (auto simp: grow_size_def)

text \<open>\<open>return 0 == r ? 1 : r\<close>, and the start code some unpackers put before a NAL unit.\<close>

definition handled :: "int \<Rightarrow> int" where
  "handled r = (if r = 0 then 1 else r)"

definition start_code :: "u8 list" where
  "start_code = [0, 0, 0, 1]"

section \<open>The frame helper\<close>

record rtp_payload_helper_t =
  he_lost :: int
  he_seq :: u16
  he_timestamp :: u32
  he_ptr :: heapbuf
  he_size :: nat
  he_maxsize :: nat
  he_flags :: int

definition rtp_payload_helper_create :: rtp_payload_helper_t where
  "rtp_payload_helper_create = \<lparr>he_lost = 0, he_seq = 0, he_timestamp = 0, he_ptr = hb_empty, he_size = 0,
     he_maxsize = RTP_PAYLOAD_MAX_SIZE, he_flags = -1\<rparr>"

definition rtp_payload_onframe ::
  "'s rtp_payload_t \<Rightarrow> rtp_payload_helper_t \<Rightarrow> 's \<Rightarrow> (int \<times> rtp_payload_helper_t \<times> 's) option" where
  "rtp_payload_onframe handler helper s = do {
     (r, helper, s) \<leftarrow>
       (if he_size helper > 0 \<and> he_lost helper = 0 then do {
          frame \<leftarrow> c_slice (hb_bytes (he_ptr helper)) 0 (he_size helper);
          let (r, s) = packet_cb handler s frame (he_timestamp helper)
            (he_flags helper OR (if he_lost helper \<noteq> 0 then RTP_PAYLOAD_FLAG_PACKET_CORRUPT else 0));
          Some (r, helper\<lparr>he_flags := he_flags helper AND NOT RTP_PAYLOAD_FLAG_PACKET_LOST\<rparr>, s) }
        else Some (0, helper, s));
     let helper = (if he_lost helper \<noteq> 0
       then helper\<lparr>he_flags := he_flags helper OR RTP_PAYLOAD_FLAG_PACKET_LOST\<rparr> else helper);
     Some (r, helper\<lparr>he_lost := 0, he_size := 0\<rparr>, s) }"

definition check_first :: "rtp_payload_helper_t \<Rightarrow> rtp_packet_t \<Rightarrow> rtp_payload_helper_t" where
  "check_first helper pkt =
     (if he_flags helper = -1
      then helper\<lparr>he_flags := 0, he_seq := pk_seq pkt - 1, he_timestamp := pk_timestamp pkt + 1\<rparr>
      else helper)"

definition rtp_payload_check ::
  "'s rtp_payload_t \<Rightarrow> rtp_payload_helper_t \<Rightarrow> 's \<Rightarrow> rtp_packet_t \<Rightarrow> (int \<times> rtp_payload_helper_t \<times> 's) option" where
  "rtp_payload_check handler helper0 s pkt = do {
     let helper = check_first helper0 pkt;
     let lost = (if pk_seq pkt \<noteq> he_seq helper + 1 then 1 else 0 :: int);
     let helper = (if lost \<noteq> 0 then helper\<lparr>he_lost := 1\<rparr> else helper);
     let helper = helper\<lparr>he_seq := pk_seq pkt\<rparr>;
     (helper, s) \<leftarrow>
       (if pk_timestamp pkt \<noteq> he_timestamp helper then do {
          (r, helper, s) \<leftarrow> rtp_payload_onframe handler helper s;
          Some (if lost \<noteq> 0 then helper\<lparr>he_lost := lost\<rparr> else helper, s) }
        else Some (helper, s));
     Some (0, helper\<lparr>he_timestamp := pk_timestamp pkt\<rparr>, s) }"

definition rtp_payload_write ::
  "bool \<Rightarrow> (nat \<Rightarrow> bool) \<Rightarrow> rtp_payload_helper_t \<Rightarrow> rtp_packet_t \<Rightarrow> (int \<times> rtp_payload_helper_t) option" where
  "rtp_payload_write nd mem helper pkt =
     (let size = int (he_size helper) + pk_payloadlen pkt in
      if size > int (he_maxsize helper) \<or> size < 0 then Some (- EINVAL, helper)
      else
        if nat size > hb_cap (he_ptr helper) \<and> \<not> mem (grow_size 16000 (nat size)) then Some (- ENOMEM, helper\<lparr>he_lost := 1\<rparr>)
        else do {
          let helper = (if nat size > hb_cap (he_ptr helper)
            then helper\<lparr>he_ptr := hb_realloc (he_ptr helper) (grow_size 16000 (nat size))\<rparr> else helper);
          c_assert nd (int (hb_cap (he_ptr helper)) \<ge> int (he_size helper) + pk_payloadlen pkt);
          src \<leftarrow> (if pk_payloadlen pkt < 0 then None else c_slice (pk_payload pkt) 0 (nat (pk_payloadlen pkt)));
          buf \<leftarrow> hb_write (he_ptr helper) (he_size helper) src;
          Some (0, helper\<lparr>he_ptr := buf, he_size := he_size helper + nat (pk_payloadlen pkt)\<rparr>) })"

section \<open>Unpackers built on the helper\<close>

text \<open>Every unpacker first parses the datagram; the packet it works on is the one parsed.\<close>

definition with_packet ::
  "bool \<Rightarrow> u8 list \<Rightarrow> int \<Rightarrow> 'd \<Rightarrow> 's \<Rightarrow> (rtp_packet_t \<Rightarrow> (int \<times> 'd \<times> 's) option) \<Rightarrow> (int \<times> 'd \<times> 's) option" where
  "with_packet nd packet bytes d s f = do {
     r \<leftarrow> rtp_packet_deserialize nd packet bytes;
     (case r of Inl _ \<Rightarrow> Some (- EINVAL, d, s) | Inr pkt \<Rightarrow> f pkt) }"

definition rtp_decode_rfc2250 ::
  "bool \<Rightarrow> 's rtp_payload_t \<Rightarrow> rtp_payload_helper_t \<Rightarrow> 's \<Rightarrow> u8 list \<Rightarrow> int \<Rightarrow> (int \<times> rtp_payload_helper_t \<times> 's) option" where
  "rtp_decode_rfc2250 nd handler helper s packet bytes =
     with_packet nd packet bytes helper s (\<lambda>pkt. do {
       c_assert nd (pk_payloadlen pkt \<ge> 0);
       (r, s) \<leftarrow> (if pk_payloadlen pkt > 0 then do {
           pl \<leftarrow> c_slice (pk_payload pkt) 0 (nat (pk_payloadlen pkt));
           Some (packet_cb handler s pl (pk_timestamp pkt) 0) }
         else Some (0, s));
       Some (if r = 0 then 1 else r, helper, s) })"

definition rtp_decode_ts ::
  "bool \<Rightarrow> (nat \<Rightarrow> bool) \<Rightarrow> 's rtp_payload_t \<Rightarrow> rtp_payload_helper_t \<Rightarrow> 's \<Rightarrow> u8 list \<Rightarrow> int
    \<Rightarrow> (int \<times> rtp_payload_helper_t \<times> 's) option" where
  "rtp_decode_ts nd mem handler helper s packet bytes =
     with_packet nd packet bytes helper s (\<lambda>pkt. do {
       (_, helper, s) \<leftarrow> rtp_payload_check handler helper s pkt;
       (helper, s) \<leftarrow> (if h_m (pk_rtp pkt) \<noteq> 0 then do {
           (_, helper, s) \<leftarrow> rtp_payload_onframe handler (helper\<lparr>he_lost := 1\<rparr>) s; Some (helper, s) }
         else Some (helper, s));
       (_, helper) \<leftarrow> rtp_payload_write nd mem helper pkt;
       Some (if he_lost helper \<noteq> 0 then 0 else 1, helper, s) })"

definition s_mpeg2_packet_start :: "u8 list" where
  "s_mpeg2_packet_start = [0x00, 0x00, 0x01, 0xBA]"

definition rtp_decode_ps ::
  "bool \<Rightarrow> (nat \<Rightarrow> bool) \<Rightarrow> 's rtp_payload_t \<Rightarrow> rtp_payload_helper_t \<Rightarrow> 's \<Rightarrow> u8 list \<Rightarrow> int
    \<Rightarrow> (int \<times> rtp_payload_helper_t \<times> 's) option" where
  "rtp_decode_ps nd mem handler helper s packet bytes =
     with_packet nd packet bytes helper s (\<lambda>pkt. do {
       (_, helper, s) \<leftarrow> rtp_payload_check handler helper s pkt;
       start \<leftarrow> (if pk_payloadlen pkt > 4
         then do { h \<leftarrow> c_slice (pk_payload pkt) 0 4; Some (h = s_mpeg2_packet_start) } else Some False);
       (helper, s) \<leftarrow> (if start then do {
           (_, helper, s) \<leftarrow> rtp_payload_onframe handler helper s; Some (helper, s) }
         else Some (helper, s));
       (_, helper) \<leftarrow> rtp_payload_write nd mem helper pkt;
       Some (if he_lost helper \<noteq> 0 then 0 else 1, helper, s) })"

definition rtp_decode_mp4v_es ::
  "bool \<Rightarrow> (nat \<Rightarrow> bool) \<Rightarrow> 's rtp_payload_t \<Rightarrow> rtp_payload_helper_t \<Rightarrow> 's \<Rightarrow> u8 list \<Rightarrow> int
    \<Rightarrow> (int \<times> rtp_payload_helper_t \<times> 's) option" where
  "rtp_decode_mp4v_es nd mem handler helper s packet bytes =
     with_packet nd packet bytes helper s (\<lambda>pkt. do {
       (_, helper, s) \<leftarrow> rtp_payload_check handler helper s pkt;
       c_assert nd (pk_payloadlen pkt > 0);
       (r, helper) \<leftarrow> (if he_lost helper = 0 \<and> pk_payloadlen pkt > 0
         then rtp_payload_write nd mem helper pkt else Some (0, helper));
       if r \<noteq> 0 then Some (- ENOMEM, helper, s)
       else do {
         (helper, s) \<leftarrow> (if h_m (pk_rtp pkt) \<noteq> 0 then do {
             (_, helper, s) \<leftarrow> rtp_payload_onframe handler helper s; Some (helper, s) }
           else Some (helper, s));
         Some (if he_lost helper \<noteq> 0 then 0 else 1, helper, s) } })"

definition RTP_PAYLOAD_MP3 :: "7 word" where "RTP_PAYLOAD_MP3 = 14"
definition RTP_PAYLOAD_MPV :: "7 word" where "RTP_PAYLOAD_MPV = 32"

definition mpeg2es_header_size :: "rtp_packet_t \<Rightarrow> nat option" where
  "mpeg2es_header_size pkt =
     (if h_pt (pk_rtp pkt) = RTP_PAYLOAD_MPV then do {
        x \<leftarrow> rd (pk_payload pkt) 4; Some (if x AND 0x04 \<noteq> 0 then 8 else 4) }
      else Some 4)"

definition rtp_decode_mpeg2es ::
  "bool \<Rightarrow> (nat \<Rightarrow> bool) \<Rightarrow> 's rtp_payload_t \<Rightarrow> rtp_payload_helper_t \<Rightarrow> 's \<Rightarrow> u8 list \<Rightarrow> int
    \<Rightarrow> (int \<times> rtp_payload_helper_t \<times> 's) option" where
  "rtp_decode_mpeg2es nd mem handler helper s packet bytes =
     with_packet nd packet bytes helper s (\<lambda>pkt.
       if pk_payloadlen pkt < 4 then Some (- EINVAL, helper, s)
       else if h_pt (pk_rtp pkt) \<noteq> RTP_PAYLOAD_MP3 \<and> h_pt (pk_rtp pkt) \<noteq> RTP_PAYLOAD_MPV
       then do { c_assert nd False; Some (- EINVAL, helper, s) }
       else do {
         (_, helper, s) \<leftarrow> rtp_payload_check handler helper s pkt;
         helper \<leftarrow> (if he_lost helper = 0 then do {
             n \<leftarrow> mpeg2es_header_size pkt;
             c_assert nd (pk_payloadlen pkt > 4);
             if pk_payloadlen pkt > int n then do {
               pl \<leftarrow> adv (pk_payload pkt) n;
               (_, helper) \<leftarrow> rtp_payload_write nd mem helper
                 (pkt\<lparr>pk_payload := pl, pk_payloadlen := pk_payloadlen pkt - int n\<rparr>);
               Some helper }
             else Some helper }
           else Some helper);
         (helper, s) \<leftarrow> (if h_m (pk_rtp pkt) \<noteq> 0 \<and> h_pt (pk_rtp pkt) = RTP_PAYLOAD_MPV then do {
             (_, helper, s) \<leftarrow> rtp_payload_onframe handler helper s; Some (helper, s) }
           else Some (helper, s));
         Some (if he_lost helper \<noteq> 0 then 0 else 1, helper, s) })"

section \<open>The helper stays inside its buffer\<close>

definition helper_inv :: "rtp_payload_helper_t \<Rightarrow> bool" where
  "helper_inv h \<longleftrightarrow> hb_wf (he_ptr h) \<and> he_size h \<le> length (hb_bytes (he_ptr h)) \<and> he_size h \<le> he_maxsize h"

definition pkt_ok :: "rtp_packet_t \<Rightarrow> bool" where
  "pkt_ok pkt \<longleftrightarrow> 0 \<le> pk_payloadlen pkt \<and> pk_payloadlen pkt \<le> int (length (pk_payload pkt))"

lemma window_pkt_ok:
  assumes "payload_window data bytes pkt" "bytes \<le> int (length data)"
  shows "pkt_ok pkt"
  using assms by (simp add: payload_window_def pkt_ok_def Let_def) linarith

lemma ok_with_packet:
  assumes "bytes \<le> int (length data)" "Q (- EINVAL, d, s)"
    and "\<And>pkt. \<lbrakk>pkt_ok pkt; rtp_packet_deserialize True data bytes = Some (Inr pkt)\<rbrakk> \<Longrightarrow> ok Q (f pkt)"
  shows "ok Q (with_packet True data bytes d s f)"
proof -
  obtain r where r: "rtp_packet_deserialize True data bytes = Some r"
    using rtp_packet_deserialize_total [OF assms(1)] by blast
  show ?thesis
  proof (cases r)
    case (Inl e)
    with r assms(2) show ?thesis
      by (simp add: with_packet_def)
  next
    case (Inr pkt)
    then have "pkt_ok pkt"
      using r rtp_packet_deserialize_window [OF assms(1)] window_pkt_ok [OF _ assms(1)] by blast
    with assms(3) [of pkt] r Inr show ?thesis
      by (simp add: with_packet_def)
  qed
qed

lemma helper_inv_create: "helper_inv rtp_payload_helper_create"
  by (simp add: helper_inv_def rtp_payload_helper_create_def)

lemma helper_inv_update [simp]:
  "helper_inv (h\<lparr>he_lost := l\<rparr>) = helper_inv h" "helper_inv (h\<lparr>he_seq := q\<rparr>) = helper_inv h"
  "helper_inv (h\<lparr>he_timestamp := t\<rparr>) = helper_inv h" "helper_inv (h\<lparr>he_flags := f\<rparr>) = helper_inv h"
  by (simp_all add: helper_inv_def)

lemma helper_inv_reset: "helper_inv h \<Longrightarrow> helper_inv (h\<lparr>he_size := 0\<rparr>)"
  by (simp add: helper_inv_def)

lemma check_first_inv [simp]: "helper_inv (check_first h pkt) = helper_inv h"
  by (simp add: check_first_def)

abbreviation helper_res :: "int \<times> rtp_payload_helper_t \<times> 's \<Rightarrow> bool" where
  "helper_res \<equiv> \<lambda>(r, h, s). helper_inv h"

lemma onframe_total: "helper_inv h \<Longrightarrow> ok helper_res (rtp_payload_onframe handler h s)"
  by (auto simp: rtp_payload_onframe_def Let_def ok_simps helper_inv_def split: prod.splits)

lemma check_total:
  assumes "helper_inv h"
  shows "ok helper_res (rtp_payload_check handler h s pkt)"
  using assms
  by (auto simp: rtp_payload_check_def Let_def ok_simps intro!: okI_mono [OF onframe_total])

lemma write_total:
  assumes "helper_inv h" "pkt_ok pkt"
  shows "ok (\<lambda>(r, h). helper_inv h) (rtp_payload_write nd mem h pkt)"
proof -
  let ?size = "int (he_size h) + pk_payloadlen pkt" and ?n = "nat (pk_payloadlen pkt)"
  have n: "0 \<le> pk_payloadlen pkt" "?n \<le> length (pk_payload pkt)"
    using assms(2) by (auto simp: pkt_ok_def)
  then have size: "nat ?size = he_size h + ?n"
    by (simp add: nat_add_distrib)
  define b where "b = (if nat ?size > hb_cap (he_ptr h) then hb_realloc (he_ptr h) (grow_size 16000 (nat ?size)) else he_ptr h)"
  have grown: "he_size h + ?n \<le> grow_size 16000 (nat ?size)"
    by (simp add: size)
  have b: "hb_wf b" "he_size h \<le> length (hb_bytes b)" "he_size h + ?n \<le> hb_cap b"
    using assms(1) grown size by (auto simp: b_def helper_inv_def hb_realloc_def hb_wf_def)
  then obtain b' where b': "hb_write b (he_size h) (take ?n (pk_payload pkt)) = Some b'"
    using n by (simp add: hb_write_def)
  then have inv: "hb_wf b'" "he_size h + ?n \<le> length (hb_bytes b')"
    using b n hb_wf_write [OF b(1) b'] by (auto simp: hb_write_def splice_def split: if_splits)
  show ?thesis
  proof (cases "?size > int (he_maxsize h) \<or> ?size < 0 \<or> nat ?size > hb_cap (he_ptr h) \<and> \<not> mem (grow_size 16000 (nat ?size))")
    case True
    then show ?thesis
      using assms(1) by (auto simp: rtp_payload_write_def Let_def)
  next
    case False
    have "rtp_payload_write nd mem h pkt = Some (0, h\<lparr>he_ptr := b', he_size := he_size h + ?n\<rparr>)"
      using False n b b' size
      by (cases "nat ?size > hb_cap (he_ptr h)")
        (auto simp: rtp_payload_write_def Let_def c_slice_def b_def c_assert_def)
    moreover have "he_size h + ?n \<le> he_maxsize h"
      using False size by linarith
    ultimately show ?thesis
      using inv by (auto simp: helper_inv_def)
  qed
qed

section \<open>The contract of a payload decoder\<close>

locale payload_decoder =
  fixes invar :: "'d \<Rightarrow> bool"
    and init :: 'd
    and input :: "'d \<Rightarrow> 's \<Rightarrow> u8 list \<Rightarrow> int \<Rightarrow> (int \<times> 'd \<times> 's) option"
  assumes init_invar: "invar init"
    and input_total: "\<lbrakk>invar d; bytes \<le> int (length packet)\<rbrakk>
      \<Longrightarrow> ok (\<lambda>(r, d, s). invar d) (input d s packet bytes)"
begin

fun feed :: "'d \<Rightarrow> 's \<Rightarrow> u8 list list \<Rightarrow> (int list \<times> 'd \<times> 's) option" where
  "feed d s [] = Some ([], d, s)"
| "feed d s (p # ps) = do {
     (r, d, s) \<leftarrow> input d s p (int (length p));
     (rs, d, s) \<leftarrow> feed d s ps;
     Some (r # rs, d, s) }"

lemma feed_total:
  "invar d \<Longrightarrow> \<exists>rs d' s'. feed d s ps = Some (rs, d', s') \<and> invar d' \<and> length rs = length ps"
proof (induction ps arbitrary: d s)
  case (Cons p ps)
  obtain r d' s' where i: "input d s p (int (length p)) = Some (r, d', s')" "invar d'"
    using input_total [OF Cons.prems, of "int (length p)" p s] by (auto simp: ok_iff)
  from Cons.IH [OF i(2), of s'] i(1) show ?case
    by auto
qed simp

lemma feed_append:
  "feed d s (ps @ qs) = do {
     (rs, d, s) \<leftarrow> feed d s ps; (rs', d, s) \<leftarrow> feed d s qs; Some (rs @ rs', d, s) }"
proof (induction ps arbitrary: d s)
  case Nil
  show ?case
    by (cases "feed d s qs") auto
next
  case (Cons p ps)
  show ?case
    by (cases "input d s p (int (length p))") (auto simp: Cons.IH split: Option.bind_splits)
qed

lemma feed_init: "\<exists>rs d s'. feed init s ps = Some (rs, d, s') \<and> invar d"
  using feed_total [OF init_invar, of s ps] by blast

end

lemma rfc2250_total:
  assumes "helper_inv h" "bytes \<le> int (length packet)"
  shows "ok helper_res (rtp_decode_rfc2250 True handler h s packet bytes)"
  unfolding rtp_decode_rfc2250_def
  by (rule ok_with_packet) (use assms in \<open>auto simp: ok_simps pkt_ok_def split: prod.splits\<close>)

lemma ts_total:
  assumes "helper_inv h" "bytes \<le> int (length packet)"
  shows "ok helper_res (rtp_decode_ts True mem handler h s packet bytes)"
  unfolding rtp_decode_ts_def
  by (rule ok_with_packet)
    (use assms in \<open>auto simp: ok_simps intro!: okI_mono [OF check_total] okI_mono [OF onframe_total] okI_mono [OF write_total]\<close>)

lemma ps_total:
  assumes "helper_inv h" "bytes \<le> int (length packet)"
  shows "ok helper_res (rtp_decode_ps True mem handler h s packet bytes)"
  unfolding rtp_decode_ps_def
  by (rule ok_with_packet)
    (use assms in \<open>auto simp: ok_simps pkt_ok_def intro!: okI_mono [OF check_total] okI_mono [OF onframe_total] okI_mono [OF write_total]\<close>)

lemma mp4v_es_total:
  assumes "helper_inv h" "bytes \<le> int (length packet)"
  shows "ok helper_res (rtp_decode_mp4v_es True mem handler h s packet bytes)"
  unfolding rtp_decode_mp4v_es_def
  by (rule ok_with_packet)
    (use assms in \<open>auto simp: ok_simps intro!: okI_mono [OF check_total] okI_mono [OF onframe_total] okI_mono [OF write_total]\<close>)

interpretation common_dec: payload_decoder helper_inv rtp_payload_helper_create "rtp_decode_rfc2250 True handler"
  for handler
  by unfold_locales (auto intro: helper_inv_create rfc2250_total)

interpretation ts_dec: payload_decoder helper_inv rtp_payload_helper_create "rtp_decode_ts True mem handler"
  for mem handler
  by unfold_locales (auto intro: helper_inv_create ts_total)

interpretation ps_dec: payload_decoder helper_inv rtp_payload_helper_create "rtp_decode_ps True mem handler"
  for mem handler
  by unfold_locales (auto intro: helper_inv_create ps_total)

interpretation mp4v_dec: payload_decoder helper_inv rtp_payload_helper_create "rtp_decode_mp4v_es True mem handler"
  for mem handler
  by unfold_locales (auto intro: helper_inv_create mp4v_es_total)

section \<open>Reassembly of frames\<close>

definition frame_of :: "rtp_payload_helper_t \<Rightarrow> u8 list" where
  "frame_of h = take (he_size h) (hb_bytes (he_ptr h))"

definition pk_data :: "rtp_packet_t \<Rightarrow> u8 list" where
  "pk_data pkt = take (nat (pk_payloadlen pkt)) (pk_payload pkt)"

lemma length_pk_data: "pkt_ok pkt \<Longrightarrow> length (pk_data pkt) = nat (pk_payloadlen pkt)"
  by (auto simp: pkt_ok_def pk_data_def)

lemma write_appends:
  assumes "helper_inv h" "pkt_ok pkt" "he_size h + length (pk_data pkt) \<le> he_maxsize h" "\<forall>n. mem n"
  shows "ok (\<lambda>(r, h'). r = 0 \<and> helper_inv h' \<and> frame_of h' = frame_of h @ pk_data pkt
      \<and> h' = h\<lparr>he_ptr := he_ptr h', he_size := he_size h'\<rparr> \<and> he_size h' = he_size h + length (pk_data pkt))
    (rtp_payload_write nd mem h pkt)"
proof -
  let ?n = "nat (pk_payloadlen pkt)"
  have n: "0 \<le> pk_payloadlen pkt" "?n \<le> length (pk_payload pkt)" "length (pk_data pkt) = ?n"
    using assms(2) by (auto simp: pkt_ok_def length_pk_data)
  have size: "nat (int (he_size h) + pk_payloadlen pkt) = he_size h + ?n"
    "\<not> int (he_maxsize h) < int (he_size h) + pk_payloadlen pkt"
    using n assms(3) by (auto simp: nat_add_distrib)
  define b where "b = (if he_size h + ?n > hb_cap (he_ptr h)
    then hb_realloc (he_ptr h) (grow_size 16000 (he_size h + ?n)) else he_ptr h)"
  have b: "hb_wf b" "he_size h \<le> length (hb_bytes b)" "he_size h + ?n \<le> hb_cap b"
    "take (he_size h) (hb_bytes b) = frame_of h"
    using assms(1) by (auto simp: b_def helper_inv_def hb_realloc_def hb_wf_def frame_of_def min_def)
  define b' where "b' = b\<lparr>hb_bytes := splice (hb_bytes b) (he_size h) (pk_data pkt)\<rparr>"
  have w: "hb_write b (he_size h) (pk_data pkt) = Some b'"
    using b n by (simp add: hb_write_def b'_def)
  have "rtp_payload_write nd mem h pkt = Some (0, h\<lparr>he_ptr := b', he_size := he_size h + ?n\<rparr>)"
    using n size assms(4) b w
    by (cases "he_size h + ?n > hb_cap (he_ptr h)")
      (auto simp: rtp_payload_write_def Let_def c_slice_def b_def c_assert_def pk_data_def)
  moreover have "take (he_size h + ?n) (hb_bytes b') = frame_of h @ pk_data pkt"
    using take_splice_through [OF b(2), of "pk_data pkt"] b(4) n by (simp add: b'_def)
  moreover have "hb_wf b'" "he_size h + ?n \<le> length (hb_bytes b')"
    using hb_wf_write [OF b(1) w] b n assms(1) by (auto simp: b'_def splice_def frame_of_def helper_inv_def)
  ultimately show ?thesis
    using n assms(3) by (simp add: frame_of_def helper_inv_def)
qed

lemma check_in_order:
  assumes "he_flags h \<noteq> -1" "he_lost h = 0" "pk_seq pkt = he_seq h + 1"
    and "he_timestamp h = pk_timestamp pkt \<or> he_size h = 0"
  shows "rtp_payload_check handler h s pkt = Some (0, h\<lparr>he_seq := pk_seq pkt, he_timestamp := pk_timestamp pkt\<rparr>, s)"
proof -
  have "check_first h pkt = h"
    using assms by (simp add: check_first_def)
  moreover have "rtp_payload_onframe handler g s = Some (0, g, s)"
    if "he_size g = 0" "he_lost g = 0" for g
    using that by (cases g) (simp add: rtp_payload_onframe_def Let_def)
  ultimately show ?thesis
    using assms by (cases h) (auto simp: rtp_payload_check_def Let_def)
qed

lemma check_fresh:
  "rtp_payload_check handler rtp_payload_helper_create s pkt =
   rtp_payload_check handler (rtp_payload_helper_create\<lparr>he_flags := 0, he_seq := pk_seq pkt - 1,
     he_timestamp := pk_timestamp pkt + 1\<rparr>) s pkt"
  by (simp add: rtp_payload_check_def check_first_def rtp_payload_helper_create_def)

text \<open>The helper between two packets of one frame.\<close>

definition collecting :: "rtp_payload_helper_t \<Rightarrow> u16 \<Rightarrow> u32 \<Rightarrow> u8 list \<Rightarrow> bool" where
  "collecting h q t fr \<longleftrightarrow> helper_inv h \<and> he_flags h = 0 \<and> he_lost h = 0 \<and> he_seq h + 1 = q \<and> frame_of h = fr
     \<and> (he_timestamp h = t \<or> he_size h = 0) \<and> he_size h = length fr \<and> he_maxsize h = RTP_PAYLOAD_MAX_SIZE"

lemma collecting_step:
  assumes "collecting h (pk_seq pkt) (pk_timestamp pkt) fr" "pkt_ok pkt"
    and "length fr + length (pk_data pkt) \<le> RTP_PAYLOAD_MAX_SIZE" "\<forall>n. mem n"
  obtains h' h1 where "rtp_payload_check handler h s pkt = Some (0, h1, s)" "he_lost h1 = 0"
    "rtp_payload_write nd mem h1 pkt = Some (0, h')"
    "collecting h' (pk_seq pkt + 1) (pk_timestamp pkt) (fr @ pk_data pkt)" "he_timestamp h' = pk_timestamp pkt"
proof -
  let ?h = "h\<lparr>he_seq := pk_seq pkt, he_timestamp := pk_timestamp pkt\<rparr>"
  have c: "rtp_payload_check handler h s pkt = Some (0, ?h, s)"
    using assms(1) by (intro check_in_order) (auto simp: collecting_def)
  have "helper_inv ?h" "he_size ?h + length (pk_data pkt) \<le> he_maxsize ?h"
    using assms(1,3) by (auto simp: collecting_def)
  from write_appends [OF this(1) assms(2) this(2) assms(4), of nd] obtain h' where
    h': "rtp_payload_write nd mem ?h pkt = Some (0, h')" "helper_inv h'" "frame_of h' = frame_of ?h @ pk_data pkt"
      "h' = ?h\<lparr>he_ptr := he_ptr h', he_size := he_size h'\<rparr>" "he_size h' = he_size ?h + length (pk_data pkt)"
    by (auto simp: ok_iff)
  from h'(4) have f: "he_flags h' = he_flags h" "he_lost h' = he_lost h" "he_seq h' = pk_seq pkt"
    "he_timestamp h' = pk_timestamp pkt" "he_maxsize h' = he_maxsize h"
    by (metis rtp_payload_helper_t.select_convs rtp_payload_helper_t.surjective rtp_payload_helper_t.update_convs)+
  have "frame_of ?h = frame_of h"
    by (simp add: frame_of_def)
  with f h' assms(1) have "collecting h' (pk_seq pkt + 1) (pk_timestamp pkt) (fr @ pk_data pkt)"
    by (simp add: collecting_def)
  with that c h' f assms(1) show thesis
    by (auto simp: collecting_def)
qed

lemma with_packet_bytes:
  assumes "wf_packet pkt"
  shows "with_packet nd (packet_bytes pkt) (int (length (packet_bytes pkt))) d s f =
    f (pkt\<lparr>pk_extension := (if h_x (pk_rtp pkt) = 1 then take (unat (pk_extlen pkt)) (pk_extension pkt)
          @ take (nat (pk_payloadlen pkt)) (pk_payload pkt) else []), pk_payload := pk_data pkt\<rparr>)"
  by (simp add: with_packet_def rtp_packet_deserialize_bytes [OF assms] pk_data_def)

lemma wf_packet_parsed:
  assumes "wf_packet pkt"
  shows "pkt_ok (pkt\<lparr>pk_extension := e, pk_payload := pk_data pkt\<rparr>)"
    and "pk_data (pkt\<lparr>pk_extension := e, pk_payload := pk_data pkt\<rparr>) = pk_data pkt"
  using assms by (auto simp: pkt_ok_def pk_data_def wf_packet_def)

lemma mp4v_step:
  assumes "collecting h (pk_seq pkt) (pk_timestamp pkt) fr" "wf_packet pkt" "0 < pk_payloadlen pkt"
    and "length fr + length (pk_data pkt) \<le> RTP_PAYLOAD_MAX_SIZE" "\<forall>n. mem n"
  shows "\<exists>h'. rtp_decode_mp4v_es nd mem handler h s (packet_bytes pkt) (int (length (packet_bytes pkt))) =
      Some (1, h', if h_m (pk_rtp pkt) = 1 then snd (packet_cb handler s (fr @ pk_data pkt) (pk_timestamp pkt) 0) else s)
    \<and> (h_m (pk_rtp pkt) = 0 \<longrightarrow> collecting h' (pk_seq pkt + 1) (pk_timestamp pkt) (fr @ pk_data pkt))"
proof -
  define q where "q = pkt\<lparr>pk_extension := (if h_x (pk_rtp pkt) = 1 then take (unat (pk_extlen pkt)) (pk_extension pkt)
          @ take (nat (pk_payloadlen pkt)) (pk_payload pkt) else []), pk_payload := pk_data pkt\<rparr>"
  have q: "pkt_ok q" "pk_data q = pk_data pkt" "pk_seq q = pk_seq pkt" "pk_timestamp q = pk_timestamp pkt"
    "pk_payloadlen q = pk_payloadlen pkt" "h_m (pk_rtp q) = h_m (pk_rtp pkt)"
    unfolding q_def using wf_packet_parsed [OF assms(2)] by simp_all
  from assms(1,4,5) q obtain h1 h' where
    h: "rtp_payload_check handler h s q = Some (0, h1, s)" "he_lost h1 = 0"
    "rtp_payload_write nd mem h1 q = Some (0, h')"
    "collecting h' (pk_seq pkt + 1) (pk_timestamp pkt) (fr @ pk_data pkt)" "he_timestamp h' = pk_timestamp pkt"
    by (metis collecting_step [of h q fr mem handler s nd])
  have sz: "he_size h' = length (fr @ pk_data pkt)" "0 < he_size h'" "he_lost h' = 0" "he_flags h' = 0"
    "he_size h' \<le> length (hb_bytes (he_ptr h'))" "frame_of h' = fr @ pk_data pkt"
    using h(4) assms(2,3) by (auto simp: collecting_def pk_data_def wf_packet_def helper_inv_def)
  have "\<exists>h2. rtp_payload_onframe handler h' s = Some (fst (packet_cb handler s (fr @ pk_data pkt) (pk_timestamp pkt) 0), h2,
      snd (packet_cb handler s (fr @ pk_data pkt) (pk_timestamp pkt) 0)) \<and> he_lost h2 = 0"
    using sz h(5) by (auto simp: rtp_payload_onframe_def Let_def c_slice_def frame_of_def split: prod.splits)
  with h assms(3) q sz show ?thesis
    by (auto simp: rtp_decode_mp4v_es_def with_packet_bytes [OF assms(2)] q_def [symmetric] w1_not_1)
qed

fun one_frame :: "u16 \<Rightarrow> u32 \<Rightarrow> rtp_packet_t list \<Rightarrow> bool" where
  "one_frame q t [] \<longleftrightarrow> True"
| "one_frame q t (p # ps) \<longleftrightarrow> wf_packet p \<and> 0 < pk_payloadlen p \<and> pk_seq p = q \<and> pk_timestamp p = t
     \<and> (h_m (pk_rtp p) = 1 \<longleftrightarrow> ps = []) \<and> one_frame (q + 1) t ps"

lemma mp4v_frame_from:
  assumes "collecting h q t fr" "one_frame q t ps" "ps \<noteq> []"
    and "length fr + length (concat (map pk_data ps)) \<le> RTP_PAYLOAD_MAX_SIZE"
  shows "\<exists>h'. mp4v_dec.feed (\<lambda>_. True) handler h s (map packet_bytes ps) =
    Some (replicate (length ps) 1, h', snd (packet_cb handler s (fr @ concat (map pk_data ps)) t 0))"
  using assms
proof (induction ps arbitrary: h q fr)
  case (Cons p ps)
  from Cons.prems have "\<exists>h'. rtp_decode_mp4v_es True (\<lambda>_. True) handler h s (packet_bytes p) (int (length (packet_bytes p))) =
      Some (1, h', if h_m (pk_rtp p) = 1 then snd (packet_cb handler s (fr @ pk_data p) (pk_timestamp p) 0) else s)
    \<and> (h_m (pk_rtp p) = 0 \<longrightarrow> collecting h' (pk_seq p + 1) (pk_timestamp p) (fr @ pk_data p))"
    by (intro mp4v_step) auto
  then obtain h' where h': "rtp_decode_mp4v_es True (\<lambda>_. True) handler h s (packet_bytes p) (int (length (packet_bytes p))) =
      Some (1, h', if h_m (pk_rtp p) = 1 then snd (packet_cb handler s (fr @ pk_data p) (pk_timestamp p) 0) else s)"
    "h_m (pk_rtp p) = 0 \<longrightarrow> collecting h' (pk_seq p + 1) (pk_timestamp p) (fr @ pk_data p)"
    by blast
  show ?case
  proof (cases "ps = []")
    case True
    with h' Cons.prems show ?thesis
      by simp
  next
    case False
    with Cons.prems have m: "h_m (pk_rtp p) = 0"
      by (simp add: w1_not_1)
    with False Cons.prems h' have "\<exists>h''. mp4v_dec.feed (\<lambda>_. True) handler h' s (map packet_bytes ps) =
      Some (replicate (length ps) 1, h'', snd (packet_cb handler s ((fr @ pk_data p) @ concat (map pk_data ps)) t 0))"
      by (intro Cons.IH [of h' "q + 1"]) auto
    with h' m show ?thesis
      by auto
  qed
qed simp

section \<open>Properties\<close>

text \<open>Whatever datagrams arrive, each of the unpackers built on the frame helper (common, MPEG-TS,
  MPEG-PS and MPEG-4 video) answers every one of them, without an access outside the datagram or its
  frame buffer, and its frame never exceeds \<open>RTP_PAYLOAD_MAX_SIZE\<close>.\<close>

theorem helper_unpackers_total:
  "(\<exists>rs h s'. common_dec.feed handler rtp_payload_helper_create s ps = Some (rs, h, s') \<and> helper_inv h) \<and>
   (\<exists>rs h s'. ts_dec.feed mem handler rtp_payload_helper_create s ps = Some (rs, h, s') \<and> helper_inv h) \<and>
   (\<exists>rs h s'. ps_dec.feed mem handler rtp_payload_helper_create s ps = Some (rs, h, s') \<and> helper_inv h) \<and>
   (\<exists>rs h s'. mp4v_dec.feed mem handler rtp_payload_helper_create s ps = Some (rs, h, s') \<and> helper_inv h)"
  by (intro conjI common_dec.feed_init ts_dec.feed_init ps_dec.feed_init mp4v_dec.feed_init)

text \<open>The packets of one MPEG-4 video frame, in order, with the marker on the last one, make a new
  unpacker deliver exactly one frame, the concatenation of their payloads, with their timestamp and
  no flag.\<close>

theorem mp4v_frame:
  assumes "one_frame q t ps" "ps \<noteq> []" "length (concat (map pk_data ps)) \<le> RTP_PAYLOAD_MAX_SIZE"
  shows "\<exists>h'. mp4v_dec.feed (\<lambda>_. True) handler rtp_payload_helper_create s (map packet_bytes ps) =
    Some (replicate (length ps) 1, h', snd (packet_cb handler s (concat (map pk_data ps)) t 0))"
proof -
  let ?h = "rtp_payload_helper_create\<lparr>he_flags := 0, he_seq := q - 1, he_timestamp := t + 1\<rparr>"
  have c: "collecting ?h q t []"
    by (simp add: collecting_def helper_inv_create frame_of_def) (simp add: rtp_payload_helper_create_def)
  obtain p ps' where p: "ps = p # ps'" "pk_seq p = q" "pk_timestamp p = t" "wf_packet p"
    using assms(1,2) by (cases ps) auto
  have "rtp_decode_mp4v_es True (\<lambda>_. True) handler rtp_payload_helper_create s (packet_bytes p) n =
     rtp_decode_mp4v_es True (\<lambda>_. True) handler ?h s (packet_bytes p) n" if "n = int (length (packet_bytes p))" for n
    using p that check_fresh [of handler s "p\<lparr>pk_extension := e, pk_payload := pl\<rparr>" for e pl]
    by (simp add: rtp_decode_mp4v_es_def with_packet_bytes)
  then have "mp4v_dec.feed (\<lambda>_. True) handler rtp_payload_helper_create s (map packet_bytes ps) =
     mp4v_dec.feed (\<lambda>_. True) handler ?h s (map packet_bytes ps)"
    by (simp add: p(1))
  with mp4v_frame_from [OF c assms(1,2), of handler s] assms(3) show ?thesis
    by simp
qed

definition recorder :: "(u8 list \<times> u32 \<times> int) list rtp_payload_t" where
  "recorder = \<lparr>alloc_cb = \<lambda>s n. (Some (replicate n 0), s), free_cb = \<lambda>s b. s,
     packet_cb = \<lambda>s p t f. (0, s @ [(p, t, f)])\<rparr>"

theorem mp4v_frame_witness:
  "\<exists>h'. mp4v_dec.feed (\<lambda>_. True) recorder rtp_payload_helper_create []
      (map packet_bytes [example_packet\<lparr>pk_rtp := (pk_rtp example_packet)\<lparr>h_m := 0\<rparr>\<rparr>,
                         example_packet\<lparr>pk_rtp := (pk_rtp example_packet)\<lparr>h_seq := 0\<rparr>\<rparr>]) =
    Some ([1, 1], h', [([65, 66, 67, 65, 66, 67], 90000, 0)])"
proof -
  let ?ps = "[example_packet\<lparr>pk_rtp := (pk_rtp example_packet)\<lparr>h_m := 0\<rparr>\<rparr>,
      example_packet\<lparr>pk_rtp := (pk_rtp example_packet)\<lparr>h_seq := 0\<rparr>\<rparr>]"
  have "one_frame 0xFFFF 90000 ?ps"
    by code_simp
  moreover have "concat (map pk_data ?ps) = [65, 66, 67, 65, 66, 67]"
    by code_simp
  ultimately show ?thesis
    using mp4v_frame [where q = "0xFFFF" and t = 90000 and ps = ?ps and handler = recorder and s = "[]"]
    by (simp add: RTP_PAYLOAD_MAX_SIZE_def recorder_def)
qed

text \<open>The MPEG-1/2 unpacker accepts a payload of four bytes but looks at the fifth: on a datagram
  that ends there, the first packet of a stream is read beyond its end.\<close>

theorem mpeg2es_reads_beyond:
  assumes "h_v h = 2" "h_p h = 0" "h_x h = 0" "h_cc h = 0" "h_pt h = RTP_PAYLOAD_MPV" "length pl = 4"
  shows "rtp_decode_mpeg2es True mem handler rtp_payload_helper_create s (rtp_header_bytes h @ pl) 16 = None"
proof -
  define pkt where "pkt = \<lparr>pk_rtp = h, pk_csrc = replicate 16 0, pk_extension = [], pk_extlen = 0,
    pk_extprofile = 0, pk_payload = pl, pk_payloadlen = 4\<rparr>"
  have "wf_packet pkt" "packet_bytes pkt = rtp_header_bytes h @ pl" "length (packet_bytes pkt) = 16"
    using assms by (auto simp: wf_packet_def pkt_def packet_bytes_def packet_header_bytes_def)
  then have "rtp_packet_deserialize True (rtp_header_bytes h @ pl) 16 = Some (Inr pkt)"
    using rtp_packet_deserialize_bytes [of pkt True] assms by (simp add: pkt_def)
  moreover have "\<exists>h1. rtp_payload_check handler rtp_payload_helper_create s pkt = Some (0, h1, s) \<and> he_lost h1 = 0"
    unfolding check_fresh by (subst check_in_order) (auto simp: rtp_payload_helper_create_def)
  ultimately show ?thesis
    using assms by (auto simp: rtp_decode_mpeg2es_def with_packet_def mpeg2es_header_size_def rd_def pkt_def)
qed

theorem mpeg2es_reads_beyond_witness:
  "rtp_decode_mpeg2es True (\<lambda>_. True) recorder rtp_payload_helper_create []
     (rtp_header_bytes \<lparr>h_v = 2, h_p = 0, h_x = 0, h_cc = 0, h_m = 0, h_pt = RTP_PAYLOAD_MPV, h_seq = 1,
        h_timestamp = 2, h_ssrc = 3\<rparr> @ [0, 0, 0, 0]) 16 = None"
  by (rule mpeg2es_reads_beyond) simp_all

end
