(* ===== verification/H264_Unpack.thy ===== *)
theory H264_Unpack
  imports Rtp_Payload_Helper
begin

text \<open>
  \<open>lib/librtp/payload/rtp-h264-unpack.c\<close>: from RTP packets to H.264 NAL units (RFC 6184). The unpacker
  handles single NAL units, aggregation packets (STAP, MTAP) and fragmentation units (FU), and hands
  out a start code before every NAL unit. The fragments of a NAL unit are collected in a growable
  buffer. A loop keeps the pointer \<open>ptr\<close> and the count \<open>bytes_left\<close> of the source; computing a pointer
  beyond the payload is not an access.
\<close>

record rtp_decode_h264_t =
  u4_seq :: u16
  u4_timestamp :: u32
  u4_ptr :: heapbuf
  u4_size :: nat
  u4_flags :: int

definition rtp_h264_unpack_create :: rtp_decode_h264_t where
  "rtp_h264_unpack_create = \<lparr>u4_seq = 0, u4_timestamp = 0, u4_ptr = hb_empty, u4_size = 0, u4_flags = -1\<rparr>"

definition emit_nal :: "'s rtp_payload_t \<Rightarrow> 's \<Rightarrow> u8 list \<Rightarrow> u32 \<Rightarrow> int \<Rightarrow> int \<times> 's" where
  "emit_nal handler s nal timestamp flags =
     (let (r, s) = packet_cb handler s start_code timestamp flags in
      if r = 0 then packet_cb handler s nal timestamp flags else (r, s))"

section \<open>Aggregation packets\<close>

function stap_loop ::
  "'s rtp_payload_t \<Rightarrow> u32 \<Rightarrow> rtp_decode_h264_t \<Rightarrow> 's \<Rightarrow> u8 list \<Rightarrow> int \<Rightarrow> int \<Rightarrow> (int \<times> rtp_decode_h264_t \<times> 's) option" where
  "stap_loop handler timestamp u s ptr bytes_left r =
     (if bytes_left > 2 then do {
        len \<leftarrow> rtp_read_uint16 ptr;
        if int (unat len) + 2 > bytes_left \<or> unat len < 2 then Some (handled r, u, s)
        else do {
          nal \<leftarrow> c_slice ptr 2 (unat len);
          let (r, s) = emit_nal handler s nal timestamp (u4_flags u);
          stap_loop handler timestamp (u\<lparr>u4_flags := 0, u4_size := 0\<rparr>) s
            (drop (unat len + 2) ptr) (bytes_left - (int (unat len) + 2)) r } }
      else Some (handled r, u, s))"
  by pat_completeness auto
termination
  by (relation "measure (\<lambda>(h, t, u, s, p, n, r). nat n)") auto

function mtap_loop ::
  "'s rtp_payload_t \<Rightarrow> u32 \<Rightarrow> nat \<Rightarrow> rtp_decode_h264_t \<Rightarrow> 's \<Rightarrow> u8 list \<Rightarrow> int \<Rightarrow> int \<Rightarrow> (int \<times> rtp_decode_h264_t \<times> 's) option" where
  "mtap_loop handler timestamp n u s ptr bytes_left r =
     (if bytes_left > 2 then do {
        len \<leftarrow> rtp_read_uint16 ptr;
        if int (unat len) + 2 > bytes_left then Some (handled r, u, s)
        else if unat len < 1 + n then Some (handled r, u, s)
        else do {
          nal \<leftarrow> c_slice ptr (2 + 1 + n) (unat len - 1 - n);
          let (r, s) = emit_nal handler s nal timestamp (u4_flags u);
          mtap_loop handler timestamp n (u\<lparr>u4_flags := 0, u4_size := 0\<rparr>) s
            (drop (unat len + 2) ptr) (bytes_left - (int (unat len) + 2)) r } }
      else Some (handled r, u, s))"
  by pat_completeness auto
termination
  by (relation "measure (\<lambda>(h, t, k, u, s, p, n, r). nat n)") auto

declare stap_loop.simps [simp del] mtap_loop.simps [simp del]

text \<open>Two static functions of the file are not called by \<open>rtp_h264_unpack_input\<close>, which has their
  loops inline; they differ from these in the treatment of errors and of the time offset.\<close>

definition rtp_h264_unpack_stap ::
  "'s rtp_payload_t \<Rightarrow> rtp_decode_h264_t \<Rightarrow> 's \<Rightarrow> u8 list \<Rightarrow> int \<Rightarrow> u32 \<Rightarrow> bool \<Rightarrow> (int \<times> rtp_decode_h264_t \<times> 's) option" where
  "rtp_h264_unpack_stap handler u s ptr bytes timestamp stap_b =
     (let n = (if stap_b then 3 else 1 :: nat) in
      if bytes < int n then Some (- EINVAL, u, s)
      else stap_loop handler timestamp u s (drop n ptr) (bytes - int n) 0)"

definition H264_NAL :: "u8 \<Rightarrow> nat" where
  "H264_NAL v = unat (v AND 0x1F)"

definition mtap_timestamp :: "u8 list \<Rightarrow> nat \<Rightarrow> u32 \<Rightarrow> u32 option" where
  "mtap_timestamp ptr n timestamp = do {
     p3 \<leftarrow> adv ptr 3; ts16 \<leftarrow> rtp_read_uint16 p3;
     ts \<leftarrow> (if n = 3 then do { x \<leftarrow> rd ptr 5; Some (push_bit 8 (ucast ts16) OR ucast x) } else Some (ucast ts16));
     Some (ts + timestamp) }"

function mtap_static_loop ::
  "bool \<Rightarrow> 's rtp_payload_t \<Rightarrow> u32 \<Rightarrow> nat \<Rightarrow> rtp_decode_h264_t \<Rightarrow> 's \<Rightarrow> u8 list \<Rightarrow> int \<Rightarrow> int \<Rightarrow> (int \<times> rtp_decode_h264_t \<times> 's) option" where
  "mtap_static_loop nd handler timestamp n u s ptr bytes r =
     (if r = 0 \<and> int n + 3 < bytes then do {
        len \<leftarrow> rtp_read_uint16 ptr;
        if int (unat len) + 2 > bytes \<or> unat len < 1 + n + 1 then do {
          c_assert nd False;
          Some (- EINVAL, u\<lparr>u4_flags := RTP_PAYLOAD_FLAG_PACKET_LOST, u4_size := 0\<rparr>, s) }
        else do {
          ts \<leftarrow> mtap_timestamp ptr n timestamp;
          x \<leftarrow> rd ptr (n + 3);
          c_assert nd (H264_NAL x > 0 \<and> H264_NAL x < 24);
          nal \<leftarrow> c_slice ptr (2 + 1 + n) (unat len - 1 - n);
          let (r, s) = packet_cb handler s nal ts (u4_flags u);
          mtap_static_loop nd handler timestamp n (u\<lparr>u4_flags := 0, u4_size := 0\<rparr>) s
            (drop (unat len + 2) ptr) (bytes - (int (unat len) + 2)) r } }
      else Some (handled r, u, s))"
  by pat_completeness auto
termination
  by (relation "measure (\<lambda>(b, h, t, k, u, s, p, n, r). nat n)") auto

declare mtap_static_loop.simps [simp del]

definition rtp_h264_unpack_mtap ::
  "bool \<Rightarrow> 's rtp_payload_t \<Rightarrow> rtp_decode_h264_t \<Rightarrow> 's \<Rightarrow> u8 list \<Rightarrow> int \<Rightarrow> u32 \<Rightarrow> nat \<Rightarrow> (int \<times> rtp_decode_h264_t \<times> 's) option" where
  "rtp_h264_unpack_mtap nd handler u s ptr bytes timestamp n =
     (if bytes < 3 then do { c_assert nd False; Some (- EINVAL, u, s) }
      else do {
        p1 \<leftarrow> adv ptr 1; donb \<leftarrow> rtp_read_uint16 p1;
        p3 \<leftarrow> adv ptr 3;
        mtap_static_loop nd handler timestamp n u s p3 (bytes - 3) 0 })"

section \<open>Fragmentation units\<close>

definition h264_reserve ::
  "(nat \<Rightarrow> bool) \<Rightarrow> rtp_decode_h264_t \<Rightarrow> nat \<Rightarrow> nat \<Rightarrow> rtp_decode_h264_t option" where
  "h264_reserve mem u bytes n =
     (if u4_size u + bytes - n + 1 > hb_cap (u4_ptr u) then
        let newcap = grow_size 128000 (u4_size u + bytes + 1) in
        if mem newcap then Some (u\<lparr>u4_ptr := hb_realloc (u4_ptr u) newcap\<rparr>) else None
      else Some u)"

definition h264_fu_start :: "rtp_decode_h264_t \<Rightarrow> u8 list \<Rightarrow> u8 \<Rightarrow> rtp_decode_h264_t option" where
  "h264_fu_start u ptr fuheader =
     (if fuheader AND 0x80 \<noteq> 0 then do {
        x0 \<leftarrow> rd ptr 0;
        buf \<leftarrow> hb_write (u4_ptr u) 0 [(x0 AND 0xE0) OR (fuheader AND 0x1F)];
        Some (u\<lparr>u4_size := 1, u4_ptr := buf\<rparr>) }
      else Some u)"

definition h264_fu_append :: "rtp_decode_h264_t \<Rightarrow> u8 list \<Rightarrow> nat \<Rightarrow> nat \<Rightarrow> rtp_decode_h264_t option" where
  "h264_fu_append u ptr n bytes =
     (if bytes > n then do {
        src \<leftarrow> c_slice ptr n (bytes - n);
        buf \<leftarrow> hb_write (u4_ptr u) (u4_size u) src;
        Some (u\<lparr>u4_ptr := buf, u4_size := u4_size u + (bytes - n)\<rparr>) }
      else Some u)"

definition h264_fu_end ::
  "'s rtp_payload_t \<Rightarrow> rtp_decode_h264_t \<Rightarrow> 's \<Rightarrow> u8 \<Rightarrow> u32 \<Rightarrow> (int \<times> rtp_decode_h264_t \<times> 's) option" where
  "h264_fu_end handler u s fuheader timestamp =
     (if fuheader AND 0x40 \<noteq> 0 then do {
        nal \<leftarrow> c_slice (hb_bytes (u4_ptr u)) 0 (u4_size u);
        let (r, s) = emit_nal handler s nal timestamp (u4_flags u);
        Some (handled r, u\<lparr>u4_flags := 0, u4_size := 0\<rparr>, s) }
      else Some (1, u, s))"

definition rtp_h264_unpack_fu ::
  "(nat \<Rightarrow> bool) \<Rightarrow> 's rtp_payload_t \<Rightarrow> rtp_decode_h264_t \<Rightarrow> 's \<Rightarrow> u8 list \<Rightarrow> nat \<Rightarrow> u32 \<Rightarrow> bool \<Rightarrow> (int \<times> rtp_decode_h264_t \<times> 's) option" where
  "rtp_h264_unpack_fu mem handler u s ptr bytes timestamp fu_b =
     (let n = (if fu_b then 4 else 2 :: nat) in
      if bytes < n then Some (- EINVAL, u, s)
      else if u4_size u + bytes - n > RTP_PAYLOAD_MAX_SIZE then Some (- EINVAL, u, s)
      else case h264_reserve mem u bytes n of
        None \<Rightarrow> Some (- ENOMEM, u\<lparr>u4_flags := RTP_PAYLOAD_FLAG_PACKET_LOST, u4_size := 0\<rparr>, s)
      | Some u \<Rightarrow> do {
          fuheader \<leftarrow> rd ptr 1;
          u \<leftarrow> h264_fu_start u ptr fuheader;
          if fuheader AND 0x80 = 0 \<and> u4_size u = 0
          then Some (0, u\<lparr>u4_flags := RTP_PAYLOAD_FLAG_PACKET_LOST\<rparr>, s)
          else do {
            u \<leftarrow> h264_fu_append (u\<lparr>u4_timestamp := timestamp\<rparr>) ptr n bytes;
            h264_fu_end handler u s fuheader timestamp } })"

section \<open>One packet\<close>

definition h264_track :: "rtp_decode_h264_t \<Rightarrow> rtp_packet_t \<Rightarrow> rtp_decode_h264_t" where
  "h264_track u pkt =
     (let u = (if u4_flags u = -1 then u\<lparr>u4_flags := 0, u4_seq := pk_seq pkt - 1\<rparr> else u);
          u = (if pk_seq pkt \<noteq> u4_seq u + 1
               then u\<lparr>u4_flags := RTP_PAYLOAD_FLAG_PACKET_LOST, u4_size := 0\<rparr> else u)
      in u\<lparr>u4_seq := pk_seq pkt\<rparr>)"

definition h264_dispatch ::
  "(nat \<Rightarrow> bool) \<Rightarrow> 's rtp_payload_t \<Rightarrow> rtp_decode_h264_t \<Rightarrow> 's \<Rightarrow> rtp_packet_t \<Rightarrow> (int \<times> rtp_decode_h264_t \<times> 's) option" where
  "h264_dispatch mem handler u s pkt = do {
     nalt \<leftarrow> rd (pk_payload pkt) 0;
     let t = H264_NAL nalt; let payload = pk_payload pkt; let len = pk_payloadlen pkt; let ts = pk_timestamp pkt;
     if t = 0 \<or> t = 31 then Some (0, u, s)
     else if t = 24 \<or> t = 25 then
       let n = (if t = 25 then 3 else 1 :: nat) in
       stap_loop handler ts u s (drop n payload) (len - int n) 0
     else if t = 26 \<or> t = 27 then
       mtap_loop handler ts (if t = 27 then 3 else 2) u s (drop 3 payload) (len - 3) 0
     else if t = 28 then rtp_h264_unpack_fu mem handler u s payload (nat len) ts False
     else if t = 29 then rtp_h264_unpack_fu mem handler u s payload (nat len) ts True
     else do {
       nal \<leftarrow> c_slice payload 0 (nat len);
       let (r, s) = emit_nal handler s nal ts (u4_flags u);
       Some (handled r, u\<lparr>u4_flags := 0, u4_size := 0\<rparr>, s) } }"

definition rtp_h264_unpack_input ::
  "bool \<Rightarrow> (nat \<Rightarrow> bool) \<Rightarrow> 's rtp_payload_t \<Rightarrow> rtp_decode_h264_t \<Rightarrow> 's \<Rightarrow> u8 list \<Rightarrow> int
    \<Rightarrow> (int \<times> rtp_decode_h264_t \<times> 's) option" where
  "rtp_h264_unpack_input nd mem handler u s packet bytes =
     with_packet nd packet bytes u s (\<lambda>pkt.
       if pk_payloadlen pkt < 1 then Some (- EINVAL, u, s)
       else h264_dispatch mem handler (h264_track u pkt) s pkt)"

section \<open>Safety\<close>

definition u4_inv :: "rtp_decode_h264_t \<Rightarrow> bool" where
  "u4_inv u \<longleftrightarrow> hb_wf (u4_ptr u) \<and> u4_size u \<le> length (hb_bytes (u4_ptr u))
     \<and> u4_size u \<le> RTP_PAYLOAD_MAX_SIZE + 1 \<and> hb_cap (u4_ptr u) \<le> grow_size 128000 (RTP_PAYLOAD_MAX_SIZE + 5)"

abbreviation u4_res :: "int \<times> rtp_decode_h264_t \<times> 's \<Rightarrow> bool" where
  "u4_res \<equiv> \<lambda>(r, u, s). u4_inv u"

lemma u4_inv_update [simp]:
  "u4_inv (u\<lparr>u4_flags := f\<rparr>) = u4_inv u" "u4_inv (u\<lparr>u4_seq := q\<rparr>) = u4_inv u"
  "u4_inv (u\<lparr>u4_timestamp := t\<rparr>) = u4_inv u"
  by (simp_all add: u4_inv_def)

lemma u4_inv_reset [simp]: "u4_inv u \<Longrightarrow> u4_inv (u\<lparr>u4_size := 0\<rparr>)"
  by (simp add: u4_inv_def)

lemma u4_inv_create: "u4_inv rtp_h264_unpack_create"
  by (simp add: u4_inv_def rtp_h264_unpack_create_def hb_empty_def hb_wf_def)

lemma stap_loop_total:
  "\<lbrakk>u4_inv u; bytes_left \<le> int (length ptr)\<rbrakk> \<Longrightarrow> ok u4_res (stap_loop handler ts u s ptr bytes_left r)"
proof (induction handler ts u s ptr bytes_left r rule: stap_loop.induct)
  case (1 handler ts u s ptr bytes_left r)
  show ?case
    by (subst stap_loop.simps)
      (use 1 in \<open>auto simp: ok_simps rtp_read_uint16_eq c_slice_Some split: prod.splits\<close>)
qed

lemma mtap_loop_total:
  "\<lbrakk>u4_inv u; bytes_left \<le> int (length ptr)\<rbrakk> \<Longrightarrow> ok u4_res (mtap_loop handler ts n u s ptr bytes_left r)"
proof (induction handler ts n u s ptr bytes_left r rule: mtap_loop.induct)
  case (1 handler ts n u s ptr bytes_left r)
  show ?case
    by (subst mtap_loop.simps)
      (use 1 in \<open>auto simp: ok_simps rtp_read_uint16_eq c_slice_Some split: prod.splits\<close>)
qed

lemma h264_reserve_ok:
  assumes "u4_inv u" "n \<le> bytes" "n \<le> 4" "u4_size u + bytes - n \<le> RTP_PAYLOAD_MAX_SIZE" "h264_reserve mem u bytes n = Some v"
  shows "u4_inv v \<and> u4_size u + bytes - n + 1 \<le> hb_cap (u4_ptr v) \<and> v = u\<lparr>u4_ptr := u4_ptr v\<rparr>
    \<and> take (u4_size u) (hb_bytes (u4_ptr v)) = take (u4_size u) (hb_bytes (u4_ptr u))"
proof (cases "u4_size u + bytes - n + 1 > hb_cap (u4_ptr u)")
  case True
  let ?c = "grow_size 128000 (u4_size u + bytes + 1)"
  have v: "v = u\<lparr>u4_ptr := hb_realloc (u4_ptr u) ?c\<rparr>"
    using True assms(5) by (auto simp: h264_reserve_def Let_def split: if_splits)
  have "u4_size u + bytes + 1 \<le> RTP_PAYLOAD_MAX_SIZE + 5"
    using assms(2-4) by linarith
  then have "?c \<le> grow_size 128000 (RTP_PAYLOAD_MAX_SIZE + 5)"
    by (rule grow_size_mono)
  moreover have "u4_size u + bytes - n + 1 \<le> ?c" "u4_size u \<le> ?c"
    by (rule order_trans [OF _ grow_size_ge]; simp)+
  ultimately show ?thesis
    using assms(1,2) unfolding v by (auto simp: u4_inv_def hb_realloc_def hb_wf_def min_def)
next
  case False
  then show ?thesis
    using assms by (auto simp: h264_reserve_def)
qed

lemma h264_fu_start_ok:
  assumes "u4_inv u" "u4_size u + k + 1 \<le> hb_cap (u4_ptr u)" "u4_size u + k \<le> RTP_PAYLOAD_MAX_SIZE" "0 < length ptr"
  shows "ok (\<lambda>v. u4_inv v \<and> u4_size v + k \<le> hb_cap (u4_ptr v) \<and> u4_size v + k \<le> RTP_PAYLOAD_MAX_SIZE + 1)
    (h264_fu_start u ptr fuheader)"
  using assms by (auto simp: h264_fu_start_def ok_simps u4_inv_def hb_wf_def splice_def)

lemma h264_fu_append_ok:
  assumes "u4_inv u" "u4_size u + (bytes - n) \<le> hb_cap (u4_ptr u)"
    "u4_size u + (bytes - n) \<le> RTP_PAYLOAD_MAX_SIZE + 1" "bytes \<le> length ptr"
  shows "ok u4_inv (h264_fu_append u ptr n bytes)"
  using assms by (auto simp: h264_fu_append_def ok_simps u4_inv_def hb_wf_def splice_def)

lemma h264_fu_end_ok: "u4_inv u \<Longrightarrow> ok u4_res (h264_fu_end handler u s fuheader ts)"
  by (auto simp: h264_fu_end_def ok_simps u4_inv_def split: prod.splits)

lemma h264_fu_total:
  assumes "u4_inv u" "bytes \<le> length ptr"
  shows "ok u4_res (rtp_h264_unpack_fu mem handler u s ptr bytes ts fu_b)"
proof -
  define n where "n = (if fu_b then 4 else 2 :: nat)"
  show ?thesis
  proof (cases "bytes < n \<or> u4_size u + bytes - n > RTP_PAYLOAD_MAX_SIZE \<or> h264_reserve mem u bytes n = None")
    case True
    then show ?thesis
      using assms(1) by (auto simp: rtp_h264_unpack_fu_def Let_def n_def [symmetric])
  next
    case False
    then obtain v where v: "h264_reserve mem u bytes n = Some v" "n \<le> bytes" "u4_size u + bytes - n \<le> RTP_PAYLOAD_MAX_SIZE"
      by auto
    have r: "u4_inv v" "u4_size u + bytes - n + 1 \<le> hb_cap (u4_ptr v)" "v = u\<lparr>u4_ptr := u4_ptr v\<rparr>"
      using h264_reserve_ok [OF assms(1) v(2) _ v(3,1)] by (auto simp: n_def)
    have "u4_size v = u4_size u"
      by (subst r(3)) simp
    then have k: "u4_size v + (bytes - n) + 1 \<le> hb_cap (u4_ptr v)" "u4_size v + (bytes - n) \<le> RTP_PAYLOAD_MAX_SIZE"
      using r(2) v by simp_all
    have "1 < length ptr"
      using v(2) assms(2) by (auto simp: n_def split: if_splits)
    with v assms(2) r(1) k show ?thesis
      unfolding rtp_h264_unpack_fu_def Let_def n_def [symmetric]
      by (auto simp: ok_simps intro!: okI_mono [OF h264_fu_start_ok [where k = "bytes - n"]]
          okI_mono [OF h264_fu_append_ok] h264_fu_end_ok)
  qed
qed

lemma h264_track_inv [simp]: "u4_inv u \<Longrightarrow> u4_inv (h264_track u pkt)"
  by (auto simp: h264_track_def Let_def)

lemma h264_dispatch_total:
  assumes "u4_inv u" "pkt_ok pkt" "0 < pk_payloadlen pkt"
  shows "ok u4_res (h264_dispatch mem handler u s pkt)"
proof -
  have len: "pk_payloadlen pkt \<le> int (length (pk_payload pkt))" "nat (pk_payloadlen pkt) \<le> length (pk_payload pkt)"
    using assms(2) by (auto simp: pkt_ok_def)
  have drops: "pk_payloadlen pkt - int n \<le> int (length (drop n (pk_payload pkt)))" for n
    using len by auto
  show ?thesis
    using assms len drops [of 3] drops [of 1] unfolding h264_dispatch_def Let_def
    by (auto simp: ok_simps intro!: stap_loop_total mtap_loop_total h264_fu_total split: prod.splits)
qed

lemma h264_input_total:
  assumes "u4_inv u" "bytes \<le> int (length packet)"
  shows "ok u4_res (rtp_h264_unpack_input True mem handler u s packet bytes)"
  unfolding rtp_h264_unpack_input_def
  by (rule ok_with_packet) (use assms in \<open>auto simp: ok_simps intro!: h264_dispatch_total\<close>)

interpretation h264_dec: payload_decoder u4_inv rtp_h264_unpack_create "rtp_h264_unpack_input True mem handler"
  for mem handler
  by unfold_locales (auto intro: u4_inv_create h264_input_total)

end
