(* ===== verification/H265_Unpack.thy ===== *)
theory H265_Unpack
  imports Rtp_Payload_Helper
begin

text \<open>
  \<open>lib/librtp/payload/rtp-h265-unpack.c\<close>: from RTP packets to H.265 NAL units (RFC 7798). Single NAL units
  and reassembled fragmentation units are handed out in one piece with a start code in front, the NAL
  units of an aggregation packet without one. The source builds that piece with \<open>alloca\<close>; the limit
  of the stack is not modelled.
\<close>

record rtp_decode_h265_t =
  u5_seq :: u16
  u5_timestamp :: u32
  u5_ptr :: heapbuf
  u5_size :: nat
  u5_flags :: int
  u5_using_donl_field :: bool

definition rtp_h265_unpack_create :: rtp_decode_h265_t where
  "rtp_h265_unpack_create = \<lparr>u5_seq = 0, u5_timestamp = 0, u5_ptr = hb_empty, u5_size = 0, u5_flags = -1,
     u5_using_donl_field = False\<rparr>"

definition H265_TYPE :: "u8 \<Rightarrow> nat" where
  "H265_TYPE v = unat (drop_bit 1 v AND 0x3F)"

section \<open>Aggregation packets\<close>

function h265_ap_loop ::
  "bool \<Rightarrow> 's rtp_payload_t \<Rightarrow> u32 \<Rightarrow> rtp_decode_h265_t \<Rightarrow> 's \<Rightarrow> u8 list \<Rightarrow> int \<Rightarrow> nat \<Rightarrow> int
    \<Rightarrow> (int \<times> rtp_decode_h265_t \<times> 's) option" where
  "h265_ap_loop nd handler timestamp u s ptr bytes n r =
     (if r = 0 \<and> bytes > int n then do {
        let bytes = bytes - (int n - 2);
        ptr \<leftarrow> adv ptr (n - 2);
        len \<leftarrow> rtp_read_uint16 ptr;
        if int (unat len) + 2 > bytes \<or> unat len < 3 then do {
          c_assert nd False;
          Some (- EINVAL, u\<lparr>u5_flags := RTP_PAYLOAD_FLAG_PACKET_LOST, u5_size := 0\<rparr>, s) }
        else do {
          x \<leftarrow> rd ptr 2;
          c_assert nd (H265_TYPE x < 48);
          nal \<leftarrow> c_slice ptr 2 (unat len);
          let (r, s) = packet_cb handler s nal timestamp (u5_flags u);
          h265_ap_loop nd handler timestamp (u\<lparr>u5_flags := 0, u5_size := 0\<rparr>) s
            (drop (unat len + 2) ptr) (bytes - (int (unat len) + 2))
            (2 + (if u5_using_donl_field u then 1 else 0)) r } }
      else Some (handled r, u, s))"
  by pat_completeness auto
termination
  by (relation "measure (\<lambda>(b, h, t, u, s, p, bytes, n, r). nat (bytes + 2))") auto

declare h265_ap_loop.simps [simp del]

definition rtp_h265_unpack_ap ::
  "bool \<Rightarrow> 's rtp_payload_t \<Rightarrow> rtp_decode_h265_t \<Rightarrow> 's \<Rightarrow> u8 list \<Rightarrow> int \<Rightarrow> u32 \<Rightarrow> (int \<times> rtp_decode_h265_t \<times> 's) option" where
  "rtp_h265_unpack_ap nd handler u s ptr bytes timestamp = do {
     p \<leftarrow> adv ptr 2;
     h265_ap_loop nd handler timestamp u s p (bytes - 2) (2 + (if u5_using_donl_field u then 2 else 0)) 0 }"

section \<open>Fragmentation units\<close>

definition h265_reserve ::
  "(nat \<Rightarrow> bool) \<Rightarrow> rtp_decode_h265_t \<Rightarrow> nat \<Rightarrow> nat \<Rightarrow> rtp_decode_h265_t option" where
  "h265_reserve mem u bytes n =
     (if u5_size u + bytes - n + 2 > hb_cap (u5_ptr u) then
        let sz = grow_size 128000 (u5_size u + bytes + 2) in
        if mem sz then Some (u\<lparr>u5_ptr := hb_realloc (u5_ptr u) sz\<rparr>) else None
      else Some u)"

definition h265_fu_start :: "bool \<Rightarrow> rtp_decode_h265_t \<Rightarrow> u8 list \<Rightarrow> u8 \<Rightarrow> rtp_decode_h265_t option" where
  "h265_fu_start nd u ptr fuheader =
     (if fuheader AND 0x80 \<noteq> 0 then do {
        c_assert nd (hb_cap (u5_ptr u) > 2);
        x0 \<leftarrow> rd ptr 0;
        x1 \<leftarrow> rd ptr 1;
        buf \<leftarrow> hb_write (u5_ptr u) 0 [push_bit 1 (fuheader AND 0x3F) OR (x0 AND 0x81)];
        buf \<leftarrow> hb_write buf 1 [x1];
        Some (u\<lparr>u5_size := 2, u5_ptr := buf\<rparr>) }
      else Some u)"

definition h265_fu_append :: "bool \<Rightarrow> rtp_decode_h265_t \<Rightarrow> u8 list \<Rightarrow> nat \<Rightarrow> nat \<Rightarrow> rtp_decode_h265_t option" where
  "h265_fu_append nd u ptr n bytes =
     (if bytes > n then do {
        c_assert nd (hb_cap (u5_ptr u) \<ge> u5_size u + bytes - n);
        src \<leftarrow> c_slice ptr n (bytes - n);
        buf \<leftarrow> hb_write (u5_ptr u) (u5_size u) src;
        Some (u\<lparr>u5_ptr := buf, u5_size := u5_size u + (bytes - n)\<rparr>) }
      else Some u)"

definition h265_fu_end ::
  "'s rtp_payload_t \<Rightarrow> rtp_decode_h265_t \<Rightarrow> 's \<Rightarrow> u8 \<Rightarrow> u32 \<Rightarrow> (int \<times> rtp_decode_h265_t \<times> 's) option" where
  "h265_fu_end handler u s fuheader timestamp =
     (if fuheader AND 0x40 \<noteq> 0 then do {
        nal \<leftarrow> c_slice (hb_bytes (u5_ptr u)) 0 (u5_size u);
        let (r, s) = packet_cb handler s (start_code @ nal) timestamp (u5_flags u);
        Some (handled r, u\<lparr>u5_flags := 0, u5_size := 0\<rparr>, s) }
      else Some (1, u, s))"

definition rtp_h265_unpack_fu ::
  "bool \<Rightarrow> (nat \<Rightarrow> bool) \<Rightarrow> 's rtp_payload_t \<Rightarrow> rtp_decode_h265_t \<Rightarrow> 's \<Rightarrow> u8 list \<Rightarrow> nat \<Rightarrow> u32 \<Rightarrow> (int \<times> rtp_decode_h265_t \<times> 's) option" where
  "rtp_h265_unpack_fu nd mem handler u s ptr bytes timestamp =
     (let n = 1 + (if u5_using_donl_field u then 4 else 2 :: nat) in
      if bytes < n \<or> u5_size u + bytes - n > RTP_PAYLOAD_MAX_SIZE
      then do { c_assert nd False; Some (- EINVAL, u, s) }
      else case h265_reserve mem u bytes n of
        None \<Rightarrow> Some (- ENOMEM, u\<lparr>u5_flags := RTP_PAYLOAD_FLAG_PACKET_LOST, u5_size := 0\<rparr>, s)
      | Some u \<Rightarrow> do {
          fuheader \<leftarrow> rd ptr 2;
          u \<leftarrow> h265_fu_start nd u ptr fuheader;
          if fuheader AND 0x80 = 0 \<and> u5_size u = 0
          then Some (0, u\<lparr>u5_flags := RTP_PAYLOAD_FLAG_PACKET_LOST\<rparr>, s)
          else do {
            u \<leftarrow> h265_fu_append nd (u\<lparr>u5_timestamp := timestamp\<rparr>) ptr n bytes;
            h265_fu_end handler u s fuheader timestamp } })"

section \<open>One packet\<close>

definition h265_track :: "rtp_decode_h265_t \<Rightarrow> rtp_packet_t \<Rightarrow> rtp_decode_h265_t" where
  "h265_track u pkt =
     (let u = (if u5_flags u = -1 then u\<lparr>u5_flags := 0, u5_seq := pk_seq pkt - 1\<rparr> else u);
          u = (if pk_seq pkt \<noteq> u5_seq u + 1
               then u\<lparr>u5_flags := RTP_PAYLOAD_FLAG_PACKET_LOST, u5_size := 0\<rparr> else u)
      in u\<lparr>u5_seq := pk_seq pkt\<rparr>)"

definition h265_dispatch ::
  "bool \<Rightarrow> (nat \<Rightarrow> bool) \<Rightarrow> 's rtp_payload_t \<Rightarrow> rtp_decode_h265_t \<Rightarrow> 's \<Rightarrow> rtp_packet_t \<Rightarrow> (int \<times> rtp_decode_h265_t \<times> 's) option" where
  "h265_dispatch nd mem handler u s pkt = do {
     c_assert nd (pk_payloadlen pkt > 2);
     let ptr = pk_payload pkt; let len = pk_payloadlen pkt; let ts = pk_timestamp pkt;
     x \<leftarrow> rd ptr 0;
     let nal = H265_TYPE x;
     if nal > 50 then Some (0, u, s)
     else if nal = 48 then rtp_h265_unpack_ap nd handler u s ptr len ts
     else if nal = 49 then rtp_h265_unpack_fu nd mem handler u s ptr (nat len) ts
     else if nal = 50 then do { c_assert nd False; Some (0, u, s) }
     else do {
       unit \<leftarrow> c_slice ptr 0 (nat len);
       let (r, s) = packet_cb handler s (start_code @ unit) ts (u5_flags u);
       Some (handled r, u\<lparr>u5_flags := 0, u5_size := 0\<rparr>, s) } }"

definition rtp_h265_unpack_input ::
  "bool \<Rightarrow> (nat \<Rightarrow> bool) \<Rightarrow> 's rtp_payload_t \<Rightarrow> rtp_decode_h265_t \<Rightarrow> 's \<Rightarrow> u8 list \<Rightarrow> int
    \<Rightarrow> (int \<times> rtp_decode_h265_t \<times> 's) option" where
  "rtp_h265_unpack_input nd mem handler u s packet bytes =
     with_packet nd packet bytes u s (\<lambda>pkt.
       if pk_payloadlen pkt < (if u5_using_donl_field u then 5 else 3) then Some (- EINVAL, u, s)
       else h265_dispatch nd mem handler (h265_track u pkt) s pkt)"

section \<open>Safety\<close>

definition u5_inv :: "rtp_decode_h265_t \<Rightarrow> bool" where
  "u5_inv u \<longleftrightarrow> hb_wf (u5_ptr u) \<and> u5_size u \<le> length (hb_bytes (u5_ptr u))
     \<and> u5_size u \<le> RTP_PAYLOAD_MAX_SIZE + 2 \<and> hb_cap (u5_ptr u) \<le> grow_size 128000 (RTP_PAYLOAD_MAX_SIZE + 7)
     \<and> \<not> u5_using_donl_field u"

abbreviation u5_res :: "int \<times> rtp_decode_h265_t \<times> 's \<Rightarrow> bool" where
  "u5_res \<equiv> \<lambda>(r, u, s). u5_inv u"

lemma u5_inv_update [simp]:
  "u5_inv (u\<lparr>u5_flags := f\<rparr>) = u5_inv u" "u5_inv (u\<lparr>u5_seq := q\<rparr>) = u5_inv u"
  "u5_inv (u\<lparr>u5_timestamp := t\<rparr>) = u5_inv u"
  by (simp_all add: u5_inv_def)

lemma u5_inv_reset [simp]: "u5_inv u \<Longrightarrow> u5_inv (u\<lparr>u5_size := 0\<rparr>)"
  by (simp add: u5_inv_def)

lemma u5_inv_create: "u5_inv rtp_h265_unpack_create"
  by (simp add: u5_inv_def rtp_h265_unpack_create_def hb_empty_def hb_wf_def)

lemma u5_inv_donl [simp]: "u5_inv u \<Longrightarrow> u5_using_donl_field u = False"
  by (simp add: u5_inv_def)

lemma h265_ap_loop_total:
  "\<lbrakk>u5_inv u; bytes \<le> int (length ptr); n = 2\<rbrakk> \<Longrightarrow> ok u5_res (h265_ap_loop True handler ts u s ptr bytes n r)"
proof (induction True handler ts u s ptr bytes n r rule: h265_ap_loop.induct)
  case (1 handler ts u s ptr bytes n r)
  show ?case
    by (subst h265_ap_loop.simps)
      (use 1 in \<open>auto simp: ok_simps rtp_read_uint16_eq c_slice_Some adv_Some rd_Some Let_def split: prod.splits\<close>)
qed

lemma h265_reserve_ok:
  assumes "u5_inv u" "n \<le> bytes" "n \<le> 5" "u5_size u + bytes - n \<le> RTP_PAYLOAD_MAX_SIZE" "h265_reserve mem u bytes n = Some v"
  shows "u5_inv v \<and> u5_size u + bytes - n + 2 \<le> hb_cap (u5_ptr v) \<and> v = u\<lparr>u5_ptr := u5_ptr v\<rparr>
    \<and> take (u5_size u) (hb_bytes (u5_ptr v)) = take (u5_size u) (hb_bytes (u5_ptr u))"
proof (cases "u5_size u + bytes - n + 2 > hb_cap (u5_ptr u)")
  case True
  let ?c = "grow_size 128000 (u5_size u + bytes + 2)"
  have v: "v = u\<lparr>u5_ptr := hb_realloc (u5_ptr u) ?c\<rparr>"
    using True assms(5) by (auto simp: h265_reserve_def Let_def split: if_splits)
  have "u5_size u + bytes + 2 \<le> RTP_PAYLOAD_MAX_SIZE + 7"
    using assms(2-4) by linarith
  then have "?c \<le> grow_size 128000 (RTP_PAYLOAD_MAX_SIZE + 7)"
    by (rule grow_size_mono)
  moreover have "u5_size u + bytes - n + 2 \<le> ?c" "u5_size u \<le> ?c"
    by (rule order_trans [OF _ grow_size_ge]; simp)+
  ultimately show ?thesis
    using assms(1,2) unfolding v by (auto simp: u5_inv_def hb_realloc_def hb_wf_def min_def)
next
  case False
  then show ?thesis
    using assms by (auto simp: h265_reserve_def)
qed

lemma h265_fu_start_ok:
  assumes "u5_inv u" "u5_size u + k + 2 \<le> hb_cap (u5_ptr u)" "u5_size u + k \<le> RTP_PAYLOAD_MAX_SIZE" "1 < length ptr"
  shows "ok (\<lambda>v. u5_inv v \<and> u5_size v + k \<le> hb_cap (u5_ptr v) \<and> u5_size v + k \<le> RTP_PAYLOAD_MAX_SIZE + 2)
    (h265_fu_start True u ptr fuheader)"
  using assms by (auto simp: h265_fu_start_def ok_simps u5_inv_def hb_wf_def splice_def)

lemma h265_fu_append_ok:
  assumes "u5_inv u" "u5_size u + (bytes - n) \<le> hb_cap (u5_ptr u)"
    "u5_size u + (bytes - n) \<le> RTP_PAYLOAD_MAX_SIZE + 2" "bytes \<le> length ptr"
  shows "ok u5_inv (h265_fu_append True u ptr n bytes)"
  using assms by (auto simp: h265_fu_append_def ok_simps u5_inv_def hb_wf_def splice_def)

lemma h265_fu_end_ok: "u5_inv u \<Longrightarrow> ok u5_res (h265_fu_end handler u s fuheader ts)"
  by (auto simp: h265_fu_end_def ok_simps u5_inv_def split: prod.splits)

lemma h265_fu_total:
  assumes "u5_inv u" "bytes \<le> length ptr"
  shows "ok u5_res (rtp_h265_unpack_fu True mem handler u s ptr bytes ts)"
proof -
  define n where "n = 1 + (if u5_using_donl_field u then 4 else 2 :: nat)"
  have n: "n = 3"
    using assms(1) by (simp add: n_def)
  note def = rtp_h265_unpack_fu_def Let_def n_def [symmetric]
  show ?thesis
  proof (cases "bytes < 3 \<or> u5_size u + bytes - 3 > RTP_PAYLOAD_MAX_SIZE \<or> h265_reserve mem u bytes 3 = None")
    case True
    then show ?thesis
      using assms(1) unfolding def n by auto
  next
    case False
    then obtain v where v: "h265_reserve mem u bytes 3 = Some v" "3 \<le> bytes" "u5_size u + bytes - 3 \<le> RTP_PAYLOAD_MAX_SIZE"
      by auto
    have r: "u5_inv v" "u5_size u + bytes - 3 + 2 \<le> hb_cap (u5_ptr v)" "v = u\<lparr>u5_ptr := u5_ptr v\<rparr>"
      using h265_reserve_ok [OF assms(1) v(2) _ v(3,1)] by auto
    have "u5_size v = u5_size u"
      by (subst r(3)) simp
    then have k: "u5_size v + (bytes - 3) + 2 \<le> hb_cap (u5_ptr v)" "u5_size v + (bytes - 3) \<le> RTP_PAYLOAD_MAX_SIZE"
      using r(2) v by simp_all
    have "2 < length ptr"
      using v(2) assms(2) by simp
    with v assms r(1) k show ?thesis
      unfolding def n
      by (auto simp: ok_simps intro!: okI_mono [OF h265_fu_start_ok [where k = "bytes - 3"]]
          okI_mono [OF h265_fu_append_ok] h265_fu_end_ok)
  qed
qed

lemma h265_track_inv [simp]: "u5_inv u \<Longrightarrow> u5_inv (h265_track u pkt)"
  by (auto simp: h265_track_def Let_def)

lemma h265_dispatch_total:
  assumes "u5_inv u" "pkt_ok pkt" "2 < pk_payloadlen pkt"
  shows "ok u5_res (h265_dispatch True mem handler u s pkt)"
proof -
  have len: "pk_payloadlen pkt \<le> int (length (pk_payload pkt))" "nat (pk_payloadlen pkt) \<le> length (pk_payload pkt)"
    using assms(2) by (auto simp: pkt_ok_def)
  have "pk_payloadlen pkt - 2 \<le> int (length (drop 2 (pk_payload pkt)))" "2 \<le> length (pk_payload pkt)"
    using len assms(3) by auto
  with assms len show ?thesis
    unfolding h265_dispatch_def rtp_h265_unpack_ap_def Let_def
    by (auto simp: ok_simps intro!: h265_ap_loop_total h265_fu_total split: prod.splits)
qed

lemma h265_input_total:
  assumes "u5_inv u" "bytes \<le> int (length packet)"
  shows "ok u5_res (rtp_h265_unpack_input True mem handler u s packet bytes)"
  unfolding rtp_h265_unpack_input_def
  by (rule ok_with_packet) (use assms in \<open>auto simp: ok_simps intro!: h265_dispatch_total\<close>)

interpretation h265_dec: payload_decoder u5_inv rtp_h265_unpack_create "rtp_h265_unpack_input True mem handler"
  for mem handler
  by unfold_locales (auto intro: u5_inv_create h265_input_total)

end
