(* ===== verification/Rtp_Member.thy ===== *)
theory Rtp_Member
  imports Complex_Main C_Prelude
begin

text \<open>
  \<open>lib/librtp/source/rtp-member.c\<close> and \<open>include/rtp-member.h\<close>: a participant of an RTP session with
  its reference count, its source description items and its reception statistics.

  The list of members and the list of senders of a session share participants, so participants live
  in an explicit heap: a pointer is a number, \<open>free\<close> removes the cell and a dereference of a pointer
  without a cell is undefined behaviour (\<open>None\<close>). Numbers are never used twice, so a pointer kept
  too long is always noticed.

  The environment \<open>E\<close> collects what the code does not determine: whether \<open>NDEBUG\<close> is defined
  (\<open>nd\<close>), the allocator (\<open>mem\<close>), the successive readings of the clock (\<open>rtpclock\<close>), the
  values of conversions that are undefined in C (\<open>bad_cast\<close>) and the content of a variable that is
  read before it is set (\<open>junk\<close>), and the rounding to single precision (\<open>rnd32\<close>). The \<open>double\<close> of
  the source is an exact rational here.
\<close>

record env =
  nd :: bool
  mem :: "nat \<Rightarrow> bool"
  rtpclock :: "nat \<Rightarrow> u64"
  bad_cast :: "rat \<Rightarrow> u32"
  junk :: int
  rnd32 :: "rat \<Rightarrow> rat"

definition RTP_PROBATION :: nat where "RTP_PROBATION = 2"
definition RTP_MEMBER_DROPOUT :: nat where "RTP_MEMBER_DROPOUT = 500"
definition RTP_MEMBER_MISORDER :: nat where "RTP_MEMBER_MISORDER = 100"

text \<open>Sizes of the allocated objects on a 64-bit target.\<close>

definition sizeof_ptr :: nat where "sizeof_ptr = 8"
definition sizeof_rtp_member :: nat where "sizeof_rtp_member = 248"

definition RTCP_SDES_END :: nat where "RTCP_SDES_END = 0"
definition RTCP_SDES_CNAME :: nat where "RTCP_SDES_CNAME = 1"
definition RTCP_SDES_NAME :: nat where "RTCP_SDES_NAME = 2"
definition RTCP_SDES_NOTE :: nat where "RTCP_SDES_NOTE = 7"
definition RTCP_SDES_PRIVATE :: nat where "RTCP_SDES_PRIVATE = 8"

record rtcp_sr_t =
  sr_ssrc :: u32
  sr_ntpmsw :: u32
  sr_ntplsw :: u32
  sr_rtpts :: u32
  sr_spc :: u32
  sr_soc :: u32

record rtcp_sdes_item_t =
  sdes_pt :: u8
  sdes_len :: u8
  sdes_data :: "u8 list option"

record rtp_member =
  m_ref :: int
  m_ssrc :: u32
  m_rtcp_sr :: rtcp_sr_t
  m_sdes :: "rtcp_sdes_item_t list"
  m_rtcp_clock :: u64
  m_rtp_seq :: u16
  m_rtp_timestamp :: u32
  m_rtp_clock :: u64
  m_rtp_packets :: u32
  m_rtp_bytes :: u64
  m_jitter :: rat
  m_rtp_packets0 :: u32
  m_rtp_expected0 :: u32
  m_rtp_probation :: u16
  m_rtp_seq_base :: u16
  m_rtp_seq_bad :: u32
  m_rtp_seq_cycles :: u32

record mheap =
  mh_next :: nat
  mh_cells :: "nat \<Rightarrow> rtp_member option"

type_synonym member_ptr = nat

definition mh_empty :: mheap where
  "mh_empty = \<lparr>mh_next = 0, mh_cells = (\<lambda>_. None)\<rparr>"

definition mh_set :: "member_ptr \<Rightarrow> rtp_member \<Rightarrow> mheap \<Rightarrow> mheap" where
  "mh_set p m h = h\<lparr>mh_cells := (mh_cells h)(p := Some m)\<rparr>"

definition mh_free :: "member_ptr \<Rightarrow> mheap \<Rightarrow> mheap" where
  "mh_free p h = h\<lparr>mh_cells := (mh_cells h)(p := None)\<rparr>"

section \<open>The operations\<close>

definition sdes_zero :: rtcp_sdes_item_t where
  "sdes_zero = \<lparr>sdes_pt = 0, sdes_len = 0, sdes_data = None\<rparr>"

definition member_zero :: rtp_member where
  "member_zero = \<lparr>m_ref = 0, m_ssrc = 0,
     m_rtcp_sr = \<lparr>sr_ssrc = 0, sr_ntpmsw = 0, sr_ntplsw = 0, sr_rtpts = 0, sr_spc = 0, sr_soc = 0\<rparr>,
     m_sdes = replicate 9 sdes_zero, m_rtcp_clock = 0, m_rtp_seq = 0, m_rtp_timestamp = 0,
     m_rtp_clock = 0, m_rtp_packets = 0, m_rtp_bytes = 0, m_jitter = 0, m_rtp_packets0 = 0,
     m_rtp_expected0 = 0, m_rtp_probation = 0, m_rtp_seq_base = 0, m_rtp_seq_bad = 0,
     m_rtp_seq_cycles = 0\<rparr>"

definition rtp_member_create :: "env \<Rightarrow> u32 \<Rightarrow> mheap \<Rightarrow> member_ptr option \<times> mheap" where
  "rtp_member_create E ssrc h =
     (if \<not> mem E sizeof_rtp_member then (None, h)
      else
        (let m = member_zero\<lparr>m_ref := 1, m_ssrc := ssrc, m_jitter := 0,
                   m_rtp_probation := of_nat RTP_PROBATION,
                   m_rtcp_sr := (m_rtcp_sr member_zero)\<lparr>sr_ssrc := ssrc\<rparr>\<rparr>;
             p = mh_next h
         in (Some p, mh_set p m (h\<lparr>mh_next := p + 1\<rparr>))))"

definition rtp_member_addref :: "env \<Rightarrow> member_ptr \<Rightarrow> mheap \<Rightarrow> mheap option" where
  "rtp_member_addref E p h = do {
     m \<leftarrow> mh_cells h p;
     c_assert (nd E) (0 < m_ref m);
     Some (mh_set p (m\<lparr>m_ref := m_ref m + 1\<rparr>) h) }"

definition release_asserts :: "rtcp_sdes_item_t list \<Rightarrow> bool" where
  "release_asserts items =
     list_all (\<lambda>(i, s). sdes_data s \<noteq> None \<longrightarrow> unat (sdes_pt s) = i \<and> 0 < unat (sdes_len s))
       (enumerate 0 items)"

definition rtp_member_release :: "env \<Rightarrow> member_ptr \<Rightarrow> mheap \<Rightarrow> mheap option" where
  "rtp_member_release E p h = do {
     m \<leftarrow> mh_cells h p;
     c_assert (nd E) (0 < m_ref m);
     let m = m\<lparr>m_ref := m_ref m - 1\<rparr>;
     if m_ref m = 0 then do {
       c_assert (nd E) (release_asserts (m_sdes m));
       Some (mh_free p h) }
     else Some (mh_set p m h) }"

definition sdes_realloc :: "nat \<Rightarrow> rtcp_sdes_item_t \<Rightarrow> rtcp_sdes_item_t" where
  "sdes_realloc bytes s =
     (let old = (case sdes_data s of None \<Rightarrow> [] | Some d \<Rightarrow> d)
      in s\<lparr>sdes_data := Some (take bytes old @ replicate (bytes - length old) 0)\<rparr>)"

definition sdes_store :: "nat \<Rightarrow> u8 list \<Rightarrow> nat \<Rightarrow> rtcp_sdes_item_t \<Rightarrow> rtcp_sdes_item_t option" where
  "sdes_store item data bytes s = do {
     s \<leftarrow> (if 0 < bytes then do {
             d \<leftarrow> sdes_data s;
             d \<leftarrow> c_memcpy d 0 data bytes;
             Some (s\<lparr>sdes_data := Some d\<rparr>) }
           else Some s);
     Some (s\<lparr>sdes_pt := of_nat item, sdes_len := of_nat bytes\<rparr>) }"

definition rtp_member_setvalue ::
  "env \<Rightarrow> member_ptr \<Rightarrow> nat \<Rightarrow> u8 list \<Rightarrow> nat \<Rightarrow> mheap \<Rightarrow> (int \<times> mheap) option" where
  "rtp_member_setvalue E p item data bytes h = do {
     c_assert (nd E) (RTCP_SDES_CNAME \<le> item \<and> item \<le> RTCP_SDES_PRIVATE);
     m \<leftarrow> mh_cells h p;
     if length (m_sdes m) \<le> item \<or> 255 < bytes then Some (-1, h)
     else do {
       let sdes = m_sdes m ! item;
       let grow = unat (sdes_len sdes) < bytes;
       if grow \<and> \<not> mem E bytes then Some (-1, h)
       else do {
         c_assert (nd E) (bytes \<le> 255);
         sdes \<leftarrow> sdes_store item data bytes (if grow then sdes_realloc bytes sdes else sdes);
         Some (0, mh_set p (m\<lparr>m_sdes := (m_sdes m)[item := sdes]\<rparr>) h) } } }"

section \<open>Well-formed members and heaps\<close>

definition sdes_wf :: "nat \<Rightarrow> rtcp_sdes_item_t \<Rightarrow> bool" where
  "sdes_wf i s \<longleftrightarrow> (case sdes_data s of None \<Rightarrow> sdes_len s = 0
     | Some d \<Rightarrow> sdes_pt s = of_nat i \<and> unat (sdes_len s) \<le> length d)"

definition member_wf :: "rtp_member \<Rightarrow> bool" where
  "member_wf m \<longleftrightarrow> length (m_sdes m) = 9 \<and> (\<forall>i < 9. sdes_wf i (m_sdes m ! i))
     \<and> sr_ssrc (m_rtcp_sr m) = m_ssrc m"

definition heap_wf :: "mheap \<Rightarrow> bool" where
  "heap_wf h \<longleftrightarrow> (\<forall>p m. mh_cells h p = Some m \<longrightarrow> p < mh_next h \<and> member_wf m)"

lemma mh_set_simps [simp]:
  "mh_cells (mh_set p m h) = (mh_cells h)(p := Some m)" "mh_next (mh_set p m h) = mh_next h"
  "mh_cells (mh_free p h) = (mh_cells h)(p := None)" "mh_next (mh_free p h) = mh_next h"
  by (simp_all add: mh_set_def mh_free_def)

lemma heap_wf_empty [simp]: "heap_wf mh_empty"
  by (simp add: heap_wf_def mh_empty_def)

lemma heap_wf_set: "\<lbrakk>heap_wf h; p < mh_next h; member_wf m\<rbrakk> \<Longrightarrow> heap_wf (mh_set p m h)"
  by (simp add: heap_wf_def)

lemma heap_wf_free: "heap_wf h \<Longrightarrow> heap_wf (mh_free p h)"
  by (simp add: heap_wf_def)

lemma member_wf_zero: "member_wf (member_zero\<lparr>m_ref := r, m_ssrc := s, m_jitter := j,
    m_rtp_probation := q, m_rtcp_sr := (m_rtcp_sr member_zero)\<lparr>sr_ssrc := s\<rparr>\<rparr>)"
  by (simp add: member_wf_def member_zero_def sdes_wf_def sdes_zero_def)

lemma member_wf_update [simp]:
  "member_wf (m\<lparr>m_ref := r\<rparr>) = member_wf m"
  "member_wf (m\<lparr>m_rtcp_clock := c\<rparr>) = member_wf m"
  "member_wf (m\<lparr>m_rtp_clock := c\<rparr>) = member_wf m"
  "member_wf (m\<lparr>m_rtp_timestamp := t\<rparr>) = member_wf m"
  "member_wf (m\<lparr>m_rtp_bytes := b\<rparr>) = member_wf m"
  "member_wf (m\<lparr>m_rtp_packets := k\<rparr>) = member_wf m"
  "member_wf (m\<lparr>m_jitter := j\<rparr>) = member_wf m"
  by (simp_all add: member_wf_def)

lemma sdes_store_ok:
  assumes "sdes_wf i s" "bytes \<le> 255" "bytes \<le> length data"
  shows "ok (\<lambda>s'. sdes_wf i s' \<and> unat (sdes_len s') = bytes \<and> sdes_pt s' = of_nat i
      \<and> (0 < bytes \<longrightarrow> (\<exists>d. sdes_data s' = Some d \<and> take bytes d = take bytes data)))
    (sdes_store i data bytes (if unat (sdes_len s) < bytes then sdes_realloc bytes s else s))"
proof -
  have [simp]: "unat (of_nat bytes :: u8) = bytes"
    using assms(2) by (simp add: unsigned_of_nat take_bit_eq_mod)
  define s1 where "s1 = (if unat (sdes_len s) < bytes then sdes_realloc bytes s else s)"
  show ?thesis
  proof (cases "bytes = 0")
    case True
    then show ?thesis using assms(1)
      by (auto simp: sdes_store_def sdes_wf_def split: option.splits)
  next
    case False
    then have "\<exists>d. sdes_data s1 = Some d \<and> bytes \<le> length d"
      using assms(1) by (cases "sdes_data s") (auto simp: s1_def sdes_realloc_def sdes_wf_def)
    then obtain d where "sdes_data s1 = Some d" "bytes \<le> length d" by blast
    then show ?thesis
      unfolding s1_def [symmetric] using False assms
      by (simp add: sdes_store_def c_memcpy_splice sdes_wf_def splice_0 )
  qed
qed

lemma setvalue_ok:
  assumes "heap_wf h" "mh_cells h p = Some m" "bytes \<le> length data"
    "1 \<le> item" "item \<le> 8" "bytes \<le> 255"
  shows "ok (\<lambda>(r, h'). heap_wf h' \<and> mh_next h' = mh_next h \<and>
      (\<exists>items. length items = 9 \<and> mh_cells h' = (mh_cells h)(p \<mapsto> m\<lparr>m_sdes := items\<rparr>)
        \<and> (r = 0 \<and> 0 < bytes \<longrightarrow> (\<exists>d. sdes_data (items ! item) = Some d \<and> take bytes d = take bytes data))))
    (rtp_member_setvalue E p item data bytes h)"
proof -
  have wf: "member_wf m" "p < mh_next h" using assms(1,2) by (auto simp: heap_wf_def)
  then have item: "length (m_sdes m) = 9" "sdes_wf item (m_sdes m ! item)"
    using assms(5) by (auto simp: member_wf_def)
  obtain s' where s': "sdes_store item data bytes (if unat (sdes_len (m_sdes m ! item)) < bytes
        then sdes_realloc bytes (m_sdes m ! item) else m_sdes m ! item) = Some s'"
      "sdes_wf item s'" "0 < bytes \<longrightarrow> (\<exists>d. sdes_data s' = Some d \<and> take bytes d = take bytes data)"
    using sdes_store_ok [OF item(2) assms(6,3)] by (elim okE) auto
  have wf': "member_wf (m\<lparr>m_sdes := (m_sdes m)[item := s']\<rparr>)"
    using wf(1) s'(2) by (auto simp: member_wf_def) (case_tac "i = item"; simp)
  show ?thesis
  proof (cases "unat (sdes_len (m_sdes m ! item)) < bytes \<and> \<not> mem E bytes")
    case True
    then show ?thesis
      using assms item
      by (auto simp: rtp_member_setvalue_def ok_simps Let_def RTCP_SDES_CNAME_def RTCP_SDES_PRIVATE_def
          intro!: exI [of _ "m_sdes m"])
  next
    case False
    then have "rtp_member_setvalue E p item data bytes h
        = Some (0, mh_set p (m\<lparr>m_sdes := (m_sdes m)[item := s']\<rparr>) h)"
      using assms(2,4-6) item(1) s'(1)
      by (simp add: rtp_member_setvalue_def Let_def c_assert_holds RTCP_SDES_CNAME_def RTCP_SDES_PRIVATE_def)
    then show ?thesis
      using heap_wf_set [OF assms(1) wf(2) wf'] item(1) s'(3) assms(5)
      by (auto intro!: exI [of _ "(m_sdes m)[item := s']"])
  qed
qed

text \<open>An environment for examples.\<close>

definition example_env :: env where
  "example_env = \<lparr>nd = False, mem = (\<lambda>_. True), rtpclock = (\<lambda>k. 1700000000000000 + of_nat (1000 * k)),
     bad_cast = (\<lambda>_. 0), junk = 0, rnd32 = (\<lambda>r. r)\<rparr>"

end
