(* ===== verification/Rtp_Payload.thy ===== *)
theory Rtp_Payload
  imports Rtp_Payload_Helper H264_Unpack H265_Unpack Rtp_Member
begin

text \<open>
  \<open>lib/librtp/payload/rtp-payload.c\<close>: the choice of a payload format by payload type and encoding name
  and the calls through its table of functions (\<open>struct rtp_payload_decode_t\<close>). The tables of all formats
  are an argument of \<open>rtp_payload_decode_create\<close>; the tables of H.264 and H.265 are defined here.
\<close>

section \<open>Choice of the format\<close>

datatype payload_format =
    F_h264 | F_h265 | F_h266 | F_mp4v_es | F_mp4a_latm | F_mpeg4_generic | F_vp8 | F_vp9 | F_av1
  | F_ts | F_ps | F_common | F_mpeg1or2es

definition RTP_PAYLOAD_DYNAMIC :: int where "RTP_PAYLOAD_DYNAMIC = 96"

text \<open>\<open>strcasecmp\<close> in the C locale.\<close>

definition c_tolower :: "char \<Rightarrow> nat" where
  "c_tolower c = (let n = of_char c in if 65 \<le> n \<and> n \<le> 90 then n + 32 else n)"

definition strcaseeq :: "string \<Rightarrow> string \<Rightarrow> bool" where
  "strcaseeq a b \<longleftrightarrow> map c_tolower a = map c_tolower b"

definition find_dynamic :: "string \<Rightarrow> (payload_format \<times> payload_format) option" where
  "find_dynamic e =
     (if strcaseeq e ''H264'' then Some (F_h264, F_h264)
      else if strcaseeq e ''H265'' \<or> strcaseeq e ''HEVC'' then Some (F_h265, F_h265)
      else if strcaseeq e ''H266'' then Some (F_h266, F_h266)
      else if strcaseeq e ''MP4V-ES'' \<or> strcaseeq e ''MPEG4'' then Some (F_mp4v_es, F_mp4v_es)
      else if strcaseeq e ''MP4A-LATM'' then Some (F_mp4a_latm, F_mp4a_latm)
      else if strcaseeq e ''mpeg4-generic'' then Some (F_mpeg4_generic, F_mpeg4_generic)
      else if strcaseeq e ''VP8'' then Some (F_vp8, F_vp8)
      else if strcaseeq e ''VP9'' then Some (F_vp9, F_vp9)
      else if strcaseeq e ''AV1'' then Some (F_av1, F_av1)
      else if strcaseeq e ''MP2P'' \<or> strcaseeq e ''PS'' then Some (F_ts, F_ps)
      else if strcaseeq e ''MP1S'' then Some (F_ts, F_ts)
      else if strcaseeq e ''opus'' \<or> strcaseeq e ''G726-16'' \<or> strcaseeq e ''G726-24'' \<or> strcaseeq e ''G726-32''
        \<or> strcaseeq e ''G726-40'' \<or> strcaseeq e ''G7221'' then Some (F_common, F_common)
      else None)"

definition find_static :: "int \<Rightarrow> (payload_format \<times> payload_format) option" where
  "find_static payload =
     (if payload \<in> {0, 8, 9, 18} then Some (F_common, F_common)
      else if payload \<in> {14, 32} then Some (F_mpeg1or2es, F_mpeg1or2es)
      else if payload = 33 then Some (F_ts, F_ts)
      else if payload = 35 then Some (F_av1, F_av1)
      else None)"

text \<open>The pair is the format of the encoder and that of the decoder; \<open>Some None\<close> is the result -1. A build
  with \<open>DEBUG\<close> also compares the name with the static profiles, which is not modelled.\<close>

definition rtp_payload_find :: "bool \<Rightarrow> int \<Rightarrow> string option \<Rightarrow> (payload_format \<times> payload_format) option option" where
  "rtp_payload_find ndebug payload encoding = do {
     c_assert ndebug (payload \<ge> 0 \<and> payload \<le> 127);
     Some (case encoding of
         Some e \<Rightarrow> if payload \<ge> RTP_PAYLOAD_DYNAMIC then find_dynamic e else find_static payload
       | None \<Rightarrow> find_static payload) }"

section \<open>Calls through the table\<close>

record ('d, 's) rtp_payload_decode_t =
  dec_create :: "env \<Rightarrow> 'd option"
  dec_input :: "env \<Rightarrow> 'd \<Rightarrow> 's \<Rightarrow> u8 list \<Rightarrow> int \<Rightarrow> (int \<times> 'd \<times> 's) option"

record ('d, 's) rtp_payload_delegate_t =
  pd_decoder :: "('d, 's) rtp_payload_decode_t"
  pd_packer :: 'd

definition sizeof_rtp_payload_delegate_t :: nat where "sizeof_rtp_payload_delegate_t = 24"

definition rtp_payload_decode_create ::
  "env \<Rightarrow> (payload_format \<Rightarrow> ('d, 's) rtp_payload_decode_t) \<Rightarrow> int \<Rightarrow> string option
    \<Rightarrow> ('d, 's) rtp_payload_delegate_t option option" where
  "rtp_payload_decode_create E decoders payload encoding =
     (if \<not> mem E sizeof_rtp_payload_delegate_t then Some None
      else do {
        f \<leftarrow> rtp_payload_find (nd E) payload encoding;
        Some (case f of None \<Rightarrow> None
          | Some (e, d) \<Rightarrow> map_option (\<lambda>p. \<lparr>pd_decoder = decoders d, pd_packer = p\<rparr>) (dec_create (decoders d) E)) })"

definition rtp_payload_decode_input ::
  "env \<Rightarrow> ('d, 's) rtp_payload_delegate_t \<Rightarrow> 's \<Rightarrow> u8 list \<Rightarrow> int \<Rightarrow> (int \<times> ('d, 's) rtp_payload_delegate_t \<times> 's) option" where
  "rtp_payload_decode_input E ctx s packet bytes = do {
     (r, p, s) \<leftarrow> dec_input (pd_decoder ctx) E (pd_packer ctx) s packet bytes;
     Some (r, ctx\<lparr>pd_packer := p\<rparr>, s) }"

definition sizeof_rtp_decode_h264_t :: nat where "sizeof_rtp_decode_h264_t = 64"
definition sizeof_rtp_decode_h265_t :: nat where "sizeof_rtp_decode_h265_t = 64"

definition rtp_h264_decode :: "'s rtp_payload_t \<Rightarrow> (rtp_decode_h264_t, 's) rtp_payload_decode_t" where
  "rtp_h264_decode handler =
     \<lparr>dec_create = (\<lambda>E. if mem E sizeof_rtp_decode_h264_t then Some rtp_h264_unpack_create else None),
      dec_input = (\<lambda>E. rtp_h264_unpack_input (nd E) (mem E) handler)\<rparr>"

definition rtp_h265_decode :: "'s rtp_payload_t \<Rightarrow> (rtp_decode_h265_t, 's) rtp_payload_decode_t" where
  "rtp_h265_decode handler =
     \<lparr>dec_create = (\<lambda>E. if mem E sizeof_rtp_decode_h265_t then Some rtp_h265_unpack_create else None),
      dec_input = (\<lambda>E. rtp_h265_unpack_input (nd E) (mem E) handler)\<rparr>"

section \<open>Size of the packets\<close>

text \<open>The global \<open>s_max_packet_size\<close>.\<close>

definition s_max_packet_size :: int where "s_max_packet_size = 1434"

definition rtp_packet_setsize :: "int \<Rightarrow> int" where
  "rtp_packet_setsize bytes = (if bytes < 564 then 564 else bytes)"

lemma find_video [simp]:
  "rtp_payload_find ndebug 96 (Some ''H264'') = Some (Some (F_h264, F_h264))"
  "rtp_payload_find ndebug 96 (Some ''H265'') = Some (Some (F_h265, F_h265))"
  by (simp_all add: rtp_payload_find_def RTP_PAYLOAD_DYNAMIC_def find_dynamic_def strcaseeq_def c_tolower_def Let_def)

end
