(* ===== verification/Rtp_Queue.thy ===== *)
theory Rtp_Queue
  imports Rtp_Packet
begin

text \<open>
  \<open>lib/librtp/source/rtp-queue.c\<close>: the reordering queue between the socket and the depacketizer.
  The ring buffer \<open>items\<close> is a partial map from slots to packets with its capacity beside it, so a
  slot that was never written reads as undefined. \<open>q->free\<close> is reported as the list of packets
  handed back, in the order of the calls. The counter \<open>cycles\<close>, which nothing reads, wraps.

  The lemmas relate the ring buffer to the list it stands for (\<open>q_list\<close>): insertion at a position
  is list insertion whether or not the buffer wraps around or grows, binary search finds the
  insertion point, every operation keeps the invariant and never touches an unwritten slot.
\<close>

section \<open>State\<close>

definition MAX_PACKET :: nat where "MAX_PACKET = 3000"
definition RTP_MISORDER :: nat where "RTP_MISORDER = 300"
definition RTP_DROPOUT :: nat where "RTP_DROPOUT = 1000"
definition RTP_SEQUENTIAL :: nat where "RTP_SEQUENTIAL = 3"
definition RTP_SEQMOD :: nat where "RTP_SEQMOD = 65536"
definition sizeof_rtp_queue_t :: nat where "sizeof_rtp_queue_t = 96"

record 'p rtp_queue_t =
  q_items :: "nat \<Rightarrow> 'p rtp_packet_t_scheme option"
  q_capacity :: nat
  q_size :: nat
  q_pos :: nat
  q_probation :: nat
  q_cycles :: u32
  q_last_seq :: u16
  q_first_seq :: u16
  q_bad_count :: nat
  q_bad_seq :: u16
  q_bad_items :: "nat \<Rightarrow> 'p rtp_packet_t_scheme option"
  q_threshold :: int
  q_frequency :: int

section \<open>Operations\<close>

definition slot :: "'p rtp_queue_t \<Rightarrow> nat \<Rightarrow> 'p rtp_packet_t_scheme option" where
  "slot q i = (if i < q_capacity q then q_items q i else None)"

definition rtp_queue_reset_bad_items :: "'p rtp_queue_t \<Rightarrow> ('p rtp_queue_t \<times> 'p rtp_packet_t_scheme list) option" where
  "rtp_queue_reset_bad_items q = do {
     fr \<leftarrow> those (map (\<lambda>i. if i < 4 then q_bad_items q i else None) [0..<q_bad_count q]);
     Some (q\<lparr>q_bad_seq := 0, q_bad_count := 0\<rparr>, fr) }"

definition rtp_queue_reset :: "'p rtp_queue_t \<Rightarrow> ('p rtp_queue_t \<times> 'p rtp_packet_t_scheme list) option" where
  "rtp_queue_reset q = do {
     (q, fr) \<leftarrow> rtp_queue_reset_bad_items q;
     fr' \<leftarrow> those (map (\<lambda>i. slot q ((q_pos q + i) mod q_capacity q)) [0..<q_size q]);
     Some (q\<lparr>q_pos := 0, q_size := 0, q_probation := RTP_SEQUENTIAL\<rparr>, fr @ fr') }"

definition rtp_queue_init :: "int \<Rightarrow> int \<Rightarrow> 'p rtp_queue_t option" where
  "rtp_queue_init threshold frequency = do {
     (q, fr) \<leftarrow> rtp_queue_reset
        \<lparr>q_items = (\<lambda>_. None), q_capacity = 0, q_size = 0, q_pos = 0, q_probation = 0, q_cycles = 0,
         q_last_seq = 0, q_first_seq = 0, q_bad_count = 0, q_bad_seq = 0, q_bad_items = (\<lambda>_. None),
         q_threshold = 0, q_frequency = 0\<rparr>;
     Some (q\<lparr>q_probation := 1, q_threshold := threshold, q_frequency := frequency\<rparr>) }"

text \<open>\<open>Some None\<close> is the null result.\<close>

definition rtp_queue_create :: "(nat \<Rightarrow> bool) \<Rightarrow> int \<Rightarrow> int \<Rightarrow> 'p rtp_queue_t option option" where
  "rtp_queue_create mem threshold frequency =
     (if \<not> mem sizeof_rtp_queue_t then Some None
      else do { q \<leftarrow> rtp_queue_init threshold frequency; Some (Some q) })"

text \<open>\<open>items\<close> is null exactly when the capacity is 0. The result lists the packets handed back.\<close>

definition rtp_queue_destroy :: "bool \<Rightarrow> 'p rtp_queue_t \<Rightarrow> (int \<times> 'p rtp_packet_t_scheme list) option" where
  "rtp_queue_destroy nd q = do {
     (q, fr) \<leftarrow> rtp_queue_reset q;
     (if q_capacity q \<noteq> 0 then c_assert nd (q_capacity q > 0) else Some ());
     Some (0, fr) }"

function rtp_queue_find_loop :: "bool \<Rightarrow> 'p rtp_queue_t \<Rightarrow> u16 \<Rightarrow> nat \<Rightarrow> nat \<Rightarrow> int option" where
  "rtp_queue_find_loop nd q v l r =
     (if l < r then do {
        let i = (l + r) div 2;
        p \<leftarrow> (if q_capacity q = 0 then None else slot q (i mod q_capacity q));
        let vi = q_last_seq q - pk_seq p;
        if vi = v then Some (-1)
        else if vi < v then rtp_queue_find_loop nd q v l i
        else do { c_assert nd (vi > v); rtp_queue_find_loop nd q v (i + 1) r } }
      else Some (int l))"
  by pat_completeness auto
termination
  by (relation "measure (\<lambda>(nd, q, v, l, r). r - l)") auto

declare rtp_queue_find_loop.simps [simp del]

definition rtp_queue_find :: "bool \<Rightarrow> 'p rtp_queue_t \<Rightarrow> u16 \<Rightarrow> int option" where
  "rtp_queue_find nd q seq =
     rtp_queue_find_loop nd q (q_last_seq q - seq) (q_pos q) (q_pos q + q_size q)"

fun move_items :: "nat \<Rightarrow> nat \<Rightarrow> nat \<Rightarrow> (nat \<Rightarrow> 'p rtp_packet_t_scheme option) \<Rightarrow> nat \<Rightarrow> 'p rtp_packet_t_scheme option" where
  "move_items cap position 0 items = items"
| "move_items cap position (Suc i) items =
     (if Suc i > position
      then move_items cap position i (items(Suc i mod cap := items (i mod cap)))
      else items)"

definition grow :: "bool \<Rightarrow> (nat \<Rightarrow> bool) \<Rightarrow> 'p rtp_queue_t \<Rightarrow> nat \<Rightarrow> (int + 'p rtp_queue_t \<times> nat) option" where
  "grow nd mem q position =
     (if q_size q < q_capacity q then Some (Inr (q, position))
      else if q_size q + 1 > MAX_PACKET then Some (Inl (- E2BIG))
      else
        let capacity = q_capacity q + 250 in
        if \<not> mem (capacity * 8) then Some (Inl (- ENOMEM))
        else if q_pos q + q_size q > q_capacity q then do {
          c_assert nd (q_pos q < q_capacity q);
          if q_capacity q < q_pos q then None
          else Some (Inr (q\<lparr>q_items := (\<lambda>j. if q_pos q + 250 \<le> j \<and> j < q_capacity q + 250
                                              then q_items q (j - 250) else q_items q j),
                         q_pos := q_pos q + 250, q_capacity := capacity\<rparr>, position + 250)) }
        else Some (Inr (q\<lparr>q_capacity := capacity\<rparr>, position)))"

definition rtp_queue_insert ::
  "bool \<Rightarrow> (nat \<Rightarrow> bool) \<Rightarrow> 'p rtp_queue_t \<Rightarrow> nat \<Rightarrow> 'p rtp_packet_t_scheme \<Rightarrow> (int \<times> 'p rtp_queue_t) option" where
  "rtp_queue_insert nd mem q position pkt = do {
     c_assert nd (q_pos q \<le> position \<and> position \<le> q_pos q + q_size q);
     g \<leftarrow> grow nd mem q position;
     (case g of Inl e \<Rightarrow> Some (e, q)
      | Inr (q, position) \<Rightarrow>
          if q_capacity q = 0 then None
          else Some (1, q\<lparr>q_items := (move_items (q_capacity q) position (q_pos q + q_size q) (q_items q))
                              (position mod q_capacity q := Some pkt),
                         q_size := q_size q + 1\<rparr>)) }"

fun insert_bad :: "bool \<Rightarrow> (nat \<Rightarrow> bool) \<Rightarrow> 'p rtp_queue_t \<Rightarrow> nat list \<Rightarrow> 'p rtp_queue_t option" where
  "insert_bad nd mem q [] = Some q"
| "insert_bad nd mem q (i # is) = do {
     p \<leftarrow> (if i < 4 then q_bad_items q i else None);
     (r, q) \<leftarrow> rtp_queue_insert nd mem q (q_pos q + q_size q) p;
     insert_bad nd mem q is }"

definition seq_ahead :: "'p rtp_queue_t \<Rightarrow> u16 \<Rightarrow> bool" where
  "seq_ahead q seq \<longleftrightarrow> (let delta = seq - q_last_seq q in delta > 0 \<and> unat delta < RTP_DROPOUT)"

definition seq_window :: "'p rtp_queue_t \<Rightarrow> u16 \<Rightarrow> bool" where
  "seq_window q seq \<longleftrightarrow> (let delta = seq - q_last_seq q in
     sint delta \<le> 0 \<and> sint delta \<ge> sint (q_first_seq q - q_last_seq q))"

definition seq_late :: "'p rtp_queue_t \<Rightarrow> u16 \<Rightarrow> bool" where
  "seq_late q seq \<longleftrightarrow> unat (q_first_seq q - seq) < RTP_MISORDER"

definition rtp_queue_write ::
  "bool \<Rightarrow> (nat \<Rightarrow> bool) \<Rightarrow> 'p rtp_queue_t \<Rightarrow> 'p rtp_packet_t_scheme \<Rightarrow> (int \<times> 'p rtp_queue_t \<times> 'p rtp_packet_t_scheme list) option" where
  "rtp_queue_write nd mem q pkt =
     (let seq = pk_seq pkt in
      if q_probation q \<noteq> 0 then do {
        (q, fr) \<leftarrow>
          (if q_size q > 0 \<and> unat seq = unat (q_last_seq q) + 1 then
             if q_probation q - 1 = 0 then do {
               p \<leftarrow> slot q (q_pos q);
               Some (q\<lparr>q_probation := 0, q_first_seq := pk_seq p\<rparr>, []) }
             else Some (q\<lparr>q_probation := q_probation q - 1\<rparr>, [])
           else if q_size q = 0 \<and> q_probation q = 1 then
             Some (q\<lparr>q_first_seq := seq, q_probation := q_probation q - 1\<rparr>, [])
           else rtp_queue_reset q);
        let q = q\<lparr>q_last_seq := seq\<rparr>;
        (r, q) \<leftarrow> rtp_queue_insert nd mem q (q_pos q + q_size q) pkt;
        Some (r, q, fr) }
      else if seq_ahead q seq then do {
          let q = (if seq < q_last_seq q then q\<lparr>q_cycles := q_cycles q + of_nat RTP_SEQMOD\<rparr> else q);
          (q, fr) \<leftarrow> rtp_queue_reset_bad_items q;
          let q = q\<lparr>q_last_seq := seq\<rparr>;
          (r, q) \<leftarrow> rtp_queue_insert nd mem q (q_pos q + q_size q) pkt;
          Some (r, q, fr) }
        else if seq_window q seq then do {
          idx \<leftarrow> rtp_queue_find nd q seq;
          if idx = -1 then Some (-1, q, [])
          else do {
            (q, fr) \<leftarrow> rtp_queue_reset_bad_items q;
            (r, q) \<leftarrow> rtp_queue_insert nd mem q (nat idx) pkt;
            Some (r, q, fr) } }
        else if seq_late q seq then Some (-1, q, [])
        else if q_bad_count q > 0 \<and> q_bad_seq q = seq \<and> q_bad_count q \<ge> RTP_SEQUENTIAL then do {
          q \<leftarrow> insert_bad nd mem q [0..<q_bad_count q];
          let q = q\<lparr>q_bad_count := 0, q_last_seq := seq\<rparr>;
          (r, q) \<leftarrow> rtp_queue_insert nd mem q (q_pos q + q_size q) pkt;
          Some (r, q, []) }
        else do {
          (q, fr) \<leftarrow> (if q_bad_count q > 0 \<and> q_bad_seq q = seq then Some (q, [])
                     else rtp_queue_reset_bad_items q);
          if q_bad_count q < 4 then
            Some (1, q\<lparr>q_bad_seq := of_nat ((unat seq + 1) mod (RTP_SEQMOD - 1)),
                       q_bad_items := (q_bad_items q)(q_bad_count q := Some pkt),
                       q_bad_count := q_bad_count q + 1\<rparr>, fr)
          else None })"

definition rtp_queue_pop :: "'p rtp_queue_t \<Rightarrow> u16 \<Rightarrow> 'p rtp_queue_t" where
  "rtp_queue_pop q first =
     q\<lparr>q_first_seq := first, q_size := q_size q - 1, q_pos := (q_pos q + 1) mod q_capacity q\<rparr>"

definition timestamp_gap :: "u32 \<Rightarrow> u32 \<Rightarrow> int \<Rightarrow> u32 option" where
  "timestamp_gap ts_tail ts_head frequency = (let
     threshold = ts_tail - ts_head in
     if threshold = 0x80000000 \<or> frequency = 0 then None
     else let threshold = (if sint threshold < 0 then - threshold else threshold) in
       Some (ucast (((ucast threshold :: u64) * 1000) div of_int frequency)))"

definition rtp_queue_read :: "bool \<Rightarrow> 'p rtp_queue_t \<Rightarrow> ('p rtp_packet_t_scheme option \<times> 'p rtp_queue_t) option" where
  "rtp_queue_read nd q =
     (if q_size q < 1 \<or> q_probation q \<noteq> 0 then Some (None, q) else do {
        c_assert nd (q_pos q < q_capacity q);
        pkt \<leftarrow> slot q (q_pos q);
        if q_threshold q = 0 \<or> q_first_seq q = pk_seq pkt
        then Some (Some pkt, rtp_queue_pop q (q_first_seq q + 1))
        else do {
          tail \<leftarrow> slot q ((q_pos q + q_size q - 1) mod q_capacity q);
          threshold \<leftarrow> timestamp_gap (pk_timestamp tail) (pk_timestamp pkt) (q_frequency q);
          if threshold < of_int (q_threshold q) then Some (None, q)
          else Some (Some pkt, rtp_queue_pop q (pk_seq pkt + 1)) } })"

section \<open>The list a queue stands for\<close>

definition q_list :: "'p rtp_queue_t \<Rightarrow> 'p rtp_packet_t_scheme list" where
  "q_list q = map (\<lambda>k. the (q_items q ((q_pos q + k) mod q_capacity q))) [0..<q_size q]"

definition ring_ok :: "'p rtp_queue_t \<Rightarrow> bool" where
  "ring_ok q \<longleftrightarrow> q_capacity q \<le> MAX_PACKET \<and> q_capacity q mod 250 = 0 \<and> q_size q \<le> q_capacity q
     \<and> (if q_capacity q = 0 then q_pos q = 0 else q_pos q < q_capacity q)
     \<and> (\<forall>k < q_size q. q_items q ((q_pos q + k) mod q_capacity q) \<noteq> None)"

definition bad_ok :: "'p rtp_queue_t \<Rightarrow> bool" where
  "bad_ok q \<longleftrightarrow> q_bad_count q \<le> RTP_SEQUENTIAL \<and> (\<forall>i < q_bad_count q. q_bad_items q i \<noteq> None)"

definition queue_inv :: "'p rtp_queue_t \<Rightarrow> bool" where
  "queue_inv q \<longleftrightarrow> ring_ok q \<and> bad_ok q
     \<and> (q_probation q = 0 \<or> q_probation q = 1 \<and> q_size q = 0 \<and> q_bad_count q = 0)"

lemma length_q_list [simp]: "length (q_list q) = q_size q"
  by (simp add: q_list_def)

lemma q_list_nth: "k < q_size q \<Longrightarrow> q_list q ! k = the (q_items q ((q_pos q + k) mod q_capacity q))"
  by (simp add: q_list_def)

lemma slot_q_list:
  assumes "ring_ok q" "k < q_size q"
  shows "slot q ((q_pos q + k) mod q_capacity q) = Some (q_list q ! k)"
proof -
  have "q_capacity q > 0"
    using assms by (auto simp: ring_ok_def)
  then show ?thesis
    using assms by (auto simp: slot_def q_list_nth ring_ok_def)
qed

lemma slot_head: "ring_ok q \<Longrightarrow> 0 < q_size q \<Longrightarrow> slot q (q_pos q) = Some (q_list q ! 0)"
  using slot_q_list [of q 0] by (auto simp: ring_ok_def split: if_splits)

lemma mod_ring_distinct:
  assumes "(pos + i) mod cap = (pos + j) mod cap" "i < cap" "j < cap"
  shows "i = (j :: nat)"
proof -
  have less: "i = j" if "j \<le> i" "(pos + i) mod cap = (pos + j) mod cap" "i < cap" for i j :: nat
  proof -
    have "cap dvd i - j"
      using that by (simp add: mod_eq_dvd_iff_nat)
    then have "i - j = 0 \<or> cap \<le> i - j"
      by (auto dest: dvd_imp_le)
    with that show "i = j" by linarith
  qed
  show ?thesis
    using less [of i j] less [of j i] assms by (metis linorder_le_cases)
qed

section \<open>Insertion is list insertion\<close>

lemma move_items_other:
  "\<lbrakk>\<forall>j. position < j \<and> j \<le> n \<longrightarrow> x \<noteq> j mod cap\<rbrakk> \<Longrightarrow> move_items cap position n items x = items x"
  by (induction n arbitrary: items) auto

text \<open>The loop moves slot \<open>j - 1\<close> to slot \<open>j\<close> for every \<open>j\<close> above \<open>position\<close>, provided the
  slots from \<open>position\<close> up to \<open>n\<close> are distinct.\<close>

lemma move_items_moved:
  assumes "position < j" "j \<le> n" "n < position + cap"
  shows "move_items cap position n items (j mod cap) = items ((j - 1) mod cap)"
  using assms
proof (induction n arbitrary: items)
  case 0
  then show ?case by simp
next
  case (Suc n)
  have ne: "a mod cap \<noteq> b mod cap" if "position \<le> a" "position \<le> b" "a \<noteq> b" "a \<le> Suc n" "b \<le> Suc n" for a b
  proof
    assume "a mod cap = b mod cap"
    then have "(position + (a - position)) mod cap = (position + (b - position)) mod cap"
      using that by simp
    then have "a - position = b - position"
      by (rule mod_ring_distinct) (use that Suc.prems(3) in linarith)+
    with that show False by linarith
  qed
  show ?case
  proof (cases "j = Suc n")
    case True
    have "move_items cap position n (items(Suc n mod cap := items (n mod cap))) (Suc n mod cap)
        = (items(Suc n mod cap := items (n mod cap))) (Suc n mod cap)"
      by (rule move_items_other) (use ne Suc.prems in auto)
    with True Suc.prems show ?thesis by simp
  next
    case False
    with Suc.prems have "(j - 1) mod cap \<noteq> Suc n mod cap"
      by (intro ne) auto
    with False Suc show ?thesis by simp
  qed
qed

lemma grow_ok:
  assumes "ring_ok q" "q_pos q \<le> position" "position \<le> q_pos q + q_size q"
    and "q_size q < MAX_PACKET" and "q_size q = q_capacity q \<Longrightarrow> mem ((q_capacity q + 250) * 8)"
  obtains q' where "grow nd mem q position = Some (Inr (q', position - q_pos q + q_pos q'))"
    "ring_ok q'" "q_size q' < q_capacity q'" "q_size q' = q_size q" "q_list q' = q_list q"
    "q' = q\<lparr>q_items := q_items q', q_pos := q_pos q', q_capacity := q_capacity q'\<rparr>"
proof (cases "q_size q < q_capacity q")
  case True
  with assms show thesis
    by (intro that [of q]) (simp_all add: grow_def)
next
  case False
  let ?c = "q_capacity q" and ?p = "q_pos q"
  have sz: "q_size q = ?c" and c: "?c mod 250 = 0" "?c \<le> 3000" "?c < 3000"
    using False assms by (auto simp: ring_ok_def MAX_PACKET_def)
  have c250: "?c + 250 \<le> 3000" "(?c + 250) mod 250 = 0"
    using c by presburger+
  show thesis
  proof (cases "?p + q_size q > ?c")
    case wrap: True
    let ?items = "\<lambda>j. if ?p + 250 \<le> j \<and> j < ?c + 250 then q_items q (j - 250) else q_items q j"
    let ?q = "q\<lparr>q_items := ?items, q_pos := ?p + 250, q_capacity := ?c + 250\<rparr>"
    have p: "?p < ?c" "0 < ?p"
      using wrap sz assms(1) by (auto simp: ring_ok_def split: if_splits)
    have at: "?items ((?p + 250 + k) mod (?c + 250)) = q_items q ((?p + k) mod ?c)" if "k < ?c" for k
    proof (cases "?p + k < ?c")
      case True
      then show ?thesis by simp
    next
      case False
      with that p have "(?p + 250 + k) mod (?c + 250) = ?p + k - ?c" "(?p + k) mod ?c = ?p + k - ?c"
        by (simp_all add: mod_if)
      with False p that show ?thesis by auto
    qed
    have "ring_ok ?q"
      using assms(1) p c250 sz at by (simp add: ring_ok_def MAX_PACKET_def)
    moreover have "q_list ?q = q_list q"
      using at sz by (simp add: q_list_def)
    moreover have "grow nd mem q position = Some (Inr (?q, position + 250))"
      using False wrap assms(4,5) sz p by (simp add: grow_def Let_def)
    ultimately show thesis
      using that [of ?q] assms(2) sz p by (simp add: Suc_le_lessD)
  next
    case flat: False
    let ?q = "q\<lparr>q_capacity := ?c + 250\<rparr>"
    have p: "?p = 0"
      using flat sz by simp
    have at: "q_items q (k mod (?c + 250)) = q_items q (k mod ?c)" if "k < ?c" for k
      using that by simp
    have "ring_ok ?q"
      using assms(1) c250 sz p at by (auto simp: ring_ok_def MAX_PACKET_def)
    moreover have "q_list ?q = q_list q"
      using at sz p by (simp add: q_list_def)
    moreover have "grow nd mem q position = Some (Inr (?q, position))"
      using False flat assms(4,5) sz by (simp add: grow_def Let_def)
    ultimately show thesis
      using that [of ?q] sz assms(2) by simp
  qed
qed

lemma rtp_queue_insert_ok:
  assumes "ring_ok q" "q_pos q \<le> position" "position \<le> q_pos q + q_size q"
    and "q_size q < MAX_PACKET" and "q_size q = q_capacity q \<Longrightarrow> mem ((q_capacity q + 250) * 8)"
  obtains q' where "rtp_queue_insert nd mem q position pkt = Some (1, q')" "ring_ok q'"
    "q_list q' = take (position - q_pos q) (q_list q) @ pkt # drop (position - q_pos q) (q_list q)"
    "q' = q\<lparr>q_items := q_items q', q_pos := q_pos q', q_capacity := q_capacity q',
            q_size := q_size q + 1\<rparr>"
proof -
  obtain g where g: "grow nd mem q position = Some (Inr (g, position - q_pos q + q_pos g))"
    "ring_ok g" "q_size g < q_capacity g" "q_size g = q_size q" "q_list g = q_list q"
    "g = q\<lparr>q_items := q_items g, q_pos := q_pos g, q_capacity := q_capacity g\<rparr>"
    using assms by (rule grow_ok)
  define k where "k = position - q_pos q"
  let ?cap = "q_capacity g" and ?pos = "q_pos g" and ?n = "q_size g"
  let ?moved = "move_items ?cap (?pos + k) (?pos + ?n) (q_items g)"
  let ?items = "?moved((?pos + k) mod ?cap := Some pkt)"
  let ?q = "g\<lparr>q_items := ?items, q_size := ?n + 1\<rparr>"
  have k: "k \<le> ?n" and cap: "0 < ?cap"
    using assms(2,3) g(3,4) by (auto simp: k_def)
  have ins: "rtp_queue_insert nd mem q position pkt = Some (1, ?q)"
    using assms(2,3) g(1) cap by (simp add: rtp_queue_insert_def c_assert_def k_def add.commute)
  have ne: "(?pos + i) mod ?cap \<noteq> (?pos + j) mod ?cap" if "i \<noteq> j" "i \<le> ?n" "j \<le> ?n" for i j
    using mod_ring_distinct [of ?pos i ?cap j] that g(3) by auto
  have low: "?items ((?pos + i) mod ?cap) = q_items g ((?pos + i) mod ?cap)" if "i < k" for i
  proof -
    have "?moved ((?pos + i) mod ?cap) = q_items g ((?pos + i) mod ?cap)"
    proof (rule move_items_other, safe)
      fix j
      assume "?pos + k < j" "j \<le> ?pos + ?n" "(?pos + i) mod ?cap = j mod ?cap"
      moreover from this have "?pos + (j - ?pos) = j" "i \<noteq> j - ?pos" "i \<le> ?n" "j - ?pos \<le> ?n"
        using that k by linarith+
      ultimately show False
        using ne [of i "j - ?pos"] by simp
    qed
    with ne [of i k] that k show ?thesis by simp
  qed
  have high: "?items ((?pos + i) mod ?cap) = q_items g ((?pos + (i - 1)) mod ?cap)" if "k < i" "i \<le> ?n" for i
  proof -
    have "?moved ((?pos + i) mod ?cap) = q_items g ((?pos + i - 1) mod ?cap)"
      by (rule move_items_moved) (use that g(3) in auto)
    with ne [of i k] that k show ?thesis by simp
  qed
  have get: "q_items g ((?pos + i) mod ?cap) \<noteq> None" if "i < ?n" for i
    using g(2) that by (simp add: ring_ok_def)
  have some: "?items ((?pos + i) mod ?cap) \<noteq> None" if "i \<le> ?n" for i
  proof (cases i k rule: linorder_cases)
    case less
    then show ?thesis
      unfolding low [OF less] using get [of i] k by linarith
  next
    case greater
    then show ?thesis
      unfolding high [OF greater that] using get [of "i - 1"] that by linarith
  qed simp
  have "ring_ok ?q"
    using g(2,3) some by (auto simp: ring_ok_def)
  moreover have "q_list ?q = take k (q_list q) @ pkt # drop k (q_list q)"
  proof (rule nth_equalityI)
    fix i
    assume "i < length (q_list ?q)"
    then show "q_list ?q ! i = (take k (q_list q) @ pkt # drop k (q_list q)) ! i"
      using low [of i] high [of i] k g(4)
      by (cases i k rule: linorder_cases)
        (simp_all add: q_list_nth nth_append flip: g(5))
  qed (use k g(4) in simp)
  moreover have "?q = q\<lparr>q_items := q_items ?q, q_pos := q_pos ?q, q_capacity := q_capacity ?q, q_size := q_size q + 1\<rparr>"
    by (subst g(6)) (simp add: g(4))
  ultimately show thesis
    using that [of ?q] ins by (simp add: k_def)
qed

lemma rtp_queue_append_ok:
  assumes "ring_ok q" "q_size q < MAX_PACKET" "mem ((q_capacity q + 250) * 8)"
  shows "\<exists>q'. rtp_queue_insert nd mem q (q_pos q + q_size q) pkt = Some (1, q') \<and> ring_ok q' \<and>
    q_list q' = q_list q @ [pkt] \<and>
    q' = q\<lparr>q_items := q_items q', q_pos := q_pos q', q_capacity := q_capacity q', q_size := q_size q + 1\<rparr>"
proof -
  obtain q' where "rtp_queue_insert nd mem q (q_pos q + q_size q) pkt = Some (1, q')" "ring_ok q'"
    "q_list q' = take (q_pos q + q_size q - q_pos q) (q_list q) @ pkt # drop (q_pos q + q_size q - q_pos q) (q_list q)"
    "q' = q\<lparr>q_items := q_items q', q_pos := q_pos q', q_capacity := q_capacity q', q_size := q_size q + 1\<rparr>"
    by (rule rtp_queue_insert_ok [of q "q_pos q + q_size q" mem nd pkt]) (use assms in auto)
  then show ?thesis by (intro exI [of _ q']) simp
qed

lemma rtp_queue_insert_full:
  assumes "ring_ok q" "q_pos q \<le> position" "position \<le> q_pos q + q_size q"
    and "\<not> (q_size q < MAX_PACKET \<and> (q_size q = q_capacity q \<longrightarrow> mem ((q_capacity q + 250) * 8)))"
  shows "rtp_queue_insert nd mem q position pkt
    = Some (if q_size q < MAX_PACKET then - ENOMEM else - E2BIG, q)"
  using assms by (auto simp: rtp_queue_insert_def grow_def Let_def ring_ok_def c_assert_def)

section \<open>Binary search\<close>

definition seq_dist :: "'p rtp_queue_t \<Rightarrow> 'p rtp_packet_t_scheme \<Rightarrow> u16" where
  "seq_dist q p = q_last_seq q - pk_seq p"

definition q_sorted :: "'p rtp_queue_t \<Rightarrow> bool" where
  "q_sorted q \<longleftrightarrow> sorted_wrt (\<lambda>a b. seq_dist q b < seq_dist q a) (q_list q)"

definition splits_at :: "'p rtp_queue_t \<Rightarrow> u16 \<Rightarrow> nat \<Rightarrow> nat \<Rightarrow> bool" where
  "splits_at q v l r \<longleftrightarrow> (\<forall>k < q_size q. (q_pos q + k < l \<longrightarrow> v < seq_dist q (q_list q ! k))
      \<and> (r \<le> q_pos q + k \<longrightarrow> seq_dist q (q_list q ! k) < v))"

lemma q_sorted_nth:
  "q_sorted q \<Longrightarrow> i < j \<Longrightarrow> j < q_size q \<Longrightarrow> seq_dist q (q_list q ! j) < seq_dist q (q_list q ! i)"
  by (simp add: q_sorted_def sorted_wrt_iff_nth_less)

lemma rtp_queue_find_loop_ok:
  assumes "ring_ok q" "q_pos q \<le> l" "l \<le> r" "r \<le> q_pos q + q_size q"
  shows "\<exists>x. rtp_queue_find_loop nd q v l r = Some x \<and>
     (x = -1 \<and> (\<exists>p \<in> set (q_list q). seq_dist q p = v) \<or>
      (\<exists>m. x = int m \<and> l \<le> m \<and> m \<le> r \<and> (q_sorted q \<and> splits_at q v l r \<longrightarrow> splits_at q v m m)))"
  using assms
proof (induction nd q v l r rule: rtp_queue_find_loop.induct)
  case (1 nd q v l r)
  show ?case
  proof (cases "l < r")
    case False
    then have "rtp_queue_find_loop nd q v l r = Some (int l)" "l = r"
      using "1.prems" by (subst rtp_queue_find_loop.simps, simp_all)
    then show ?thesis by auto
  next
    case True
    define i where "i = (l + r) div 2"
    define k where "k = i - q_pos q"
    have i: "l \<le> i" "i < r" and k: "k < q_size q" "i = q_pos q + k"
      using True "1.prems" by (auto simp: i_def k_def)
    have cap: "q_capacity q \<noteq> 0"
      using k(1) "1.prems"(1) by (auto simp: ring_ok_def)
    let ?p = "q_list q ! k"
    have sl: "slot q (i mod q_capacity q) = Some ?p"
      using slot_q_list [OF "1.prems"(1) k(1)] k(2) by simp
    have vi: "q_last_seq q - pk_seq ?p = seq_dist q ?p"
      by (simp add: seq_dist_def)
    have loop: "rtp_queue_find_loop nd q v l r =
        (if seq_dist q ?p = v then Some (-1)
         else if seq_dist q ?p < v then rtp_queue_find_loop nd q v l i
         else rtp_queue_find_loop nd q v (i + 1) r)"
      using True cap sl by (auto simp: rtp_queue_find_loop.simps [of nd q v l r] vi Let_def c_assert_def
          simp flip: i_def)
    have below: "splits_at q v l i" if "q_sorted q" "splits_at q v l r" "seq_dist q ?p < v"
      using that k q_sorted_nth [of q k] unfolding splits_at_def
      by (metis add_le_cancel_left le_neq_implies_less order_less_trans)
    have above: "splits_at q v (i + 1) r" if "q_sorted q" "splits_at q v l r" "v < seq_dist q ?p"
    proof -
      have "v < seq_dist q (q_list q ! k')" if "k' < q_size q" "q_pos q + k' < i + 1" for k'
      proof -
        have "k' < k \<or> k' = k"
          using that k(2) by linarith
        then show ?thesis
          using \<open>v < seq_dist q ?p\<close> q_sorted_nth [OF \<open>q_sorted q\<close>, of k' k] k(1)
          by (auto intro: less_trans)
      qed
      then show ?thesis
        using that(2) by (auto simp: splits_at_def)
    qed
    show ?thesis
    proof (cases "seq_dist q ?p" v rule: linorder_cases)
      case equal
      then show ?thesis
        using loop k(1) by force
    next
      case less
      have "\<exists>x. rtp_queue_find_loop nd q v l i = Some x \<and>
          (x = -1 \<and> (\<exists>p \<in> set (q_list q). seq_dist q p = v) \<or>
           (\<exists>m. x = int m \<and> l \<le> m \<and> m \<le> i \<and> (q_sorted q \<and> splits_at q v l i \<longrightarrow> splits_at q v m m)))"
        unfolding i_def
        by (rule "1.IH"(1) [OF True refl _ refl]) (use less i "1.prems" cap sl vi in \<open>auto simp: i_def\<close>)
      with less loop below i(2) show ?thesis
        by (auto intro: less_imp_le order_trans)
    next
      case greater
      have "\<exists>x. rtp_queue_find_loop nd q v (i + 1) r = Some x \<and>
          (x = -1 \<and> (\<exists>p \<in> set (q_list q). seq_dist q p = v) \<or>
           (\<exists>m. x = int m \<and> i + 1 \<le> m \<and> m \<le> r \<and> (q_sorted q \<and> splits_at q v (i + 1) r \<longrightarrow> splits_at q v m m)))"
        unfolding i_def
        by (rule "1.IH"(2) [OF True refl _ refl]) (use greater i "1.prems" cap sl vi in \<open>auto simp: i_def c_assert_def\<close>)
      moreover have "rtp_queue_find_loop nd q v l r = rtp_queue_find_loop nd q v (i + 1) r"
        using loop greater by (auto dest: less_asym)
      ultimately show ?thesis
        using above [OF _ _ greater] i(1) by fastforce
    qed
  qed
qed

lemma seq_dist_eq: "seq_dist q p = q_last_seq q - s \<longleftrightarrow> pk_seq p = s"
  by (auto simp: seq_dist_def)

text \<open>The result of the search on a sorted queue: the packet is already there, or the position
  separates the packets that are older from those that are newer.\<close>

lemma rtp_queue_find_ok:
  assumes "ring_ok q"
  obtains (dup) "rtp_queue_find nd q s = Some (-1)" "s \<in> pk_seq ` set (q_list q)"
    | (pos) i where "rtp_queue_find nd q s = Some (int (q_pos q + i))" "i \<le> q_size q"
        "q_sorted q \<Longrightarrow> (\<forall>p \<in> set (take i (q_list q)). q_last_seq q - s < seq_dist q p)
           \<and> (\<forall>p \<in> set (drop i (q_list q)). seq_dist q p < q_last_seq q - s)"
proof -
  let ?v = "q_last_seq q - s"
  have start: "splits_at q ?v (q_pos q) (q_pos q + q_size q)"
    by (simp add: splits_at_def)
  from rtp_queue_find_loop_ok [OF assms, of "q_pos q" "q_pos q + q_size q" nd ?v]
  consider "rtp_queue_find nd q s = Some (-1)" "\<exists>p \<in> set (q_list q). seq_dist q p = ?v"
    | m where "rtp_queue_find nd q s = Some (int m)" "q_pos q \<le> m" "m \<le> q_pos q + q_size q"
        "q_sorted q \<longrightarrow> splits_at q ?v m m"
    using start by (auto simp: rtp_queue_find_def)
  then show thesis
  proof cases
    case 1
    then show thesis by (intro dup) (auto simp: seq_dist_eq)
  next
    case (2 m)
    show thesis
    proof (rule pos [of "m - q_pos q"])
      assume "q_sorted q"
      with 2 have sp: "splits_at q ?v m m" by simp
      have "?v < seq_dist q (q_list q ! k)" if "k < m - q_pos q" "k < q_size q" for k
        using sp that by (auto simp: splits_at_def)
      moreover have "seq_dist q (q_list q ! k) < ?v" if "m - q_pos q \<le> k" "k < q_size q" for k
        using sp that by (auto simp: splits_at_def)
      ultimately show "(\<forall>p \<in> set (take (m - q_pos q) (q_list q)). ?v < seq_dist q p)
          \<and> (\<forall>p \<in> set (drop (m - q_pos q) (q_list q)). seq_dist q p < ?v)"
        by (auto simp: in_set_conv_nth)
    qed (use 2 in auto)
  qed
qed

section \<open>Invariant and totality of every operation\<close>

lemma those_map_eq: "\<forall>x \<in> set xs. f x = Some (g x) \<Longrightarrow> those (map f xs) = Some (map g xs)"
  by (induction xs) auto

lemma reset_bad_ok:
  assumes "bad_ok q"
  shows "rtp_queue_reset_bad_items q =
    Some (q\<lparr>q_bad_seq := 0, q_bad_count := 0\<rparr>, map (the \<circ> q_bad_items q) [0..<q_bad_count q])"
proof -
  have "those (map (\<lambda>i. if i < 4 then q_bad_items q i else None) [0..<q_bad_count q])
      = Some (map (the \<circ> q_bad_items q) [0..<q_bad_count q])"
    using assms by (intro those_map_eq) (auto simp: bad_ok_def RTP_SEQUENTIAL_def)
  then show ?thesis
    by (simp add: rtp_queue_reset_bad_items_def)
qed

lemma reset_ok:
  assumes "ring_ok q" "bad_ok q"
  shows "rtp_queue_reset q = Some (q\<lparr>q_bad_seq := 0, q_bad_count := 0, q_pos := 0, q_size := 0,
     q_probation := RTP_SEQUENTIAL\<rparr>, map (the \<circ> q_bad_items q) [0..<q_bad_count q] @ q_list q)"
proof -
  let ?q = "q\<lparr>q_bad_seq := 0, q_bad_count := 0\<rparr>"
  have "those (map (\<lambda>i. slot ?q ((q_pos q + i) mod q_capacity q)) [0..<q_size q]) = Some (q_list q)"
  proof -
    have sl: "slot ?q = slot q"
      by (simp add: slot_def fun_eq_iff)
    have "those (map (\<lambda>i. slot ?q ((q_pos q + i) mod q_capacity q)) [0..<q_size q])
        = Some (map ((!) (q_list q)) [0..<q_size q])"
      using slot_q_list [OF assms(1)] sl by (intro those_map_eq) simp
    then show ?thesis
      using map_nth [of "q_list q"] by simp
  qed
  then show ?thesis
    using reset_bad_ok [OF assms(2)] by (simp add: rtp_queue_reset_def)
qed

lemma ring_ok_cong:
  "\<lbrakk>q_items q' = q_items q; q_capacity q' = q_capacity q; q_size q' = q_size q; q_pos q' = q_pos q\<rbrakk>
   \<Longrightarrow> ring_ok q' = ring_ok q"
  by (simp add: ring_ok_def)

lemma q_list_cong:
  "\<lbrakk>q_items q' = q_items q; q_capacity q' = q_capacity q; q_size q' = q_size q; q_pos q' = q_pos q\<rbrakk>
   \<Longrightarrow> q_list q' = q_list q"
  by (simp add: q_list_def)

text \<open>Insertion keeps everything but the ring, whatever its outcome.\<close>

lemma insert_cases:
  assumes "ring_ok q" "q_pos q \<le> position" "position \<le> q_pos q + q_size q"
  obtains (ok) q' where "rtp_queue_insert nd mem q position pkt = Some (1, q')" "ring_ok q'"
      "q_list q' = take (position - q_pos q) (q_list q) @ pkt # drop (position - q_pos q) (q_list q)"
      "q' = q\<lparr>q_items := q_items q', q_pos := q_pos q', q_capacity := q_capacity q', q_size := q_size q + 1\<rparr>"
    | (full) e where "rtp_queue_insert nd mem q position pkt = Some (e, q)" "e < 0"
      "q_size q = q_capacity q"
proof (cases "q_size q < MAX_PACKET \<and> (q_size q = q_capacity q \<longrightarrow> mem ((q_capacity q + 250) * 8))")
  case True
  with assms show thesis
    by (elim conjE) (erule (2) rtp_queue_insert_ok [where nd = nd and mem = mem and pkt = pkt]; use ok in auto)
next
  case False
  then have "q_size q = q_capacity q"
    using assms(1) by (auto simp: ring_ok_def)
  with False show thesis
    using rtp_queue_insert_full [where mem = mem and nd = nd and pkt = pkt, OF assms False] full
    by (auto simp: ENOMEM_def E2BIG_def split: if_splits)
qed

lemma bad_ok_0 [simp]: "q_bad_count q = 0 \<Longrightarrow> bad_ok q"
  by (simp add: bad_ok_def)

lemma insert_keeps_fields:
  assumes "q' = q\<lparr>q_items := q_items q', q_pos := q_pos q', q_capacity := q_capacity q', q_size := q_size q + 1\<rparr>"
  shows "q_probation q' = q_probation q" "q_bad_count q' = q_bad_count q" "q_bad_items q' = q_bad_items q"
    "q_bad_seq q' = q_bad_seq q" "q_last_seq q' = q_last_seq q" "q_first_seq q' = q_first_seq q"
    "q_threshold q' = q_threshold q" "q_frequency q' = q_frequency q" "q_size q' = q_size q + 1"
    "q_cycles q' = q_cycles q"
  by (subst assms, simp)+

text \<open>Appending is always defined and keeps the invariant of a queue past its probation.\<close>

lemma insert_inv:
  assumes "ring_ok q" "q_pos q \<le> position" "position \<le> q_pos q + q_size q"
  obtains r q' where "rtp_queue_insert nd mem q position pkt = Some (r, q')" "ring_ok q'"
    "q_probation q' = q_probation q" "q_bad_count q' = q_bad_count q" "q_bad_items q' = q_bad_items q"
    "q_last_seq q' = q_last_seq q" "q_threshold q' = q_threshold q" "q_frequency q' = q_frequency q"
  using assms
proof (cases rule: insert_cases [where nd = nd and mem = mem and pkt = pkt])
  case (ok q')
  note f = insert_keeps_fields [OF ok(4)]
  show thesis by (rule that [OF ok(1,2)]) (simp_all add: f)
next
  case (full e)
  show thesis by (rule that [OF full(1) assms(1)]) simp_all
qed

lemma insert_bad_ok:
  assumes "ring_ok q" "\<forall>i \<in> set is. i < 4 \<and> q_bad_items q i \<noteq> None"
  obtains q' where "insert_bad nd mem q is = Some q'" "ring_ok q'" "q_probation q' = q_probation q"
  using assms
proof (induction "is" arbitrary: q thesis)
  case Nil
  then show thesis by simp
next
  case (Cons i "is")
  obtain p where p: "q_bad_items q i = Some p" "i < 4"
    using Cons.prems(3) by auto
  obtain r q1 where q1: "rtp_queue_insert nd mem q (q_pos q + q_size q) p = Some (r, q1)" "ring_ok q1"
    "q_probation q1 = q_probation q" "q_bad_items q1 = q_bad_items q"
    using insert_inv [OF Cons.prems(2), of "q_pos q + q_size q" nd mem p] le_add1 order_refl by metis
  obtain q' where "insert_bad nd mem q1 is = Some q'" "ring_ok q'" "q_probation q' = q_probation q1"
    using Cons.IH [OF _ q1(2)] Cons.prems(3) q1(4) by auto
  with p q1 show thesis
    by (intro Cons.prems(1) [of q']) auto
qed

lemma insert_queue_inv:
  assumes "ring_ok q" "bad_ok q" "q_probation q = 0" "q_pos q \<le> position" "position \<le> q_pos q + q_size q"
  shows "\<exists>r q'. rtp_queue_insert nd mem q position pkt = Some (r, q') \<and> queue_inv q'"
proof -
  obtain r q' where "rtp_queue_insert nd mem q position pkt = Some (r, q')" "ring_ok q'"
    "q_probation q' = q_probation q" "q_bad_count q' = q_bad_count q" "q_bad_items q' = q_bad_items q"
    using insert_inv [OF assms(1,4,5), of nd mem pkt] by metis
  with assms(2,3) show ?thesis
    by (auto simp: queue_inv_def bad_ok_def)
qed

lemmas queue_cong = ring_ok_cong q_list_cong

lemma write_probation:
  assumes "queue_inv q" "q_probation q \<noteq> 0"
  shows "rtp_queue_write nd mem q pkt =
    (case rtp_queue_insert nd mem (q\<lparr>q_first_seq := pk_seq pkt, q_probation := 0, q_last_seq := pk_seq pkt\<rparr>)
        (q_pos q) pkt of None \<Rightarrow> None | Some (r, q') \<Rightarrow> Some (r, q', []))"
  using assms by (simp add: rtp_queue_write_def queue_inv_def Let_def split: option.split)

lemma write_in_order:
  assumes "queue_inv q" "q_probation q = 0" "seq_ahead q (pk_seq pkt)"
  obtains c where "rtp_queue_write nd mem q pkt =
    (case rtp_queue_insert nd mem (q\<lparr>q_cycles := c, q_bad_seq := 0, q_bad_count := 0, q_last_seq := pk_seq pkt\<rparr>)
        (q_pos q + q_size q) pkt of None \<Rightarrow> None
     | Some (r, q') \<Rightarrow> Some (r, q', map (the \<circ> q_bad_items q) [0..<q_bad_count q]))"
proof -
  define c where "c = (if pk_seq pkt < q_last_seq q then q_cycles q + of_nat RTP_SEQMOD else q_cycles q)"
  have c: "(if pk_seq pkt < q_last_seq q then q\<lparr>q_cycles := q_cycles q + of_nat RTP_SEQMOD\<rparr> else q) = q\<lparr>q_cycles := c\<rparr>"
    by (simp add: c_def)
  have "bad_ok (q\<lparr>q_cycles := c\<rparr>)"
    using assms(1) by (simp add: queue_inv_def bad_ok_def)
  from reset_bad_ok [OF this] show thesis
    using assms(2,3) by (intro that [of c]) (simp add: rtp_queue_write_def Let_def c split: option.split)
qed

lemma rtp_queue_write_inv:
  assumes inv: "queue_inv q"
  shows "\<exists>r q' fr. rtp_queue_write nd mem q pkt = Some (r, q', fr) \<and> queue_inv q'"
proof (cases "q_probation q = 0")
  case False
  let ?q = "q\<lparr>q_first_seq := pk_seq pkt, q_probation := 0, q_last_seq := pk_seq pkt\<rparr>"
  have "ring_ok ?q" "bad_ok ?q" "q_pos ?q \<le> q_pos q" "q_pos q \<le> q_pos ?q + q_size ?q"
    using inv by (simp_all add: queue_inv_def ring_ok_def bad_ok_def)
  then show ?thesis
    using write_probation [OF inv False, of nd mem pkt] insert_queue_inv [of ?q "q_pos q" nd mem pkt] by auto
next
  case probation: True
  have ok: "ring_ok q" "bad_ok q"
    using inv by (auto simp: queue_inv_def)
  have clear: "ring_ok (q\<lparr>q_bad_seq := 0, q_bad_count := 0\<rparr>)" "bad_ok (q\<lparr>q_bad_seq := 0, q_bad_count := 0\<rparr>)"
    using ok by (simp_all add: ring_ok_def)
  consider (inorder) "seq_ahead q (pk_seq pkt)"
    | (reorder) "\<not> seq_ahead q (pk_seq pkt)" "seq_window q (pk_seq pkt)"
    | (late) "\<not> seq_ahead q (pk_seq pkt)" "\<not> seq_window q (pk_seq pkt)" "seq_late q (pk_seq pkt)"
    | (jump) "\<not> seq_ahead q (pk_seq pkt)" "\<not> seq_window q (pk_seq pkt)" "\<not> seq_late q (pk_seq pkt)"
    by blast
  then show ?thesis
  proof cases
    case inorder
    obtain c where w: "rtp_queue_write nd mem q pkt =
      (case rtp_queue_insert nd mem (q\<lparr>q_cycles := c, q_bad_seq := 0, q_bad_count := 0, q_last_seq := pk_seq pkt\<rparr>)
        (q_pos q + q_size q) pkt of None \<Rightarrow> None
       | Some (r, q') \<Rightarrow> Some (r, q', map (the \<circ> q_bad_items q) [0..<q_bad_count q]))"
      using write_in_order [OF inv probation inorder, of nd mem] by metis
    let ?q = "q\<lparr>q_cycles := c, q_bad_seq := 0, q_bad_count := 0, q_last_seq := pk_seq pkt\<rparr>"
    have "ring_ok ?q"
      using ok(1) by (simp add: ring_ok_def)
    with w probation show ?thesis
      using insert_queue_inv [of ?q "q_pos q + q_size q" nd mem pkt] by auto
  next
    case reorder
    from ok(1) show ?thesis
    proof (cases rule: rtp_queue_find_ok [where nd = nd and s = "pk_seq pkt"])
      case dup
      with reorder probation inv show ?thesis
        by (auto simp: rtp_queue_write_def Let_def)
    next
      case (pos i)
      let ?q = "q\<lparr>q_bad_seq := 0, q_bad_count := 0\<rparr>"
      have "int (q_pos q + i) \<noteq> -1" by linarith
      then have "rtp_queue_write nd mem q pkt = (case rtp_queue_insert nd mem ?q (q_pos q + i) pkt of None \<Rightarrow> None
          | Some (r, q') \<Rightarrow> Some (r, q', map (the \<circ> q_bad_items q) [0..<q_bad_count q]))"
        using reorder probation pos(1) reset_bad_ok [OF ok(2)]
        by (simp add: rtp_queue_write_def Let_def nat_int_add split: option.split)
      with clear probation pos(2) show ?thesis
        using insert_queue_inv [of ?q "q_pos q + i" nd mem pkt] by auto
    qed
  next
    case late
    with probation inv show ?thesis
      by (auto simp: rtp_queue_write_def Let_def)
  next
    case jump
    show ?thesis
    proof (cases "q_bad_count q > 0 \<and> q_bad_seq q = pk_seq pkt \<and> q_bad_count q \<ge> RTP_SEQUENTIAL")
      case True
      obtain q1 where q1: "insert_bad nd mem q [0..<q_bad_count q] = Some q1" "ring_ok q1" "q_probation q1 = 0"
        using insert_bad_ok [OF ok(1), of "[0..<q_bad_count q]" nd mem] ok(2) probation
        by (auto simp: bad_ok_def RTP_SEQUENTIAL_def)
      let ?q = "q1\<lparr>q_bad_count := 0, q_last_seq := pk_seq pkt\<rparr>"
      have "ring_ok ?q"
        using q1(2) by (simp add: ring_ok_def)
      with True jump probation q1 show ?thesis
        using insert_queue_inv [of ?q "q_pos q1 + q_size q1" nd mem pkt]
        by (auto simp: rtp_queue_write_def Let_def)
    next
      case False
      then show ?thesis
        using jump probation ok reset_bad_ok [OF ok(2)]
        by (cases "q_bad_count q > 0 \<and> q_bad_seq q = pk_seq pkt")
          (auto simp: rtp_queue_write_def Let_def queue_inv_def ring_ok_def bad_ok_def RTP_SEQUENTIAL_def less_Suc_eq)
    qed
  qed
qed

lemma rtp_queue_init_inv:
  "\<exists>q. rtp_queue_init t f = Some q \<and> queue_inv q \<and> q_list q = [] \<and> q_threshold q = t \<and> q_frequency q = f"
  by (simp add: rtp_queue_init_def rtp_queue_reset_def rtp_queue_reset_bad_items_def queue_inv_def
      ring_ok_def q_list_def)

lemma rtp_queue_init_Some:
  "rtp_queue_init t f = Some q \<Longrightarrow>
     queue_inv q \<and> q_list q = [] \<and> q_threshold q = t \<and> q_frequency q = f \<and> q_probation q = 1"
  by (auto simp: rtp_queue_init_def rtp_queue_reset_def rtp_queue_reset_bad_items_def queue_inv_def
      ring_ok_def q_list_def)

section \<open>Reading\<close>

lemma mod_Suc_ring: "(Suc pos mod cap + k) mod cap = (pos + Suc k) mod (cap :: nat)"
  by (metis add_Suc_right add_Suc mod_add_left_eq)

lemma pop_ok:
  assumes "ring_ok q" "0 < q_size q"
  shows "ring_ok (rtp_queue_pop q f)" "q_list (rtp_queue_pop q f) = tl (q_list q)"
proof -
  have cap: "0 < q_capacity q"
    using assms by (auto simp: ring_ok_def)
  have nxt: "q_items q (Suc (q_pos q + k) mod q_capacity q) \<noteq> None" if "k < q_size q - Suc 0" for k
    using assms(1) that unfolding ring_ok_def by (metis One_nat_def add_Suc_right less_diff_conv Suc_eq_plus1)
  from cap assms show "ring_ok (rtp_queue_pop q f)"
    using nxt by (auto simp: ring_ok_def rtp_queue_pop_def mod_Suc_ring)
  show "q_list (rtp_queue_pop q f) = tl (q_list q)"
    using assms(2)
    by (intro nth_equalityI) (auto simp: q_list_nth nth_tl rtp_queue_pop_def mod_Suc_ring)
qed

lemma pop_inv: "queue_inv q \<Longrightarrow> 0 < q_size q \<Longrightarrow> q_probation q = 0 \<Longrightarrow> queue_inv (rtp_queue_pop q f)"
  using pop_ok [of q f] by (auto simp: queue_inv_def bad_ok_def rtp_queue_pop_def)

lemma q_list_Cons: "0 < q_size q \<Longrightarrow> q_list q = (q_list q ! 0) # tl (q_list q)"
  by (metis length_greater_0_conv length_q_list list.collapse hd_conv_nth)

text \<open>Reading takes the head of the list or leaves the queue as it is.\<close>

lemma rtp_queue_read_ok:
  assumes "queue_inv q"
  obtains (empty) "rtp_queue_read nd q = Some (None, q)"
    | (head) f where "rtp_queue_read nd q = Some (Some (q_list q ! 0), rtp_queue_pop q f)"
        "0 < q_size q" "q_probation q = 0"
        "f = (if q_threshold q = 0 \<or> q_first_seq q = pk_seq (q_list q ! 0) then q_first_seq q + 1
              else pk_seq (q_list q ! 0) + 1)"
    | (undefined) "rtp_queue_read nd q = None" "q_threshold q \<noteq> 0" "0 < q_size q"
        "timestamp_gap (pk_timestamp (last (q_list q))) (pk_timestamp (q_list q ! 0)) (q_frequency q) = None"
proof (cases "q_size q < 1 \<or> q_probation q \<noteq> 0")
  case True
  then show thesis by (intro empty) (auto simp: rtp_queue_read_def)
next
  case False
  let ?h = "q_list q ! 0"
  have ok: "ring_ok q"
    using assms by (simp add: queue_inv_def)
  have h: "slot q (q_pos q) = Some ?h"
    using ok False by (intro slot_head) auto
  have t: "slot q ((q_pos q + q_size q - 1) mod q_capacity q) = Some (last (q_list q))"
    using slot_q_list [OF ok, of "q_size q - 1"] False
    by (simp add: last_conv_nth length_greater_0_conv [symmetric] del: length_greater_0_conv)
  have pos: "q_pos q < q_capacity q"
    using ok False by (auto simp: ring_ok_def split: if_splits)
  show thesis
  proof (cases "q_threshold q = 0 \<or> q_first_seq q = pk_seq ?h")
    case True
    then show thesis
      using False h pos by (intro head) (auto simp: rtp_queue_read_def)
  next
    case late: False
    show thesis
    proof (cases "timestamp_gap (pk_timestamp (last (q_list q))) (pk_timestamp ?h) (q_frequency q)")
      case None
      with late False h t pos show thesis
        by (intro undefined) (auto simp: rtp_queue_read_def)
    next
      case (Some g)
      show thesis
      proof (cases "g < of_int (q_threshold q)")
        case True
        with late False h t pos Some show thesis
          by (intro empty) (auto simp: rtp_queue_read_def)
      next
        case no: False
        with late False h t pos Some show thesis
          by (intro head) (auto simp: rtp_queue_read_def)
      qed
    qed
  qed
qed

section \<open>The interface the demuxer relies on\<close>

locale reorder_buffer =
  fixes invar :: "'q \<Rightarrow> bool" and contents :: "'q \<Rightarrow> 'p list"
    and put :: "'q \<Rightarrow> 'p \<Rightarrow> (int \<times> 'q \<times> 'p list) option"
    and get :: "'q \<Rightarrow> ('p option \<times> 'q) option"
  assumes put_total: "invar q \<Longrightarrow> \<exists>r q' fr. put q p = Some (r, q', fr) \<and> invar q'"
    and get_total: "invar q \<Longrightarrow> get q = Some (None, q) \<or>
      (\<exists>p q'. get q = Some (Some p, q') \<and> invar q' \<and> contents q = p # contents q')"
begin

text \<open>Draining a buffer: \<open>get\<close> until it returns nothing, at most \<open>n\<close> times.\<close>

fun drain :: "nat \<Rightarrow> 'q \<Rightarrow> ('p list \<times> 'q) option" where
  "drain 0 q = None"
| "drain (Suc n) q = (case get q of None \<Rightarrow> None | Some (None, q') \<Rightarrow> Some ([], q')
     | Some (Some p, q') \<Rightarrow> map_option (\<lambda>(ps, q''). (p # ps, q'')) (drain n q'))"

lemma drain_total:
  "invar q \<Longrightarrow> length (contents q) < n \<Longrightarrow>
   \<exists>ps q'. drain n q = Some (ps, q') \<and> invar q' \<and> contents q = ps @ contents q'"
proof (induction n arbitrary: q)
  case (Suc n)
  from get_total [OF Suc.prems(1)] show ?case
  proof
    assume "get q = Some (None, q)"
    with Suc.prems show ?thesis by simp
  next
    assume "\<exists>p q'. get q = Some (Some p, q') \<and> invar q' \<and> contents q = p # contents q'"
    then obtain p q' where g: "get q = Some (Some p, q')" "invar q'" "contents q = p # contents q'"
      by blast
    with Suc.prems(2) have "length (contents q') < n" by simp
    from Suc.IH [OF g(2) this] g show ?thesis by auto
  qed
qed simp

end

definition live_queue :: "'p rtp_queue_t \<Rightarrow> bool" where
  "live_queue q \<longleftrightarrow> queue_inv q \<and> q_threshold q = 0"

definition same_config :: "'p rtp_queue_t \<Rightarrow> 'p rtp_queue_t \<Rightarrow> bool" where
  "same_config q q' \<longleftrightarrow> q_threshold q' = q_threshold q \<and> q_frequency q' = q_frequency q"

lemma same_config_trans: "same_config q q' \<Longrightarrow> same_config q' q'' \<Longrightarrow> same_config q q''"
  by (simp add: same_config_def)

lemma insert_config: "rtp_queue_insert nd mem q i p = Some (r, q') \<Longrightarrow> same_config q q'"
  by (auto simp: rtp_queue_insert_def grow_def Let_def bind_Some_conv same_config_def split: if_splits)

lemma reset_bad_config: "rtp_queue_reset_bad_items q = Some (q', fr) \<Longrightarrow> same_config q q'"
  by (auto simp: rtp_queue_reset_bad_items_def bind_Some_conv same_config_def)

lemma reset_config: "rtp_queue_reset q = Some (q', fr) \<Longrightarrow> same_config q q'"
  by (auto simp: rtp_queue_reset_def rtp_queue_reset_bad_items_def bind_Some_conv same_config_def)

lemma insert_bad_config: "insert_bad nd mem q is = Some q' \<Longrightarrow> same_config q q'"
proof (induction "is" arbitrary: q)
  case Nil
  then show ?case by (simp add: same_config_def)
next
  case (Cons i "is")
  then obtain p r q1 where "rtp_queue_insert nd mem q (q_pos q + q_size q) p = Some (r, q1)"
    "insert_bad nd mem q1 is = Some q'"
    by (auto simp: bind_Some_conv)
  with Cons.IH show ?case
    by (blast intro: same_config_trans insert_config)
qed

lemma same_config_simps [simp]:
  "same_config (q\<lparr>q_last_seq := a\<rparr>) q' = same_config q q'"
  "same_config (q\<lparr>q_first_seq := a\<rparr>) q' = same_config q q'"
  "same_config (q\<lparr>q_probation := n\<rparr>) q' = same_config q q'"
  "same_config (q\<lparr>q_cycles := c\<rparr>) q' = same_config q q'"
  "same_config (q\<lparr>q_bad_count := n\<rparr>) q' = same_config q q'"
  "same_config q (q'\<lparr>q_bad_count := n\<rparr>) = same_config q q'"
  "same_config q (q'\<lparr>q_bad_seq := a\<rparr>) = same_config q q'"
  "same_config q (q'\<lparr>q_bad_items := it\<rparr>) = same_config q q'"
  "same_config q q"
  by (simp_all add: same_config_def)

lemma write_config: "rtp_queue_write nd mem q p = Some (r, q', fr) \<Longrightarrow> same_config q q'"
  by (auto simp: rtp_queue_write_def Let_def bind_Some_conv split: if_splits
      dest!: insert_config reset_bad_config reset_config insert_bad_config intro: same_config_trans)

lemma live_queue_put:
  assumes "live_queue q"
  shows "\<exists>r q' fr. rtp_queue_write nd mem q p = Some (r, q', fr) \<and> live_queue q'"
proof -
  obtain r q' fr where w: "rtp_queue_write nd mem q p = Some (r, q', fr)" "queue_inv q'"
    using rtp_queue_write_inv [of q nd mem p] assms by (auto simp: live_queue_def)
  with assms write_config [OF w(1)] show ?thesis
    by (auto simp: live_queue_def same_config_def)
qed

lemma live_queue_get:
  assumes "live_queue q"
  shows "rtp_queue_read nd q = Some (None, q) \<or>
     (\<exists>p q'. rtp_queue_read nd q = Some (Some p, q') \<and> live_queue q' \<and> q_list q = p # q_list q')"
proof -
  have inv: "queue_inv q" and th: "q_threshold q = 0"
    using assms by (auto simp: live_queue_def)
  from inv show ?thesis
  proof (cases rule: rtp_queue_read_ok [where nd = nd])
    case (head f)
    have "live_queue (rtp_queue_pop q f)" "q_list q = q_list q ! 0 # q_list (rtp_queue_pop q f)"
      using pop_inv [OF inv head(2,3), of f] th pop_ok(2) [of q f] q_list_Cons [OF head(2)] inv head(2)
      by (auto simp: live_queue_def rtp_queue_pop_def queue_inv_def)
    with head(1) show ?thesis by blast
  qed (use th in auto)
qed

text \<open>The receiver's queue, created with threshold 0, is a reorder buffer in every build and
  whatever the allocator answers.\<close>

interpretation rq: reorder_buffer live_queue q_list "rtp_queue_write nd mem" "rtp_queue_read nd"
  for nd mem
  by unfold_locales (use live_queue_put live_queue_get in blast)+

section \<open>Order of the queued packets\<close>

lemma q_sorted_append_last:
  assumes "q_sorted q" "q_list q' = q_list q @ [p]" "q_last_seq q' = pk_seq p"
    and gap: "pk_seq p - q_last_seq q > 0"
    and fits: "\<forall>x \<in> set (q_list q). unat (seq_dist q x) + unat (pk_seq p - q_last_seq q) < 65536"
  shows "q_sorted q'"
proof -
  let ?d = "pk_seq p - q_last_seq q"
  have shift: "seq_dist q' x = seq_dist q x + ?d" for x
    using assms(3) by (simp add: seq_dist_def)
  have un: "unat (seq_dist q' x) = unat (seq_dist q x) + unat ?d" if "x \<in> set (q_list q)" for x
    unfolding shift using fits that by (subst unat_add_lem [THEN iffD1]) auto
  have "0 < unat ?d"
    using gap by (simp add: word_less_nat_alt)
  then have "seq_dist q' p < seq_dist q' x" if "x \<in> set (q_list q)" for x
    using un [OF that] assms(3) by (simp add: word_less_nat_alt seq_dist_def)
  moreover have "sorted_wrt (\<lambda>a b. seq_dist q' b < seq_dist q' a) (q_list q)"
    using assms(1) unfolding q_sorted_def
    by (rule sorted_wrt_mono_rel [rotated]) (simp add: word_less_nat_alt un)
  ultimately show ?thesis
    by (simp add: q_sorted_def assms(2) sorted_wrt_append)
qed

lemma q_sorted_distinct: "q_sorted q \<Longrightarrow> distinct (map pk_seq (q_list q))"
  unfolding q_sorted_def
  by (auto simp: sorted_wrt_iff_nth_less distinct_conv_nth seq_dist_def)
    (metis less_irrefl linorder_neqE_nat length_q_list)

text \<open>A packet inside the window of a sorted queue.\<close>

lemma write_reorder:
  assumes "queue_inv q" "q_probation q = 0" "q_sorted q"
    and "\<not> seq_ahead q (pk_seq pkt)" "seq_window q (pk_seq pkt)"
  shows "(pk_seq pkt \<in> pk_seq ` set (q_list q) \<longrightarrow> rtp_queue_write nd mem q pkt = Some (-1, q, [])) \<and>
    (pk_seq pkt \<notin> pk_seq ` set (q_list q) \<longrightarrow>
      (\<exists>r q' fr. rtp_queue_write nd mem q pkt = Some (r, q', fr) \<and> q_sorted q' \<and>
         (if r = 1 then \<exists>xs ys. q_list q = xs @ ys \<and> q_list q' = xs @ pkt # ys
          else r < 0 \<and> q_list q' = q_list q)))"
proof -
  have ok: "ring_ok q" "bad_ok q"
    using assms(1) by (auto simp: queue_inv_def)
  from ok(1) show ?thesis
  proof (cases rule: rtp_queue_find_ok [where nd = nd and s = "pk_seq pkt"])
    case dup
    with assms(2,4,5) show ?thesis
      by (simp add: rtp_queue_write_def Let_def)
  next
    case (pos i)
    let ?q = "q\<lparr>q_bad_seq := 0, q_bad_count := 0\<rparr>"
    from pos(3) assms(3)
    have lo: "\<forall>p \<in> set (take i (q_list q)). seq_dist q pkt < seq_dist q p"
      and hi: "\<forall>p \<in> set (drop i (q_list q)). seq_dist q p < seq_dist q pkt"
      by (auto simp: seq_dist_def)
    have fresh: "pk_seq pkt \<notin> pk_seq ` set (q_list q)"
    proof
      assume "pk_seq pkt \<in> pk_seq ` set (q_list q)"
      then obtain p where "p \<in> set (take i (q_list q)) \<union> set (drop i (q_list q))" "seq_dist q p = seq_dist q pkt"
        by (auto simp: seq_dist_def simp flip: set_append)
      with lo hi show False by auto
    qed
    have w: "rtp_queue_write nd mem q pkt = (case rtp_queue_insert nd mem ?q (q_pos q + i) pkt of None \<Rightarrow> None
        | Some (r, q') \<Rightarrow> Some (r, q', map (the \<circ> q_bad_items q) [0..<q_bad_count q]))"
    proof -
      have "int (q_pos q + i) \<noteq> -1" by linarith
      then show ?thesis
        using assms(2,4,5) pos(1) reset_bad_ok [OF ok(2)]
        by (simp add: rtp_queue_write_def Let_def nat_int_add split: option.split)
    qed
    have q0: "ring_ok ?q" "q_pos ?q \<le> q_pos q + i" "q_pos q + i \<le> q_pos ?q + q_size ?q" "q_list ?q = q_list q"
      using ok(1) pos(2) by (simp_all add: ring_ok_def q_list_def)
    from q0(1-3) show ?thesis
    proof (cases rule: insert_cases [where nd = nd and mem = mem and pkt = pkt])
      case (ok q')
      have l: "q_list q' = take i (q_list q) @ pkt # drop i (q_list q)"
        using ok(3) q0(4) by simp
      have d: "seq_dist q' = seq_dist q"
        using insert_keeps_fields(5) [OF ok(4)] by (simp add: seq_dist_def fun_eq_iff)
      have s: "sorted_wrt (\<lambda>a b. seq_dist q b < seq_dist q a) (take i (q_list q) @ drop i (q_list q))"
        using assms(3) by (simp add: q_sorted_def)
      have "q_sorted q'"
        unfolding q_sorted_def d l using lo hi s unfolding sorted_wrt_append by auto
      moreover have "\<exists>xs ys. q_list q = xs @ ys \<and> q_list q' = xs @ pkt # ys"
        using l append_take_drop_id by metis
      ultimately show ?thesis
        using w ok(1) fresh by auto
    next
      case (full e)
      then have "e \<noteq> 1" by simp
      with full w fresh assms(3) q0(4) show ?thesis
        by (auto simp: q_sorted_def seq_dist_def)
    qed
  qed
qed

definition test_packet :: "u16 \<Rightarrow> u32 \<Rightarrow> rtp_packet_t" where
  "test_packet s t = \<lparr>pk_rtp = \<lparr>h_v = 2, h_p = 0, h_x = 0, h_cc = 0, h_m = 0, h_pt = 96, h_seq = s,
     h_timestamp = t, h_ssrc = 1\<rparr>, pk_csrc = replicate 16 0, pk_extension = [], pk_extlen = 0,
     pk_extprofile = 0, pk_payload = [], pk_payloadlen = 0\<rparr>"

lemma test_packet_fields [simp]: "pk_seq (test_packet s t) = s" "pk_timestamp (test_packet s t) = t"
  by (simp_all add: test_packet_def)

text \<open>A queue that holds the packets 5 and 8 and waits for 6.\<close>

definition sample_queue :: "unit rtp_queue_t" where
  "sample_queue = \<lparr>q_items = [0 \<mapsto> test_packet 5 0, 1 \<mapsto> test_packet 8 0], q_capacity = 250, q_size = 2,
     q_pos = 0, q_probation = 0, q_cycles = 0, q_last_seq = 8, q_first_seq = 5, q_bad_count = 0,
     q_bad_seq = 0, q_bad_items = Map.empty, q_threshold = 0, q_frequency = 90000\<rparr>"

lemma sample_queue_list [simp]: "q_list sample_queue = [test_packet 5 0, test_packet 8 0]"
  by (simp add: q_list_def sample_queue_def upt_rec)

lemma sample_queue_facts [simp]: "ring_ok sample_queue" "queue_inv sample_queue" "q_sorted sample_queue"
  "q_probation sample_queue = 0" "q_size sample_queue = 2" "q_pos sample_queue = 0"
  "q_last_seq sample_queue = 8" "q_first_seq sample_queue = 5" "seq_dist sample_queue p = 8 - pk_seq p"
proof -
  have "\<forall>k<2. q_items sample_queue k \<noteq> None"
    by (auto simp: sample_queue_def less_2_cases_iff)
  then show "ring_ok sample_queue" "queue_inv sample_queue"
    by (auto simp: queue_inv_def ring_ok_def bad_ok_def sample_queue_def MAX_PACKET_def)
  show "q_sorted sample_queue"
    by (simp add: q_sorted_def) (simp add: seq_dist_def sample_queue_def)
qed (simp_all add: sample_queue_def seq_dist_def)

section \<open>Properties\<close>

text \<open>
  C19: Writing a packet into a queue whose invariant holds is always defined (no slot outside the ring
  is read or written, no unwritten slot is used, no assertion fails), in every build and whatever
  the allocator answers, and keeps the invariant. In particular the capacity never exceeds
  \<open>MAX_PACKET\<close>, at most \<open>RTP_SEQUENTIAL\<close> packets wait as suspects, and the probation branch for a
  non-empty queue is unreachable.
\<close>

theorem queue_write_total:
  assumes "queue_inv q"
  shows "\<exists>r q' fr. rtp_queue_write nd mem q pkt = Some (r, q', fr) \<and> queue_inv q'"
  using assms by (rule rtp_queue_write_inv)

theorem queue_write_total_witness:
  "queue_inv sample_queue \<and>
   (\<exists>r q' fr. rtp_queue_write False (\<lambda>_. True) sample_queue (test_packet 6 0) = Some (r, q', fr) \<and> queue_inv q')"
  using queue_write_total [of sample_queue False "\<lambda>_. True" "test_packet 6 0"] by simp

text \<open>
  C17: \<open>rtp_queue_insert\<close> refines insertion into a list: at any position of the ring, also when the
  buffer wraps around and has to grow, the packets before and after the position keep their
  order and the new packet stands between them. When no slot can be had the queue is unchanged
  and an error is returned.
\<close>

theorem queue_insert_refines:
  assumes "ring_ok q" "i \<le> q_size q"
  shows "\<exists>r q'. rtp_queue_insert nd mem q (q_pos q + i) pkt = Some (r, q') \<and>
    (if q_size q < MAX_PACKET \<and> (q_size q = q_capacity q \<longrightarrow> mem ((q_capacity q + 250) * 8))
     then r = 1 \<and> ring_ok q' \<and> q_list q' = take i (q_list q) @ pkt # drop i (q_list q)
     else r < 0 \<and> q' = q)"
proof (cases "q_size q < MAX_PACKET \<and> (q_size q = q_capacity q \<longrightarrow> mem ((q_capacity q + 250) * 8))")
  case True
  obtain q' where "rtp_queue_insert nd mem q (q_pos q + i) pkt = Some (1, q')" "ring_ok q'"
    "q_list q' = take (q_pos q + i - q_pos q) (q_list q) @ pkt # drop (q_pos q + i - q_pos q) (q_list q)"
    by (rule rtp_queue_insert_ok [of q "q_pos q + i" mem nd pkt]) (use assms True in auto)
  with True show ?thesis by auto
next
  case False
  have "rtp_queue_insert nd mem q (q_pos q + i) pkt
      = Some (if q_size q < MAX_PACKET then - ENOMEM else - E2BIG, q)"
    by (rule rtp_queue_insert_full) (use assms False in auto)
  with False show ?thesis
    by (auto simp: ENOMEM_def E2BIG_def)
qed

theorem queue_insert_refines_witness:
  "\<exists>q'. rtp_queue_insert False (\<lambda>_. True) sample_queue 1 (test_packet 6 0) = Some (1, q') \<and>
     q_list q' = [test_packet 5 0, test_packet 6 0, test_packet 8 0]"
  using queue_insert_refines [of sample_queue 1 False "\<lambda>_. True" "test_packet 6 0"]
  by (auto simp: MAX_PACKET_def)



text \<open>
  A packet ahead of \<open>last_seq\<close> by less than \<open>RTP_DROPOUT\<close> is appended, and the queue stays in
  sequence order as long as the span from its oldest packet to the new one is less than the
  sequence number space.
\<close>

theorem queue_append_sorted:
  assumes "queue_inv q" "q_probation q = 0" "q_sorted q" "seq_ahead q (pk_seq pkt)"
    and "\<forall>x \<in> set (q_list q). unat (seq_dist q x) + unat (pk_seq pkt - q_last_seq q) < 65536"
    and "q_size q < MAX_PACKET" "\<forall>n. mem n"
  shows "\<exists>q' fr. rtp_queue_write nd mem q pkt = Some (1, q', fr) \<and> queue_inv q' \<and> q_sorted q' \<and>
     q_list q' = q_list q @ [pkt] \<and> q_last_seq q' = pk_seq pkt"
proof -
  obtain c where w: "rtp_queue_write nd mem q pkt =
    (case rtp_queue_insert nd mem (q\<lparr>q_cycles := c, q_bad_seq := 0, q_bad_count := 0, q_last_seq := pk_seq pkt\<rparr>)
        (q_pos q + q_size q) pkt of None \<Rightarrow> None
     | Some (r, q') \<Rightarrow> Some (r, q', map (the \<circ> q_bad_items q) [0..<q_bad_count q]))"
    using write_in_order [OF assms(1,2,4), of nd mem] by metis
  let ?q = "q\<lparr>q_cycles := c, q_bad_seq := 0, q_bad_count := 0, q_last_seq := pk_seq pkt\<rparr>"
  have "ring_ok ?q" and l: "q_list ?q = q_list q"
    using assms(1) by (simp_all add: queue_inv_def ring_ok_def q_list_def)
  then obtain q' where q': "rtp_queue_insert nd mem ?q (q_pos q + q_size q) pkt = Some (1, q')"
    "q_list q' = q_list q @ [pkt]" and
    f: "q' = ?q\<lparr>q_items := q_items q', q_pos := q_pos q', q_capacity := q_capacity q', q_size := q_size ?q + 1\<rparr>"
    using rtp_queue_append_ok [of ?q mem nd pkt] assms(6,7) by auto
  have lst: "q_last_seq q' = pk_seq pkt"
    using insert_keeps_fields(5) [OF f] by simp
  moreover have "q_sorted q'"
    using assms(3,4,5) q' lst by (intro q_sorted_append_last [of q q' pkt]) (auto simp: seq_ahead_def Let_def)
  moreover have "queue_inv q'"
    using rtp_queue_write_inv [OF assms(1), of nd mem pkt] w q' by simp
  ultimately show ?thesis
    using w q' lst by simp
qed

theorem queue_append_sorted_witness:
  "\<exists>q' fr. rtp_queue_write False (\<lambda>_. True) sample_queue (test_packet 10 0) = Some (1, q', fr) \<and> q_sorted q' \<and>
     q_list q' = [test_packet 5 0, test_packet 8 0, test_packet 10 0]"
proof -
  have "seq_ahead sample_queue (pk_seq (test_packet 10 0))"
    by (simp add: seq_ahead_def RTP_DROPOUT_def Let_def)
  from queue_append_sorted [OF sample_queue_facts(2,4,3) this, of "\<lambda>_. True" False]
  show ?thesis by (auto simp: MAX_PACKET_def)
qed

lemma rtp_queue_read_head:
  assumes "queue_inv q" "rtp_queue_read nd q = Some (out, q')"
  shows "queue_inv q' \<and>
    (case out of None \<Rightarrow> q' = q \<and> (q_threshold q = 0 \<and> q_probation q = 0 \<longrightarrow> q_list q = [])
     | Some p \<Rightarrow> q_list q = p # q_list q')"
  using assms(1)
proof (cases rule: rtp_queue_read_ok [where nd = nd])
  case empty
  have "q_size q < 1" if "q_threshold q = 0" "q_probation q = 0"
  proof (rule ccontr)
    assume "\<not> q_size q < 1"
    moreover from this have "slot q (q_pos q) = Some (q_list q ! 0)"
      using assms(1) by (intro slot_head) (auto simp: queue_inv_def)
    ultimately show False
      using that empty by (simp add: rtp_queue_read_def bind_Some_conv)
  qed
  with empty assms show ?thesis by (auto simp: q_list_def)
next
  case (head f)
  with assms have "out = Some (q_list q ! 0)" "q' = rtp_queue_pop q f" by simp_all
  with head pop_inv [OF assms(1) head(2,3), of f] pop_ok(2) [of q f] q_list_Cons [OF head(2)] assms(1)
  show ?thesis by (simp add: queue_inv_def)
next
  case undefined
  with assms(2) show ?thesis by simp
qed

text \<open>
  Reading never invents or reorders packets: it takes the oldest packet of the queue or takes
  nothing, and keeps the invariant. For the queue of the receiver (threshold 0) it always takes
  the oldest packet when there is one. Reading is undefined only for another threshold, when the
  timestamps of the oldest and the newest packet are exactly \<open>2^31\<close> apart or the clock rate is 0.
\<close>

theorem queue_read_head:
  assumes "queue_inv q"
  shows "(rtp_queue_read nd q = None \<longrightarrow> q_threshold q \<noteq> 0 \<and>
      (pk_timestamp (last (q_list q)) - pk_timestamp (q_list q ! 0) = 0x80000000 \<or> q_frequency q = 0)) \<and>
    (\<forall>out q'. rtp_queue_read nd q = Some (out, q') \<longrightarrow> queue_inv q' \<and>
      (case out of None \<Rightarrow> q' = q \<and> (q_threshold q = 0 \<and> q_probation q = 0 \<longrightarrow> q_list q = [])
       | Some p \<Rightarrow> q_list q = p # q_list q'))"
proof (intro conjI impI)
  assume "rtp_queue_read nd q = None"
  with assms show "q_threshold q \<noteq> 0"
    "pk_timestamp (last (q_list q)) - pk_timestamp (q_list q ! 0) = 0x80000000 \<or> q_frequency q = 0"
    by (auto elim!: rtp_queue_read_ok [where nd = nd] simp: timestamp_gap_def Let_def split: if_splits)
qed (use rtp_queue_read_head [OF assms] in blast)

theorem queue_read_head_witness:
  "\<exists>out q'. rtp_queue_read False sample_queue = Some (out, q') \<and> out = Some (test_packet 5 0) \<and>
     q_list q' = [test_packet 8 0]"
proof -
  have "rtp_queue_read False sample_queue = Some (Some (test_packet 5 0), rtp_queue_pop sample_queue 6)"
    by (simp add: rtp_queue_read_def slot_def sample_queue_def)
  with queue_read_head [OF sample_queue_facts(2), of False] show ?thesis by simp
qed

section \<open>Concrete runs\<close>

fun write_read :: "bool \<Rightarrow> 'p rtp_queue_t \<Rightarrow> 'p rtp_packet_t_scheme list \<Rightarrow> ((int \<times> u16 option) list \<times> 'p rtp_queue_t) option" where
  "write_read nd q [] = Some ([], q)"
| "write_read nd q (p # ps) = do {
     (r, q, fr) \<leftarrow> rtp_queue_write nd (\<lambda>_. True) q p;
     (out, q) \<leftarrow> rtp_queue_read nd q;
     (rs, q) \<leftarrow> write_read nd q ps;
     Some ((r, map_option (\<lambda>p. pk_seq p) out) # rs, q) }"

definition run_queue :: "int \<Rightarrow> u16 list \<Rightarrow> (int \<times> u16 option) list option" where
  "run_queue threshold seqs = do {
     q \<leftarrow> rtp_queue_init threshold 90000;
     (rs, q) \<leftarrow> write_read False q (map (\<lambda>s. test_packet s 0) seqs);
     Some rs }"

lemmas queue_run_simps = run_queue_def rtp_queue_init_def rtp_queue_reset_def
  rtp_queue_reset_bad_items_def rtp_queue_write_def rtp_queue_read_def rtp_queue_insert_def grow_def
  rtp_queue_pop_def slot_def seq_ahead_def seq_window_def seq_late_def rtp_queue_find_def
  rtp_queue_find_loop.simps MAX_PACKET_def RTP_DROPOUT_def RTP_MISORDER_def RTP_SEQUENTIAL_def
  RTP_SEQMOD_def Let_def

definition caught_up :: "'p rtp_queue_t \<Rightarrow> bool" where
  "caught_up q \<longleftrightarrow> live_queue q \<and> q_probation q = 0 \<and> q_list q = [] \<and> q_first_seq q = q_last_seq q + 1"

fun consecutive :: "u16 \<Rightarrow> 'p rtp_packet_t_scheme list \<Rightarrow> bool" where
  "consecutive s [] = True"
| "consecutive s (p # ps) = (pk_seq p = s \<and> consecutive (s + 1) ps)"

text \<open>A queue holding one packet whose sequence number is due hands it out.\<close>

lemma read_single:
  assumes "live_queue q" "q_probation q = 0" "q_list q = [p]" "q_first_seq q = pk_seq p" "q_last_seq q = pk_seq p"
  shows "\<exists>q'. rtp_queue_read nd q = Some (Some p, q') \<and> caught_up q' \<and> q_last_seq q' = pk_seq p"
proof -
  have inv: "queue_inv q" and th: "q_threshold q = 0"
    using assms(1) by (auto simp: live_queue_def)
  have sz: "q_size q = 1"
    using assms(3) length_q_list [of q] by simp
  from inv show ?thesis
  proof (cases rule: rtp_queue_read_ok [where nd = nd])
    case empty
    have "slot q (q_pos q) = Some p"
      using slot_head [of q] inv sz assms(3) by (simp add: queue_inv_def)
    with empty sz assms(2) th show ?thesis
      by (simp add: rtp_queue_read_def bind_Some_conv)
  next
    case (head f)
    have "q_list (rtp_queue_pop q f) = []"
      using pop_ok(2) [of q f] inv sz assms(3) by (simp add: queue_inv_def)
    moreover have "live_queue (rtp_queue_pop q f)"
      using pop_inv [OF inv head(2,3), of f] th by (simp add: live_queue_def rtp_queue_pop_def)
    ultimately show ?thesis
      using head th assms(2-5) by (simp add: caught_up_def rtp_queue_pop_def)
  qed (use th in simp)
qed

lemma caught_up_step:
  assumes "caught_up q" "pk_seq p = q_last_seq q + 1"
  shows "\<exists>q' q'' fr. rtp_queue_write nd (\<lambda>_. True) q p = Some (1, q', fr) \<and>
     rtp_queue_read nd q' = Some (Some p, q'') \<and> caught_up q'' \<and> q_last_seq q'' = pk_seq p"
proof -
  have inv: "queue_inv q" and pr: "q_probation q = 0" and e: "q_list q = []" and th: "q_threshold q = 0"
    using assms(1) by (auto simp: caught_up_def live_queue_def)
  have "seq_ahead q (pk_seq p)"
    using assms(2) by (simp add: seq_ahead_def Let_def RTP_DROPOUT_def)
  from write_in_order [OF inv pr this, of nd "\<lambda>_. True"] obtain c where
    w: "rtp_queue_write nd (\<lambda>_. True) q p =
    (case rtp_queue_insert nd (\<lambda>_. True) (q\<lparr>q_cycles := c, q_bad_seq := 0, q_bad_count := 0, q_last_seq := pk_seq p\<rparr>)
        (q_pos q + q_size q) p of None \<Rightarrow> None
     | Some (r, q') \<Rightarrow> Some (r, q', map (the \<circ> q_bad_items q) [0..<q_bad_count q]))"
    by metis
  let ?q = "q\<lparr>q_cycles := c, q_bad_seq := 0, q_bad_count := 0, q_last_seq := pk_seq p\<rparr>"
  have "q_size q = 0"
    using e length_q_list [of q] by simp
  moreover have "ring_ok ?q" "q_list ?q = []"
    using inv e by (simp_all add: queue_inv_def ring_ok_def q_list_def)
  ultimately obtain q' where q': "rtp_queue_insert nd (\<lambda>_. True) ?q (q_pos q + q_size q) p = Some (1, q')"
    "q_list q' = [p]" and
    f: "q' = ?q\<lparr>q_items := q_items q', q_pos := q_pos q', q_capacity := q_capacity q', q_size := q_size ?q + 1\<rparr>"
    using rtp_queue_append_ok [of ?q "\<lambda>_. True" nd p] by (auto simp: MAX_PACKET_def)
  have "queue_inv q'"
    using rtp_queue_write_inv [OF inv, of nd "\<lambda>_. True" p] w q' by simp
  then have "live_queue q'" "q_probation q' = 0" "q_first_seq q' = pk_seq p" "q_last_seq q' = pk_seq p"
    using insert_keeps_fields [OF f] th pr assms by (simp_all add: live_queue_def caught_up_def)
  with read_single [of q' p nd] q' w show ?thesis by auto
qed

lemma caught_up_stream:
  "caught_up q \<Longrightarrow> consecutive (q_last_seq q + 1) ps \<Longrightarrow>
   \<exists>q'. write_read nd q ps = Some (map (\<lambda>p. (1, Some (pk_seq p))) ps, q') \<and> caught_up q'"
proof (induction ps arbitrary: q)
  case (Cons p ps)
  from caught_up_step [OF Cons.prems(1), of p nd] Cons.prems(2) obtain q' q'' fr where
    s: "rtp_queue_write nd (\<lambda>_. True) q p = Some (1, q', fr)" "rtp_queue_read nd q' = Some (Some p, q'')"
    "caught_up q''" "q_last_seq q'' = pk_seq p"
    by auto
  from Cons.IH [OF s(3)] Cons.prems(2) s(4) obtain q3 where
    "write_read nd q'' ps = Some (map (\<lambda>p. (1, Some (pk_seq p))) ps, q3)" "caught_up q3"
    by auto
  with s show ?case by auto
qed simp

lemma first_packet:
  assumes "rtp_queue_init 0 f = Some q"
  shows "\<exists>q' q'' fr. rtp_queue_write nd (\<lambda>_. True) q p = Some (1, q', fr) \<and>
     rtp_queue_read nd q' = Some (Some p, q'') \<and> caught_up q'' \<and> q_last_seq q'' = pk_seq p"
proof -
  have q: "queue_inv q" "q_list q = []" "q_threshold q = 0" "q_probation q = 1"
    using rtp_queue_init_Some [OF assms] by simp_all
  let ?q = "q\<lparr>q_first_seq := pk_seq p, q_probation := 0, q_last_seq := pk_seq p\<rparr>"
  have sz: "q_size q = 0"
    using q(2) length_q_list [of q] by simp
  have "ring_ok ?q" "q_list ?q = []"
    using q by (simp_all add: queue_inv_def ring_ok_def q_list_def)
  then obtain q' where q': "rtp_queue_insert nd (\<lambda>_. True) ?q (q_pos q) p = Some (1, q')" "q_list q' = [p]" and
    f: "q' = ?q\<lparr>q_items := q_items q', q_pos := q_pos q', q_capacity := q_capacity q', q_size := q_size ?q + 1\<rparr>"
    using rtp_queue_append_ok [of ?q "\<lambda>_. True" nd p] sz by (auto simp: MAX_PACKET_def)
  have w: "rtp_queue_write nd (\<lambda>_. True) q p = Some (1, q', [])"
    using write_probation [OF q(1), of nd "\<lambda>_. True" p] q(4) q' by simp
  then have "queue_inv q'"
    using rtp_queue_write_inv [OF q(1), of nd "\<lambda>_. True" p] by simp
  then have "live_queue q'" "q_probation q' = 0" "q_first_seq q' = pk_seq p" "q_last_seq q' = pk_seq p"
    using insert_keeps_fields [OF f] q by (simp_all add: live_queue_def)
  with read_single [of q' p nd] q' w show ?thesis by auto
qed

text \<open>
  C29: A stream without loss passes the receiver's queue unchanged: for every first sequence number,
  every length and across the wrap from 65535 to 0, each packet is accepted and handed out before
  the next one arrives.
\<close>

theorem queue_lossless_stream:
  assumes "consecutive s (ps :: 'p rtp_packet_t_scheme list)"
  shows "\<exists>q q'. rtp_queue_create (\<lambda>_. True) 0 f = Some (Some q) \<and>
     write_read nd q ps = Some (map (\<lambda>p. (1, Some (pk_seq p))) ps, q')"
proof -
  obtain q :: "'p rtp_queue_t" where q: "rtp_queue_init 0 f = Some q"
    using rtp_queue_init_inv by blast
  show ?thesis
  proof (cases ps)
    case Nil
    with q show ?thesis by (simp add: rtp_queue_create_def)
  next
    case (Cons p ps')
    with first_packet [OF q, of nd p] obtain q' q'' fr where
      s: "rtp_queue_write nd (\<lambda>_. True) q p = Some (1, q', fr)" "rtp_queue_read nd q' = Some (Some p, q'')"
      "caught_up q''" "q_last_seq q'' = pk_seq p"
      by auto
    obtain q3 where "write_read nd q'' ps' = Some (map (\<lambda>p. (1, Some (pk_seq p))) ps', q3)"
      using caught_up_stream [OF s(3), of ps' nd] s(4) assms Cons by auto
    with s q Cons show ?thesis by (auto simp: rtp_queue_create_def)
  qed
qed

theorem queue_lossless_stream_witness:
  "\<exists>q q'. rtp_queue_create (\<lambda>_. True) 0 90000 = Some (Some q) \<and>
     write_read False q [test_packet 65535 0, test_packet 0 0, test_packet 1 0]
       = Some ([(1, Some 65535), (1, Some 0), (1, Some 1)], q')"
  using queue_lossless_stream [of 65535 "[test_packet 65535 0, test_packet 0 0, test_packet 1 0]" 90000 False]
  by simp

text \<open>
  With threshold 0, the setting of the receiver, \<open>first_seq\<close> counts packets read instead of
  following their sequence numbers, so after one lost packet (6) a repeated packet (7) is accepted
  and handed out a second time. Without a loss the repeated packet is rejected.
\<close>

theorem queue_duplicate_after_loss:
  "run_queue 0 [5, 6, 6] = Some [(1, Some 5), (1, Some 6), (-1, None)]
   \<and> run_queue 0 [5, 7, 7] = Some [(1, Some 5), (1, Some 7), (1, Some 7)]"
  by (simp add: queue_run_simps)

text \<open>
  After a jump of the sequence number the fourth consecutive packet of the new sequence makes the
  queue follow it. The expected next number is taken modulo 65535 instead of 65536, so a sequence
  that passes 65535 at that moment is not recognised and its packets stay parked.
\<close>

theorem queue_resync:
  "run_queue 0 [30000, 50000, 50001, 50002, 50003]
     = Some [(1, Some 30000), (1, None), (1, None), (1, None), (1, Some 50000)]
   \<and> run_queue 0 [30000, 65532, 65533, 65534, 65535]
     = Some [(1, Some 30000), (1, None), (1, None), (1, None), (1, None)]"
  by (simp add: queue_run_simps upt_rec)

end
