(* ===== verification/Rtp_Queue_Owner.thy ===== *)
theory Rtp_Queue_Owner
  imports Rtp_Queue "HOL-Library.Multiset"
begin

text \<open>
  Who owns a packet. A packet given to \<open>rtp_queue_write\<close> is held by the queue, in its ring or among
  the suspects of a jump, until it is read or handed back through \<open>q->free\<close>. The lemmas count the
  packets as multisets: no packet is ever held twice or handed back while it is still held. Only the
  resynchronisation can lose packets, when the ring is full.
\<close>

definition q_bads :: "'p rtp_queue_t \<Rightarrow> 'p rtp_packet_t_scheme list" where
  "q_bads q = map (the \<circ> q_bad_items q) [0..<q_bad_count q]"

definition q_held :: "'p rtp_queue_t \<Rightarrow> 'p rtp_packet_t_scheme list" where
  "q_held q = q_list q @ q_bads q"

definition roomy :: "(nat \<Rightarrow> bool) \<Rightarrow> 'p rtp_queue_t \<Rightarrow> nat \<Rightarrow> bool" where
  "roomy mem q n \<longleftrightarrow> (\<forall>k. mem k) \<and> q_size q + n \<le> MAX_PACKET"

lemma q_list_update [simp]:
  "q_list (q\<lparr>q_last_seq := a\<rparr>) = q_list q" "q_list (q\<lparr>q_first_seq := a\<rparr>) = q_list q"
  "q_list (q\<lparr>q_probation := n\<rparr>) = q_list q" "q_list (q\<lparr>q_cycles := c\<rparr>) = q_list q"
  "q_list (q\<lparr>q_bad_count := n\<rparr>) = q_list q" "q_list (q\<lparr>q_bad_seq := a\<rparr>) = q_list q"
  "q_list (q\<lparr>q_bad_items := i\<rparr>) = q_list q"
  by (simp_all add: q_list_def)

lemma q_bads_cong: "q_bad_count q' = q_bad_count q \<Longrightarrow> q_bad_items q' = q_bad_items q \<Longrightarrow> q_bads q' = q_bads q"
  by (simp add: q_bads_def)

lemma q_bads_store:
  "q_bad_items q' = (q_bad_items q)(n := Some pkt) \<Longrightarrow> n = q_bad_count q \<Longrightarrow> q_bad_count q' = Suc n \<Longrightarrow>
   q_bads q' = q_bads q @ [pkt]"
  by (simp add: q_bads_def)

text \<open>Insertion holds the packet, or leaves the queue as it was.\<close>

lemma insert_held:
  assumes "ring_ok q" "q_pos q \<le> position" "position \<le> q_pos q + q_size q"
    and "rtp_queue_insert nd mem q position pkt = Some (r, q')"
  shows "ring_ok q' \<and> q_bads q' = q_bads q \<and> q_size q' \<le> q_size q + 1
    \<and> (r = 1 \<and> mset (q_list q') = add_mset pkt (mset (q_list q)) \<or> r < 0 \<and> q' = q \<and> \<not> roomy mem q 1)"
  using assms(1-3)
proof (cases rule: insert_cases [where nd = nd and mem = mem and pkt = pkt])
  case (ok q'')
  note f = insert_keeps_fields [OF ok(4)]
  have "mset (q_list q'') = add_mset pkt (mset (take (position - q_pos q) (q_list q) @ drop (position - q_pos q) (q_list q)))"
    unfolding ok(3) by (simp del: append_take_drop_id)
  with ok(1,2) assms(4) f q_bads_cong [of q'' q] show ?thesis by simp
next
  case (full e)
  have "\<not> roomy mem q 1"
  proof
    assume "roomy mem q 1"
    then have "q_size q < MAX_PACKET \<and> (q_size q = q_capacity q \<longrightarrow> mem ((q_capacity q + 250) * 8))"
      by (auto simp: roomy_def)
    then obtain q'' where "rtp_queue_insert nd mem q position pkt = Some (1, q'')"
      using rtp_queue_insert_ok [OF assms(1-3), of mem nd pkt] by auto
    with full show False by simp
  qed
  with full assms(1,4) show ?thesis by simp
qed

lemma insert_bad_held:
  "\<lbrakk>ring_ok q; insert_bad nd mem q is = Some q'\<rbrakk> \<Longrightarrow>
   \<exists>L. mset (q_list q') + L = mset (q_list q) + mset (map (the \<circ> q_bad_items q) is)
     \<and> ring_ok q' \<and> q_size q' \<le> q_size q + length is \<and> (roomy mem q (length is) \<longrightarrow> L = {#})"
proof (induction "is" arbitrary: q)
  case (Cons i "is")
  then obtain p r q1 where p: "q_bad_items q i = Some p"
    "rtp_queue_insert nd mem q (q_pos q + q_size q) p = Some (r, q1)" "insert_bad nd mem q1 is = Some q'"
    by (auto simp: bind_Some_conv split: if_splits)
  note ins = insert_held [OF Cons.prems(1) le_add1 order_refl p(2)]
  have b: "q_bad_items q1 = q_bad_items q"
    using insert_inv [OF Cons.prems(1) le_add1 order_refl, of nd mem p] p(2) by (metis option.inject prod.inject)
  have "ring_ok q1"
    using ins by blast
  from Cons.IH [OF this p(3), unfolded b] obtain L where
    L: "mset (q_list q') + L = mset (q_list q1) + mset (map (the \<circ> q_bad_items q) is)"
    "ring_ok q'" "q_size q' \<le> q_size q1 + length is" "roomy mem q1 (length is) \<longrightarrow> L = {#}"
    by blast
  have step: "q_size q1 \<le> q_size q + 1" "r = 1 \<and> mset (q_list q1) = add_mset p (mset (q_list q)) \<or> q1 = q \<and> \<not> roomy mem q 1"
    using ins by auto
  show ?case
  proof (cases "r = 1 \<and> mset (q_list q1) = add_mset p (mset (q_list q))")
    case True
    with L p(1) step(1) show ?thesis
      by (intro exI [of _ L]) (auto simp: roomy_def comp_def)
  next
    case False
    with L p(1) step show ?thesis
      by (intro exI [of _ "add_mset p L"]) (auto simp: roomy_def comp_def)
  qed
qed simp

text \<open>What a write does to the packets held, with \<open>L\<close> the packets that are lost.\<close>

definition accounts :: "(nat \<Rightarrow> bool) \<Rightarrow> 'p rtp_queue_t \<Rightarrow> 'p rtp_packet_t_scheme \<Rightarrow> int \<Rightarrow> 'p rtp_queue_t
    \<Rightarrow> 'p rtp_packet_t_scheme list \<Rightarrow> bool" where
  "accounts mem q pkt r q' fr \<longleftrightarrow> (r = 1 \<or> r < 0) \<and> q_size q' \<le> q_size q + 4
     \<and> (\<exists>L. mset (q_held q') + mset fr + L = (if r = 1 then add_mset pkt (mset (q_held q)) else mset (q_held q))
         \<and> (roomy mem q 4 \<longrightarrow> L = {#}))"

lemma accounts_insert:
  assumes "ring_ok q1" "q_pos q1 \<le> position" "position \<le> q_pos q1 + q_size q1"
    and "rtp_queue_insert nd mem q1 position pkt = Some (r, q')"
    and "q_list q1 = q_list q" "q_bads q1 = []" "fr = q_bads q"
  shows "accounts mem q pkt r q' fr"
proof -
  have "q_size q1 = q_size q"
    using arg_cong [OF assms(5), of length] by simp
  with insert_held [OF assms(1-4)] assms(5-7) show ?thesis
    by (auto simp: accounts_def q_held_def intro!: exI [of _ "{#}"])
qed

lemma write_held:
  assumes inv: "queue_inv q" and w: "rtp_queue_write nd mem q pkt = Some (r, q', fr)"
  shows "accounts mem q pkt r q' fr"
proof (cases "q_probation q = 0")
  case False
  let ?q = "q\<lparr>q_first_seq := pk_seq pkt, q_probation := 0, q_last_seq := pk_seq pkt\<rparr>"
  have "ring_ok ?q" "q_bads ?q = []" "q_bads q = []"
    using inv False by (simp_all add: queue_inv_def ring_ok_def q_bads_def)
  then show ?thesis
    using write_probation [OF inv False, of nd mem pkt] w
    by (intro accounts_insert [of ?q "q_pos q" nd]) (auto split: option.splits)
next
  case probation: True
  have ok: "ring_ok q" "bad_ok q"
    using inv by (auto simp: queue_inv_def)
  let ?q0 = "q\<lparr>q_bad_seq := 0, q_bad_count := 0\<rparr>"
  have reset: "rtp_queue_reset_bad_items q = Some (?q0, q_bads q)"
    using reset_bad_ok [OF ok(2)] by (simp add: q_bads_def)
  consider (inorder) "seq_ahead q (pk_seq pkt)"
    | (reorder) "\<not> seq_ahead q (pk_seq pkt)" "seq_window q (pk_seq pkt)"
    | (late) "\<not> seq_ahead q (pk_seq pkt)" "\<not> seq_window q (pk_seq pkt)" "seq_late q (pk_seq pkt)"
    | (jump) "\<not> seq_ahead q (pk_seq pkt)" "\<not> seq_window q (pk_seq pkt)" "\<not> seq_late q (pk_seq pkt)"
    by blast
  then show ?thesis
  proof cases
    case inorder
    from write_in_order [OF inv probation inorder, of nd mem] obtain c where
      c: "rtp_queue_write nd mem q pkt =
      (case rtp_queue_insert nd mem (q\<lparr>q_cycles := c, q_bad_seq := 0, q_bad_count := 0, q_last_seq := pk_seq pkt\<rparr>)
          (q_pos q + q_size q) pkt of None \<Rightarrow> None
       | Some (r, q') \<Rightarrow> Some (r, q', map (the \<circ> q_bad_items q) [0..<q_bad_count q]))"
      by metis
    let ?q = "q\<lparr>q_cycles := c, q_bad_seq := 0, q_bad_count := 0, q_last_seq := pk_seq pkt\<rparr>"
    have "ring_ok ?q"
      using ok(1) by (simp add: ring_ok_def)
    with c w show ?thesis
      by (intro accounts_insert [of ?q "q_pos q + q_size q" nd]) (auto simp: q_bads_def split: option.splits)
  next
    case reorder
    have r0: "ring_ok ?q0"
      using ok(1) by (simp add: ring_ok_def)
    from ok(1) show ?thesis
    proof (cases rule: rtp_queue_find_ok [where nd = nd and s = "pk_seq pkt"])
      case dup
      with reorder probation w show ?thesis
        by (simp add: rtp_queue_write_def Let_def accounts_def q_held_def)
    next
      case (pos i)
      have "int (q_pos q + i) \<noteq> -1" by linarith
      with reorder probation pos(1) reset w
      have "rtp_queue_insert nd mem ?q0 (q_pos q + i) pkt = Some (r, q')" "fr = q_bads q"
        by (auto simp: rtp_queue_write_def Let_def nat_int_add bind_Some_conv)
      with r0 pos(2) show ?thesis
        by (intro accounts_insert [of ?q0 "q_pos q + i" nd]) (simp_all add: q_bads_def)
    qed
  next
    case late
    with probation w show ?thesis
      by (simp add: rtp_queue_write_def Let_def accounts_def q_held_def)
  next
    case jump
    show ?thesis
    proof (cases "q_bad_count q > 0 \<and> q_bad_seq q = pk_seq pkt \<and> q_bad_count q \<ge> RTP_SEQUENTIAL")
      case True
      with jump probation w obtain q1 where
        q1: "insert_bad nd mem q [0..<q_bad_count q] = Some q1" "fr = []"
          "rtp_queue_insert nd mem (q1\<lparr>q_bad_count := 0, q_last_seq := pk_seq pkt\<rparr>) (q_pos q1 + q_size q1) pkt = Some (r, q')"
        by (auto simp: rtp_queue_write_def Let_def bind_Some_conv)
      have n: "length [0..<q_bad_count q] = 3"
        using True ok(2) by (auto simp: bad_ok_def RTP_SEQUENTIAL_def)
      from insert_bad_held [OF ok(1) q1(1)] obtain L where
        L: "mset (q_list q1) + L = mset (q_held q)" "ring_ok q1" "q_size q1 \<le> q_size q + 3" "roomy mem q 3 \<longrightarrow> L = {#}"
        unfolding n by (auto simp: q_held_def q_bads_def)
      let ?q = "q1\<lparr>q_bad_count := 0, q_last_seq := pk_seq pkt\<rparr>"
      have "ring_ok ?q" "q_pos ?q \<le> q_pos q1 + q_size q1" "q_pos q1 + q_size q1 \<le> q_pos ?q + q_size ?q"
        using L(2) by (simp_all add: ring_ok_def)
      from insert_held [OF this q1(3)]
      have i: "q_bads q' = []" "q_size q' \<le> q_size q + 4" "r = 1 \<and> mset (q_list q') = add_mset pkt (mset (q_list q1))
          \<or> r < 0 \<and> mset (q_list q') = mset (q_list q1) \<and> \<not> roomy mem q 4"
        using L(3) by (auto simp: q_bads_def roomy_def)
      have "roomy mem q 4 \<Longrightarrow> roomy mem q 3"
        by (simp add: roomy_def)
      with i L q1(2) show ?thesis
        by (auto simp: accounts_def q_held_def [of q'] intro!: exI [of _ L] simp del: union_mset_add_mset_right simp flip: L(1))
    next
      case False
      define q2 where "q2 = (if q_bad_count q > 0 \<and> q_bad_seq q = pk_seq pkt then q else ?q0)"
      define fr2 where "fr2 = (if q_bad_count q > 0 \<and> q_bad_seq q = pk_seq pkt then [] else q_bads q)"
      have "r = 1" "fr = fr2" "q_list q' = q_list q2" "q_bads q' = q_bads q2 @ [pkt]"
        using False jump probation ok reset w
        by (auto simp: rtp_queue_write_def Let_def q2_def fr2_def split: if_splits intro!: q_bads_store)
      moreover have "mset (q_held q2) + mset fr2 = mset (q_held q)" "q_list q2 = q_list q"
        by (simp_all add: q2_def fr2_def q_held_def q_bads_def)
      moreover from calculation have "q_size q' = q_size q"
        by (metis length_q_list)
      ultimately show ?thesis
        by (auto simp: accounts_def q_held_def intro!: exI [of _ "{#}"])
    qed
  qed
qed

end
