(* ===== verification/Rtp_Member_List.thy ===== *)
theory Rtp_Member_List
  imports Rtp_Member
begin

text \<open>
  \<open>lib/librtp/source/rtp-member-list.c\<close>: the list of participants, two slots inside the structure
  and the rest in an array that grows by eight. The list holds a reference to each of its members.

  The locale \<open>source_list\<close> states what the session relies on, over the plain list of the pointers;
  it is interpreted with the operations of the source. Together with the reference counts of the heap
  the contract says which cells an operation touches.
\<close>

definition N_SOURCE :: nat where "N_SOURCE = 2"

record rtp_member_list =
  l_members :: "member_ptr option list"
  l_ptr :: "member_ptr option list"
  l_count :: nat
  l_capacity :: nat

section \<open>The operations\<close>

definition sizeof_rtp_member_list :: nat where "sizeof_rtp_member_list = 32"

definition rtp_member_list_create :: "env \<Rightarrow> rtp_member_list option" where
  "rtp_member_list_create E =
     (if mem E sizeof_rtp_member_list
      then Some \<lparr>l_members = replicate N_SOURCE None, l_ptr = [], l_count = 0, l_capacity = 0\<rparr>
      else None)"

text \<open>A slot that was never written holds no pointer: reading it is undefined.\<close>

definition list_slot :: "rtp_member_list \<Rightarrow> nat \<Rightarrow> member_ptr option" where
  "list_slot p i =
     (if i < N_SOURCE then (if i < length (l_members p) then l_members p ! i else None)
      else if i - N_SOURCE < length (l_ptr p) then l_ptr p ! (i - N_SOURCE) else None)"

function release_from :: "env \<Rightarrow> rtp_member_list \<Rightarrow> nat \<Rightarrow> mheap \<Rightarrow> mheap option" where
  "release_from E p i h =
     (if i < l_count p then do {
        s \<leftarrow> list_slot p i;
        h \<leftarrow> rtp_member_release E s h;
        release_from E p (i + 1) h }
      else Some h)"
  by pat_completeness auto
termination by (relation "measure (\<lambda>(E, p, i, h). l_count p - i)") auto

definition rtp_member_list_destroy :: "env \<Rightarrow> rtp_member_list \<Rightarrow> mheap \<Rightarrow> mheap option" where
  "rtp_member_list_destroy E p h = do {
     h \<leftarrow> release_from E p 0 h;
     c_assert (nd E) (l_ptr p \<noteq> [] \<longrightarrow> 0 < l_capacity p);
     Some h }"

definition rtp_member_list_count :: "rtp_member_list \<Rightarrow> nat" where
  "rtp_member_list_count p = l_count p"

definition rtp_member_list_get :: "rtp_member_list \<Rightarrow> int \<Rightarrow> member_ptr option option" where
  "rtp_member_list_get p index =
     (if int (l_count p) \<le> index \<or> index < 0 then Some None
      else map_option Some (list_slot p (nat index)))"

function find_from :: "mheap \<Rightarrow> rtp_member_list \<Rightarrow> u32 \<Rightarrow> nat \<Rightarrow> (nat \<times> member_ptr) option option" where
  "find_from h p ssrc i =
     (if i < l_count p then do {
        s \<leftarrow> list_slot p i;
        m \<leftarrow> mh_cells h s;
        if m_ssrc m = ssrc then Some (Some (i, s)) else find_from h p ssrc (i + 1) }
      else Some None)"
  by pat_completeness auto
termination by (relation "measure (\<lambda>(h, p, ssrc, i). l_count p - i)") auto

definition rtp_member_list_find :: "mheap \<Rightarrow> rtp_member_list \<Rightarrow> u32 \<Rightarrow> member_ptr option option" where
  "rtp_member_list_find h p ssrc = map_option (map_option snd) (find_from h p ssrc 0)"

definition rtp_member_list_add ::
  "env \<Rightarrow> member_ptr \<Rightarrow> rtp_member_list \<Rightarrow> mheap \<Rightarrow> (int \<times> rtp_member_list \<times> mheap) option" where
  "rtp_member_list_add E s p h =
     (let full = N_SOURCE \<le> l_count p \<and> l_capacity p \<le> l_count p - N_SOURCE
      in if full \<and> \<not> mem E ((l_capacity p + 8) * sizeof_ptr) then Some (- ENOMEM, p, h)
      else do {
        let p = (if full then p\<lparr>l_ptr := l_ptr p @ replicate 8 None, l_capacity := l_capacity p + 8\<rparr> else p);
        p \<leftarrow> (if N_SOURCE \<le> l_count p
              then if l_count p - N_SOURCE < length (l_ptr p)
                   then Some (p\<lparr>l_ptr := (l_ptr p)[l_count p - N_SOURCE := Some s]\<rparr>) else None
              else Some (p\<lparr>l_members := (l_members p)[l_count p := Some s]\<rparr>));
        h \<leftarrow> rtp_member_addref E s h;
        Some (0, p\<lparr>l_count := l_count p + 1\<rparr>, h) })"

definition c_memmove :: "'a list \<Rightarrow> nat \<Rightarrow> nat \<Rightarrow> nat \<Rightarrow> 'a list option" where
  "c_memmove xs dst src n =
     (if dst + n \<le> length xs \<and> src + n \<le> length xs
      then Some (take dst xs @ take n (drop src xs) @ drop (dst + n) xs) else None)"

definition list_remove :: "nat \<Rightarrow> rtp_member_list \<Rightarrow> rtp_member_list option" where
  "list_remove i p =
     (if i < N_SOURCE then do {
        ms \<leftarrow> (if i + 1 < N_SOURCE then c_memmove (l_members p) i (i + 1) (N_SOURCE - i - 1)
               else Some (l_members p));
        if N_SOURCE < l_count p then do {
          first \<leftarrow> (case l_ptr p of [] \<Rightarrow> None | x # _ \<Rightarrow> Some x);
          ptr \<leftarrow> c_memmove (l_ptr p) 0 1 (l_count p - N_SOURCE - 1);
          Some (p\<lparr>l_members := ms[N_SOURCE - 1 := first], l_ptr := ptr\<rparr>) }
        else Some (p\<lparr>l_members := ms\<rparr>) }
      else if i + 1 < l_count p then do {
        ptr \<leftarrow> c_memmove (l_ptr p) (i - N_SOURCE) (i + 1 - N_SOURCE) (l_count p - i - 1);
        Some (p\<lparr>l_ptr := ptr\<rparr>) }
      else Some p)"

definition rtp_member_list_delete ::
  "env \<Rightarrow> u32 \<Rightarrow> rtp_member_list \<Rightarrow> mheap \<Rightarrow> (int \<times> rtp_member_list \<times> mheap) option" where
  "rtp_member_list_delete E ssrc p h = do {
     r \<leftarrow> find_from h p ssrc 0;
     case r of
       None \<Rightarrow> Some (-1, p, h)
     | Some (i, s) \<Rightarrow> do {
         p \<leftarrow> list_remove i p;
         h \<leftarrow> rtp_member_release E s h;
         Some (0, p\<lparr>l_count := l_count p - 1\<rparr>, h) } }"

declare find_from.simps [simp del] release_from.simps [simp del]

section \<open>The list of pointers\<close>

definition slots :: "rtp_member_list \<Rightarrow> member_ptr option list" where
  "slots p = take (l_count p) (l_members p @ l_ptr p)"

definition list_invar :: "rtp_member_list \<Rightarrow> bool" where
  "list_invar p \<longleftrightarrow> length (l_members p) = N_SOURCE \<and> length (l_ptr p) = l_capacity p
     \<and> l_count p \<le> N_SOURCE + l_capacity p \<and> None \<notin> set (slots p)"

definition list_abs :: "rtp_member_list \<Rightarrow> member_ptr list" where
  "list_abs p = map the (slots p)"

text \<open>The first member with a source identifier, on the plain list; and what the list without one of
  its members is.\<close>

fun first_source :: "mheap \<Rightarrow> u32 \<Rightarrow> member_ptr list \<Rightarrow> member_ptr option" where
  "first_source h ssrc [] = None"
| "first_source h ssrc (s # ss) =
     (case mh_cells h s of
        Some m \<Rightarrow> if m_ssrc m = ssrc then Some s else first_source h ssrc ss
      | None \<Rightarrow> None)"

definition live :: "mheap \<Rightarrow> member_ptr list \<Rightarrow> bool" where
  "live h ss \<longleftrightarrow> (\<forall>s \<in> set ss. mh_cells h s \<noteq> None)"

definition sources :: "mheap \<Rightarrow> member_ptr list \<Rightarrow> u32 list" where
  "sources h ss = map (\<lambda>s. m_ssrc (the (mh_cells h s))) ss"

lemma first_source_same:
  "mh_cells h s = Some m \<Longrightarrow> m_ssrc m' = m_ssrc m \<Longrightarrow> first_source (mh_set s m' h) ssrc ss = first_source h ssrc ss"
  by (induction ss) (auto split: option.splits)

lemma length_slots: "list_invar p \<Longrightarrow> length (slots p) = l_count p"
  by (auto simp: slots_def list_invar_def)

lemma slot_abs: "\<lbrakk>list_invar p; i < l_count p\<rbrakk> \<Longrightarrow> list_slot p i = Some (list_abs p ! i)"
proof -
  assume p: "list_invar p" and i: "i < l_count p"
  then have "slots p ! i = list_slot p i" "i < length (slots p)"
    by (auto simp: slots_def list_slot_def list_invar_def N_SOURCE_def nth_append)
  moreover from this(2) p have "slots p ! i \<noteq> None"
    unfolding list_invar_def by (metis nth_mem)
  ultimately show ?thesis by (simp add: list_abs_def)
qed

lemma length_abs [simp]: "list_invar p \<Longrightarrow> length (list_abs p) = l_count p"
  by (simp add: list_abs_def length_slots)


lemma first_source_SomeD:
  "first_source h ssrc ss = Some s \<Longrightarrow> s \<in> set ss \<and> (\<exists>m. mh_cells h s = Some m \<and> m_ssrc m = ssrc)"
  by (induction ss) (auto split: option.splits if_splits)

lemma find_from_abs:
  assumes "list_invar p" "live h (list_abs p)" "i \<le> l_count p"
  shows "\<exists>r. find_from h p ssrc i = Some r
    \<and> map_option snd r = first_source h ssrc (drop i (list_abs p))
    \<and> (\<forall>j s. r = Some (j, s) \<longrightarrow> i \<le> j \<and> j < l_count p \<and> list_abs p ! j = s
          \<and> (\<forall>k. i \<le> k \<and> k < j \<longrightarrow> list_abs p ! k \<noteq> s))"
  using assms(3)
proof (induction "l_count p - i" arbitrary: i)
  case 0
  then show ?case using assms(1) by (subst find_from.simps) simp
next
  case (Suc n)
  then have i: "i < l_count p" by linarith
  obtain m where m: "mh_cells h (list_abs p ! i) = Some m"
    using assms(1,2) i nth_mem [of i "list_abs p"] unfolding live_def by fastforce
  have d: "drop i (list_abs p) = list_abs p ! i # drop (i + 1) (list_abs p)"
    using assms(1) i by (simp add: Cons_nth_drop_Suc)
  show ?case
  proof (cases "m_ssrc m = ssrc")
    case True
    then show ?thesis
      using i m d slot_abs [OF assms(1) i] by (subst find_from.simps) simp
  next
    case False
    have "n = l_count p - (i + 1)" "i + 1 \<le> l_count p" using Suc.hyps(2) i by linarith+
    from Suc.hyps(1) [OF this] obtain r where r:
      "find_from h p ssrc (i + 1) = Some r"
      "map_option snd r = first_source h ssrc (drop (i + 1) (list_abs p))"
      "\<And>j s. r = Some (j, s) \<Longrightarrow> i + 1 \<le> j \<and> j < l_count p \<and> list_abs p ! j = s
          \<and> (\<forall>k. i + 1 \<le> k \<and> k < j \<longrightarrow> list_abs p ! k \<noteq> s)"
      by blast
    have "list_abs p ! i \<noteq> s" if "r = Some (j, s)" for j s
      using first_source_SomeD [of h ssrc "drop (i + 1) (list_abs p)" s] r(2) that m False by auto
    then have "\<forall>k. i \<le> k \<and> k < j \<longrightarrow> list_abs p ! k \<noteq> s" if "r = Some (j, s)" for j s
      using that r(3) [OF that] by (metis Suc_eq_plus1 Suc_leI le_neq_implies_less)
    moreover have "find_from h p ssrc i = Some r"
      using i m False r(1) slot_abs [OF assms(1) i] by (subst find_from.simps) simp
    moreover have "map_option snd r = first_source h ssrc (drop i (list_abs p))"
      using m d False r(2) by simp
    moreover have "i \<le> j \<and> j < l_count p \<and> list_abs p ! j = s" if "r = Some (j, s)" for j s
      using r(3) [OF that] by simp
    ultimately show ?thesis by blast
  qed
qed

lemma first_source_NoneD:
  "\<lbrakk>first_source h ssrc ss = None; live h ss; s \<in> set ss; mh_cells h s = Some m\<rbrakk> \<Longrightarrow> m_ssrc m \<noteq> ssrc"
  by (induction ss) (auto simp: live_def split: option.splits if_splits)

lemma first_source_append:
  "live h ss \<Longrightarrow> first_source h ssrc (ss @ ts)
   = (case first_source h ssrc ss of None \<Rightarrow> first_source h ssrc ts | Some s \<Rightarrow> Some s)"
  by (induction ss) (auto simp: live_def split: option.splits)


lemma list_add_ok:
  assumes "list_invar p" "mh_cells h s = Some m" "0 < m_ref m"
  shows "ok (\<lambda>(r, p', h'). list_invar p' \<and>
      (r = 0 \<and> list_abs p' = list_abs p @ [s] \<and> h' = mh_set s (m\<lparr>m_ref := m_ref m + 1\<rparr>) h
       \<or> r = - ENOMEM \<and> p' = p \<and> h' = h \<and> \<not> mem E ((l_capacity p + 8) * sizeof_ptr)))
    (rtp_member_list_add E s p h)"
proof -
  define full where "full \<longleftrightarrow> N_SOURCE \<le> l_count p \<and> l_capacity p \<le> l_count p - N_SOURCE"
  define q where "q = (if full then p\<lparr>l_ptr := l_ptr p @ replicate 8 None, l_capacity := l_capacity p + 8\<rparr> else p)"
  have q: "list_invar q" "slots q = slots p" "l_count q = l_count p"
      "N_SOURCE \<le> l_count q \<Longrightarrow> l_count q - N_SOURCE < length (l_ptr q)"
    using assms(1) by (auto simp: q_def full_def list_invar_def slots_def)
  define q' where "q' = (if N_SOURCE \<le> l_count q then q\<lparr>l_ptr := (l_ptr q)[l_count q - N_SOURCE := Some s]\<rparr>
              else q\<lparr>l_members := (l_members q)[l_count q := Some s]\<rparr>)"
  define q2 where "q2 = q'\<lparr>l_count := l_count q + 1\<rparr>"
  have s2: "slots q2 = slots q @ [Some s]"
    using q(1,4) by (auto simp: q2_def q'_def slots_def list_invar_def take_Suc_conv_app_nth Suc_diff_le)
  have "list_invar q2"
    using q(1,4) s2 by (auto simp: list_invar_def q2_def q'_def)
  moreover have "list_abs q2 = list_abs p @ [s]"
    by (simp add: list_abs_def s2 q(2))
  ultimately show ?thesis
    using assms(2,3) q(3,4) assms(1)
    by (auto simp: rtp_member_list_add_def Let_def rtp_member_addref_def ok_simps
        full_def [symmetric] q_def [symmetric] q'_def q2_def)
qed

text \<open>Removing the slot \<open>i\<close> moves the later pointers down by one, across the border between the two
  arrays.\<close>

definition removed :: "nat \<Rightarrow> rtp_member_list \<Rightarrow> rtp_member_list \<Rightarrow> bool" where
  "removed i p p' \<longleftrightarrow> l_count p' = l_count p
     \<and> slots (p'\<lparr>l_count := l_count p - 1\<rparr>) = take i (slots p) @ drop (i + 1) (slots p)
     \<and> length (l_members p') = N_SOURCE \<and> length (l_ptr p') = length (l_ptr p) \<and> l_capacity p' = l_capacity p"

lemma list_remove_inside:
  assumes "l_members p = [a, b]" "i < l_count p" "l_count p \<le> 2"
  shows "ok (removed i p) (list_remove i p)"
proof -
  have "l_count p = 1 \<or> l_count p = 2" "i = 0 \<or> i = 1" using assms by auto
  then show ?thesis using assms
    by (auto simp: list_remove_def removed_def slots_def c_memmove_def N_SOURCE_def)
qed

lemma list_remove_across:
  assumes "l_members p = [a, b]" "l_ptr p = x # ys" "i < 2" "l_count p = n + 3" "n \<le> length ys"
  shows "ok (removed i p) (list_remove i p)"
proof -
  have "i = 0 \<or> i = 1" using assms by auto
  then show ?thesis using assms
    by (auto simp: list_remove_def removed_def slots_def c_memmove_def N_SOURCE_def numeral_3_eq_3)
qed

lemma list_remove_beyond:
  assumes "l_members p = [a, b]" "2 \<le> i" "i < l_count p" "l_count p \<le> length (l_ptr p) + 2"
  shows "ok (removed i p) (list_remove i p)"
proof -
  obtain j n where "i = Suc (Suc j)" "l_count p = Suc (Suc (Suc (j + n)))"
    using assms(2,3) by (metis add_2_eq_Suc le_Suc_ex less_iff_Suc_add add_Suc)
  then show ?thesis using assms
    by (auto simp: list_remove_def removed_def slots_def c_memmove_def N_SOURCE_def min_def drop_take)
qed

lemma list_remove_ok:
  assumes "list_invar p" "i < l_count p"
  shows "ok (removed i p) (list_remove i p)"
proof -
  obtain a b where ab: "l_members p = [a, b]"
    using assms(1) by (auto simp: list_invar_def N_SOURCE_def length_Suc_conv numeral_2_eq_2)
  have le: "l_count p \<le> length (l_ptr p) + 2" using assms(1) by (simp add: list_invar_def N_SOURCE_def)
  consider "l_count p \<le> 2" | "2 < l_count p" "i < 2" | "2 \<le> i" by linarith
  then show ?thesis
  proof cases
    case 2
    then obtain x ys where "l_ptr p = x # ys" using le by (cases "l_ptr p") auto
    moreover from this have "l_count p = (l_count p - 3) + 3" "l_count p - 3 \<le> length ys" using 2 le by auto
    ultimately show ?thesis using list_remove_across [OF ab _ 2(2)] by blast
  qed (use assms ab le list_remove_inside list_remove_beyond in blast)+
qed

lemma remove1_nth_first:
  "\<lbrakk>j < length xs; xs ! j = s; \<forall>k < j. xs ! k \<noteq> s\<rbrakk> \<Longrightarrow> remove1 s xs = take j xs @ drop (j + 1) xs"
proof (induction xs arbitrary: j)
  case (Cons x xs)
  then show ?case by (cases j) (auto simp: All_less_Suc2)
qed simp

lemma list_delete_ok:
  assumes "list_invar p" "live h (list_abs p)"
  shows "first_source h ssrc (list_abs p) = None \<Longrightarrow> rtp_member_list_delete E ssrc p h = Some (-1, p, h)"
    and "\<lbrakk>first_source h ssrc (list_abs p) = Some s; rtp_member_release E s h = Some h'\<rbrakk> \<Longrightarrow>
      ok (\<lambda>(r, p', h''). r = 0 \<and> list_invar p' \<and> list_abs p' = remove1 s (list_abs p) \<and> h'' = h')
        (rtp_member_list_delete E ssrc p h)"
proof -
  obtain r where r: "find_from h p ssrc 0 = Some r"
    "map_option snd r = first_source h ssrc (list_abs p)"
    "\<And>j s. r = Some (j, s) \<Longrightarrow> j < l_count p \<and> list_abs p ! j = s \<and> (\<forall>k < j. list_abs p ! k \<noteq> s)"
    using find_from_abs [OF assms, of 0 ssrc] by auto
  show "rtp_member_list_delete E ssrc p h = Some (-1, p, h)" if "first_source h ssrc (list_abs p) = None"
    using that r(1,2) by (simp add: rtp_member_list_delete_def)
  assume s: "first_source h ssrc (list_abs p) = Some s" and h': "rtp_member_release E s h = Some h'"
  then obtain j where j: "r = Some (j, s)" using r(2) by auto
  then have j': "j < l_count p" "list_abs p ! j = s" "\<forall>k < j. list_abs p ! k \<noteq> s" using r(3) by auto
  obtain p1 where p1: "list_remove j p = Some p1" "removed j p p1"
    using list_remove_ok [OF assms(1) j'(1)] by (elim okE)
  define p2 where "p2 = p1\<lparr>l_count := l_count p1 - 1\<rparr>"
  have slots2: "slots p2 = take j (slots p) @ drop (j + 1) (slots p)"
    using p1(2) by (simp add: p2_def removed_def)
  have "list_invar p2"
    using assms(1) p1(2) slots2
    by (auto simp: list_invar_def removed_def p2_def dest: in_set_takeD in_set_dropD)
  moreover have "list_abs p2 = remove1 s (list_abs p)"
    using remove1_nth_first [of j "list_abs p" s] j' assms(1)
    by (simp add: list_abs_def slots2 take_map drop_map length_slots)
  ultimately show "ok (\<lambda>(r, p', h''). r = 0 \<and> list_invar p' \<and> list_abs p' = remove1 s (list_abs p) \<and> h'' = h')
        (rtp_member_list_delete E ssrc p h)"
    using r(1) j p1(1) h' by (simp add: rtp_member_list_delete_def p2_def)
qed

section \<open>The contract of the list\<close>

text \<open>What the session relies on: the operations act on the plain list of pointers, adding takes a
  reference and deleting gives one back.\<close>

locale source_list =
  fixes invar :: "'l \<Rightarrow> bool" and abs :: "'l \<Rightarrow> member_ptr list"
    and size_of :: "'l \<Rightarrow> nat" and get :: "'l \<Rightarrow> int \<Rightarrow> member_ptr option option"
    and find :: "mheap \<Rightarrow> 'l \<Rightarrow> u32 \<Rightarrow> member_ptr option option"
    and add :: "env \<Rightarrow> member_ptr \<Rightarrow> 'l \<Rightarrow> mheap \<Rightarrow> (int \<times> 'l \<times> mheap) option"
    and delete :: "env \<Rightarrow> u32 \<Rightarrow> 'l \<Rightarrow> mheap \<Rightarrow> (int \<times> 'l \<times> mheap) option"
  assumes size_abs: "invar l \<Longrightarrow> size_of l = length (abs l)"
    and get_abs: "\<lbrakk>invar l; i < length (abs l)\<rbrakk> \<Longrightarrow> get l (int i) = Some (Some (abs l ! i))"
    and find_abs: "\<lbrakk>invar l; live h (abs l)\<rbrakk> \<Longrightarrow> find h l ssrc = Some (first_source h ssrc (abs l))"
    and add_abs: "\<lbrakk>invar l; mh_cells h s = Some m; 0 < m_ref m\<rbrakk> \<Longrightarrow>
      ok (\<lambda>(r, l', h'). invar l' \<and>
          (r = 0 \<and> abs l' = abs l @ [s] \<and> h' = mh_set s (m\<lparr>m_ref := m_ref m + 1\<rparr>) h
           \<or> r \<noteq> 0 \<and> l' = l \<and> h' = h \<and> (\<exists>n. \<not> mem E n))) (add E s l h)"
    and delete_missing: "\<lbrakk>invar l; live h (abs l); first_source h ssrc (abs l) = None\<rbrakk>
      \<Longrightarrow> delete E ssrc l h = Some (-1, l, h)"
    and delete_first: "\<lbrakk>invar l; live h (abs l); first_source h ssrc (abs l) = Some s;
        rtp_member_release E s h = Some h'\<rbrakk> \<Longrightarrow>
      ok (\<lambda>(r, l', h''). r = 0 \<and> invar l' \<and> abs l' = remove1 s (abs l) \<and> h'' = h') (delete E ssrc l h)"
begin

lemma find_added:
  assumes "invar l" "live h (abs l)" "find h l (m_ssrc m) = Some None" "mh_cells h s = Some m" "0 < m_ref m"
    "\<forall>n. mem E n"
  shows "ok (\<lambda>(r, l', h'). r = 0 \<and> invar l' \<and> find h' l' (m_ssrc m) = Some (Some s)) (add E s l h)"
proof -
  define h1 where "h1 = mh_set s (m\<lparr>m_ref := m_ref m + 1\<rparr>) h"
  have live: "live h1 (abs l @ [s])" "live h1 (abs l)"
    using assms(2) by (auto simp: live_def h1_def)
  have "first_source h1 (m_ssrc m) (abs l) = None"
    using assms(1-4) by (simp add: find_abs h1_def first_source_same)
  then have "first_source h1 (m_ssrc m) (abs l @ [s]) = Some s"
    using live by (simp add: first_source_append) (simp add: h1_def)
  then show ?thesis
    using assms(6) live by (intro okI_mono [OF add_abs [OF assms(1,4,5)]]) (auto simp: find_abs h1_def)
qed

lemma find_deleted:
  assumes "invar l" "live h (abs l)" "distinct (sources h (abs l))"
    "first_source h ssrc (abs l) = Some s" "rtp_member_release E s h = Some h'"
  shows "ok (\<lambda>(r, l', h''). invar l' \<and> find h'' l' ssrc = Some None) (delete E ssrc l h)"
proof -
  obtain xs ys where split: "abs l = xs @ s # ys"
    using first_source_SomeD [OF assms(4)] by (meson split_list)
  then have s: "s \<notin> set xs" "s \<notin> set ys" "remove1 s (abs l) = xs @ ys"
    using assms(3) by (auto simp: sources_def remove1_append)
  have same: "\<forall>p. p \<noteq> s \<longrightarrow> mh_cells h' p = mh_cells h p"
    using assms(5) by (auto simp: rtp_member_release_def bind_Some_conv c_assert_eq_Some Let_def split: if_splits)
  then have live: "live h' (xs @ ys)"
    using assms(2) s split by (auto simp: live_def)
  have "first_source h' ssrc (xs @ ys) = None"
  proof (rule ccontr)
    assume "first_source h' ssrc (xs @ ys) \<noteq> None"
    then obtain t m where "t \<in> set (xs @ ys)" "mh_cells h' t = Some m" "m_ssrc m = ssrc"
      using first_source_SomeD by blast
    moreover from this have "mh_cells h t = Some m" using same s by auto
    moreover obtain m' where "mh_cells h s = Some m'" "m_ssrc m' = ssrc"
      using first_source_SomeD [OF assms(4)] by blast
    ultimately show False
      using assms(3) by (auto simp: split sources_def image_iff)
  qed
  then show ?thesis
    using live s(3) by (intro okI_mono [OF delete_first [OF assms(1,2,4,5)]]) (auto simp: find_abs)
qed

end

interpretation sl: source_list list_invar list_abs rtp_member_list_count rtp_member_list_get
  rtp_member_list_find rtp_member_list_add rtp_member_list_delete
proof (unfold_locales, goal_cases)
  case (1 l)
  then show ?case by (simp add: rtp_member_list_count_def)
next
  case (2 l i)
  then show ?case by (simp add: rtp_member_list_get_def slot_abs)
next
  case (3 l h ssrc)
  then show ?case using find_from_abs [of l h 0 ssrc] by (auto simp: rtp_member_list_find_def)
next
  case (4 l h s m E)
  show ?case by (rule okI_mono [OF list_add_ok [OF 4]]) (auto simp: ENOMEM_def)
next
  case (5 l h ssrc E)
  then show ?case by (rule list_delete_ok(1))
next
  case (6 l h ssrc s E h')
  then show ?case by (rule list_delete_ok(2))
qed

lemma first_source_of:
  "\<lbrakk>live h ss; distinct (sources h ss); t \<in> set ss; mh_cells h t = Some m\<rbrakk>
   \<Longrightarrow> first_source h (m_ssrc m) ss = Some t"
proof (induction ss)
  case (Cons a ss)
  then obtain ma where a: "mh_cells h a = Some ma" by (auto simp: live_def)
  show ?case
  proof (cases "a = t")
    case False
    then have "m_ssrc ma \<noteq> m_ssrc m" using Cons.prems a by (auto simp: sources_def image_iff)
    then show ?thesis using Cons a False by (auto simp: live_def sources_def)
  qed (use Cons.prems in auto)
qed simp

lemma first_source_none_iff:
  "live h ss \<Longrightarrow> first_source h ssrc ss = None \<longleftrightarrow> ssrc \<notin> set (sources h ss)"
  by (induction ss) (auto simp: live_def sources_def split: option.splits)

lemma release_shared:
  "\<lbrakk>mh_cells h t = Some m; 1 < m_ref m\<rbrakk> \<Longrightarrow> rtp_member_release E t h = Some (mh_set t (m\<lparr>m_ref := m_ref m - 1\<rparr>) h)"
  by (simp add: rtp_member_release_def c_assert_holds)

lemma ok_conj: "\<lbrakk>ok P m; ok Q m\<rbrakk> \<Longrightarrow> ok (\<lambda>x. P x \<and> Q x) m"
  by (cases m) auto

text \<open>C24: The participant list is correct as an abstract list: a participant that was added is found
  again by its source identifier and holds one more reference; one that was deleted from a list of
  distinct sources is not found any more and holds one less, and the order of the others is kept,
  wherever they were stored and whatever had to be moved or reallocated.\<close>

theorem member_list_refines:
  assumes "list_invar p" "live h (list_abs p)" "distinct (sources h (list_abs p))" "\<forall>n. mem E n"
    and new: "mh_cells h s = Some m" "0 < m_ref m" "m_ssrc m \<notin> set (sources h (list_abs p))"
    and old: "t \<in> set (list_abs p)" "mh_cells h t = Some mt" "1 < m_ref mt"
  shows "ok (\<lambda>(r, p', h'). r = 0 \<and> list_invar p' \<and> list_abs p' = list_abs p @ [s]
          \<and> h' = mh_set s (m\<lparr>m_ref := m_ref m + 1\<rparr>) h
          \<and> rtp_member_list_find h' p' (m_ssrc m) = Some (Some s)) (rtp_member_list_add E s p h)
    \<and> ok (\<lambda>(r, p', h'). r = 0 \<and> list_invar p' \<and> list_abs p' = remove1 t (list_abs p)
          \<and> h' = mh_set t (mt\<lparr>m_ref := m_ref mt - 1\<rparr>) h
          \<and> rtp_member_list_find h' p' (m_ssrc mt) = Some None) (rtp_member_list_delete E (m_ssrc mt) p h)"
proof
  have "rtp_member_list_find h p (m_ssrc m) = Some None"
    using new(3) assms(1,2) by (simp add: sl.find_abs first_source_none_iff)
  from ok_conj [OF sl.find_added [OF assms(1,2) this new(1,2) assms(4)] sl.add_abs [OF assms(1) new(1,2), of E]]
  show "ok (\<lambda>(r, p', h'). r = 0 \<and> list_invar p' \<and> list_abs p' = list_abs p @ [s]
          \<and> h' = mh_set s (m\<lparr>m_ref := m_ref m + 1\<rparr>) h
          \<and> rtp_member_list_find h' p' (m_ssrc m) = Some (Some s)) (rtp_member_list_add E s p h)"
    by (rule okI_mono) auto
  note t = first_source_of [OF assms(2,3) old(1,2)] release_shared [OF old(2,3), of E]
  from ok_conj [OF sl.find_deleted [OF assms(1-3) t] sl.delete_first [OF assms(1,2) t]]
  show "ok (\<lambda>(r, p', h'). r = 0 \<and> list_invar p' \<and> list_abs p' = remove1 t (list_abs p)
          \<and> h' = mh_set t (mt\<lparr>m_ref := m_ref mt - 1\<rparr>) h
          \<and> rtp_member_list_find h' p' (m_ssrc mt) = Some None) (rtp_member_list_delete E (m_ssrc mt) p h)"
    by (rule okI_mono) auto
qed

definition example_member :: "u32 \<Rightarrow> int \<Rightarrow> rtp_member" where
  "example_member ssrc r = member_zero\<lparr>m_ssrc := ssrc, m_ref := r\<rparr>"

definition example_heap :: mheap where
  "example_heap = \<lparr>mh_next = 4, mh_cells = (\<lambda>_. None)(0 := Some (example_member 10 2),
     1 := Some (example_member 11 2), 2 := Some (example_member 12 2), 3 := Some (example_member 13 1))\<rparr>"

definition example_list :: rtp_member_list where
  "example_list = \<lparr>l_members = [Some 0, Some 1], l_ptr = Some 2 # replicate 7 None, l_count = 3, l_capacity = 8\<rparr>"

theorem member_list_refines_witness:
  "ok (\<lambda>(r, p', h'). r = 0 \<and> list_abs p' = [0, 1, 2, 3]
          \<and> rtp_member_list_find h' p' 13 = Some (Some 3)) (rtp_member_list_add example_env 3 example_list example_heap)
   \<and> ok (\<lambda>(r, p', h'). r = 0 \<and> list_abs p' = [1, 2]
          \<and> rtp_member_list_find h' p' 10 = Some None) (rtp_member_list_delete example_env 10 example_list example_heap)"
proof -
  have l: "list_abs example_list = [0, 1, 2]" "list_invar example_list"
    by (simp_all add: example_list_def list_abs_def list_invar_def slots_def N_SOURCE_def)
  have "ok (\<lambda>(r, p', h'). r = 0 \<and> list_invar p' \<and> list_abs p' = list_abs example_list @ [3]
          \<and> h' = mh_set 3 ((example_member 13 1)\<lparr>m_ref := m_ref (example_member 13 1) + 1\<rparr>) example_heap
          \<and> rtp_member_list_find h' p' (m_ssrc (example_member 13 1)) = Some (Some 3))
        (rtp_member_list_add example_env 3 example_list example_heap)
    \<and> ok (\<lambda>(r, p', h'). r = 0 \<and> list_invar p' \<and> list_abs p' = remove1 0 (list_abs example_list)
          \<and> h' = mh_set 0 ((example_member 10 2)\<lparr>m_ref := m_ref (example_member 10 2) - 1\<rparr>) example_heap
          \<and> rtp_member_list_find h' p' (m_ssrc (example_member 10 2)) = Some None)
        (rtp_member_list_delete example_env (m_ssrc (example_member 10 2)) example_list example_heap)"
    by (rule member_list_refines)
      (simp_all add: l example_env_def example_heap_def example_member_def live_def sources_def)
  then show ?thesis
    unfolding l by (auto simp: example_member_def elim!: okI_mono)
qed

end
