(* ===== verification/Rtcp_Items.thy ===== *)
theory Rtcp_Items
  imports Rtp_Util Rtp_Member
begin

text \<open>
  The loops that the RTCP feedback and extended report files share: an array of fixed-size items is
  read from, or written to, a packet. The unpackers allocate the array on the stack up to a limit and
  with \<open>calloc\<close> beyond it. The locale \<open>fixed_item\<close> states what a reader and a writer of one item
  promise; its lemmas show that the loops stay inside the packet and that reading undoes writing.

  An unpacker yields its return value together with the messages it passes to the callback, in order.
\<close>

fun rd_items :: "(u8 list \<Rightarrow> 'a option) \<Rightarrow> nat \<Rightarrow> nat \<Rightarrow> u8 list \<Rightarrow> 'a list option" where
  "rd_items f sz 0 p = Some []"
| "rd_items f sz (Suc n) p = do {
     x \<leftarrow> f p;
     p \<leftarrow> adv p sz;
     xs \<leftarrow> rd_items f sz n p;
     Some (x # xs) }"

fun wr_items :: "('a \<Rightarrow> u8 list \<Rightarrow> nat \<Rightarrow> u8 list option) \<Rightarrow> nat \<Rightarrow> 'a list \<Rightarrow> nat \<Rightarrow> u8 list \<Rightarrow> nat
    \<Rightarrow> (nat \<times> u8 list) option" where
  "wr_items f sz [] bytes b off = Some (0, b)"
| "wr_items f sz (x # xs) bytes b off =
     (if sz \<le> bytes then do {
        b \<leftarrow> f x b off;
        (i, b) \<leftarrow> wr_items f sz xs (bytes - sz) b (off + sz);
        Some (i + 1, b) }
      else Some (0, b))"

text \<open>The array of \<open>n\<close> items of \<open>isz\<close> bytes: on the stack for at most \<open>limit\<close> items, else from the
  allocator.\<close>

definition with_array :: "env \<Rightarrow> nat \<Rightarrow> nat \<Rightarrow> nat \<Rightarrow> (int \<times> 'm list) option \<Rightarrow> (int \<times> 'm list) option" where
  "with_array E limit isz n k = (if limit < n \<and> \<not> mem E (n * isz) then Some (- ENOMEM, []) else k)"

lemma ok_with_array [ok_simps]:
  "ok Q (with_array E limit isz n k) \<longleftrightarrow>
     (if limit < n \<and> \<not> mem E (n * isz) then Q (- ENOMEM, []) else ok Q k)"
  by (simp add: with_array_def)

lemma with_array_mem [simp]: "mem E = (\<lambda>_. True) \<Longrightarrow> with_array E limit isz n k = k"
  by (simp add: with_array_def)

locale fixed_item =
  fixes sz :: nat and rdi :: "u8 list \<Rightarrow> 'a option" and wri :: "'a \<Rightarrow> u8 list \<Rightarrow> nat \<Rightarrow> u8 list option"
    and enc :: "'a \<Rightarrow> u8 list" and valid :: "'a \<Rightarrow> bool"
  assumes size_pos: "0 < sz"
    and enc_length: "length (enc x) = sz"
    and write_item: "off + sz \<le> length b \<Longrightarrow> wri x b off = Some (splice b off (enc x))"
    and read_defined: "sz \<le> length p \<Longrightarrow> ok (\<lambda>_. True) (rdi p)"
    and read_enc: "valid x \<Longrightarrow> rdi (enc x @ r) = Some x"
begin

lemma read_items_defined: "n * sz \<le> length p \<Longrightarrow> ok (\<lambda>xs. length xs = n) (rd_items rdi sz n p)"
proof (induction n arbitrary: p)
  case (Suc n)
  have "n * sz \<le> length (drop sz p)" "sz \<le> length p" using Suc.prems by simp_all
  moreover obtain x where "rdi p = Some x" using read_defined [OF calculation(2)] by (elim okE)
  ultimately show ?case
    using Suc.IH by (simp add: ok_simps)
qed simp

lemma length_enc_all: "length (concat (map enc xs)) = length xs * sz"
  by (induction xs) (simp_all add: enc_length)

lemma write_items_all:
  "\<lbrakk>off + length xs * sz \<le> length b; length xs * sz \<le> bytes\<rbrakk>
   \<Longrightarrow> wr_items wri sz xs bytes b off = Some (length xs, splice b off (concat (map enc xs)))"
proof (induction xs arbitrary: off b bytes)
  case Nil
  then show ?case by (simp add: splice_def)
next
  case (Cons x xs)
  have "length (splice b off (enc x)) = length b" using Cons.prems by (simp add: enc_length)
  then show ?case
    using Cons.prems Cons.IH [of "off + sz" "splice b off (enc x)" "bytes - sz"]
    by (simp add: write_item splice_adjacent enc_length)
qed

lemma read_items_enc:
  "list_all valid xs \<Longrightarrow> rd_items rdi sz (length xs) (concat (map enc xs) @ r) = Some xs"
  by (induction xs) (simp_all add: read_enc adv_Some enc_length)

text \<open>A writer that runs out of space stops at the last item that fits.\<close>

lemma write_items_bound:
  "off + bytes \<le> length b \<Longrightarrow>
   ok (\<lambda>(i, b'). i = min (length xs) (bytes div sz) \<and> length b' = length b) (wr_items wri sz xs bytes b off)"
proof (induction xs arbitrary: off b bytes)
  case (Cons x xs)
  show ?case
  proof (cases "sz \<le> bytes")
    case True
    then have "off + sz \<le> length b" "length (splice b off (enc x)) = length b"
      "(off + sz) + (bytes - sz) \<le> length b" "bytes div sz = Suc ((bytes - sz) div sz)"
      using Cons.prems size_pos by (simp_all add: enc_length le_div_geq)
    then show ?thesis
      using True Cons.IH [of "off + sz" "bytes - sz" "splice b off (enc x)"]
      by (auto simp: write_item ok_simps elim!: okI_mono)
  qed (simp add: div_less)
qed simp

end

section \<open>The RTCP header on the byte level\<close>

definition rtcp_header_word :: "rtcp_header_t \<Rightarrow> u32" where
  "rtcp_header_word h = push_bit 30 (ucast (r_v h)) OR push_bit 29 (ucast (r_p h))
     OR push_bit 24 (ucast (r_rc h)) OR push_bit 16 (ucast (r_pt h)) OR ucast (r_length h)"

lemma rtcp_header_bytes:
  "be32 (rtcp_header_word h)
   = [ucast ((push_bit 6 (ucast (r_v h)) OR push_bit 5 (ucast (r_p h)) OR ucast (r_rc h)) :: u32),
      r_pt h, ucast (drop_bit 8 (r_length h)), ucast (r_length h AND 0xFF)]"
  unfolding be32_def
  by (auto intro!: bit_word_eqI simp: rtcp_header_word_def header_masks(7) bit_simps dest!: nat_less_8_cases)

lemma nbo_write_rtcp_header_eq [bytes_simp]:
  "off + 4 \<le> length b \<Longrightarrow> nbo_write_rtcp_header b off h = Some (splice b off (be32 (rtcp_header_word h)))"
  by (simp add: nbo_write_rtcp_header_def wr_splice rtcp_header_bytes splice_adjacent)

lemma rtcp_header_word_fields [simp]:
  "ucast (RTCP_V (rtcp_header_word h)) = r_v h" "ucast (RTCP_P (rtcp_header_word h)) = r_p h"
  "ucast (RTCP_RC (rtcp_header_word h)) = r_rc h" "ucast (RTCP_PT (rtcp_header_word h)) = r_pt h"
  "ucast (RTCP_LEN (rtcp_header_word h)) = r_length h"
  by (rule bit_word_eqI; auto simp: rtcp_header_word_def RTCP_V_def RTCP_P_def RTCP_RC_def RTCP_PT_def
        RTCP_LEN_def header_masks(1-6) bit_simps)+

lemma splice_front:
  assumes "length H = 4" "length S = 4" "length M = 4" "12 \<le> length D"
  shows "splice (splice D 0 H) 4 S = H @ S @ drop 8 D"
    and "splice (splice (splice D 0 H) 4 S) 8 M = H @ S @ M @ drop 12 D"
  using assms by (simp_all add: splice_def)

section \<open>The frame of a feedback packet\<close>

text \<open>Both feedback packers end by writing the header in front of a body of \<open>r\<close> bytes, also when \<open>r\<close> is an
  error code.\<close>

definition fb_frame :: "u8 \<Rightarrow> u32 \<Rightarrow> nat \<Rightarrow> u32 \<Rightarrow> int \<Rightarrow> u8 list \<Rightarrow> (int \<times> u8 list) option" where
  "fb_frame pt self fmt media r data = do {
     let len = nat ((r + 8 + 3) div 4);
     data \<leftarrow> nbo_write_rtcp_header data 0 \<lparr>r_v = 2, r_p = 0, r_rc = of_nat fmt, r_pt = pt, r_length = of_nat len\<rparr>;
     data \<leftarrow> rtp_write_uint32 data 4 self;
     data \<leftarrow> rtp_write_uint32 data 8 media;
     Some (int (unat (of_nat len :: u16)) * 4 + 4, data) }"

lemma unat_of_nat_u16: "n < 65536 \<Longrightarrow> unat (of_nat n :: u16) = n"
  by (simp add: unsigned_of_nat take_bit_eq_mod)

lemma fb_frame_eq:
  assumes "4 dvd length B" "length B < 262132" "12 + length B \<le> length data"
  shows "fb_frame pt self fmt media (int (length B)) (splice data 12 B)
    = Some (12 + int (length B), (be32 (rtcp_header_word \<lparr>r_v = 2, r_p = 0, r_rc = of_nat fmt, r_pt = pt,
        r_length = of_nat ((length B + 12) div 4 - 1)\<rparr>) @ be32 self @ be32 media) @ B @ drop (12 + length B) data)"
proof -
  obtain k where k: "length B = 4 * k" using assms(1) by blast
  then have "(int (length B) + 8 + 3) div 4 = int (k + 2)" by simp
  then have "nat ((int (length B) + 8 + 3) div 4) = k + 2" by simp
  moreover have "(length B + 12) div 4 - 1 = k + 2" using k by simp
  moreover have "unat (of_nat (k + 2) :: u16) = k + 2"
    by (rule unat_of_nat_u16) (use assms(2) k in simp)
  moreover have "12 \<le> length (splice data 12 B)" using assms(3) by simp
  ultimately show ?thesis
    using assms(3) k
    by (simp add: fb_frame_def nbo_write_rtcp_header_eq rtp_write_uint32_eq splice_front drop_splice
        del: of_nat_add of_nat_Suc) simp
qed

end
