(* ===== verification/Rtcp_Rtpfb.thy ===== *)
theory Rtcp_Rtpfb
  imports Rtcp_Items
begin

text \<open>
  \<open>lib/librtp/source/rtcp-rtpfb.c\<close>: transport layer feedback (RFC 4585, 5104, 6642, 6679, 7728, 8888
  and the transport-wide congestion control draft). Every unpacker is a function of the bytes of the
  feedback control information to its return value and the messages it reports; the packers write
  into the packet buffer.
\<close>

section \<open>Data\<close>

record rtcp_nack_t =
  nack_pid :: u16
  nack_blp :: u16

record rtcp_tmmbr_t =
  tmmbr_ssrc :: u32
  tmmbr_exp :: "6 word"
  tmmbr_mantissa :: "17 word"
  tmmbr_overhead :: "9 word"

record rtcp_ecn_t =
  ext_highest_seq :: u32
  ect0 :: u32
  ect1 :: u32
  ect_ce_counter :: u16
  not_ect_counter :: u16
  lost_packets_counter :: u16
  duplication_counter :: u16

record rtcp_ccfb_t =
  ccfb_seq :: u16
  ccfb_received :: "1 word"
  ccfb_ecn :: "2 word"
  ccfb_ato :: u16

text \<open>The union of the message: the constructor says which member the unpacker has filled.\<close>

datatype rtpfb_u =
    Fb_nack "rtcp_nack_t list"
  | Fb_tmmbr "rtcp_tmmbr_t list"
  | Fb_ecn rtcp_ecn_t
  | Fb_ps (ps_target: u32) (ps_cmd: u8) (ps_len: u8) (ps_id: u16) (ps_payload: "u8 list")
  | Fb_dbi (dbi_delay: u16) (dbi_s: "1 word") (dbi_q: "1 word")
  | Fb_ccfb (cc_ssrc: u32) (cc_begin: u16) (cc_timestamp: u32) (cc_items: "rtcp_ccfb_t list")
  | Fb_tcc01 (tcc_begin: u16) (tcc_timestamp: u32) (tcc_cc: u8) (tcc_items: "rtcp_ccfb_t list")

definition RTCP_RTPFB_NACK :: nat where "RTCP_RTPFB_NACK = 1"
definition RTCP_RTPFB_TMMBR :: nat where "RTCP_RTPFB_TMMBR = 3"
definition RTCP_RTPFB_TMMBN :: nat where "RTCP_RTPFB_TMMBN = 4"
definition RTCP_RTPFB_SRREQ :: nat where "RTCP_RTPFB_SRREQ = 5"
definition RTCP_RTPFB_RAMS :: nat where "RTCP_RTPFB_RAMS = 6"
definition RTCP_RTPFB_TLLEI :: nat where "RTCP_RTPFB_TLLEI = 7"
definition RTCP_RTPFB_ECN :: nat where "RTCP_RTPFB_ECN = 8"
definition RTCP_RTPFB_PS :: nat where "RTCP_RTPFB_PS = 9"
definition RTCP_RTPFB_DBI :: nat where "RTCP_RTPFB_DBI = 10"
definition RTCP_RTPFB_CCFB :: nat where "RTCP_RTPFB_CCFB = 11"
definition RTCP_RTPFB_TCC01 :: nat where "RTCP_RTPFB_TCC01 = 15"

lemmas rtpfb_ids = RTCP_RTPFB_NACK_def RTCP_RTPFB_TMMBR_def RTCP_RTPFB_TMMBN_def RTCP_RTPFB_SRREQ_def
  RTCP_RTPFB_RAMS_def RTCP_RTPFB_TLLEI_def RTCP_RTPFB_ECN_def RTCP_RTPFB_PS_def RTCP_RTPFB_DBI_def
  RTCP_RTPFB_CCFB_def RTCP_RTPFB_TCC01_def

section \<open>Generic NACK and third-party loss indication\<close>

definition rd_nack :: "u8 list \<Rightarrow> rtcp_nack_t option" where
  "rd_nack p = do {
     pid \<leftarrow> rtp_read_uint16 p;
     p2 \<leftarrow> adv p 2; blp \<leftarrow> rtp_read_uint16 p2;
     Some \<lparr>nack_pid = pid, nack_blp = blp\<rparr> }"

definition wr_nack :: "rtcp_nack_t \<Rightarrow> u8 list \<Rightarrow> nat \<Rightarrow> u8 list option" where
  "wr_nack x b off = do {
     b \<leftarrow> rtp_write_uint16 b off (nack_pid x);
     rtp_write_uint16 b (off + 2) (nack_blp x) }"

definition rtcp_rtpfb_nack_unpack :: "env \<Rightarrow> u8 list \<Rightarrow> nat \<Rightarrow> (int \<times> rtpfb_u list) option" where
  "rtcp_rtpfb_nack_unpack E p bytes = with_array E 32 4 (bytes div 4) (do {
     xs \<leftarrow> rd_items rd_nack 4 (bytes div 4) p;
     Some (0, [Fb_nack xs]) })"

definition rtcp_rtpfb_nack_pack :: "rtcp_nack_t list \<Rightarrow> u8 list \<Rightarrow> nat \<Rightarrow> nat \<Rightarrow> (int \<times> u8 list) option" where
  "rtcp_rtpfb_nack_pack nack b off bytes = do {
     (i, b) \<leftarrow> wr_items wr_nack 4 nack bytes b off;
     Some (int (i * 4), b) }"

definition rtcp_rtpfb_tllei_unpack :: "env \<Rightarrow> u8 list \<Rightarrow> nat \<Rightarrow> (int \<times> rtpfb_u list) option" where
  "rtcp_rtpfb_tllei_unpack E p bytes = with_array E 32 4 (bytes div 4) (do {
     xs \<leftarrow> rd_items rd_nack 4 (bytes div 4) p;
     Some (0, [Fb_nack xs]) })"

definition rtcp_rtpfb_tllei_pack :: "rtcp_nack_t list \<Rightarrow> u8 list \<Rightarrow> nat \<Rightarrow> nat \<Rightarrow> (int \<times> u8 list) option" where
  "rtcp_rtpfb_tllei_pack nack b off bytes = rtcp_rtpfb_nack_pack nack b off bytes"

section \<open>Maximum bit rate request and notification\<close>

definition rd_tmmbr :: "u8 list \<Rightarrow> rtcp_tmmbr_t option" where
  "rd_tmmbr p = do {
     ssrc \<leftarrow> rtp_read_uint32 p;
     b4 \<leftarrow> rd p 4; b5 \<leftarrow> rd p 5; b6 \<leftarrow> rd p 6; b7 \<leftarrow> rd p 7;
     Some \<lparr>tmmbr_ssrc = ssrc,
       tmmbr_exp = ucast (drop_bit 2 b4 AND 0x3F),
       tmmbr_mantissa = ucast ((push_bit 15 (ucast (b4 AND 0x03)) OR push_bit 7 (ucast b5)
                                 OR ucast (drop_bit 1 b6 AND 0x7F)) :: u32),
       tmmbr_overhead = ucast ((push_bit 8 (ucast (b6 AND 0x01)) OR ucast b7) :: u32)\<rparr> }"

definition tmmbr_word :: "rtcp_tmmbr_t \<Rightarrow> u32" where
  "tmmbr_word x = push_bit 26 (ucast (tmmbr_exp x) AND 0x3F)
     OR push_bit 9 (ucast (tmmbr_mantissa x) AND 0x1FFFF) OR (ucast (tmmbr_overhead x) AND 0x1FF)"

definition wr_tmmbr :: "rtcp_tmmbr_t \<Rightarrow> u8 list \<Rightarrow> nat \<Rightarrow> u8 list option" where
  "wr_tmmbr x b off = do {
     b \<leftarrow> rtp_write_uint32 b off (tmmbr_ssrc x);
     rtp_write_uint32 b (off + 4) (tmmbr_word x) }"

definition rtcp_rtpfb_tmmbr_unpack :: "env \<Rightarrow> u8 list \<Rightarrow> nat \<Rightarrow> (int \<times> rtpfb_u list) option" where
  "rtcp_rtpfb_tmmbr_unpack E p bytes = with_array E 4 8 (bytes div 8) (do {
     xs \<leftarrow> rd_items rd_tmmbr 8 (bytes div 8) p;
     Some (0, [Fb_tmmbr xs]) })"

definition rtcp_rtpfb_tmmbr_pack :: "rtcp_tmmbr_t list \<Rightarrow> u8 list \<Rightarrow> nat \<Rightarrow> nat \<Rightarrow> (int \<times> u8 list) option" where
  "rtcp_rtpfb_tmmbr_pack tmmbr b off bytes = do {
     (i, b) \<leftarrow> wr_items wr_tmmbr 8 tmmbr bytes b off;
     Some (int (i * 8), b) }"

definition rtcp_rtpfb_tmmbn_unpack :: "env \<Rightarrow> u8 list \<Rightarrow> nat \<Rightarrow> (int \<times> rtpfb_u list) option" where
  "rtcp_rtpfb_tmmbn_unpack E p bytes = with_array E 4 8 (bytes div 8) (do {
     xs \<leftarrow> rd_items rd_tmmbr 8 (bytes div 8) p;
     Some (0, [Fb_tmmbr xs]) })"

definition rtcp_rtpfb_tmmbn_pack :: "rtcp_tmmbr_t list \<Rightarrow> u8 list \<Rightarrow> nat \<Rightarrow> nat \<Rightarrow> (int \<times> u8 list) option" where
  "rtcp_rtpfb_tmmbn_pack tmmbr b off bytes = rtcp_rtpfb_tmmbr_pack tmmbr b off bytes"

section \<open>Resynchronisation request and rapid acquisition\<close>

definition rtcp_rtpfb_srreq_unpack :: "env \<Rightarrow> u8 list \<Rightarrow> nat \<Rightarrow> (int \<times> rtpfb_u list) option" where
  "rtcp_rtpfb_srreq_unpack E p bytes = do { c_assert (nd E) (bytes = 0); Some (0, []) }"

definition rtcp_rtpfb_rams_unpack :: "env \<Rightarrow> u8 list \<Rightarrow> nat \<Rightarrow> (int \<times> rtpfb_u list) option" where
  "rtcp_rtpfb_rams_unpack E p bytes =
     (if bytes < 4 then Some (-1, []) else do { sfmt \<leftarrow> rd p 0; Some (0, []) })"

section \<open>Congestion notification\<close>

definition rtcp_rtpfb_ecn_unpack :: "env \<Rightarrow> u8 list \<Rightarrow> nat \<Rightarrow> (int \<times> rtpfb_u list) option" where
  "rtcp_rtpfb_ecn_unpack E p bytes =
     (if bytes < 20 then Some (-1, [])
      else do {
        hs \<leftarrow> rtp_read_uint32 p;
        p4 \<leftarrow> adv p 4; e0 \<leftarrow> rtp_read_uint32 p4;
        p8 \<leftarrow> adv p 8; e1 \<leftarrow> rtp_read_uint32 p8;
        p12 \<leftarrow> adv p 12; ce \<leftarrow> rtp_read_uint16 p12;
        p14 \<leftarrow> adv p 14; ne \<leftarrow> rtp_read_uint16 p14;
        p16 \<leftarrow> adv p 16; lost \<leftarrow> rtp_read_uint16 p16;
        p18 \<leftarrow> adv p 18; dup \<leftarrow> rtp_read_uint16 p18;
        Some (0, [Fb_ecn \<lparr>ext_highest_seq = hs, ect0 = e0, ect1 = e1, ect_ce_counter = ce,
          not_ect_counter = ne, lost_packets_counter = lost, duplication_counter = dup\<rparr>]) })"

definition rtcp_rtpfb_ecn_pack :: "rtcp_ecn_t \<Rightarrow> u8 list \<Rightarrow> nat \<Rightarrow> nat \<Rightarrow> (int \<times> u8 list) option" where
  "rtcp_rtpfb_ecn_pack ecn b off bytes =
     (if bytes < 20 then Some (-1, b)
      else do {
        b \<leftarrow> rtp_write_uint32 b off (ext_highest_seq ecn);
        b \<leftarrow> rtp_write_uint32 b (off + 4) (ect0 ecn);
        b \<leftarrow> rtp_write_uint32 b (off + 8) (ect1 ecn);
        b \<leftarrow> rtp_write_uint16 b (off + 12) (ect_ce_counter ecn);
        b \<leftarrow> rtp_write_uint16 b (off + 14) (not_ect_counter ecn);
        b \<leftarrow> rtp_write_uint16 b (off + 16) (lost_packets_counter ecn);
        b \<leftarrow> rtp_write_uint16 b (off + 18) (duplication_counter ecn);
        Some (20, b) })"

section \<open>Pause and resume\<close>

function ps_loop :: "env \<Rightarrow> u8 list \<Rightarrow> nat \<Rightarrow> (int \<times> rtpfb_u list) option" where
  "ps_loop E p bytes =
     (if 8 \<le> bytes then do {
        target \<leftarrow> rtp_read_uint32 p;
        b4 \<leftarrow> rd p 4;
        len \<leftarrow> rd p 5;
        p6 \<leftarrow> adv p 6; pid \<leftarrow> rtp_read_uint16 p6;
        if bytes < unat len * 4 + 8 then do { c_assert (nd E) False; Some (-1, []) }
        else do {
          payload \<leftarrow> c_slice p 8 (unat len * 4);
          q \<leftarrow> adv p (8 + unat len * 4);
          (r, ms) \<leftarrow> ps_loop E q (bytes - (8 + unat len * 4));
          Some (r, Fb_ps target (drop_bit 4 b4) len pid payload # ms) } }
      else Some (0, []))"
  by pat_completeness auto
termination by (relation "measure (\<lambda>(E, p, bytes). bytes)") auto

declare ps_loop.simps [simp del]

definition rtcp_rtpfb_ps_unpack :: "env \<Rightarrow> u8 list \<Rightarrow> nat \<Rightarrow> (int \<times> rtpfb_u list) option" where
  "rtcp_rtpfb_ps_unpack E p bytes = ps_loop E p bytes"

definition ps_word :: "u8 \<Rightarrow> u8 \<Rightarrow> u16 \<Rightarrow> u32" where
  "ps_word cmd len pid =
     push_bit 28 (ucast cmd AND 0x0F) OR push_bit 16 (ucast len AND 0xFF) OR ucast pid"

definition rtcp_rtpfb_ps_pack ::
  "u32 \<Rightarrow> u8 \<Rightarrow> u8 \<Rightarrow> u16 \<Rightarrow> u8 list \<Rightarrow> u8 list \<Rightarrow> nat \<Rightarrow> nat \<Rightarrow> (int \<times> u8 list) option" where
  "rtcp_rtpfb_ps_pack target cmd len pid payload b off bytes =
     (if bytes < 8 + unat len * 4 then Some (-1, b)
      else do {
        b \<leftarrow> rtp_write_uint32 b off target;
        b \<leftarrow> rtp_write_uint32 b (off + 4) (ps_word cmd len pid);
        b \<leftarrow> (if 0 < unat len then c_memcpy b (off + 8) payload (unat len * 4) else Some b);
        Some (8 + int (unat len * 4), b) })"

section \<open>Delay budget\<close>

definition rtcp_rtpfb_dbi_unpack :: "env \<Rightarrow> u8 list \<Rightarrow> nat \<Rightarrow> (int \<times> rtpfb_u list) option" where
  "rtcp_rtpfb_dbi_unpack E p bytes =
     (if bytes < 4 then Some (-1, [])
      else do {
        delay \<leftarrow> rtp_read_uint16 p;
        b2 \<leftarrow> rd p 2;
        Some (0, [Fb_dbi delay (ucast (drop_bit 7 b2 AND 0x01)) (ucast (drop_bit 6 b2 AND 0x01))]) })"

section \<open>Congestion control feedback\<close>

definition rd_ccfb :: "u16 \<Rightarrow> u8 list \<Rightarrow> rtcp_ccfb_t option" where
  "rd_ccfb seq p = do {
     a \<leftarrow> rd p 0; b \<leftarrow> rd p 1;
     Some \<lparr>ccfb_seq = seq, ccfb_received = ucast (drop_bit 7 a AND 0x01),
       ccfb_ecn = ucast (drop_bit 5 a AND 0x03), ccfb_ato = push_bit 8 (ucast (a AND 0x1F)) OR ucast b\<rparr> }"

fun rd_ccfbs :: "u16 \<Rightarrow> nat \<Rightarrow> u8 list \<Rightarrow> rtcp_ccfb_t list option" where
  "rd_ccfbs seq 0 p = Some []"
| "rd_ccfbs seq (Suc n) p = do {
     x \<leftarrow> rd_ccfb seq p;
     p \<leftarrow> adv p 2;
     xs \<leftarrow> rd_ccfbs (seq + 1) n p;
     Some (x # xs) }"

function ccfb_loop :: "env \<Rightarrow> u8 list \<Rightarrow> nat \<Rightarrow> (int \<times> rtpfb_u list) option" where
  "ccfb_loop E p bytes =
     (if 8 \<le> bytes then do {
        ssrc \<leftarrow> rtp_read_uint32 p;
        p4 \<leftarrow> adv p 4; seq \<leftarrow> rtp_read_uint16 p4;
        p6 \<leftarrow> adv p 6; num \<leftarrow> rtp_read_uint16 p6;
        let num = unat num;
        p \<leftarrow> adv p 8;
        let bytes = bytes - 8;
        if bytes < (num * 2 + 3) div 4 * 4 then do { c_assert (nd E) False; Some (-1, []) }
        else with_array E 32 8 num (do {
          xs \<leftarrow> rd_ccfbs seq num p;
          let num = (num + 1) div 2 * 2;
          c_assert (nd E) (num * 2 \<le> bytes);
          q \<leftarrow> adv p (num * 2);
          (r, ms) \<leftarrow> ccfb_loop E q (bytes - num * 2);
          Some (r, Fb_ccfb ssrc seq 0 xs # ms) }) }
      else do {
        bytes \<leftarrow> (if 4 \<le> bytes then do { ts \<leftarrow> rtp_read_uint32 p; Some (bytes - 4) } else Some bytes);
        c_assert (nd E) (bytes = 0);
        Some (0, []) })"
  by pat_completeness auto
termination by (relation "measure (\<lambda>(E, p, bytes). bytes)") auto

declare ccfb_loop.simps [simp del]

definition rtcp_rtpfb_ccfb_unpack :: "env \<Rightarrow> u8 list \<Rightarrow> nat \<Rightarrow> (int \<times> rtpfb_u list) option" where
  "rtcp_rtpfb_ccfb_unpack E p bytes = do {
     ts \<leftarrow> (if 4 \<le> bytes then do { q \<leftarrow> adv p (bytes - 4); rtp_read_uint32 q } else Some 0);
     ccfb_loop E p bytes }"

definition wr_ccfb :: "u16 \<Rightarrow> rtcp_ccfb_t \<Rightarrow> u8 list \<Rightarrow> nat \<Rightarrow> u8 list option" where
  "wr_ccfb ato0 x b off = rtp_write_uint16 b off
     ((if ccfb_received x \<noteq> 0 then 0x8000 else 0) OR push_bit 13 (ucast (ccfb_ecn x) AND 0x03) OR (ato0 AND 0x1FFF))"

fun wr_ccfbs :: "u16 \<Rightarrow> rtcp_ccfb_t list \<Rightarrow> u8 list \<Rightarrow> nat \<Rightarrow> u8 list option" where
  "wr_ccfbs ato0 [] b off = Some b"
| "wr_ccfbs ato0 (x # xs) b off = do {
     b \<leftarrow> wr_ccfb ato0 x b off;
     wr_ccfbs ato0 xs b (off + 2) }"

definition rtcp_rtpfb_ccfb_pack ::
  "u32 \<Rightarrow> u16 \<Rightarrow> rtcp_ccfb_t list \<Rightarrow> u32 \<Rightarrow> u8 list \<Rightarrow> nat \<Rightarrow> nat \<Rightarrow> (int \<times> u8 list) option" where
  "rtcp_rtpfb_ccfb_pack ssrc seq ccfb timestamp b off bytes =
     (let count = length ccfb
      in if bytes < 8 + count * 2 + 4 \<or> 0xFFFF < count then Some (-1, b)
      else do {
        b \<leftarrow> rtp_write_uint32 b off ssrc;
        b \<leftarrow> rtp_write_uint16 b (off + 4) seq;
        b \<leftarrow> rtp_write_uint16 b (off + 6) (of_nat count);
        b \<leftarrow> wr_ccfbs (case ccfb of [] \<Rightarrow> 0 | x # _ \<Rightarrow> ccfb_ato x) ccfb b (off + 8);
        b \<leftarrow> rtp_write_uint32 b (off + 8 + count * 2) timestamp;
        Some (8 + int (count * 2) + 4, b) })"

section \<open>Transport-wide congestion control\<close>

text \<open>The two-bit packet status symbols of a chunk, in order.\<close>

definition chunk_symbols :: "u16 \<Rightarrow> 2 word list" where
  "chunk_symbols chunk =
     (if chunk AND 0x8000 = 0
      then replicate (unat (chunk AND 0x1FFF)) (ucast (drop_bit 13 chunk AND 0x03))
      else if chunk AND 0x4000 \<noteq> 0
      then map (\<lambda>j. ucast (drop_bit (2 * (6 - j)) chunk AND 0x03)) [0..<7]
      else map (\<lambda>j. if chunk AND push_bit (13 - j) 1 \<noteq> 0 then 1 else 0) [0..<14])"

function tcc_chunks :: "nat \<Rightarrow> u8 list \<Rightarrow> nat \<Rightarrow> (2 word list \<times> u8 list \<times> nat) option" where
  "tcc_chunks num p bytes =
     (if 2 \<le> bytes \<and> 0 < num then do {
        chunk \<leftarrow> rtp_read_uint16 p;
        let s = take num (chunk_symbols chunk);
        q \<leftarrow> adv p 2;
        (ss, q, bytes) \<leftarrow> tcc_chunks (num - length s) q (bytes - 2);
        Some (s @ ss, q, bytes) }
      else Some ([], p, bytes))"
  by pat_completeness auto
termination by (relation "measure (\<lambda>(num, p, bytes). bytes)") auto

declare tcc_chunks.simps [simp del]

definition ccfb_zero :: rtcp_ccfb_t where
  "ccfb_zero = \<lparr>ccfb_seq = 0, ccfb_received = 0, ccfb_ecn = 0, ccfb_ato = 0\<rparr>"

fun symbol_items :: "u16 \<Rightarrow> 2 word list \<Rightarrow> rtcp_ccfb_t list" where
  "symbol_items seq [] = []"
| "symbol_items seq (s # ss) =
     \<lparr>ccfb_seq = seq, ccfb_received = (if s \<noteq> 0 then 1 else 0), ccfb_ecn = s, ccfb_ato = 0\<rparr>
     # symbol_items (seq + 1) ss"

fun tcc_deltas :: "env \<Rightarrow> rtcp_ccfb_t list \<Rightarrow> u8 list \<Rightarrow> nat \<Rightarrow> (int \<times> rtcp_ccfb_t list) option" where
  "tcc_deltas E [] p bytes = Some (0, [])"
| "tcc_deltas E (x # xs) p bytes =
     (if bytes = 0 then Some (0, x # xs)
      else if ccfb_received x = 0 then do {
        (r, ys) \<leftarrow> tcc_deltas E xs p bytes; Some (r, x # ys) }
      else do {
        c_assert (nd E) (ccfb_ecn x = 1 \<or> ccfb_ecn x = 2);
        if ccfb_ecn x = 1 then do {
          a \<leftarrow> rd p 0; q \<leftarrow> adv p 1;
          (r, ys) \<leftarrow> tcc_deltas E xs q (bytes - 1);
          Some (r, x\<lparr>ccfb_ato := ucast (drop_bit 2 a)\<rparr> # ys) }
        else if bytes < 2 then do { c_assert (nd E) False; Some (-1, x # xs) }
        else do {
          a \<leftarrow> rtp_read_uint16 p; q \<leftarrow> adv p 2;
          (r, ys) \<leftarrow> tcc_deltas E xs q (bytes - 2);
          Some (r, x\<lparr>ccfb_ato := signed_drop_bit 2 a\<rparr> # ys) } })"

definition rtcp_rtpfb_tcc01_unpack :: "env \<Rightarrow> u8 list \<Rightarrow> nat \<Rightarrow> (int \<times> rtpfb_u list) option" where
  "rtcp_rtpfb_tcc01_unpack E p bytes =
     (if bytes < 8 then Some (-1, [])
      else do {
        seq \<leftarrow> rtp_read_uint16 p;
        p2 \<leftarrow> adv p 2; num \<leftarrow> rtp_read_uint16 p2;
        t4 \<leftarrow> rd p 4; t5 \<leftarrow> rd p 5; t6 \<leftarrow> rd p 6; cc \<leftarrow> rd p 7;
        let ts = (push_bit 16 (ucast t4) OR push_bit 8 (ucast t5) OR ucast t6 :: u32);
        let ts = ts OR (if ts AND 0x00800000 \<noteq> 0 then 0xFF000000 else 0);
        with_array E 32 8 (unat num) (do {
          q \<leftarrow> adv p 8;
          (ss, q, bytes) \<leftarrow> tcc_chunks (unat num) q (bytes - 8);
          (r, xs) \<leftarrow> tcc_deltas E (symbol_items seq ss @ replicate (unat num - length ss) ccfb_zero) q bytes;
          Some (r, if r = 0 then [Fb_tcc01 seq ts cc xs] else []) }) })"

text \<open>Packing first chooses the chunks. A delta that does not fit into eight bits needs two bytes.\<close>

definition tcc_large :: "rtcp_ccfb_t \<Rightarrow> bool" where
  "tcc_large x \<longleftrightarrow> ccfb_received x \<noteq> 0 \<and> 0xFF < unat (push_bit 2 (ccfb_ato x))"

fun scan_two :: "nat \<Rightarrow> nat \<Rightarrow> rtcp_ccfb_t list \<Rightarrow> nat \<times> nat" where
  "scan_two k two [] = (k, two)"
| "scan_two k two (x # xs) =
     (if k < 14 div two then scan_two (k + 1) (if tcc_large x then 2 else two) xs else (k, two))"

fun vector_bits :: "bool \<Rightarrow> nat \<Rightarrow> u16 \<Rightarrow> rtcp_ccfb_t list \<Rightarrow> u16" where
  "vector_bits wide k chunk [] = chunk"
| "vector_bits wide k chunk (x # xs) = vector_bits wide (k + 1)
     (if ccfb_received x \<noteq> 0
      then chunk OR push_bit (if wide then 12 - k * 2 else 13 - k)
             (if 0xFF < unat (push_bit 2 (ccfb_ato x)) then 2 else 1)
      else chunk) xs"

definition tcc_chunk :: "rtcp_ccfb_t \<Rightarrow> rtcp_ccfb_t list \<Rightarrow> nat \<times> u16" where
  "tcc_chunk x xs =
     (let run = x # takeWhile (\<lambda>y. ccfb_received y = ccfb_received x) xs;
          k = length run;
          two = (if list_ex tcc_large run then 2 else 1)
      in if 14 div two < k
         then (k, (if ccfb_received x \<noteq> 0 then (if two = 2 then 0x4000 else 0x2000) else 0) OR of_nat k)
         else
           (let (k, two) = scan_two 0 1 (x # xs);
                wide = (two = 2 \<or> k \<le> 7);
                items = take (14 div two) (x # xs)
            in (length items, vector_bits wide 0 (0x8000 OR (if wide then 0x4000 else 0)) items)))"

function tcc_write_chunks :: "rtcp_ccfb_t list \<Rightarrow> nat \<Rightarrow> u8 list \<Rightarrow> nat \<Rightarrow> (nat \<times> u8 list \<times> nat) option" where
  "tcc_write_chunks xs bytes b off =
     (if xs \<noteq> [] \<and> 2 \<le> bytes then do {
        let (k, chunk) = tcc_chunk (hd xs) (tl xs);
        b \<leftarrow> rtp_write_uint16 b off chunk;
        tcc_write_chunks (drop k xs) (bytes - 2) b (off + 2) }
      else Some (bytes, b, off))"
  by pat_completeness auto
termination by (relation "measure (\<lambda>(xs, bytes, b, off). bytes)") auto

declare tcc_write_chunks.simps [simp del]

text \<open>Then it reads the chunks back from the buffer and writes the deltas behind them. \<open>Inl\<close> is the early
  return \<open>-1\<close>; otherwise the items that are left, the space, the buffer and the write position.\<close>

type_synonym tcc_state = "rtcp_ccfb_t list \<times> nat \<times> u8 list \<times> nat"

fun tcc_run_deltas :: "env \<Rightarrow> u16 \<Rightarrow> nat \<Rightarrow> nat \<Rightarrow> nat \<Rightarrow> tcc_state \<Rightarrow> (u8 list + tcc_state) option" where
  "tcc_run_deltas E chunk seq k 0 st = Some (Inr st)"
| "tcc_run_deltas E chunk seq k (Suc n) (xs, bytes, b, off) =
     (case xs of
        [] \<Rightarrow> Some (Inr (xs, bytes, b, off))
      | x # ys \<Rightarrow> do {
          c_assert (nd E) (seq + k = unat (ccfb_seq x));
          if seq + k \<noteq> unat (ccfb_seq x) then tcc_run_deltas E chunk seq (k + 1) n (xs, bytes, b, off)
          else if chunk AND 0x4000 \<noteq> 0 then
            (if bytes < 2 then Some (Inl b)
             else do {
               b \<leftarrow> rtp_write_uint16 b off (push_bit 2 (ccfb_ato x));
               tcc_run_deltas E chunk seq (k + 1) n (ys, bytes - 2, b, off + 2) })
          else if chunk AND 0x2000 \<noteq> 0 then
            (if bytes < 1 then Some (Inl b)
             else do {
               b \<leftarrow> wr b off (ucast (push_bit 2 (ccfb_ato x)));
               tcc_run_deltas E chunk seq (k + 1) n (ys, bytes - 1, b, off + 1) })
          else tcc_run_deltas E chunk seq (k + 1) n (ys, bytes, b, off) })"

fun tcc_wide_deltas :: "u16 \<Rightarrow> nat \<Rightarrow> nat \<Rightarrow> tcc_state \<Rightarrow> tcc_state option" where
  "tcc_wide_deltas chunk k 0 st = Some st"
| "tcc_wide_deltas chunk k (Suc n) (xs, bytes, b, off) =
     (case xs of
        [] \<Rightarrow> Some (xs, bytes, b, off)
      | x # ys \<Rightarrow>
          if bytes < 2 then Some (xs, bytes, b, off)
          else if ccfb_received x = 0 then tcc_wide_deltas chunk (k + 1) n (ys, bytes, b, off)
          else if drop_bit (2 * (6 - k)) chunk AND 0x03 = 1 then do {
            b \<leftarrow> wr b off (ucast (push_bit 2 (ccfb_ato x)));
            tcc_wide_deltas chunk (k + 1) n (ys, bytes - 1, b, off + 1) }
          else do {
            b \<leftarrow> rtp_write_uint16 b off (push_bit 2 (ccfb_ato x));
            tcc_wide_deltas chunk (k + 1) n (ys, bytes - 2, b, off + 2) })"

fun tcc_narrow_deltas :: "nat \<Rightarrow> tcc_state \<Rightarrow> tcc_state option" where
  "tcc_narrow_deltas 0 st = Some st"
| "tcc_narrow_deltas (Suc n) (xs, bytes, b, off) =
     (case xs of
        [] \<Rightarrow> Some (xs, bytes, b, off)
      | x # ys \<Rightarrow>
          if bytes < 1 then Some (xs, bytes, b, off)
          else if ccfb_received x = 0 then tcc_narrow_deltas n (ys, bytes, b, off)
          else do {
            b \<leftarrow> wr b off (ucast (push_bit 2 (ccfb_ato x)));
            tcc_narrow_deltas n (ys, bytes - 1, b, off + 1) })"

text \<open>\<open>cap\<close> is the size of the buffer: a chunk is read at \<open>q\<close>, which must lie inside it.\<close>

function tcc_write_deltas :: "env \<Rightarrow> nat \<Rightarrow> nat \<Rightarrow> tcc_state \<Rightarrow> (u8 list + tcc_state) option" where
  "tcc_write_deltas E cap q (xs, bytes, b, off) =
     (if xs \<noteq> [] \<and> 1 \<le> bytes then
        (if q + 2 \<le> cap then do {
           chunk \<leftarrow> rtp_read_uint16 (drop q b);
           r \<leftarrow> (if chunk AND 0x8000 = 0
                 then tcc_run_deltas E chunk (unat (ccfb_seq (hd xs))) 0 (unat (chunk AND 0x1FFF)) (xs, bytes, b, off)
                 else if chunk AND 0x4000 \<noteq> 0 then map_option Inr (tcc_wide_deltas chunk 0 7 (xs, bytes, b, off))
                 else map_option Inr (tcc_narrow_deltas 14 (xs, bytes, b, off)));
           case r of Inl b \<Rightarrow> Some (Inl b) | Inr st \<Rightarrow> tcc_write_deltas E cap (q + 2) st }
         else None)
      else Some (Inr (xs, bytes, b, off)))"
  by pat_completeness auto
termination by (relation "measure (\<lambda>(E, cap, q, st). cap - q)") auto

declare tcc_write_deltas.simps [simp del]

fun tcc_pad :: "nat \<Rightarrow> nat \<Rightarrow> nat \<Rightarrow> nat \<Rightarrow> u8 list \<Rightarrow> nat \<Rightarrow> (nat \<times> u8 list) option" where
  "tcc_pad 0 k n bytes b off = Some (n, b)"
| "tcc_pad (Suc f) k n bytes b off =
     (if n mod 4 \<noteq> 0 \<and> 0 < bytes then do {
        b \<leftarrow> wr b off (if (n + 1) mod 4 = 0 then of_nat (k + 1) else 0);
        tcc_pad f (k + 1) (n + 1) (bytes - 1) b (off + 1) }
      else Some (n, b))"

definition rtcp_rtpfb_tcc01_pack ::
  "env \<Rightarrow> u16 \<Rightarrow> rtcp_ccfb_t list \<Rightarrow> u32 \<Rightarrow> u8 \<Rightarrow> u8 list \<Rightarrow> nat \<Rightarrow> nat \<Rightarrow> (int \<times> u8 list) option" where
  "rtcp_rtpfb_tcc01_pack E seq ccfb timestamp cc b off bytes =
     (if bytes < 8 \<or> length ccfb < 1 then Some (-1, b)
      else do {
        b \<leftarrow> rtp_write_uint16 b off seq;
        b \<leftarrow> rtp_write_uint16 b (off + 2) (of_nat (length ccfb));
        b \<leftarrow> rtp_write_uint32 b (off + 4) (push_bit 8 (timestamp AND 0xFFFFFF) OR ucast cc);
        (bytes, b, fin) \<leftarrow> tcc_write_chunks ccfb bytes b (off + 8);
        r \<leftarrow> tcc_write_deltas E (length b) (off + 8) (ccfb, bytes, b, fin);
        case r of
          Inl b \<Rightarrow> Some (-1, b)
        | Inr (xs, bytes, b, fin) \<Rightarrow> do {
            (n, b) \<leftarrow> tcc_pad 4 0 (fin - off) bytes b fin;
            Some (int n, b) } })"

section \<open>The common feedback header\<close>

text \<open>The dispatch on the feedback message type. \<open>p\<close> points behind the RTCP header, at the SSRC of the
  packet sender.\<close>

definition rtpfb_dispatch :: "env \<Rightarrow> nat \<Rightarrow> u8 list \<Rightarrow> nat \<Rightarrow> (int \<times> rtpfb_u list) option" where
  "rtpfb_dispatch E rc p bytes = do {
     p4 \<leftarrow> adv p 4;
     p8 \<leftarrow> adv p 8;
     if rc = RTCP_RTPFB_NACK then rtcp_rtpfb_nack_unpack E p8 (bytes - 8)
     else if rc = RTCP_RTPFB_TMMBR then rtcp_rtpfb_tmmbr_unpack E p8 (bytes - 8)
     else if rc = RTCP_RTPFB_TMMBN then rtcp_rtpfb_tmmbn_unpack E p8 (bytes - 8)
     else if rc = RTCP_RTPFB_SRREQ then rtcp_rtpfb_srreq_unpack E p8 (bytes - 8)
     else if rc = RTCP_RTPFB_RAMS then rtcp_rtpfb_rams_unpack E p8 (bytes - 8)
     else if rc = RTCP_RTPFB_TLLEI then rtcp_rtpfb_tllei_unpack E p8 (bytes - 8)
     else if rc = RTCP_RTPFB_ECN then rtcp_rtpfb_ecn_unpack E p8 (bytes - 8)
     else if rc = RTCP_RTPFB_PS then rtcp_rtpfb_ps_unpack E p8 (bytes - 8)
     else if rc = RTCP_RTPFB_DBI then rtcp_rtpfb_dbi_unpack E p8 (bytes - 8)
     else if rc = RTCP_RTPFB_CCFB then rtcp_rtpfb_ccfb_unpack E p4 (bytes - 4)
     else if rc = RTCP_RTPFB_TCC01 then rtcp_rtpfb_tcc01_unpack E p8 (bytes - 8)
     else do { c_assert (nd E) False; Some (0, []) } }"


text \<open>The packer: the body first, then the header in front of it, whatever the body returned.\<close>

definition rtpfb_body ::
  "env \<Rightarrow> nat \<Rightarrow> rtpfb_u \<Rightarrow> u8 list \<Rightarrow> nat \<Rightarrow> (int \<times> u8 list) option option" where
  "rtpfb_body E fmt u b bytes =
     (case u of
        Fb_nack xs \<Rightarrow> if fmt = RTCP_RTPFB_NACK then Some (rtcp_rtpfb_nack_pack xs b 12 bytes)
          else if fmt = RTCP_RTPFB_TLLEI then Some (rtcp_rtpfb_tllei_pack xs b 12 bytes) else None
      | Fb_tmmbr xs \<Rightarrow> if fmt = RTCP_RTPFB_TMMBR then Some (rtcp_rtpfb_tmmbr_pack xs b 12 bytes)
          else if fmt = RTCP_RTPFB_TMMBN then Some (rtcp_rtpfb_tmmbn_pack xs b 12 bytes) else None
      | Fb_ecn e \<Rightarrow> if fmt = RTCP_RTPFB_ECN then Some (rtcp_rtpfb_ecn_pack e b 12 bytes) else None
      | Fb_ps target cmd len pid payload \<Rightarrow> if fmt = RTCP_RTPFB_PS
          then Some (rtcp_rtpfb_ps_pack target cmd len pid payload b 12 bytes) else None
      | Fb_ccfb ssrc seq ts xs \<Rightarrow> if fmt = RTCP_RTPFB_CCFB
          then Some (rtcp_rtpfb_ccfb_pack ssrc seq xs ts b 12 bytes) else None
      | Fb_tcc01 seq ts cc xs \<Rightarrow> if fmt = RTCP_RTPFB_TCC01
          then Some (rtcp_rtpfb_tcc01_pack E seq xs ts cc b 12 bytes) else None
      | Fb_dbi _ _ _ \<Rightarrow> None)"

definition rtcp_rtpfb_pack ::
  "env \<Rightarrow> u32 \<Rightarrow> nat \<Rightarrow> u32 \<Rightarrow> rtpfb_u \<Rightarrow> u8 list \<Rightarrow> nat \<Rightarrow> (int \<times> u8 list) option" where
  "rtcp_rtpfb_pack E self fmt media u data bytes =
     (if bytes < 12 then Some (12, data)
      else case rtpfb_body E fmt u data (bytes - 12) of
        None \<Rightarrow> do { c_assert (nd E) False; Some (-1, data) }
      | Some body \<Rightarrow> do {
          (r, data) \<leftarrow> body;
          fb_frame 205 self fmt media r data })"

section \<open>Items\<close>

definition nack_bytes :: "rtcp_nack_t \<Rightarrow> u8 list" where
  "nack_bytes x = be16 (nack_pid x) @ be16 (nack_blp x)"

definition tmmbr_bytes :: "rtcp_tmmbr_t \<Rightarrow> u8 list" where
  "tmmbr_bytes x = be32 (tmmbr_ssrc x) @ be32 (tmmbr_word x)"

lemma tmmbr_masks:
  "(0x3F :: u32) = mask 6" "(0x1FFFF :: u32) = mask 17" "(0x1FF :: u32) = mask 9" "(0x3F :: u8) = mask 6"
  "(0x03 :: u8) = mask 2" "(0x7F :: u8) = mask 7" "(0x01 :: u8) = mask 1"
  by (simp_all add: mask_eq_exp_minus_1)

lemma bit_w6_beyond [simp]: "6 \<le> n \<Longrightarrow> bit (w :: 6 word) n = False"
  by (simp add: impossible_bit)

lemma bit_w17_beyond [simp]: "17 \<le> n \<Longrightarrow> bit (w :: 17 word) n = False"
  by (simp add: impossible_bit)

lemma bit_w9_beyond [simp]: "9 \<le> n \<Longrightarrow> bit (w :: 9 word) n = False"
  by (simp add: impossible_bit)

lemma tmmbr_exp_back: "ucast (drop_bit 2 (ucast (drop_bit 24 (tmmbr_word x)) :: u8) AND 0x3F) = tmmbr_exp x"
  unfolding tmmbr_word_def tmmbr_masks by (rule bit_word_eqI) (auto simp: bit_simps)

lemma tmmbr_mantissa_back:
  "ucast ((push_bit 15 (ucast ((ucast (drop_bit 24 (tmmbr_word x)) :: u8) AND 0x03))
     OR push_bit 7 (ucast (ucast (drop_bit 16 (tmmbr_word x)) :: u8))
     OR ucast (drop_bit (Suc 0) (ucast (drop_bit 8 (tmmbr_word x)) :: u8) AND 0x7F)) :: u32) = tmmbr_mantissa x"
proof (rule bit_word_eqI)
  fix n :: nat
  assume "n < LENGTH(17)"
  then consider "n < 7" | "7 \<le> n" "n < 15" | "n = 15" | "n = 16" by force
  then show "bit (ucast ((push_bit 15 (ucast ((ucast (drop_bit 24 (tmmbr_word x)) :: u8) AND 0x03))
     OR push_bit 7 (ucast (ucast (drop_bit 16 (tmmbr_word x)) :: u8))
     OR ucast (drop_bit (Suc 0) (ucast (drop_bit 8 (tmmbr_word x)) :: u8) AND 0x7F)) :: u32) :: 17 word) n
     = bit (tmmbr_mantissa x) n"
    unfolding tmmbr_word_def tmmbr_masks by cases (auto simp: bit_simps)
qed

lemma tmmbr_overhead_back:
  "ucast ((push_bit 8 (ucast ((ucast (drop_bit 8 (tmmbr_word x)) :: u8) AND 0x01))
     OR ucast (ucast (tmmbr_word x) :: u8)) :: u32) = tmmbr_overhead x"
proof (rule bit_word_eqI)
  fix n :: nat
  assume "n < LENGTH(9)"
  then consider "n < 8" | "n = 8" by force
  then show "bit (ucast ((push_bit 8 (ucast ((ucast (drop_bit 8 (tmmbr_word x)) :: u8) AND 0x01))
     OR ucast (ucast (tmmbr_word x) :: u8)) :: u32) :: 9 word) n = bit (tmmbr_overhead x) n"
    unfolding tmmbr_word_def tmmbr_masks by cases (auto simp: bit_simps)
qed

interpretation nack_item: fixed_item 4 rd_nack wr_nack nack_bytes "\<lambda>_. True"
proof (unfold_locales, goal_cases)
  case (3 off b x)
  then show ?case by (simp add: wr_nack_def nack_bytes_def rtp_write_uint16_eq splice_adjacent)
next
  case (4 p)
  then show ?case by (simp add: rd_nack_def ok_simps)
qed (simp_all add: nack_bytes_def rd_nack_def adv_def)

interpretation tmmbr_item: fixed_item 8 rd_tmmbr wr_tmmbr tmmbr_bytes "\<lambda>_. True"
proof (unfold_locales, goal_cases)
  case (3 off b x)
  then show ?case by (simp add: wr_tmmbr_def tmmbr_bytes_def rtp_write_uint32_eq splice_adjacent)
next
  case (4 p)
  then show ?case by (simp add: rd_tmmbr_def ok_simps)
next
  case (5 x r)
  have "rd_tmmbr (tmmbr_bytes x @ r) = Some \<lparr>tmmbr_ssrc = tmmbr_ssrc x, tmmbr_exp = tmmbr_exp x,
      tmmbr_mantissa = tmmbr_mantissa x, tmmbr_overhead = tmmbr_overhead x\<rparr>"
    unfolding rd_tmmbr_def tmmbr_bytes_def
    by (simp add: be32_def [of "tmmbr_word x"] rd_def nth_append
        tmmbr_exp_back tmmbr_mantissa_back tmmbr_overhead_back)
  then show ?case by simp
qed (simp_all add: tmmbr_bytes_def)


section \<open>Safety of the unpackers\<close>

lemma ps_loop_ok: "\<lbrakk>nd E; bytes \<le> length p\<rbrakk> \<Longrightarrow> ok (\<lambda>_. True) (ps_loop E p bytes)"
proof (induction bytes arbitrary: p rule: less_induct)
  case (less bytes)
  then show ?case
    by (cases "8 \<le> bytes"; subst ps_loop.simps) (auto simp: ok_simps case_prod_unfold)
qed

lemma rd_ccfbs_ok: "n * 2 \<le> length p \<Longrightarrow> ok (\<lambda>xs. length xs = n) (rd_ccfbs seq n p)"
proof (induction n arbitrary: seq p)
  case (Suc n)
  then have "ok (\<lambda>xs. length xs = n) (rd_ccfbs (seq + 1) n (drop 2 p))" by simp
  then show ?case using Suc.prems by (auto simp: rd_ccfb_def ok_simps)
qed simp

lemma ccfb_loop_ok: "\<lbrakk>nd E; bytes \<le> length p\<rbrakk> \<Longrightarrow> ok (\<lambda>_. True) (ccfb_loop E p bytes)"
proof (induction bytes arbitrary: p rule: less_induct)
  case (less bytes)
  have "ok (\<lambda>xs. 4 * (Suc n div 2) \<le> length p - 8) (rd_ccfbs seq n (drop 8 p))"
    if "\<not> bytes - 8 < (n * 2 + 3) div 4 * 4" for seq n
  proof -
    have "(n * 2 + 3) div 4 = Suc n div 2" by presburger
    then have "n * 2 \<le> bytes - 8" "4 * (Suc n div 2) \<le> bytes - 8" using that by linarith+
    then show ?thesis using less.prems(2) by (intro okI_mono [OF rd_ccfbs_ok]) auto
  qed
  then show ?case using less
    by (cases "8 \<le> bytes"; subst ccfb_loop.simps) (auto simp: ok_simps case_prod_unfold Let_def)
qed

lemma tcc_chunks_ok:
  "bytes \<le> length p \<Longrightarrow> ok (\<lambda>(ss, q, bytes'). length ss \<le> num \<and> bytes' \<le> length q) (tcc_chunks num p bytes)"
proof (induction bytes arbitrary: p num rule: less_induct)
  case (less bytes)
  show ?case
  proof (cases "2 \<le> bytes \<and> 0 < num")
    case True
    define s where "s = take num (chunk_symbols (un16 (p ! 0) (p ! 1)))"
    have "ok (\<lambda>(ss, q, bytes'). length ss \<le> num - length s \<and> bytes' \<le> length q)
        (tcc_chunks (num - length s) (drop 2 p) (bytes - 2))"
      using True less.prems by (intro less.IH) auto
    moreover have "length s \<le> num" by (simp add: s_def)
    ultimately show ?thesis
      using True less.prems
      by (subst tcc_chunks.simps) (auto simp: ok_simps Let_def s_def elim!: okI_mono)
  qed (use less.prems in \<open>subst tcc_chunks.simps, auto\<close>)
qed

lemma tcc_deltas_ok:
  "\<lbrakk>nd E; bytes \<le> length p\<rbrakk> \<Longrightarrow> ok (\<lambda>(r, ys). length ys = length xs) (tcc_deltas E xs p bytes)"
  by (induction xs arbitrary: p bytes) (auto simp: ok_simps intro!: okI_mono)


lemma rtcp_rtpfb_tcc01_ok:
  assumes "nd E" "bytes \<le> length p"
  shows "ok (\<lambda>_. True) (rtcp_rtpfb_tcc01_unpack E p bytes)"
proof -
  have "ok (\<lambda>x. ok (\<lambda>_. True) (tcc_deltas E (g x) (fst (snd x)) (snd (snd x)))) (tcc_chunks n (drop 8 p) (bytes - 8))"
    for g n
    using assms by (intro okI_mono [OF tcc_chunks_ok] okI_mono [OF tcc_deltas_ok]) auto
  then show ?thesis using assms
    by (cases "bytes < 8") (auto simp: rtcp_rtpfb_tcc01_unpack_def ok_simps Let_def case_prod_unfold)
qed

lemma rtpfb_small_ok:
  assumes "nd E" "bytes \<le> length p"
  shows "ok (\<lambda>_. True) (rtcp_rtpfb_nack_unpack E p bytes)" "ok (\<lambda>_. True) (rtcp_rtpfb_tllei_unpack E p bytes)"
    and "ok (\<lambda>_. True) (rtcp_rtpfb_tmmbr_unpack E p bytes)" "ok (\<lambda>_. True) (rtcp_rtpfb_tmmbn_unpack E p bytes)"
    and "ok (\<lambda>_. True) (rtcp_rtpfb_srreq_unpack E p bytes)" "ok (\<lambda>_. True) (rtcp_rtpfb_rams_unpack E p bytes)"
    and "ok (\<lambda>_. True) (rtcp_rtpfb_ecn_unpack E p bytes)" "ok (\<lambda>_. True) (rtcp_rtpfb_dbi_unpack E p bytes)"
    and "ok (\<lambda>_. True) (rtcp_rtpfb_ps_unpack E p bytes)" "ok (\<lambda>_. True) (rtcp_rtpfb_ccfb_unpack E p bytes)"
proof -
  have "ok (\<lambda>_. True) (rd_items rd_nack 4 (bytes div 4) p)"
    using assms by (intro okI_mono [OF nack_item.read_items_defined]) auto
  then show "ok (\<lambda>_. True) (rtcp_rtpfb_nack_unpack E p bytes)" "ok (\<lambda>_. True) (rtcp_rtpfb_tllei_unpack E p bytes)"
    by (simp_all add: rtcp_rtpfb_nack_unpack_def rtcp_rtpfb_tllei_unpack_def ok_simps)
  have "ok (\<lambda>_. True) (rd_items rd_tmmbr 8 (bytes div 8) p)"
    using assms by (intro okI_mono [OF tmmbr_item.read_items_defined]) auto
  then show "ok (\<lambda>_. True) (rtcp_rtpfb_tmmbr_unpack E p bytes)" "ok (\<lambda>_. True) (rtcp_rtpfb_tmmbn_unpack E p bytes)"
    by (simp_all add: rtcp_rtpfb_tmmbr_unpack_def rtcp_rtpfb_tmmbn_unpack_def ok_simps)
  show "ok (\<lambda>_. True) (rtcp_rtpfb_ps_unpack E p bytes)"
    unfolding rtcp_rtpfb_ps_unpack_def by (rule ps_loop_ok [OF assms])
  show "ok (\<lambda>_. True) (rtcp_rtpfb_ccfb_unpack E p bytes)"
    using ccfb_loop_ok [OF assms] assms by (auto simp: rtcp_rtpfb_ccfb_unpack_def ok_simps)
  show "ok (\<lambda>_. True) (rtcp_rtpfb_srreq_unpack E p bytes)" "ok (\<lambda>_. True) (rtcp_rtpfb_rams_unpack E p bytes)"
    "ok (\<lambda>_. True) (rtcp_rtpfb_ecn_unpack E p bytes)" "ok (\<lambda>_. True) (rtcp_rtpfb_dbi_unpack E p bytes)"
    using assms by (auto simp: rtcp_rtpfb_srreq_unpack_def rtcp_rtpfb_rams_unpack_def
        rtcp_rtpfb_ecn_unpack_def rtcp_rtpfb_dbi_unpack_def ok_simps)
qed

lemma rtpfb_dispatch_ok:
  assumes "nd E" "8 \<le> bytes" "bytes \<le> length p"
  shows "ok (\<lambda>_. True) (rtpfb_dispatch E rc p bytes)"
proof -
  have d: "bytes - 8 \<le> length (drop 8 p)" "bytes - 4 \<le> length (drop 4 p)" using assms by auto
  show ?thesis
    using rtpfb_small_ok [OF assms(1) d(1)] rtpfb_small_ok(10) [OF assms(1) d(2)]
      rtcp_rtpfb_tcc01_ok [OF assms(1) d(1)] assms
    by (simp add: rtpfb_dispatch_def ok_simps)
qed

text \<open>C36: Every transport layer feedback unpacker stays inside the packet and returns, whatever the
  packet holds, in a build with \<open>NDEBUG\<close>: the dispatch on any format number and any content of at
  least eight bytes has a result.\<close>

theorem rtpfb_unpack_safe:
  assumes "nd E" "8 \<le> bytes" "bytes \<le> length p"
  shows "rtpfb_dispatch E rc p bytes \<noteq> None"
  using rtpfb_dispatch_ok [OF assms, of rc] by (auto simp: ok_iff)

theorem rtpfb_unpack_safe_witness:
  "rtpfb_dispatch (example_env\<lparr>nd := True\<rparr>) 15 [0, 0, 0, 1, 0, 0, 0, 2, 0, 5, 0, 7, 0, 0, 5, 0, 0xd2, 0x82] 18 \<noteq> None"
  by (rule rtpfb_unpack_safe) simp_all


section \<open>Round trips\<close>

fun fb_bytes :: "rtpfb_u \<Rightarrow> u8 list" where
  "fb_bytes (Fb_nack xs) = concat (map nack_bytes xs)"
| "fb_bytes (Fb_tmmbr xs) = concat (map tmmbr_bytes xs)"
| "fb_bytes (Fb_ecn e) = be32 (ext_highest_seq e) @ be32 (ect0 e) @ be32 (ect1 e) @ be16 (ect_ce_counter e)
     @ be16 (not_ect_counter e) @ be16 (lost_packets_counter e) @ be16 (duplication_counter e)"
| "fb_bytes (Fb_ps target cmd len pid payload) = be32 target
     @ be32 (ps_word cmd len pid) @ payload"
| "fb_bytes _ = []"

text \<open>The messages that can be packed and read back: their format number, and for a pause request that
  its parameters have the announced length.\<close>

fun fb_format :: "nat \<Rightarrow> rtpfb_u \<Rightarrow> bool" where
  "fb_format fmt (Fb_nack xs) = (fmt = RTCP_RTPFB_NACK \<or> fmt = RTCP_RTPFB_TLLEI)"
| "fb_format fmt (Fb_tmmbr xs) = (fmt = RTCP_RTPFB_TMMBR \<or> fmt = RTCP_RTPFB_TMMBN)"
| "fb_format fmt (Fb_ecn e) = (fmt = RTCP_RTPFB_ECN)"
| "fb_format fmt (Fb_ps target cmd len pid payload) =
     (fmt = RTCP_RTPFB_PS \<and> unat cmd < 16 \<and> length payload = unat len * 4)"
| "fb_format fmt _ = False"

lemma fb_body_eq:
  assumes "fb_format fmt u" "12 + length (fb_bytes u) \<le> length b" "length (fb_bytes u) \<le> bytes"
  shows "rtpfb_body E fmt u b bytes = Some (Some (int (length (fb_bytes u)), splice b 12 (fb_bytes u)))"
proof (cases u)
  case (Fb_nack xs)
  then show ?thesis
    using assms nack_item.write_items_all [of 12 xs b bytes]
    by (auto simp: rtpfb_body_def rtpfb_ids rtcp_rtpfb_nack_pack_def rtcp_rtpfb_tllei_pack_def nack_item.length_enc_all)
next
  case (Fb_tmmbr xs)
  then show ?thesis
    using assms tmmbr_item.write_items_all [of 12 xs b bytes]
    by (auto simp: rtpfb_body_def rtpfb_ids rtcp_rtpfb_tmmbr_pack_def rtcp_rtpfb_tmmbn_pack_def tmmbr_item.length_enc_all)
next
  case (Fb_ecn e)
  then show ?thesis
    using assms by (simp add: rtpfb_body_def rtcp_rtpfb_ecn_pack_def bytes_simp splice_adjacent)
next
  case (Fb_ps target cmd len pid payload)
  then show ?thesis
    using assms
    by (auto simp: rtpfb_body_def rtcp_rtpfb_ps_pack_def bytes_simp splice_adjacent)
qed (use assms in simp_all)


lemma ps_word_back:
  assumes "unat cmd < 16"
  shows "drop_bit 4 (ucast (drop_bit 24 (ps_word cmd len pid)) :: u8) = cmd"
    "ucast (drop_bit 16 (ps_word cmd len pid)) = len"
    "un16 (ucast (drop_bit 8 (ps_word cmd len pid))) (ucast (ps_word cmd len pid)) = pid"
proof -
  have "cmd = take_bit 4 cmd"
    using assms by (simp add: word_unat_eq_iff unsigned_take_bit_eq take_bit_nat_eq_self)
  then have "bit cmd n \<Longrightarrow> n < 4" for n
    by (metis bit_take_bit_iff)
  then show "drop_bit 4 (ucast (drop_bit 24 (ps_word cmd len pid)) :: u8) = cmd"
    unfolding ps_word_def header_masks by (intro bit_word_eqI) (auto simp: bit_simps)
  show "ucast (drop_bit 16 (ps_word cmd len pid)) = len"
    unfolding ps_word_def header_masks by (rule bit_word_eqI) (auto simp: bit_simps)
  have "un16 (ucast (drop_bit 8 (ps_word cmd len pid))) (ucast (ps_word cmd len pid)) = ucast (ps_word cmd len pid)"
    unfolding un16_def by (rule bit_word_eqI) (auto simp: bit_simps)
  also have "\<dots> = pid"
    unfolding ps_word_def header_masks by (rule bit_word_eqI) (auto simp: bit_simps)
  finally show "un16 (ucast (drop_bit 8 (ps_word cmd len pid))) (ucast (ps_word cmd len pid)) = pid" .
qed

lemma fb_unpack_eq:
  assumes "fb_format fmt u" "mem E = (\<lambda>_. True)" "length h = 8" "n = 8 + length (fb_bytes u)"
  shows "rtpfb_dispatch E fmt (h @ fb_bytes u @ r) n = Some (0, [u])"
proof (cases u)
  case (Fb_nack xs)
  then show ?thesis
    using assms nack_item.read_items_enc [of xs r]
    by (auto simp: rtpfb_dispatch_def rtpfb_ids adv_Some rtcp_rtpfb_nack_unpack_def rtcp_rtpfb_tllei_unpack_def
        nack_item.length_enc_all list.pred_True)
next
  case (Fb_tmmbr xs)
  then show ?thesis
    using assms tmmbr_item.read_items_enc [of xs r]
    by (auto simp: rtpfb_dispatch_def rtpfb_ids adv_Some rtcp_rtpfb_tmmbr_unpack_def rtcp_rtpfb_tmmbn_unpack_def
        tmmbr_item.length_enc_all list.pred_True)
next
  case (Fb_ecn e)
  then show ?thesis
    using assms by (simp add: rtpfb_dispatch_def rtpfb_ids adv_Some rtcp_rtpfb_ecn_unpack_def)
next
  case (Fb_ps target cmd len pid payload)
  then show ?thesis
    using assms
    apply (simp add: rtpfb_dispatch_def rtpfb_ids adv_Some rtcp_rtpfb_ps_unpack_def)
    apply (subst ps_loop.simps, subst ps_loop.simps)
    apply (simp add: be32_def [of "ps_word cmd len pid"] rd_def nth_append adv_Some c_slice_Some
      rtp_read_uint16_eq ps_word_back)
    done
qed (use assms in simp_all)




section \<open>Defects\<close>

text \<open>The packer of RFC 8888 feedback writes the arrival time offset of the first packet for every packet:
  the second item comes back with the first one's offset.\<close>

lemma ccfb_pack_repeats_offset:
  "map_option (\<lambda>(r, b). map_option snd (rtcp_rtpfb_ccfb_unpack example_env b 16))
     (rtcp_rtpfb_ccfb_pack 1 5 [\<lparr>ccfb_seq = 5, ccfb_received = 1, ccfb_ecn = 0, ccfb_ato = 10\<rparr>,
        \<lparr>ccfb_seq = 6, ccfb_received = 1, ccfb_ecn = 0, ccfb_ato = 20\<rparr>] 0 (replicate 16 0) 0 16)
   = Some (Some [Fb_ccfb 1 5 0 [\<lparr>ccfb_seq = 5, ccfb_received = 1, ccfb_ecn = 0, ccfb_ato = 10\<rparr>,
        \<lparr>ccfb_seq = 6, ccfb_received = 1, ccfb_ecn = 0, ccfb_ato = 10\<rparr>]])"
  by code_simp

text \<open>The packer of transport-wide feedback does not count its eight header bytes: with a buffer of the
  minimal size it writes behind the end of the buffer.\<close>

lemma tcc01_pack_overflow:
  "rtcp_rtpfb_tcc01_pack E seq [x] ts cc (replicate 8 0) 0 8 = None"
  by (simp add: rtcp_rtpfb_tcc01_pack_def bytes_simp tcc_write_chunks.simps rtp_write_uint16_def wr_def
      split: prod.split)

text \<open>The unit tests of the source: the packets it decodes and encodes again.\<close>

lemma tcc01_test:
  "rtcp_rtpfb_tcc01_unpack example_env
     [0x00, 0x05, 0x00, 0x07, 0x00, 0x00, 0x05, 0x00, 0xd2, 0x82, 0x00, 0x02, 0x00, 0x01, 0x00, 0x04, 0x00, 0x00, 0x00, 0x03] 20
   = Some (0, [Fb_tcc01 5 5 0 (map (\<lambda>(q, r, e, a). \<lparr>ccfb_seq = q, ccfb_received = r, ccfb_ecn = e, ccfb_ato = a\<rparr>)
        [(5, 1, 1, 0), (6, 0, 0, 0), (7, 1, 2, 128), (8, 1, 2, 64), (9, 0, 0, 0), (10, 0, 0, 0), (11, 1, 2, 256)])])"
  by code_simp

lemma tcc01_pack_test:
  "rtcp_rtpfb_tcc01_pack example_env 5 (map (\<lambda>(q, r, e, a). \<lparr>ccfb_seq = q, ccfb_received = r, ccfb_ecn = e, ccfb_ato = a\<rparr>)
        [(5, 1, 1, 0), (6, 0, 0, 0), (7, 1, 2, 128), (8, 1, 2, 64), (9, 0, 0, 0), (10, 0, 0, 0), (11, 1, 2, 256)])
      5 0 (replicate 40 0) 0 32
   = Some (20, [0x00, 0x05, 0x00, 0x07, 0x00, 0x00, 0x05, 0x00, 0xd2, 0x82, 0x00, 0x02, 0x00, 0x01, 0x00, 0x04, 0x00, 0x00, 0x00, 0x03]
        @ replicate 20 0)"
  by code_simp

end
