(* ===== verification/Rtcp_Psfb.thy ===== *)
theory Rtcp_Psfb
  imports Rtcp_Items
begin

text \<open>
  \<open>lib/librtp/source/rtcp-psfb.c\<close>: payload specific feedback (picture and slice loss, reference picture
  selection, full intra request, temporal-spatial trade-off, video back channel, layer refresh and the
  receiver estimated bit rate). As in the transport feedback an unpacker yields its return value and
  the messages it reports.
\<close>

section \<open>Data\<close>

record rtcp_sli_t =
  sli_first :: "13 word"
  sli_number :: "13 word"
  sli_picture_id :: "6 word"

record rtcp_fir_t =
  fir_ssrc :: u32
  fir_sn :: u8
  fir_reserved :: "19 word"
  fir_index :: "5 word"

record rtcp_vbcm_t =
  vbcm_ssrc :: u32
  vbcm_sn :: u8
  vbcm_pt :: "7 word"
  vbcm_len :: u16
  vbcm_payload :: "u8 list"

record rtcp_lrr_t =
  lrr_ssrc :: u32
  lrr_sn :: u8
  lrr_c :: "1 word"
  lrr_payload :: "7 word"
  lrr_ttid :: "3 word"
  lrr_tlid :: u8
  lrr_ctid :: "3 word"
  lrr_clid :: u8

record rtcp_remb_t =
  remb_ssrc :: u32
  remb_exp :: "6 word"
  remb_mantissa :: "18 word"

datatype psfb_u =
    Ps_pli
  | Ps_sli "rtcp_sli_t list"
  | Ps_rpsi (rpsi_pt: u8) (rpsi_len: u32) (rpsi_payload: "u8 list")
  | Ps_fir "rtcp_fir_t list"
  | Ps_vbcm rtcp_vbcm_t
  | Ps_pslei "u32 list"
  | Ps_lrr "rtcp_lrr_t list"
  | Ps_afb "rtcp_remb_t list"

definition RTCP_PSFB_PLI :: nat where "RTCP_PSFB_PLI = 1"
definition RTCP_PSFB_SLI :: nat where "RTCP_PSFB_SLI = 2"
definition RTCP_PSFB_RPSI :: nat where "RTCP_PSFB_RPSI = 3"
definition RTCP_PSFB_FIR :: nat where "RTCP_PSFB_FIR = 4"
definition RTCP_PSFB_TSTR :: nat where "RTCP_PSFB_TSTR = 5"
definition RTCP_PSFB_TSTN :: nat where "RTCP_PSFB_TSTN = 6"
definition RTCP_PSFB_VBCM :: nat where "RTCP_PSFB_VBCM = 7"
definition RTCP_PSFB_PSLEI :: nat where "RTCP_PSFB_PSLEI = 8"
definition RTCP_PSFB_ROI :: nat where "RTCP_PSFB_ROI = 9"
definition RTCP_PSFB_LRR :: nat where "RTCP_PSFB_LRR = 10"
definition RTCP_PSFB_AFB :: nat where "RTCP_PSFB_AFB = 15"

lemmas psfb_ids = RTCP_PSFB_PLI_def RTCP_PSFB_SLI_def RTCP_PSFB_RPSI_def RTCP_PSFB_FIR_def
  RTCP_PSFB_TSTR_def RTCP_PSFB_TSTN_def RTCP_PSFB_VBCM_def RTCP_PSFB_PSLEI_def RTCP_PSFB_ROI_def
  RTCP_PSFB_LRR_def RTCP_PSFB_AFB_def

section \<open>Picture and slice loss\<close>

definition rtcp_psfb_pli_unpack :: "env \<Rightarrow> u8 list \<Rightarrow> nat \<Rightarrow> (int \<times> psfb_u list) option" where
  "rtcp_psfb_pli_unpack E p bytes = do { c_assert (nd E) (bytes = 0); Some (0, [Ps_pli]) }"

definition rtcp_psfb_pli_pack :: "u8 list \<Rightarrow> nat \<Rightarrow> nat \<Rightarrow> (int \<times> u8 list) option" where
  "rtcp_psfb_pli_pack b off bytes = Some (0, b)"

definition rd_sli :: "u8 list \<Rightarrow> rtcp_sli_t option" where
  "rd_sli p = do {
     a \<leftarrow> rd p 0; b \<leftarrow> rd p 1; c \<leftarrow> rd p 2; d \<leftarrow> rd p 3;
     Some \<lparr>sli_first = ucast ((push_bit 5 (ucast a) OR ucast (drop_bit 3 b)) :: u32),
       sli_number = ucast ((push_bit 10 (ucast (b AND 0x07)) OR push_bit 2 (ucast c) OR ucast (drop_bit 6 d)) :: u32),
       sli_picture_id = ucast (d AND 0x3F)\<rparr> }"

definition rtcp_psfb_sli_unpack :: "env \<Rightarrow> u8 list \<Rightarrow> nat \<Rightarrow> (int \<times> psfb_u list) option" where
  "rtcp_psfb_sli_unpack E p bytes = with_array E 32 4 (bytes div 4) (do {
     xs \<leftarrow> rd_items rd_sli 4 (bytes div 4) p;
     Some (0, [Ps_sli xs]) })"

definition wr_sli :: "rtcp_sli_t \<Rightarrow> u8 list \<Rightarrow> nat \<Rightarrow> u8 list option" where
  "wr_sli x b off = rtp_write_uint32 b off
     (push_bit 19 (ucast (sli_first x) AND 0x1FFFF) OR push_bit 6 (ucast (sli_number x) AND 0x1FFFF)
      OR (ucast (sli_picture_id x) AND 0x3F))"

text \<open>The loop of the packer reads \<open>sli->\<close>, the first item, in every round.\<close>

definition rtcp_psfb_sli_pack :: "rtcp_sli_t list \<Rightarrow> u8 list \<Rightarrow> nat \<Rightarrow> nat \<Rightarrow> (int \<times> u8 list) option" where
  "rtcp_psfb_sli_pack sli b off bytes = do {
     (i, b) \<leftarrow> wr_items (\<lambda>_. wr_sli (hd sli)) 4 sli bytes b off;
     Some (int (i * 4), b) }"

section \<open>Reference picture selection\<close>

definition rtcp_psfb_rpsi_unpack :: "env \<Rightarrow> u8 list \<Rightarrow> nat \<Rightarrow> (int \<times> psfb_u list) option" where
  "rtcp_psfb_rpsi_unpack E p bytes =
     (if bytes < 4 then Some (-1, [])
      else do {
        pb \<leftarrow> rd p 0;
        pt \<leftarrow> rd p 1;
        payload \<leftarrow> c_slice p 2 (bytes - 2);
        Some (0, [Ps_rpsi (pt AND 0x7F) (of_nat bytes * 8 - ucast pb) payload]) })"

definition rtcp_psfb_rpsi_pack :: "u8 \<Rightarrow> u8 list \<Rightarrow> nat \<Rightarrow> u8 list \<Rightarrow> nat \<Rightarrow> nat \<Rightarrow> (int \<times> u8 list) option" where
  "rtcp_psfb_rpsi_pack pt payload bits b off bytes =
     (let len = (bits + 7) div 8;
          total = (2 + len + 3) div 4 * 4
      in if bytes < total then Some (-1, b)
      else do {
        b \<leftarrow> wr b off (of_nat (total * 8 - (2 * 8 + bits)));
        b \<leftarrow> wr b (off + 1) pt;
        b \<leftarrow> c_memcpy b (off + 2) payload len;
        Some (int total, b) })"

section \<open>Full intra request and trade-off\<close>

definition rd_fir :: "u8 list \<Rightarrow> rtcp_fir_t option" where
  "rd_fir p = do {
     ssrc \<leftarrow> rtp_read_uint32 p; sn \<leftarrow> rd p 4;
     Some \<lparr>fir_ssrc = ssrc, fir_sn = sn, fir_reserved = 0, fir_index = 0\<rparr> }"

definition wr_fir :: "rtcp_fir_t \<Rightarrow> u8 list \<Rightarrow> nat \<Rightarrow> u8 list option" where
  "wr_fir x b off = do {
     b \<leftarrow> rtp_write_uint32 b off (fir_ssrc x);
     rtp_write_uint32 b (off + 4) (push_bit 24 (ucast (fir_sn x))) }"

definition rtcp_psfb_fir_unpack :: "env \<Rightarrow> u8 list \<Rightarrow> nat \<Rightarrow> (int \<times> psfb_u list) option" where
  "rtcp_psfb_fir_unpack E p bytes = with_array E 32 8 (bytes div 8) (do {
     xs \<leftarrow> rd_items rd_fir 8 (bytes div 8) p;
     Some (0, [Ps_fir xs]) })"

definition rtcp_psfb_fir_pack :: "rtcp_fir_t list \<Rightarrow> u8 list \<Rightarrow> nat \<Rightarrow> nat \<Rightarrow> (int \<times> u8 list) option" where
  "rtcp_psfb_fir_pack fir b off bytes = do {
     (i, b) \<leftarrow> wr_items wr_fir 8 fir bytes b off;
     Some (int (i * 8), b) }"

definition rd_tstr :: "u8 list \<Rightarrow> rtcp_fir_t option" where
  "rd_tstr p = do {
     ssrc \<leftarrow> rtp_read_uint32 p; sn \<leftarrow> rd p 4; b7 \<leftarrow> rd p 7;
     Some \<lparr>fir_ssrc = ssrc, fir_sn = sn, fir_reserved = 0, fir_index = ucast (b7 AND 0x1F)\<rparr> }"

definition wr_tstr :: "rtcp_fir_t \<Rightarrow> u8 list \<Rightarrow> nat \<Rightarrow> u8 list option" where
  "wr_tstr x b off = do {
     b \<leftarrow> rtp_write_uint32 b off (fir_ssrc x);
     rtp_write_uint32 b (off + 4) (push_bit 24 (ucast (fir_sn x)) OR ucast (fir_index x)) }"

definition rtcp_psfb_tstr_unpack :: "env \<Rightarrow> u8 list \<Rightarrow> nat \<Rightarrow> (int \<times> psfb_u list) option" where
  "rtcp_psfb_tstr_unpack E p bytes = with_array E 32 8 (bytes div 8) (do {
     xs \<leftarrow> rd_items rd_tstr 8 (bytes div 8) p;
     Some (0, [Ps_fir xs]) })"

definition rtcp_psfb_tstr_pack :: "rtcp_fir_t list \<Rightarrow> u8 list \<Rightarrow> nat \<Rightarrow> nat \<Rightarrow> (int \<times> u8 list) option" where
  "rtcp_psfb_tstr_pack fir b off bytes = do {
     (i, b) \<leftarrow> wr_items wr_tstr 8 fir bytes b off;
     Some (int (i * 8), b) }"

definition rtcp_psfb_tstn_unpack :: "env \<Rightarrow> u8 list \<Rightarrow> nat \<Rightarrow> (int \<times> psfb_u list) option" where
  "rtcp_psfb_tstn_unpack E p bytes = with_array E 32 8 (bytes div 8) (do {
     xs \<leftarrow> rd_items rd_tstr 8 (bytes div 8) p;
     Some (0, [Ps_fir xs]) })"

definition rtcp_psfb_tstn_pack :: "rtcp_fir_t list \<Rightarrow> u8 list \<Rightarrow> nat \<Rightarrow> nat \<Rightarrow> (int \<times> u8 list) option" where
  "rtcp_psfb_tstn_pack fir b off bytes = rtcp_psfb_tstr_pack fir b off bytes"

section \<open>Video back channel\<close>

text \<open>\<open>bytes\<close> is a \<open>size_t\<close> and wraps around in the subtraction of the padded length.\<close>

partial_function (option) vbcm_loop :: "u8 list \<Rightarrow> u64 \<Rightarrow> (int \<times> psfb_u list) option" where
  "vbcm_loop p bytes =
     (if 8 < bytes then do {
        ssrc \<leftarrow> rtp_read_uint32 p;
        sn \<leftarrow> rd p 4;
        pt \<leftarrow> rd p 5;
        p6 \<leftarrow> adv p 6; len \<leftarrow> rtp_read_uint16 p6;
        if bytes < ucast len + 8 then Some (-1, [])
        else do {
          payload \<leftarrow> c_slice p 8 (unat len);
          let step = 8 + (unat len + 3) div 4 * 4;
          q \<leftarrow> adv p step;
          (r, ms) \<leftarrow> vbcm_loop q (bytes - of_nat step);
          Some (r, Ps_vbcm \<lparr>vbcm_ssrc = ssrc, vbcm_sn = sn, vbcm_pt = ucast (pt AND 0x7F), vbcm_len = len,
              vbcm_payload = payload\<rparr> # ms) } }
      else Some (0, []))"

definition rtcp_psfb_vbcm_unpack :: "env \<Rightarrow> u8 list \<Rightarrow> nat \<Rightarrow> (int \<times> psfb_u list) option" where
  "rtcp_psfb_vbcm_unpack E p bytes = vbcm_loop p (of_nat bytes)"

definition rtcp_psfb_vbcm_pack :: "rtcp_vbcm_t \<Rightarrow> u8 list \<Rightarrow> nat \<Rightarrow> nat \<Rightarrow> (int \<times> u8 list) option" where
  "rtcp_psfb_vbcm_pack vbcm b off bytes =
     (let len = unat (vbcm_len vbcm)
      in if bytes < 8 + (len + 3) div 4 * 4 then Some (-1, b)
      else do {
        b \<leftarrow> rtp_write_uint32 b off (vbcm_ssrc vbcm);
        b \<leftarrow> wr b (off + 4) (vbcm_sn vbcm);
        b \<leftarrow> wr b (off + 5) (ucast (vbcm_pt vbcm));
        b \<leftarrow> rtp_write_uint16 b (off + 6) (vbcm_len vbcm);
        b \<leftarrow> c_memcpy b (off + 8) (vbcm_payload vbcm) len;
        Some (8 + int ((len + 3) div 4 * 4), b) })"

section \<open>Third-party loss indication and layer refresh\<close>

definition rtcp_psfb_pslei_unpack :: "env \<Rightarrow> u8 list \<Rightarrow> nat \<Rightarrow> (int \<times> psfb_u list) option" where
  "rtcp_psfb_pslei_unpack E p bytes = with_array E 32 4 (bytes div 4) (do {
     xs \<leftarrow> rd_items rtp_read_uint32 4 (bytes div 4) p;
     Some (0, [Ps_pslei xs]) })"

definition wr_u32 :: "u32 \<Rightarrow> u8 list \<Rightarrow> nat \<Rightarrow> u8 list option" where
  "wr_u32 x b off = rtp_write_uint32 b off x"

definition rtcp_psfb_pslei_pack :: "u32 list \<Rightarrow> u8 list \<Rightarrow> nat \<Rightarrow> nat \<Rightarrow> (int \<times> u8 list) option" where
  "rtcp_psfb_pslei_pack ssrc b off bytes = do {
     (i, b) \<leftarrow> wr_items wr_u32 4 ssrc bytes b off;
     Some (int (i * 4), b) }"

definition rd_lrr :: "u8 list \<Rightarrow> rtcp_lrr_t option" where
  "rd_lrr p = do {
     ssrc \<leftarrow> rtp_read_uint32 p;
     sn \<leftarrow> rd p 4; b5 \<leftarrow> rd p 5; b8 \<leftarrow> rd p 8; b9 \<leftarrow> rd p 9; b10 \<leftarrow> rd p 10; b11 \<leftarrow> rd p 11;
     Some \<lparr>lrr_ssrc = ssrc, lrr_sn = sn, lrr_c = ucast (drop_bit 7 b5 AND 0x01), lrr_payload = ucast (b5 AND 0x7F),
       lrr_ttid = ucast (b8 AND 0x07), lrr_tlid = b9, lrr_ctid = ucast (b10 AND 0x07), lrr_clid = b11\<rparr> }"

definition rtcp_psfb_lrr_unpack :: "env \<Rightarrow> u8 list \<Rightarrow> nat \<Rightarrow> (int \<times> psfb_u list) option" where
  "rtcp_psfb_lrr_unpack E p bytes = with_array E 32 12 (bytes div 12) (do {
     xs \<leftarrow> rd_items rd_lrr 12 (bytes div 12) p;
     Some (0, [Ps_lrr xs]) })"

text \<open>All three words of an item are written to the same place.\<close>

definition wr_lrr :: "rtcp_lrr_t \<Rightarrow> u8 list \<Rightarrow> nat \<Rightarrow> u8 list option" where
  "wr_lrr x b off = do {
     b \<leftarrow> rtp_write_uint32 b off (lrr_ssrc x);
     b \<leftarrow> rtp_write_uint32 b off (push_bit 24 (ucast (lrr_sn x)) OR push_bit 23 (ucast (lrr_c x) AND 0x01)
            OR push_bit 16 (ucast (lrr_payload x) AND 0x7F));
     rtp_write_uint32 b off (push_bit 24 (ucast (lrr_ttid x) AND 0x07) OR push_bit 16 (ucast (lrr_tlid x) AND 0xFF)
            OR push_bit 8 (ucast (lrr_ctid x) AND 0x07) OR (ucast (lrr_clid x) AND 0xFF)) }"

definition rtcp_psfb_lrr_pack :: "rtcp_lrr_t list \<Rightarrow> u8 list \<Rightarrow> nat \<Rightarrow> nat \<Rightarrow> (int \<times> u8 list) option" where
  "rtcp_psfb_lrr_pack lrr b off bytes = do {
     (i, b) \<leftarrow> wr_items wr_lrr 12 lrr bytes b off;
     Some (int (i * 12), b) }"

definition rtcp_psfb_roi_unpack :: "env \<Rightarrow> u8 list \<Rightarrow> nat \<Rightarrow> (int \<times> psfb_u list) option" where
  "rtcp_psfb_roi_unpack E p bytes = Some (0, [])"

section \<open>Receiver estimated maximum bit rate\<close>

definition remb_id :: "u8 list" where "remb_id = [0x52, 0x45, 0x4D, 0x42]"

definition rtcp_psfb_afb_unpack :: "env \<Rightarrow> u8 list \<Rightarrow> nat \<Rightarrow> (int \<times> psfb_u list) option" where
  "rtcp_psfb_afb_unpack E p bytes =
     (if 8 \<le> bytes then do {
        head \<leftarrow> c_slice p 0 4;
        if head \<noteq> remb_id then Some (0, [])
        else do {
          n \<leftarrow> rd p 4;
          b5 \<leftarrow> rd p 5;
          p6 \<leftarrow> adv p 6; lo \<leftarrow> rtp_read_uint16 p6;
          let n = unat n;
          let ex = ucast (drop_bit 2 b5 AND 0x3F);
          let mantissa = ucast ((push_bit 16 (ucast (b5 AND 0x03)) OR ucast lo) :: u32);
          p \<leftarrow> adv p 8;
          if bytes - 8 < n * 4 then Some (-1, [])
          else with_array E 4 8 n (do {
            ssrcs \<leftarrow> rd_items rtp_read_uint32 4 n p;
            Some (0, [Ps_afb (map (\<lambda>s. \<lparr>remb_ssrc = s, remb_exp = ex, remb_mantissa = mantissa\<rparr>) ssrcs)]) }) } }
      else Some (0, []))"

fun wr_ssrcs :: "rtcp_remb_t list \<Rightarrow> u8 list \<Rightarrow> nat \<Rightarrow> u8 list option" where
  "wr_ssrcs [] b off = Some b"
| "wr_ssrcs (x # xs) b off = do {
     b \<leftarrow> rtp_write_uint32 b off (remb_ssrc x);
     wr_ssrcs xs b (off + 4) }"

definition rtcp_psfb_remb_pack :: "rtcp_remb_t list \<Rightarrow> u8 list \<Rightarrow> nat \<Rightarrow> nat \<Rightarrow> (int \<times> u8 list) option" where
  "rtcp_psfb_remb_pack remb b off bytes =
     (let count = length remb
      in if count < 1 \<or> 255 < count \<or> bytes < 4 + 4 + count * 4 then Some (- E2BIG, b)
      else do {
        b \<leftarrow> c_memcpy b off remb_id 4;
        b \<leftarrow> rtp_write_uint32 b (off + 4)
               (push_bit 24 (of_nat count) OR push_bit 18 (ucast (remb_exp (hd remb))) OR ucast (remb_mantissa (hd remb)));
        b \<leftarrow> wr_ssrcs remb b (off + 8);
        Some (4 + 4 + int (count * 4), b) })"

section \<open>The common feedback header\<close>

definition psfb_dispatch :: "env \<Rightarrow> nat \<Rightarrow> u8 list \<Rightarrow> nat \<Rightarrow> (int \<times> psfb_u list) option" where
  "psfb_dispatch E rc p bytes = do {
     p \<leftarrow> adv p 8;
     if rc = RTCP_PSFB_PLI then rtcp_psfb_pli_unpack E p (bytes - 8)
     else if rc = RTCP_PSFB_SLI then rtcp_psfb_sli_unpack E p (bytes - 8)
     else if rc = RTCP_PSFB_RPSI then rtcp_psfb_rpsi_unpack E p (bytes - 8)
     else if rc = RTCP_PSFB_FIR then rtcp_psfb_fir_unpack E p (bytes - 8)
     else if rc = RTCP_PSFB_TSTR then rtcp_psfb_tstr_unpack E p (bytes - 8)
     else if rc = RTCP_PSFB_TSTN then rtcp_psfb_tstn_unpack E p (bytes - 8)
     else if rc = RTCP_PSFB_VBCM then rtcp_psfb_vbcm_unpack E p (bytes - 8)
     else if rc = RTCP_PSFB_PSLEI then rtcp_psfb_pslei_unpack E p (bytes - 8)
     else if rc = RTCP_PSFB_ROI then rtcp_psfb_roi_unpack E p (bytes - 8)
     else if rc = RTCP_PSFB_LRR then rtcp_psfb_lrr_unpack E p (bytes - 8)
     else if rc = RTCP_PSFB_AFB then rtcp_psfb_afb_unpack E p (bytes - 8)
     else do { c_assert (nd E) False; Some (0, []) } }"

definition psfb_body :: "nat \<Rightarrow> psfb_u \<Rightarrow> u8 list \<Rightarrow> nat \<Rightarrow> (int \<times> u8 list) option option" where
  "psfb_body fmt u b bytes =
     (case u of
        Ps_pli \<Rightarrow> if fmt = RTCP_PSFB_PLI then Some (rtcp_psfb_pli_pack b 12 bytes) else None
      | Ps_sli xs \<Rightarrow> if fmt = RTCP_PSFB_SLI then Some (rtcp_psfb_sli_pack xs b 12 bytes) else None
      | Ps_rpsi pt len payload \<Rightarrow> if fmt = RTCP_PSFB_RPSI
          then Some (rtcp_psfb_rpsi_pack pt payload (unat len) b 12 bytes) else None
      | Ps_fir xs \<Rightarrow> if fmt = RTCP_PSFB_FIR then Some (rtcp_psfb_fir_pack xs b 12 bytes)
          else if fmt = RTCP_PSFB_TSTR then Some (rtcp_psfb_tstr_pack xs b 12 bytes)
          else if fmt = RTCP_PSFB_TSTN then Some (rtcp_psfb_tstn_pack xs b 12 bytes) else None
      | Ps_vbcm v \<Rightarrow> if fmt = RTCP_PSFB_VBCM then Some (rtcp_psfb_vbcm_pack v b 12 bytes) else None
      | Ps_pslei xs \<Rightarrow> if fmt = RTCP_PSFB_PSLEI then Some (rtcp_psfb_pslei_pack xs b 12 bytes) else None
      | Ps_lrr xs \<Rightarrow> if fmt = RTCP_PSFB_LRR then Some (rtcp_psfb_lrr_pack xs b 12 bytes) else None
      | Ps_afb xs \<Rightarrow> if fmt = RTCP_PSFB_AFB then Some (rtcp_psfb_remb_pack xs b 12 bytes) else None)"

definition rtcp_psfb_pack ::
  "env \<Rightarrow> u32 \<Rightarrow> nat \<Rightarrow> u32 \<Rightarrow> psfb_u \<Rightarrow> u8 list \<Rightarrow> nat \<Rightarrow> (int \<times> u8 list) option" where
  "rtcp_psfb_pack E self fmt media u data bytes =
     (if bytes < 12 then Some (12, data)
      else case psfb_body fmt u data (bytes - 12) of
        None \<Rightarrow> do { c_assert (nd E) False; Some (-1, data) }
      | Some body \<Rightarrow> do {
          (r, data) \<leftarrow> body;
          fb_frame 206 self fmt media r data })"

section \<open>Items\<close>

definition fir_bytes :: "rtcp_fir_t \<Rightarrow> u8 list" where
  "fir_bytes x = be32 (fir_ssrc x) @ be32 (push_bit 24 (ucast (fir_sn x)))"

definition tstr_bytes :: "rtcp_fir_t \<Rightarrow> u8 list" where
  "tstr_bytes x = be32 (fir_ssrc x) @ be32 (push_bit 24 (ucast (fir_sn x)) OR ucast (fir_index x))"

lemma tstr_word_back:
  "ucast (drop_bit 24 (push_bit 24 (ucast sn) OR ucast (ix :: 5 word) :: u32)) = (sn :: u8)"
  "ucast ((ucast (push_bit 24 (ucast sn) OR ucast ix :: u32) :: u8) AND 0x1F) = ix"
proof -
  have m: "(0x1F :: u8) = mask 5" by (simp add: mask_eq_exp_minus_1)
  show "ucast (drop_bit 24 (push_bit 24 (ucast sn) OR ucast ix :: u32)) = sn"
    by (rule bit_word_eqI) (auto simp: bit_simps)
  show "ucast ((ucast (push_bit 24 (ucast sn) OR ucast ix :: u32) :: u8) AND 0x1F) = ix"
    unfolding m by (rule bit_word_eqI) (auto simp: bit_simps)
qed

lemma fir_word_back: "ucast (drop_bit 24 (push_bit 24 (ucast sn) :: u32)) = (sn :: u8)"
  by (rule bit_word_eqI) (auto simp: bit_simps)

interpretation fir_item: fixed_item 8 rd_fir wr_fir fir_bytes "\<lambda>x. fir_reserved x = 0 \<and> fir_index x = 0"
proof (unfold_locales, goal_cases)
  case (3 off b x)
  then show ?case by (simp add: wr_fir_def fir_bytes_def rtp_write_uint32_eq splice_adjacent)
next
  case (4 p)
  then show ?case by (simp add: rd_fir_def ok_simps)
next
  case (5 x r)
  then show ?case
    by (simp add: rd_fir_def fir_bytes_def be32_def [of "push_bit 24 (ucast (fir_sn x))"] rd_def nth_append fir_word_back)
qed (simp_all add: fir_bytes_def)

interpretation tstr_item: fixed_item 8 rd_tstr wr_tstr tstr_bytes "\<lambda>x. fir_reserved x = 0"
proof (unfold_locales, goal_cases)
  case (3 off b x)
  then show ?case by (simp add: wr_tstr_def tstr_bytes_def rtp_write_uint32_eq splice_adjacent)
next
  case (4 p)
  then show ?case by (simp add: rd_tstr_def ok_simps)
next
  case (5 x r)
  then show ?case
    by (simp add: rd_tstr_def tstr_bytes_def rd_def nth_append tstr_word_back
        be32_def [of "push_bit 24 (ucast (fir_sn x)) OR ucast (fir_index x)"] del: drop_bit_or)
qed (simp_all add: tstr_bytes_def)

interpretation ssrc_item: fixed_item 4 rtp_read_uint32 wr_u32 be32 "\<lambda>_. True"
proof (unfold_locales, goal_cases)
  case (4 p)
  then show ?case by (simp add: ok_simps)
qed (simp_all add: wr_u32_def rtp_write_uint32_eq)


lemma rd_sli_ok: "n * 4 \<le> length p \<Longrightarrow> ok (\<lambda>xs. length xs = n) (rd_items rd_sli 4 n p)"
  by (induction n arbitrary: p) (auto simp: rd_sli_def ok_simps)

lemma rd_lrr_ok: "n * 12 \<le> length p \<Longrightarrow> ok (\<lambda>xs. length xs = n) (rd_items rd_lrr 12 n p)"
  by (induction n arbitrary: p) (auto simp: rd_lrr_def ok_simps)

section \<open>Safety of the unpackers\<close>

lemma unat_ucast_u16_plus: "unat (ucast (w :: u16) + 8 :: u64) = unat w + 8"
proof -
  have "unat (ucast w :: u64) = unat w"
    using less_trans [OF unat_u16_less [of w], of 18446744073709551616] by (simp add: unsigned_ucast_eq take_bit_eq_mod)
  moreover have "unat w + 8 < 18446744073709551616" using unat_u16_less [of w] by linarith
  ultimately show ?thesis by (simp add: unat_word_ariths)
qed

lemma pad4_le: "l + 8 \<le> 4 * k \<Longrightarrow> 8 + (l + 3) div 4 * 4 \<le> 4 * (k :: nat)"
  by presburger

lemma vbcm_loop_ok:
  "\<lbrakk>4 dvd n; n \<le> length p; n < 2 ^ 32\<rbrakk> \<Longrightarrow> ok (\<lambda>_. True) (vbcm_loop p (of_nat n))"
proof (induction n arbitrary: p rule: less_induct)
  case (less n)
  have n: "unat (of_nat n :: u64) = n" using less.prems(3) by (simp add: unsigned_of_nat take_bit_eq_mod)
  show ?case
  proof (cases "8 < n")
    case True
    define len where "len = un16 (p ! 6) (p ! 7)"
    define step where "step = 8 + (unat len + 3) div 4 * 4"
    have "unat (ucast len + 8 :: u64) = unat len + 8" by (rule unat_ucast_u16_plus)
    then have lt: "(of_nat n :: u64) < ucast len + 8 \<longleftrightarrow> n < unat len + 8"
      by (simp add: word_less_nat_alt n)
    obtain k where k: "n = 4 * k" using less.prems(1) by blast
    have step: "step \<le> n" "(of_nat n :: u64) - of_nat step = of_nat (n - step)" "4 dvd n - step" if "\<not> n < unat len + 8"
    proof -
      show "step \<le> n" using that pad4_le [of "unat len" k] unfolding step_def k by simp
      then show "(of_nat n :: u64) - of_nat step = of_nat (n - step)" by (simp only: of_nat_diff)
      show "4 dvd n - step" unfolding step_def k by (intro dvd_diff_nat dvd_add) simp_all
    qed
    have "ok (\<lambda>_. True) (vbcm_loop (drop step p) (of_nat n - of_nat step))" if "\<not> n < unat len + 8"
      using less.prems step [OF that] by (simp only:) (rule less.IH; auto simp: step_def)
    moreover have "(8 :: u64) < of_nat n" using True by (simp add: word_less_nat_alt n)
    ultimately show ?thesis
      using True less.prems step(1) lt
      by (subst vbcm_loop.simps, cases "n < unat len + 8")
        (simp_all add: ok_simps case_prod_unfold len_def [symmetric] step_def [symmetric] Let_def
          del: of_nat_add of_nat_mult of_nat_numeral)
  next
    case False
    then show ?thesis by (subst vbcm_loop.simps) (simp add: word_less_nat_alt n)
  qed
qed

lemma afb_unpack_ok: "n \<le> length q \<Longrightarrow> ok (\<lambda>_. True) (rtcp_psfb_afb_unpack E q n)"
proof -
  assume n: "n \<le> length q"
  then have "ok (\<lambda>_. True) (rd_items rtp_read_uint32 4 k (drop 8 q))" if "\<not> n - 8 < k * 4" for k
    using that by (intro okI_mono [OF ssrc_item.read_items_defined]) auto
  then show ?thesis using n
    by (cases "8 \<le> n") (auto simp: rtcp_psfb_afb_unpack_def ok_simps Let_def)
qed

lemma psfb_small_ok:
  assumes "nd E" "n \<le> length q" "4 dvd n" "n < 2 ^ 32"
  shows "ok (\<lambda>_. True) (rtcp_psfb_pli_unpack E q n)" "ok (\<lambda>_. True) (rtcp_psfb_roi_unpack E q n)"
    and "ok (\<lambda>_. True) (rtcp_psfb_rpsi_unpack E q n)"
    and "ok (\<lambda>_. True) (rtcp_psfb_sli_unpack E q n)" "ok (\<lambda>_. True) (rtcp_psfb_lrr_unpack E q n)"
    and "ok (\<lambda>_. True) (rtcp_psfb_fir_unpack E q n)"
    and "ok (\<lambda>_. True) (rtcp_psfb_tstr_unpack E q n)" "ok (\<lambda>_. True) (rtcp_psfb_tstn_unpack E q n)"
    and "ok (\<lambda>_. True) (rtcp_psfb_pslei_unpack E q n)" "ok (\<lambda>_. True) (rtcp_psfb_vbcm_unpack E q n)"
proof -
  show "ok (\<lambda>_. True) (rtcp_psfb_pli_unpack E q n)" "ok (\<lambda>_. True) (rtcp_psfb_roi_unpack E q n)"
    using assms(1) by (simp_all add: rtcp_psfb_pli_unpack_def rtcp_psfb_roi_unpack_def ok_simps)
  show "ok (\<lambda>_. True) (rtcp_psfb_rpsi_unpack E q n)"
    using assms(2) by (auto simp: rtcp_psfb_rpsi_unpack_def ok_simps)
  show "ok (\<lambda>_. True) (rtcp_psfb_vbcm_unpack E q n)"
    unfolding rtcp_psfb_vbcm_unpack_def by (rule vbcm_loop_ok [OF assms(3,2,4)])
  have "ok (\<lambda>_. True) (rd_items rd_sli 4 (n div 4) q)" using assms(2) by (intro okI_mono [OF rd_sli_ok]) auto
  then show "ok (\<lambda>_. True) (rtcp_psfb_sli_unpack E q n)" by (simp add: rtcp_psfb_sli_unpack_def ok_simps)
  have "ok (\<lambda>_. True) (rd_items rd_lrr 12 (n div 12) q)" using assms(2) by (intro okI_mono [OF rd_lrr_ok]) auto
  then show "ok (\<lambda>_. True) (rtcp_psfb_lrr_unpack E q n)" by (simp add: rtcp_psfb_lrr_unpack_def ok_simps)
  have "ok (\<lambda>_. True) (rd_items rd_fir 8 (n div 8) q)"
    using assms(2) by (intro okI_mono [OF fir_item.read_items_defined]) auto
  then show "ok (\<lambda>_. True) (rtcp_psfb_fir_unpack E q n)" by (simp add: rtcp_psfb_fir_unpack_def ok_simps)
  have "ok (\<lambda>_. True) (rd_items rd_tstr 8 (n div 8) q)"
    using assms(2) by (intro okI_mono [OF tstr_item.read_items_defined]) auto
  then show "ok (\<lambda>_. True) (rtcp_psfb_tstr_unpack E q n)" "ok (\<lambda>_. True) (rtcp_psfb_tstn_unpack E q n)"
    by (simp_all add: rtcp_psfb_tstr_unpack_def rtcp_psfb_tstn_unpack_def ok_simps)
  have "ok (\<lambda>_. True) (rd_items rtp_read_uint32 4 (n div 4) q)"
    using assms(2) by (intro okI_mono [OF ssrc_item.read_items_defined]) auto
  then show "ok (\<lambda>_. True) (rtcp_psfb_pslei_unpack E q n)" by (simp add: rtcp_psfb_pslei_unpack_def ok_simps)
qed

lemma psfb_dispatch_ok:
  assumes "nd E" "8 \<le> bytes" "bytes \<le> length p" "4 dvd bytes" "bytes < 2 ^ 32"
  shows "ok (\<lambda>_. True) (psfb_dispatch E rc p bytes)"
proof -
  have d: "bytes - 8 \<le> length (drop 8 p)" "4 dvd bytes - 8" "bytes - 8 < 2 ^ 32"
    using assms by (auto simp: dvd_diff_nat)
  show ?thesis
    using psfb_small_ok [OF assms(1) d] afb_unpack_ok [OF d(1)] assms
    by (simp add: psfb_dispatch_def ok_simps)
qed

text \<open>C37: Every payload specific feedback unpacker stays inside the packet and returns when the packet is
  a whole number of words, in a build with \<open>NDEBUG\<close>. A packet that is not, because its padding was
  removed, is read beyond its end by the video back channel unpacker.\<close>

theorem psfb_unpack_safe:
  assumes "nd E" "8 \<le> bytes" "bytes \<le> length p" "4 dvd bytes" "bytes < 2 ^ 32"
  shows "psfb_dispatch E rc p bytes \<noteq> None"
  using psfb_dispatch_ok [OF assms, of rc] by (auto simp: ok_iff)

theorem psfb_unpack_safe_witness:
  "psfb_dispatch (example_env\<lparr>nd := True\<rparr>) 7 ([0, 0, 0, 1, 0, 0, 0, 2] @ [0, 0, 0, 3, 1, 96, 0, 1, 65, 0, 0, 0]) 20 \<noteq> None"
  by (rule psfb_unpack_safe) simp_all

lemma vbcm_reads_beyond:
  "psfb_dispatch E RTCP_PSFB_VBCM ([0, 0, 0, 1, 0, 0, 0, 2] @ [0, 0, 0, 3, 1, 96, 0, 1, 65]) 17 = None"
  by (simp add: psfb_dispatch_def psfb_ids adv_def rtcp_psfb_vbcm_unpack_def vbcm_loop.simps
      rtp_read_uint32_def rtp_read_uint16_def c_slice_def)


section \<open>Round trips\<close>

definition remb_word :: "nat \<Rightarrow> rtcp_remb_t \<Rightarrow> u32" where
  "remb_word count x = push_bit 24 (of_nat count) OR push_bit 18 (ucast (remb_exp x)) OR ucast (remb_mantissa x)"

fun ps_bytes :: "nat \<Rightarrow> psfb_u \<Rightarrow> u8 list" where
  "ps_bytes fmt (Ps_fir xs) = (if fmt = RTCP_PSFB_FIR then concat (map fir_bytes xs) else concat (map tstr_bytes xs))"
| "ps_bytes fmt (Ps_pslei xs) = concat (map be32 xs)"
| "ps_bytes fmt (Ps_afb xs) = remb_id @ be32 (remb_word (length xs) (hd xs)) @ concat (map be32 (map remb_ssrc xs))"
| "ps_bytes fmt _ = []"

text \<open>The messages that survive packing: the reserved bits are zero, and all bit rates of an estimate are
  the same, because the packet has only one.\<close>

fun ps_format :: "nat \<Rightarrow> psfb_u \<Rightarrow> bool" where
  "ps_format fmt Ps_pli = (fmt = RTCP_PSFB_PLI)"
| "ps_format fmt (Ps_fir xs) =
     (list_all (\<lambda>x. fir_reserved x = 0) xs \<and>
      (fmt = RTCP_PSFB_FIR \<and> list_all (\<lambda>x. fir_index x = 0) xs \<or> fmt = RTCP_PSFB_TSTR \<or> fmt = RTCP_PSFB_TSTN))"
| "ps_format fmt (Ps_pslei xs) = (fmt = RTCP_PSFB_PSLEI)"
| "ps_format fmt (Ps_afb xs) = (fmt = RTCP_PSFB_AFB \<and> xs \<noteq> [] \<and> length xs \<le> 255
     \<and> list_all (\<lambda>x. remb_exp x = remb_exp (hd xs) \<and> remb_mantissa x = remb_mantissa (hd xs)) xs)"
| "ps_format fmt _ = False"

lemma wr_ssrcs_eq:
  "off + 4 * length xs \<le> length b \<Longrightarrow> wr_ssrcs xs b off = Some (splice b off (concat (map be32 (map remb_ssrc xs))))"
proof (induction xs arbitrary: b off)
  case Nil
  then show ?case by (simp add: splice_def)
next
  case (Cons x xs)
  then show ?case by (simp add: rtp_write_uint32_eq splice_adjacent)
qed

lemma length_ssrcs [simp]: "length (concat (map (be32 \<circ> remb_ssrc) xs)) = 4 * length xs"
  by (induction xs) simp_all

lemma length_ps_bytes: "4 dvd length (ps_bytes fmt u)"
  by (cases u)
    (auto simp: fir_item.length_enc_all tstr_item.length_enc_all ssrc_item.length_enc_all remb_id_def)

lemma ps_body_eq:
  assumes "ps_format fmt u" "12 + length (ps_bytes fmt u) \<le> length b" "length (ps_bytes fmt u) \<le> bytes"
  shows "psfb_body fmt u b bytes = Some (Some (int (length (ps_bytes fmt u)), splice b 12 (ps_bytes fmt u)))"
proof (cases u)
  case Ps_pli
  then show ?thesis using assms by (simp add: psfb_body_def rtcp_psfb_pli_pack_def splice_def)
next
  case (Ps_fir xs)
  then show ?thesis
    using assms fir_item.write_items_all [of 12 xs b bytes] tstr_item.write_items_all [of 12 xs b bytes]
    by (auto simp: psfb_body_def psfb_ids rtcp_psfb_fir_pack_def rtcp_psfb_tstr_pack_def rtcp_psfb_tstn_pack_def
        fir_item.length_enc_all tstr_item.length_enc_all)
next
  case (Ps_pslei xs)
  then show ?thesis
    using assms ssrc_item.write_items_all [of 12 xs b bytes]
    by (simp add: psfb_body_def psfb_ids rtcp_psfb_pslei_pack_def ssrc_item.length_enc_all)
next
  case (Ps_afb xs)
  then have xs: "0 < length xs" "length xs \<le> 255" "fmt = RTCP_PSFB_AFB"
    using assms(1) unfolding Ps_afb ps_format.simps by blast+
  show ?thesis
    using Ps_afb assms(2,3) xs
    by (simp add: psfb_body_def psfb_ids rtcp_psfb_remb_pack_def bytes_simp remb_id_def splice_adjacent
        wr_ssrcs_eq remb_word_def [symmetric] Let_def)
qed (use assms in simp_all)

lemma bit_w18_beyond [simp]: "18 \<le> n \<Longrightarrow> bit (w :: 18 word) n = False"
  by (simp add: impossible_bit)

lemma bit_w6_high [simp]: "6 \<le> n \<Longrightarrow> bit (w :: 6 word) n = False"
  by (simp add: impossible_bit)

lemma remb_masks: "(0x3F :: u8) = mask 6" "(0x03 :: u8) = mask 2"
  by (simp_all add: mask_eq_exp_minus_1)

lemma remb_word_back:
  "ucast (drop_bit 24 (remb_word count x)) = (of_nat count :: u8)"
  "ucast (drop_bit 2 (ucast (drop_bit 16 (remb_word count x)) :: u8) AND 0x3F) = remb_exp x"
  "ucast ((push_bit 16 (ucast ((ucast (drop_bit 16 (remb_word count x)) :: u8) AND 0x03))
     OR ucast (un16 (ucast (drop_bit 8 (remb_word count x))) (ucast (remb_word count x)))) :: u32) = remb_mantissa x"
proof -
  show "ucast (drop_bit 24 (remb_word count x)) = (of_nat count :: u8)"
    unfolding remb_word_def by (rule bit_word_eqI) (auto simp: bit_simps)
  show "ucast (drop_bit 2 (ucast (drop_bit 16 (remb_word count x)) :: u8) AND 0x3F) = remb_exp x"
    unfolding remb_word_def remb_masks by (rule bit_word_eqI) (auto simp: bit_simps)
  show "ucast ((push_bit 16 (ucast ((ucast (drop_bit 16 (remb_word count x)) :: u8) AND 0x03))
     OR ucast (un16 (ucast (drop_bit 8 (remb_word count x))) (ucast (remb_word count x)))) :: u32) = remb_mantissa x"
  proof (rule bit_word_eqI)
    fix n :: nat
    assume "n < LENGTH(18)"
    then consider "n < 8" | "8 \<le> n" "n < 16" | "n = 16" | "n = 17" by force
    then show "bit (ucast ((push_bit 16 (ucast ((ucast (drop_bit 16 (remb_word count x)) :: u8) AND 0x03))
       OR ucast (un16 (ucast (drop_bit 8 (remb_word count x))) (ucast (remb_word count x)))) :: u32) :: 18 word) n
       = bit (remb_mantissa x) n"
      unfolding remb_word_def remb_masks un16_def by cases (auto simp: bit_simps)
  qed
qed

lemma ps_unpack_eq:
  assumes "ps_format fmt u" "mem E = (\<lambda>_. True)" "length h = 8" "n = 8 + length (ps_bytes fmt u)"
  shows "psfb_dispatch E fmt (h @ ps_bytes fmt u @ r) n = Some (0, [u])"
proof (cases u)
  case Ps_pli
  then show ?thesis using assms by (simp add: psfb_dispatch_def psfb_ids adv_Some rtcp_psfb_pli_unpack_def)
next
  case (Ps_fir xs)
  then show ?thesis
    using assms fir_item.read_items_enc [of xs r] tstr_item.read_items_enc [of xs r]
    by (auto simp: psfb_dispatch_def psfb_ids adv_Some rtcp_psfb_fir_unpack_def rtcp_psfb_tstr_unpack_def
        rtcp_psfb_tstn_unpack_def fir_item.length_enc_all tstr_item.length_enc_all list_all_iff)
next
  case (Ps_pslei xs)
  then show ?thesis
    using assms ssrc_item.read_items_enc [of xs r]
    by (auto simp: psfb_dispatch_def psfb_ids adv_Some rtcp_psfb_pslei_unpack_def ssrc_item.length_enc_all list.pred_True)
next
  case (Ps_afb xs)
  define w where "w = remb_word (length xs) (hd xs)"
  define e m where "e = remb_exp (hd xs)" and "m = remb_mantissa (hd xs)"
  have fmt: "length xs \<le> 255" "fmt = RTCP_PSFB_AFB"
    and all: "\<And>x. x \<in> set xs \<Longrightarrow> remb_exp x = e \<and> remb_mantissa x = m"
    using assms(1) unfolding Ps_afb ps_format.simps list_all_iff e_def m_def by blast+
  have items: "map (\<lambda>s. \<lparr>remb_ssrc = s, remb_exp = e, remb_mantissa = m\<rparr>) (map remb_ssrc xs) = xs"
    unfolding map_map
  proof (rule map_idI)
    fix x
    assume "x \<in> set xs"
    from all [OF this] show "((\<lambda>s. \<lparr>remb_ssrc = s, remb_exp = e, remb_mantissa = m\<rparr>) \<circ> remb_ssrc) x = x"
      by (cases x) simp
  qed
  have count: "unat (of_nat (length xs) :: u8) = length xs"
    using fmt(1) by (simp add: unsigned_of_nat take_bit_eq_mod)
  have ssrcs: "rd_items rtp_read_uint32 4 (length xs) (concat (map be32 (map remb_ssrc xs)) @ r) = Some (map remb_ssrc xs)"
    using ssrc_item.read_items_enc [of "map remb_ssrc xs" r] by (simp add: list.pred_True)
  note w = remb_word_back [of "length xs" "hd xs", folded w_def e_def m_def]
  have n: "n = 16 + 4 * length xs" using assms(4) Ps_afb by (simp add: remb_id_def)
  have "rtcp_psfb_afb_unpack E (remb_id @ be32 w @ concat (map be32 (map remb_ssrc xs)) @ r) (n - 8) = Some (0, [Ps_afb xs])"
    unfolding rtcp_psfb_afb_unpack_def n
    by (simp add: c_slice_def remb_id_def be32_def [of w] adv_def rtp_read_uint16_eq w count ssrcs
        with_array_mem [OF assms(2)] items Let_def del: map_map)
  then show ?thesis
    using Ps_afb fmt(2) assms(3) by (simp add: psfb_dispatch_def psfb_ids adv_Some w_def)
qed (use assms in simp_all)



section \<open>Defects\<close>

text \<open>Slice loss items after the first are lost, and the three words of a layer refresh item overwrite each
  other.\<close>

lemma sli_pack_repeats_first:
  "map_option snd (rtcp_psfb_sli_pack [\<lparr>sli_first = 1, sli_number = 2, sli_picture_id = 3\<rparr>,
      \<lparr>sli_first = 4, sli_number = 5, sli_picture_id = 6\<rparr>] (replicate 8 0) 0 8)
   = Some [0, 8, 0, 131, 0, 8, 0, 131]"
  by code_simp

lemma lrr_pack_overwrites:
  "map_option snd (rtcp_psfb_lrr_pack [\<lparr>lrr_ssrc = 0xAABBCCDD, lrr_sn = 1, lrr_c = 1, lrr_payload = 96, lrr_ttid = 2,
      lrr_tlid = 3, lrr_ctid = 4, lrr_clid = 5\<rparr>] (replicate 12 0) 0 12)
   = Some [2, 3, 4, 5, 0, 0, 0, 0, 0, 0, 0, 0]"
  by code_simp

end
