(* ===== verification/Rtcp_Xr.thy ===== *)
theory Rtcp_Xr
  imports Rtcp_Rtpfb
begin

text \<open>
  \<open>lib/librtp/source/rtcp-xr.c\<close>: extended reports (RFC 3611 and 6679). The block unpackers yield their
  return value and the message they report. The loop over the blocks of a packet does not advance: a
  packet with at least one block keeps the receiver in it for ever. The least fixed point of the loop
  has no value there (\<open>None\<close>), and \<open>xr_rounds\<close> shows the rounds one by one.
\<close>

section \<open>Data\<close>

record rtcp_dlrr_t =
  dlrr_ssrc :: u32
  dlrr_lrr :: u32
  dlrr_dlrr :: u32

datatype xr_u =
    Xr_rle (rle_source: u32) (rle_begin: u16) (rle_end: u16) (rle_chunk: "u8 list") (rle_count: u32)
  | Xr_prt (prt_source: u32) (prt_begin: u16) (prt_end: u16) (prt_timestamp: "u32 list") (prt_count: u32)
  | Xr_rrt u64
  | Xr_dlrr "rtcp_dlrr_t list"
  | Xr_ecn rtcp_ecn_t

definition RTCP_XR_LRLE :: nat where "RTCP_XR_LRLE = 1"
definition RTCP_XR_DRLE :: nat where "RTCP_XR_DRLE = 2"
definition RTCP_XR_PRT :: nat where "RTCP_XR_PRT = 3"
definition RTCP_XR_RRT :: nat where "RTCP_XR_RRT = 4"
definition RTCP_XR_DLRR :: nat where "RTCP_XR_DLRR = 5"
definition RTCP_XR_ECN :: nat where "RTCP_XR_ECN = 13"

lemmas xr_ids = RTCP_XR_LRLE_def RTCP_XR_DRLE_def RTCP_XR_PRT_def RTCP_XR_RRT_def RTCP_XR_DLRR_def RTCP_XR_ECN_def

section \<open>Run length encoded loss and duplicates\<close>

definition rle_bits :: "u16 \<Rightarrow> bool list" where
  "rle_bits chunk =
     (if chunk AND 0x8000 = 0 then replicate (unat (chunk AND 0x3FFF)) (chunk AND 0x4000 \<noteq> 0)
      else map (\<lambda>j. chunk AND push_bit (14 - j) 1 \<noteq> 0) [0..<15])"

fun put_bits :: "u8 list \<Rightarrow> nat \<Rightarrow> nat \<Rightarrow> bool list \<Rightarrow> (u8 list \<times> nat) option" where
  "put_bits v i num [] = Some (v, i)"
| "put_bits v i num (b # bs) =
     (if i < num then do {
        v \<leftarrow> (if b then do { x \<leftarrow> rd v (i div 8); wr v (i div 8) (x OR push_bit (7 - i mod 8) 1) } else Some v);
        put_bits v (i + 1) num bs }
      else Some (v, i))"

function rle_loop :: "u8 list \<Rightarrow> nat \<Rightarrow> nat \<Rightarrow> u8 list \<Rightarrow> nat \<Rightarrow> u8 list option" where
  "rle_loop v i num p len =
     (if 2 < len then do {
        chunk \<leftarrow> rtp_read_uint16 p;
        (v, i) \<leftarrow> put_bits v i num (rle_bits chunk);
        q \<leftarrow> adv p 2;
        rle_loop v i num q (len - 2) }
      else Some v)"
  by pat_completeness auto
termination by (relation "measure (\<lambda>(v, i, num, p, len). len)") auto

declare rle_loop.simps [simp del]

text \<open>The difference of the two sequence numbers is taken as a 32-bit number.\<close>

definition seq_span :: "u16 \<Rightarrow> u16 \<Rightarrow> u32" where
  "seq_span seq fin = ucast fin - ucast seq"

definition rtcp_xr_lrle_unpack :: "env \<Rightarrow> u8 list \<Rightarrow> nat \<Rightarrow> (int \<times> xr_u list) option" where
  "rtcp_xr_lrle_unpack E p bytes = do {
     p2 \<leftarrow> adv p 2; len \<leftarrow> rtp_read_uint16 p2;
     let len = unat len;
     if bytes < 8 \<or> bytes < (len + 1) * 4 then Some (-1, [])
     else if len * 4 < 8 then Some (0, [])
     else do {
       p4 \<leftarrow> adv p 4; source \<leftarrow> rtp_read_uint32 p4;
       p8 \<leftarrow> adv p 8; seq \<leftarrow> rtp_read_uint16 p8;
       p10 \<leftarrow> adv p 10; fin \<leftarrow> rtp_read_uint16 p10;
       let num = seq_span seq fin;
       let n = (unat (num + 7)) div 8;
       with_array E 32 1 n (do {
         v \<leftarrow> rle_loop (replicate n 0) 0 (unat num) p8 (len * 4 - 8);
         Some (0, [Xr_rle source seq fin v num]) }) } }"

definition rtcp_xr_drle_unpack :: "env \<Rightarrow> u8 list \<Rightarrow> nat \<Rightarrow> (int \<times> xr_u list) option" where
  "rtcp_xr_drle_unpack E p bytes = do {
     p2 \<leftarrow> adv p 2; len \<leftarrow> rtp_read_uint16 p2;
     let len = unat len;
     if bytes < 8 \<or> bytes < (len + 1) * 4 then Some (-1, [])
     else if len * 4 < 8 then Some (0, [])
     else do {
       p4 \<leftarrow> adv p 4; source \<leftarrow> rtp_read_uint32 p4;
       p8 \<leftarrow> adv p 8; seq \<leftarrow> rtp_read_uint16 p8;
       p10 \<leftarrow> adv p 10; fin \<leftarrow> rtp_read_uint16 p10;
       let num = seq_span seq fin;
       let n = (unat (num + 7)) div 8;
       with_array E 32 1 n (do {
         v \<leftarrow> rle_loop (replicate n 0) 0 (unat num) p8 (len * 4 - 8);
         Some (0, [Xr_rle source seq fin v num]) }) } }"

section \<open>Packet receipt times\<close>

text \<open>The index of the array is never incremented, so every time stamp goes into the first element. The
  stack array has 32 elements.\<close>

function prt_loop :: "u32 list \<Rightarrow> u8 list \<Rightarrow> nat \<Rightarrow> u32 list option" where
  "prt_loop t p len =
     (if 4 < len then do {
        x \<leftarrow> rtp_read_uint32 p;
        t \<leftarrow> (if 0 < length t then Some (t[0 := x]) else None);
        q \<leftarrow> adv p 4;
        prt_loop t q (len - 4) }
      else Some t)"
  by pat_completeness auto
termination by (relation "measure (\<lambda>(t, p, len). len)") auto

declare prt_loop.simps [simp del]

definition rtcp_xr_prt_unpack :: "env \<Rightarrow> u8 list \<Rightarrow> nat \<Rightarrow> (int \<times> xr_u list) option" where
  "rtcp_xr_prt_unpack E p bytes = do {
     p2 \<leftarrow> adv p 2; len \<leftarrow> rtp_read_uint16 p2;
     let len = unat len;
     if bytes < 8 \<or> bytes < (len + 1) * 4 then Some (-1, [])
     else if len * 4 < 8 then Some (0, [])
     else do {
       p4 \<leftarrow> adv p 4; source \<leftarrow> rtp_read_uint32 p4;
       p8 \<leftarrow> adv p 8; seq \<leftarrow> rtp_read_uint16 p8;
       p10 \<leftarrow> adv p 10; fin \<leftarrow> rtp_read_uint16 p10;
       let num = seq_span seq fin;
       with_array E 32 4 (unat num) (do {
         t \<leftarrow> prt_loop (replicate (max 32 (unat num)) 0) p8 (len * 4 - 8);
         Some (0, [Xr_prt source seq fin (take (unat num) t) num]) }) } }"

section \<open>Reference time and delay\<close>

definition rtcp_xr_rrt_unpack :: "env \<Rightarrow> u8 list \<Rightarrow> nat \<Rightarrow> (int \<times> xr_u list) option" where
  "rtcp_xr_rrt_unpack E p bytes = do {
     p2 \<leftarrow> adv p 2; len \<leftarrow> rtp_read_uint16 p2;
     if bytes < 12 \<or> bytes < (unat len + 1) * 4 then Some (-1, [])
     else do {
       p4 \<leftarrow> adv p 4; hi \<leftarrow> rtp_read_uint32 p4;
       p8 \<leftarrow> adv p 8; lo \<leftarrow> rtp_read_uint32 p8;
       Some (0, [Xr_rrt (push_bit 32 (ucast hi) OR ucast lo)]) } }"

definition rtcp_xr_rrt_pack :: "u64 \<Rightarrow> u8 list \<Rightarrow> nat \<Rightarrow> nat \<Rightarrow> (int \<times> u8 list) option" where
  "rtcp_xr_rrt_pack ntp b off bytes =
     (if bytes < 12 then Some (-1, b)
      else do {
        b \<leftarrow> rtp_write_uint32 b off (push_bit 24 (of_nat RTCP_XR_RRT) OR 2);
        b \<leftarrow> rtp_write_uint32 b (off + 4) (ucast (drop_bit 32 ntp));
        b \<leftarrow> rtp_write_uint32 b (off + 8) (ucast ntp);
        Some (12, b) })"

definition rd_dlrr :: "u8 list \<Rightarrow> rtcp_dlrr_t option" where
  "rd_dlrr p = do {
     a \<leftarrow> rtp_read_uint32 p;
     p4 \<leftarrow> adv p 4; b \<leftarrow> rtp_read_uint32 p4;
     p8 \<leftarrow> adv p 8; c \<leftarrow> rtp_read_uint32 p8;
     Some \<lparr>dlrr_ssrc = a, dlrr_lrr = b, dlrr_dlrr = c\<rparr> }"

definition wr_dlrr :: "rtcp_dlrr_t \<Rightarrow> u8 list \<Rightarrow> nat \<Rightarrow> u8 list option" where
  "wr_dlrr x b off = do {
     b \<leftarrow> rtp_write_uint32 b off (dlrr_ssrc x);
     b \<leftarrow> rtp_write_uint32 b (off + 4) (dlrr_lrr x);
     rtp_write_uint32 b (off + 8) (dlrr_dlrr x) }"

text \<open>The limit of the stack array is compared with its size in bytes, 384, although it has 32 elements:
  the \<open>memset\<close> of more than 32 elements writes beyond the array.\<close>

definition rtcp_xr_dlrr_unpack :: "env \<Rightarrow> u8 list \<Rightarrow> nat \<Rightarrow> (int \<times> xr_u list) option" where
  "rtcp_xr_dlrr_unpack E p bytes = do {
     p2 \<leftarrow> adv p 2; len \<leftarrow> rtp_read_uint16 p2;
     let len = unat len;
     if bytes < 8 \<or> bytes < (len + 1) * 4 then Some (-1, [])
     else do {
       let num = len div 3;
       if 384 < num \<and> \<not> mem E (num * 12) then Some (- ENOMEM, [])
       else if num \<le> 384 \<and> 32 < num then None
       else do {
         p4 \<leftarrow> adv p 4;
         xs \<leftarrow> rd_items rd_dlrr 12 num p4;
         Some (0, [Xr_dlrr xs]) } } }"

definition rtcp_xr_dlrr_pack :: "rtcp_dlrr_t list \<Rightarrow> u8 list \<Rightarrow> nat \<Rightarrow> nat \<Rightarrow> (int \<times> u8 list) option" where
  "rtcp_xr_dlrr_pack dlrr b off bytes =
     (let count = length dlrr
      in if bytes < 4 + count * 12 then Some (-1, b)
      else do {
        b \<leftarrow> rtp_write_uint32 b off (push_bit 24 (of_nat RTCP_XR_DLRR) OR of_nat (count * 3));
        (i, b) \<leftarrow> wr_items wr_dlrr 12 dlrr (bytes - 4) b (off + 4);
        Some (4 + int (i * 12), b) })"

section \<open>Congestion notification summary\<close>

definition rtcp_xr_ecn_unpack :: "env \<Rightarrow> u8 list \<Rightarrow> nat \<Rightarrow> (int \<times> xr_u list) option" where
  "rtcp_xr_ecn_unpack E p bytes = do {
     p2 \<leftarrow> adv p 2; len \<leftarrow> rtp_read_uint16 p2;
     if bytes < 24 \<or> bytes < (unat len + 1) * 4 then Some (-1, [])
     else do {
       hs \<leftarrow> rtp_read_uint32 p;
       p4 \<leftarrow> adv p 4; e0 \<leftarrow> rtp_read_uint32 p4;
       p8 \<leftarrow> adv p 8; e1 \<leftarrow> rtp_read_uint32 p8;
       p12 \<leftarrow> adv p 12; ce \<leftarrow> rtp_read_uint16 p12;
       p14 \<leftarrow> adv p 14; ne \<leftarrow> rtp_read_uint16 p14;
       p16 \<leftarrow> adv p 16; lost \<leftarrow> rtp_read_uint16 p16;
       p18 \<leftarrow> adv p 18; dup \<leftarrow> rtp_read_uint16 p18;
       Some (0, [Xr_ecn \<lparr>ext_highest_seq = hs, ect0 = e0, ect1 = e1, ect_ce_counter = ce,
         not_ect_counter = ne, lost_packets_counter = lost, duplication_counter = dup\<rparr>]) } }"

definition rtcp_xr_ecn_pack :: "rtcp_ecn_t \<Rightarrow> u8 list \<Rightarrow> nat \<Rightarrow> nat \<Rightarrow> (int \<times> u8 list) option" where
  "rtcp_xr_ecn_pack ecn b off bytes =
     (if bytes < 24 then Some (-1, b)
      else do {
        b \<leftarrow> rtp_write_uint32 b off (push_bit 24 (of_nat RTCP_XR_ECN) OR 5);
        b \<leftarrow> rtp_write_uint32 b (off + 4) (ext_highest_seq ecn);
        b \<leftarrow> rtp_write_uint32 b (off + 8) (ect0 ecn);
        b \<leftarrow> rtp_write_uint32 b (off + 12) (ect1 ecn);
        b \<leftarrow> rtp_write_uint16 b (off + 16) (ect_ce_counter ecn);
        b \<leftarrow> rtp_write_uint16 b (off + 18) (not_ect_counter ecn);
        b \<leftarrow> rtp_write_uint16 b (off + 20) (lost_packets_counter ecn);
        b \<leftarrow> rtp_write_uint16 b (off + 22) (duplication_counter ecn);
        Some (24, b) })"

section \<open>The blocks of a packet\<close>

definition xr_block :: "env \<Rightarrow> nat \<Rightarrow> u8 list \<Rightarrow> nat \<Rightarrow> (int \<times> xr_u list) option" where
  "xr_block E bt p bytes =
     (if bt = RTCP_XR_LRLE then rtcp_xr_lrle_unpack E p bytes
      else if bt = RTCP_XR_DRLE then rtcp_xr_drle_unpack E p bytes
      else if bt = RTCP_XR_PRT then rtcp_xr_prt_unpack E p bytes
      else if bt = RTCP_XR_RRT then rtcp_xr_rrt_unpack E p bytes
      else if bt = RTCP_XR_DLRR then rtcp_xr_dlrr_unpack E p bytes
      else if bt = RTCP_XR_ECN then rtcp_xr_ecn_unpack E p bytes
      else Some (0, []))"

partial_function (option) xr_loop :: "env \<Rightarrow> u8 list \<Rightarrow> nat \<Rightarrow> (nat \<times> xr_u) list option" where
  "xr_loop E p bytes =
     (if 4 \<le> bytes then do {
        bt \<leftarrow> rd p 0;
        (r, ms) \<leftarrow> xr_block E (unat bt) p bytes;
        rest \<leftarrow> xr_loop E p bytes;
        Some (map (Pair (unat bt)) ms @ rest) }
      else Some [])"

text \<open>The first \<open>n\<close> rounds of the loop: the messages so far and whether the loop has ended.\<close>

fun xr_rounds :: "nat \<Rightarrow> env \<Rightarrow> u8 list \<Rightarrow> nat \<Rightarrow> (bool \<times> (nat \<times> xr_u) list) option" where
  "xr_rounds 0 E p bytes = Some (bytes < 4, [])"
| "xr_rounds (Suc n) E p bytes =
     (if 4 \<le> bytes then do {
        bt \<leftarrow> rd p 0;
        (r, ms) \<leftarrow> xr_block E (unat bt) p bytes;
        (fin, rest) \<leftarrow> xr_rounds n E p bytes;
        Some (fin, map (Pair (unat bt)) ms @ rest) }
      else Some (True, []))"

definition xr_body :: "nat \<Rightarrow> xr_u \<Rightarrow> u8 list \<Rightarrow> nat \<Rightarrow> (int \<times> u8 list) option option" where
  "xr_body bt u b bytes =
     (case u of
        Xr_rrt ntp \<Rightarrow> if bt = RTCP_XR_RRT then Some (rtcp_xr_rrt_pack ntp b 8 bytes) else None
      | Xr_dlrr xs \<Rightarrow> if bt = RTCP_XR_DLRR then Some (rtcp_xr_dlrr_pack xs b 8 bytes) else None
      | Xr_ecn e \<Rightarrow> if bt = RTCP_XR_ECN then Some (rtcp_xr_ecn_pack e b 8 bytes) else None
      | _ \<Rightarrow> None)"

definition rtcp_xr_pack :: "env \<Rightarrow> u32 \<Rightarrow> nat \<Rightarrow> xr_u \<Rightarrow> u8 list \<Rightarrow> nat \<Rightarrow> (int \<times> u8 list) option" where
  "rtcp_xr_pack E self bt u data bytes =
     (if bytes < 8 then Some (8, data)
      else case xr_body bt u data (bytes - 8) of
        None \<Rightarrow> do { c_assert (nd E) False; Some (-1, data) }
      | Some body \<Rightarrow> do {
          (r, data) \<leftarrow> body;
          let len = nat ((r + 4 + 3) div 4);
          data \<leftarrow> nbo_write_rtcp_header data 0
            \<lparr>r_v = 2, r_p = 0, r_rc = of_nat bt, r_pt = 207, r_length = of_nat len\<rparr>;
          data \<leftarrow> rtp_write_uint32 data 4 self;
          Some (int (unat (of_nat len :: u16)) * 4 + 4, data) })"

section \<open>The loop does not end\<close>

text \<open>C38: An extended report with at least one block never lets the receiver go: after any number of
  rounds the loop has not ended, and it has no result. Each round reports the first block again.\<close>

theorem xr_never_returns:
  assumes "4 \<le> bytes"
  shows "xr_loop E p bytes = None \<and> (\<forall>n. case xr_rounds n E p bytes of None \<Rightarrow> True
    | Some (fin, ms) \<Rightarrow> \<not> fin \<and> (\<forall>bt r m. rd p 0 = Some bt \<and> xr_block E (unat bt) p bytes = Some (r, [m])
        \<longrightarrow> ms = replicate n (unat bt, m)))"
proof
  have "bytes' < 4" if "xr_loop E' p' bytes' = Some ms" for E' p' bytes' ms
    by (rule xr_loop.raw_induct [where P = "\<lambda>E p bytes ms. bytes < 4", OF _ that])
      (fastforce split: if_splits simp: bind_eq_Some_conv case_prod_unfold)
  then show "xr_loop E p bytes = None"
    using assms by (meson not_le not_None_eq)
  show "\<forall>n. case xr_rounds n E p bytes of None \<Rightarrow> True
    | Some (fin, ms) \<Rightarrow> \<not> fin \<and> (\<forall>bt r m. rd p 0 = Some bt \<and> xr_block E (unat bt) p bytes = Some (r, [m])
        \<longrightarrow> ms = replicate n (unat bt, m))"
  proof
    fix n
    show "case xr_rounds n E p bytes of None \<Rightarrow> True
    | Some (fin, ms) \<Rightarrow> \<not> fin \<and> (\<forall>bt r m. rd p 0 = Some bt \<and> xr_block E (unat bt) p bytes = Some (r, [m])
        \<longrightarrow> ms = replicate n (unat bt, m))"
      using assms by (induction n) (auto simp: bind_eq_Some_conv split: option.splits)
  qed
qed

text \<open>A reference time block repeated in every round.\<close>

theorem xr_never_returns_witness:
  "xr_loop example_env ([4, 0, 0, 2] @ be32 1 @ be32 2) 12 = None
   \<and> xr_rounds 3 example_env ([4, 0, 0, 2] @ be32 1 @ be32 2) 12
     = Some (False, [(4, Xr_rrt 0x100000002), (4, Xr_rrt 0x100000002), (4, Xr_rrt 0x100000002)])"
proof
  show "xr_loop example_env ([4, 0, 0, 2] @ be32 1 @ be32 2) 12 = None"
    using xr_never_returns [of 12 example_env "[4, 0, 0, 2] @ be32 1 @ be32 2"] by simp
  show "xr_rounds 3 example_env ([4, 0, 0, 2] @ be32 1 @ be32 2) 12
     = Some (False, [(4, Xr_rrt 0x100000002), (4, Xr_rrt 0x100000002), (4, Xr_rrt 0x100000002)])"
    by code_simp
qed

section \<open>Further defects\<close>

lemma dlrr_stack_overflow:
  assumes "33 \<le> unat len div 3" "unat len div 3 \<le> 384" "(unat len + 1) * 4 \<le> bytes" "bytes \<le> length p"
    "rtp_read_uint16 (drop 2 p) = Some len"
  shows "rtcp_xr_dlrr_unpack E p bytes = None"
  using assms by (simp add: rtcp_xr_dlrr_unpack_def adv_def Let_def)

end
