(* ===== verification/Rtp_Session.thy ===== *)
theory Rtp_Session
  imports Rtp_Packet Rtp_Member_List Rtcp_Rtpfb Rtcp_Psfb Rtcp_Xr
begin

text \<open>
  \<open>lib/librtp/include/rtp-internal.h\<close> and the first half of \<open>source/rtcp.c\<close>: the session context, the
  messages it reports, the sequence number validation of a source, the lookup of participants and the
  reception of an RTP packet.

  A context holds the two participant lists, the pointer to the own participant, the heap that
  the participants live in and the number of readings of the clock so far. The calls of the
  callback \<open>on_rtcp\<close> are collected in order in \<open>x_events\<close>.

  \<open>session_wf\<close> is the invariant of a session: every participant in the heap is referenced from the
  lists or is the own one, its reference count is exactly the number of these references, the sources of
  the member list are distinct, each sender is a member, and the counter of the source description items is in
  its range.
\<close>

section \<open>Messages and the context\<close>

record rtcp_rb_t =
  rb_ssrc :: u32
  rb_fraction :: u8
  rb_cumulative :: "24 word"
  rb_exthsn :: u32
  rb_jitter :: u32
  rb_lsr :: u32
  rb_dlsr :: u32

datatype rtcp_msg_u =
    Msg_rb rtcp_rb_t
  | Msg_sdes u8 u8 "u8 list"
  | Msg_bye "u8 list option"
  | Msg_app u8 "u8 list" "u8 list"
  | Msg_rtpfb u32 rtpfb_u
  | Msg_psfb u32 psfb_u
  | Msg_xr xr_u

record rtcp_msg_t =
  msg_type :: int
  msg_ssrc :: u32
  msg_u :: rtcp_msg_u

record rtp_context =
  x_events :: "rtcp_msg_t list"
  x_members :: rtp_member_list
  x_senders :: rtp_member_list
  x_self :: member_ptr
  x_avg_rtcp_size :: int
  x_rtcp_bw :: int
  x_rtcp_cycle :: nat
  x_frequence :: int
  x_init :: bool
  x_role :: int
  x_heap :: mheap
  x_ticks :: nat

definition RTCP_SR :: int where "RTCP_SR = 200"
definition RTCP_RR :: int where "RTCP_RR = 201"
definition RTCP_SDES :: int where "RTCP_SDES = 202"
definition RTCP_BYE :: int where "RTCP_BYE = 203"
definition RTCP_APP :: int where "RTCP_APP = 204"
definition RTCP_RTPFB :: int where "RTCP_RTPFB = 205"
definition RTCP_PSFB :: int where "RTCP_PSFB = 206"
definition RTCP_XR :: int where "RTCP_XR = 207"

lemmas rtcp_types = RTCP_SR_def RTCP_RR_def RTCP_SDES_def RTCP_BYE_def RTCP_APP_def RTCP_RTPFB_def
  RTCP_PSFB_def RTCP_XR_def

definition on_rtcp :: "rtcp_msg_t \<Rightarrow> rtp_context \<Rightarrow> rtp_context" where
  "on_rtcp msg x = x\<lparr>x_events := x_events x @ [msg]\<rparr>"

definition clock_now :: "env \<Rightarrow> rtp_context \<Rightarrow> u64 \<times> rtp_context" where
  "clock_now E x = (rtpclock E (x_ticks x), x\<lparr>x_ticks := x_ticks x + 1\<rparr>)"

definition put_member :: "member_ptr \<Rightarrow> rtp_member \<Rightarrow> rtp_context \<Rightarrow> rtp_context" where
  "put_member p m x = x\<lparr>x_heap := mh_set p m (x_heap x)\<rparr>"

abbreviation cell :: "rtp_context \<Rightarrow> member_ptr \<Rightarrow> rtp_member option" where
  "cell x \<equiv> mh_cells (x_heap x)"

section \<open>Sequence numbers of a source\<close>

definition rtp_seq_init :: "u16 \<Rightarrow> rtp_member \<Rightarrow> rtp_member" where
  "rtp_seq_init seq m = m\<lparr>m_rtp_seq := seq, m_rtp_seq_bad := 2 ^ 16 + 1, m_rtp_seq_base := seq,
     m_rtp_seq_cycles := 0, m_rtp_packets0 := 0, m_rtp_expected0 := 0, m_rtp_bytes := 0,
     m_rtp_packets := 0, m_rtp_probation := 0, m_jitter := 0\<rparr>"

definition rtp_seq_update :: "u16 \<Rightarrow> rtp_member \<Rightarrow> int \<times> rtp_member" where
  "rtp_seq_update seq m =
     (let delta = unat (seq - m_rtp_seq m) in
      if 0 < m_rtp_probation m then
        if unat (m_rtp_seq m) + 1 = unat seq then
          (let m = m\<lparr>m_rtp_seq := seq, m_rtp_probation := m_rtp_probation m - 1\<rparr> in
           if m_rtp_probation m = 0 then (1, rtp_seq_init seq m) else (0, m))
        else (0, m\<lparr>m_rtp_probation := of_nat RTP_PROBATION, m_rtp_seq := seq\<rparr>)
      else if delta < RTP_MEMBER_DROPOUT then
        (1, (if seq < m_rtp_seq m then m\<lparr>m_rtp_seq_cycles := m_rtp_seq_cycles m + 2 ^ 16\<rparr> else m)
              \<lparr>m_rtp_seq := seq\<rparr>)
      else if delta \<le> 2 ^ 16 - RTP_MEMBER_MISORDER then
        if m_rtp_seq_bad m + 1 = ucast seq then (1, rtp_seq_init seq m)
        else (0, m\<lparr>m_rtp_seq_bad := ucast seq\<rparr>)
      else (1, m))"

section \<open>Lookup of participants\<close>

text \<open>The caller of \<open>rtp_member_list_add\<close> ignores its result: when the list cannot grow, the release
  frees the new participant and the pointer that is returned dangles.\<close>

definition rtp_member_fetch :: "env \<Rightarrow> u32 \<Rightarrow> rtp_context \<Rightarrow> (member_ptr option \<times> rtp_context) option" where
  "rtp_member_fetch E ssrc x = do {
     p \<leftarrow> rtp_member_list_find (x_heap x) (x_members x) ssrc;
     case p of
       Some p \<Rightarrow> Some (Some p, x)
     | None \<Rightarrow> do {
         (if nd E then Some () else do {
            s \<leftarrow> rtp_member_list_find (x_heap x) (x_senders x) ssrc;
            c_assert (nd E) (s = None) });
         case rtp_member_create E ssrc (x_heap x) of
           (None, h) \<Rightarrow> Some (None, x)
         | (Some p, h) \<Rightarrow> do {
             (r, l, h) \<leftarrow> rtp_member_list_add E p (x_members x) h;
             h \<leftarrow> rtp_member_release E p h;
             Some (Some p, x\<lparr>x_members := l, x_heap := h\<rparr>) } } }"

definition rtp_sender_fetch :: "env \<Rightarrow> u32 \<Rightarrow> rtp_context \<Rightarrow> (member_ptr option \<times> rtp_context) option" where
  "rtp_sender_fetch E ssrc x = do {
     p \<leftarrow> rtp_member_list_find (x_heap x) (x_senders x) ssrc;
     case p of
       Some p \<Rightarrow> Some (Some p, x)
     | None \<Rightarrow> do {
         (p, x) \<leftarrow> rtp_member_fetch E ssrc x;
         case p of
           None \<Rightarrow> Some (None, x)
         | Some p \<Rightarrow> do {
             (r, l, h) \<leftarrow> rtp_member_list_add E p (x_senders x) (x_heap x);
             Some (Some p, x\<lparr>x_senders := l, x_heap := h\<rparr>) } } }"

section \<open>Reception of an RTP packet\<close>

text \<open>The transit time difference \<open>D\<close>; the negation of the smallest \<open>int\<close> has no value in C.\<close>

definition jitter_diff :: "env \<Rightarrow> int \<Rightarrow> u64 \<Rightarrow> u32 \<Rightarrow> rtp_member \<Rightarrow> int" where
  "jitter_diff E frequence clock timestamp m =
     (let D = sint (ucast ((clock - m_rtp_clock m) * of_int frequence div 1000000)
                    - (timestamp - m_rtp_timestamp m) :: u32)
      in if D < 0 then (if D = - (2 ^ 31) then junk E else - D) else D)"

definition jitter_update :: "env \<Rightarrow> int \<Rightarrow> u64 \<Rightarrow> u32 \<Rightarrow> rtp_member \<Rightarrow> rtp_member" where
  "jitter_update E frequence clock timestamp m =
     (if m_rtp_packets m \<noteq> 0
      then m\<lparr>m_jitter := m_jitter m + (of_int (jitter_diff E frequence clock timestamp m) - m_jitter m) / 16\<rparr>
      else m\<lparr>m_jitter := 0\<rparr>)"

definition rtcp_input_rtp :: "env \<Rightarrow> u8 list \<Rightarrow> int \<Rightarrow> rtp_context \<Rightarrow> (int \<times> rtp_context) option" where
  "rtcp_input_rtp E data bytes x = do {
     r \<leftarrow> rtp_packet_deserialize (nd E) data bytes;
     case r of
       Inl e \<Rightarrow> Some (-1, x)
     | Inr pkt \<Rightarrow> do {
         c_assert (nd E) (h_v (pk_rtp pkt) = 2);
         (sender, x) \<leftarrow> rtp_sender_fetch E (h_ssrc (pk_rtp pkt)) x;
         case sender of
           None \<Rightarrow> Some (-1, x)
         | Some p \<Rightarrow> do {
             let (clock, x) = clock_now E x;
             m \<leftarrow> cell x p;
             let (r, m) = rtp_seq_update (h_seq (pk_rtp pkt)) m;
             if r = 0 then Some (0, put_member p m x)
             else
               let m = jitter_update E (x_frequence x) clock (h_timestamp (pk_rtp pkt)) m;
                   m = m\<lparr>m_rtp_clock := clock, m_rtp_timestamp := h_timestamp (pk_rtp pkt),
                         m_rtp_bytes := m_rtp_bytes m + of_int (pk_payloadlen pkt),
                         m_rtp_packets := m_rtp_packets m + 1\<rparr>
               in Some (1, put_member p m x) } } }"


section \<open>The invariant\<close>

abbreviation members :: "rtp_context \<Rightarrow> member_ptr list" where
  "members x \<equiv> list_abs (x_members x)"

abbreviation senders :: "rtp_context \<Rightarrow> member_ptr list" where
  "senders x \<equiv> list_abs (x_senders x)"

definition refs :: "rtp_context \<Rightarrow> member_ptr \<Rightarrow> nat" where
  "refs x p = count_list (members x) p + count_list (senders x) p + (if p = x_self x then 1 else 0)"

definition counted :: "(member_ptr \<Rightarrow> nat) \<Rightarrow> mheap \<Rightarrow> bool" where
  "counted f h \<longleftrightarrow> (\<forall>p. case mh_cells h p of None \<Rightarrow> f p = 0 | Some m \<Rightarrow> 0 < f p \<and> m_ref m = int (f p))"

definition session_wf :: "rtp_context \<Rightarrow> bool" where
  "session_wf x \<longleftrightarrow> list_invar (x_members x) \<and> list_invar (x_senders x) \<and> heap_wf (x_heap x)
     \<and> counted (refs x) (x_heap x)
     \<and> distinct (sources (x_heap x) (members x)) \<and> distinct (senders x) \<and> set (senders x) \<subseteq> set (members x)
     \<and> x_rtcp_cycle x < 24"

lemma refs_update [simp]:
  "refs (x\<lparr>x_ticks := t\<rparr>) = refs x" "refs (x\<lparr>x_events := e\<rparr>) = refs x"
  "refs (x\<lparr>x_avg_rtcp_size := n\<rparr>) = refs x" "refs (x\<lparr>x_init := i\<rparr>) = refs x"
  "refs (x\<lparr>x_rtcp_cycle := c\<rparr>) = refs x" "refs (x\<lparr>x_role := r\<rparr>) = refs x"
  "refs (x\<lparr>x_heap := h\<rparr>) = refs x"
  by (simp_all add: refs_def fun_eq_iff)

lemma session_wf_update [simp]:
  "session_wf (x\<lparr>x_ticks := t\<rparr>) = session_wf x" "session_wf (x\<lparr>x_events := e\<rparr>) = session_wf x"
  "session_wf (x\<lparr>x_avg_rtcp_size := n\<rparr>) = session_wf x" "session_wf (x\<lparr>x_init := i\<rparr>) = session_wf x"
  "session_wf (x\<lparr>x_role := r\<rparr>) = session_wf x"
  by (simp_all add: session_wf_def)

lemma session_wf_cycle: "\<lbrakk>session_wf x; c < 24\<rbrakk> \<Longrightarrow> session_wf (x\<lparr>x_rtcp_cycle := c\<rparr>)"
  by (simp add: session_wf_def)

lemma session_wf_on_rtcp [simp]: "session_wf (on_rtcp msg x) = session_wf x"
  by (simp add: on_rtcp_def)

lemma countedD: "\<lbrakk>counted f h; 0 < f p\<rbrakk> \<Longrightarrow> \<exists>m. mh_cells h p = Some m \<and> m_ref m = int (f p)"
  unfolding counted_def by (cases "mh_cells h p") (force dest: spec [of _ p])+

lemma counted_upd:
  assumes "counted f h" "\<And>q. q \<noteq> p \<Longrightarrow> g q = f q" "\<And>q. q \<noteq> p \<Longrightarrow> mh_cells h' q = mh_cells h q"
    "case mh_cells h' p of None \<Rightarrow> g p = 0 | Some m \<Rightarrow> 0 < g p \<and> m_ref m = int (g p)"
  shows "counted g h'"
  unfolding counted_def
proof
  fix q
  show "case mh_cells h' q of None \<Rightarrow> g q = 0 | Some m \<Rightarrow> 0 < g q \<and> m_ref m = int (g q)"
    using assms(1,4) assms(2,3) [of q] by (cases "q = p") (simp_all add: counted_def cong: option.case_cong)
qed

lemma count_pos: "p \<in> set xs \<Longrightarrow> 0 < count_list xs p"
  by (metis count_list_0_iff gr0I)

lemma member_cell:
  assumes "session_wf x" "p \<in> set (members x) \<union> set (senders x) \<union> {x_self x}"
  shows "\<exists>m. cell x p = Some m \<and> m_ref m = int (refs x p) \<and> 0 < refs x p"
proof -
  have "0 < refs x p" using assms(2) by (auto simp: refs_def dest: count_pos)
  then show ?thesis using assms(1) countedD by (auto simp: session_wf_def)
qed

lemma session_live:
  assumes "session_wf x"
  shows "live (x_heap x) (members x)" "live (x_heap x) (senders x)"
  using member_cell [OF assms] by (fastforce simp: live_def)+

lemma session_distinct: "session_wf x \<Longrightarrow> distinct (members x)"
  by (auto simp: session_wf_def sources_def distinct_map)

lemma sender_sources_distinct:
  assumes "session_wf x"
  shows "distinct (sources (x_heap x) (senders x))"
proof -
  have "inj_on (\<lambda>s. m_ssrc (the (cell x s))) (set (members x))" "distinct (senders x)"
    "set (senders x) \<subseteq> set (members x)"
    using assms by (auto simp: session_wf_def sources_def distinct_map)
  then show ?thesis by (auto simp: sources_def distinct_map intro: inj_on_subset)
qed

lemma session_wf_put:
  assumes "session_wf x" "cell x p = Some m" "m_ref m' = m_ref m" "m_ssrc m' = m_ssrc m" "member_wf m'"
  shows "session_wf (put_member p m' x)"
proof -
  have "p < mh_next (x_heap x)" using assms(1,2) by (auto simp: session_wf_def heap_wf_def)
  then have h: "heap_wf (mh_set p m' (x_heap x))"
    using assms(1,5) by (intro heap_wf_set) (auto simp: session_wf_def)
  have "(\<lambda>s. m_ssrc (the (((cell x)(p \<mapsto> m')) s))) = (\<lambda>s. m_ssrc (the (cell x s)))"
    using assms(2,4) by auto
  moreover have "counted (refs x) (mh_set p m' (x_heap x))"
    using assms(1-3) by (auto simp: session_wf_def counted_def split: option.splits)
  ultimately show ?thesis
    using assms(1) h by (simp add: session_wf_def put_member_def sources_def)
qed

lemma put_member_simps [simp]:
  "x_self (put_member p m x) = x_self x" "x_members (put_member p m x) = x_members x"
  "x_senders (put_member p m x) = x_senders x" "x_ticks (put_member p m x) = x_ticks x" "cell (put_member p m x) = (cell x)(p \<mapsto> m)"
  "x_events (put_member p m x) = x_events x"
  by (simp_all add: put_member_def)

section \<open>Lookup keeps the invariant\<close>

text \<open>What a lookup leaves unchanged.\<close>

definition kept :: "rtp_context \<Rightarrow> rtp_context \<Rightarrow> bool" where
  "kept x y \<longleftrightarrow> y = x\<lparr>x_members := x_members y, x_senders := x_senders y, x_heap := x_heap y\<rparr>"

lemma keptD:
  "kept x y \<Longrightarrow> x_self y = x_self x \<and> x_events y = x_events x \<and> x_ticks y = x_ticks x
     \<and> x_frequence y = x_frequence x \<and> x_avg_rtcp_size y = x_avg_rtcp_size x"
  unfolding kept_def by (metis rtp_context.select_convs rtp_context.surjective rtp_context.update_convs)

lemma kept_refl [simp]: "kept x x"
  by (simp add: kept_def)

lemma kept_trans: "\<lbrakk>kept x y; kept y z\<rbrakk> \<Longrightarrow> kept x z"
  unfolding kept_def by (cases x; cases y; cases z) simp

definition fresh_member :: "u32 \<Rightarrow> rtp_member" where
  "fresh_member ssrc = member_zero\<lparr>m_ref := 1, m_ssrc := ssrc, m_jitter := 0,
     m_rtp_probation := of_nat RTP_PROBATION, m_rtcp_sr := (m_rtcp_sr member_zero)\<lparr>sr_ssrc := ssrc\<rparr>\<rparr>"

lemma fresh_member_simps [simp]:
  "m_ref (fresh_member ssrc) = 1" "m_ssrc (fresh_member ssrc) = ssrc" "member_wf (fresh_member ssrc)"
  using member_wf_zero by (simp_all add: fresh_member_def)

lemma member_fetch_known:
  assumes "session_wf x" "q \<in> set (members x)" "cell x q = Some m"
  shows "rtp_member_fetch E (m_ssrc m) x = Some (Some q, x)"
  using assms session_live [OF assms(1)] first_source_of [of "x_heap x" "members x" q m]
  by (simp add: rtp_member_fetch_def session_wf_def sl.find_abs)

lemma fresh_cell:
  assumes "session_wf x"
  shows "cell x (mh_next (x_heap x)) = None" "mh_next (x_heap x) \<notin> set (members x)"
    "mh_next (x_heap x) \<notin> set (senders x)" "mh_next (x_heap x) \<noteq> x_self x"
proof -
  show *: "cell x (mh_next (x_heap x)) = None"
    using assms by (cases "cell x (mh_next (x_heap x))") (auto simp: session_wf_def heap_wf_def)
  show "mh_next (x_heap x) \<notin> set (members x)" "mh_next (x_heap x) \<notin> set (senders x)"
    "mh_next (x_heap x) \<noteq> x_self x"
    using member_cell [OF assms, of "mh_next (x_heap x)"] * by auto
qed

lemma session_wf_fresh:
  assumes "session_wf x" "list_invar l" "list_abs l = members x @ [mh_next (x_heap x)]"
    "ssrc \<notin> set (sources (x_heap x) (members x))"
  shows "session_wf (x\<lparr>x_members := l, x_heap :=
      mh_set (mh_next (x_heap x)) (fresh_member ssrc) ((x_heap x)\<lparr>mh_next := mh_next (x_heap x) + 1\<rparr>)\<rparr>)"
proof -
  define q where "q = mh_next (x_heap x)"
  define h where "h = mh_set q (fresh_member ssrc) ((x_heap x)\<lparr>mh_next := q + 1\<rparr>)"
  define y where "y = x\<lparr>x_members := l, x_heap := h\<rparr>"
  note q = fresh_cell [OF assms(1), folded q_def]
  have r: "refs y p = (if p = q then 1 else refs x p)" "0 = refs x q" for p
    using q assms(3) by (auto simp: refs_def y_def q_def [symmetric])
  have "sources h (members x) = sources (x_heap x) (members x)"
    using q(2) by (auto simp: sources_def h_def)
  then have "distinct (sources h (members y))"
    using assms q(2) by (simp add: session_wf_def y_def q_def [symmetric])
      (simp add: sources_def h_def cong: map_cong)
  moreover have "counted (refs y) h"
    by (rule counted_upd [of "refs x" "x_heap x" q]) (use assms(1) r(1) in \<open>auto simp: session_wf_def h_def\<close>)
  moreover have "heap_wf h"
    using assms(1) by (auto simp: session_wf_def heap_wf_def h_def q_def less_Suc_eq)
  ultimately have "session_wf y"
    using assms(1-3) by (auto simp: session_wf_def y_def)
  then show ?thesis by (simp add: y_def h_def q_def)
qed

lemma member_fetch_new:
  assumes "session_wf x" "\<forall>n. mem E n" "ssrc \<notin> set (sources (x_heap x) (members x))"
  shows "ok (\<lambda>(p, y). p = Some (mh_next (x_heap x)) \<and> session_wf y \<and> members y = members x @ [mh_next (x_heap x)]
      \<and> kept x y \<and> x_senders y = x_senders x
      \<and> cell y = (cell x)(mh_next (x_heap x) \<mapsto> fresh_member ssrc)) (rtp_member_fetch E ssrc x)"
proof -
  define q where "q = mh_next (x_heap x)"
  define h where "h = mh_set q (fresh_member ssrc) ((x_heap x)\<lparr>mh_next := q + 1\<rparr>)"
  note live = session_live [OF assms(1)]
  have none: "rtp_member_list_find (x_heap x) (x_members x) ssrc = Some None"
    using assms(1,3) live by (simp add: session_wf_def sl.find_abs first_source_none_iff)
  have "ssrc \<notin> set (sources (x_heap x) (senders x))"
    using assms(1,3) by (auto simp: session_wf_def sources_def)
  then have none': "rtp_member_list_find (x_heap x) (x_senders x) ssrc = Some None"
    using assms(1) live by (simp add: session_wf_def sl.find_abs first_source_none_iff)
  have create: "rtp_member_create E ssrc (x_heap x) = (Some q, h)"
    using assms(2) by (simp add: rtp_member_create_def fresh_member_def h_def q_def Let_def)
  have hq: "mh_cells h q = Some (fresh_member ssrc)" by (simp add: h_def)
  have "ok (\<lambda>(r, l, h'). list_invar l \<and> list_abs l = members x @ [q]
      \<and> h' = mh_set q ((fresh_member ssrc)\<lparr>m_ref := 2\<rparr>) h) (rtp_member_list_add E q (x_members x) h)"
    using assms(1,2)
    by (intro okI_mono [OF sl.add_abs [OF _ hq]]) (auto simp: session_wf_def)
  then obtain r l where add: "rtp_member_list_add E q (x_members x) h
      = Some (r, l, mh_set q ((fresh_member ssrc)\<lparr>m_ref := 2\<rparr>) h)" "list_invar l" "list_abs l = members x @ [q]"
    by (auto elim!: okE)
  have one: "(fresh_member ssrc)\<lparr>m_ref := 1\<rparr> = fresh_member ssrc" by (simp add: fresh_member_def)
  have rel: "rtp_member_release E q (mh_set q ((fresh_member ssrc)\<lparr>m_ref := 2\<rparr>) h) = Some h"
    using release_shared [of "mh_set q ((fresh_member ssrc)\<lparr>m_ref := 2\<rparr>) h" q "(fresh_member ssrc)\<lparr>m_ref := 2\<rparr>" E]
    by (simp add: one) (simp add: mh_set_def h_def)
  show ?thesis
    using none none' create add(1) rel session_wf_fresh [OF assms(1) add(2) _ assms(3)] add(3)
    by (simp add: rtp_member_fetch_def ok_simps q_def [symmetric]) (simp add: h_def q_def kept_def)
qed


definition found :: "(rtp_context \<Rightarrow> member_ptr list) \<Rightarrow> u32 \<Rightarrow> rtp_context \<Rightarrow> member_ptr option \<times> rtp_context \<Rightarrow> bool" where
  "found ps ssrc x r \<longleftrightarrow> (case r of (p, y) \<Rightarrow> session_wf y \<and> kept x y
     \<and> (\<exists>q m. p = Some q \<and> q \<in> set (ps y) \<and> cell y q = Some m \<and> m_ssrc m = ssrc))"

lemma member_fetch_ok:
  assumes "session_wf x" "\<forall>n. mem E n"
  shows "ok (\<lambda>r. found members ssrc x r \<and> x_senders (snd r) = x_senders x
      \<and> (\<forall>q m. cell x q = Some m \<longrightarrow> cell (snd r) q = Some m)) (rtp_member_fetch E ssrc x)"
proof (cases "ssrc \<in> set (sources (x_heap x) (members x))")
  case True
  then obtain q m where "q \<in> set (members x)" "cell x q = Some m" "m_ssrc m = ssrc"
    using session_live(1) [OF assms(1)] by (fastforce simp: sources_def live_def)
  then show ?thesis using member_fetch_known [OF assms(1)] assms(1) by (auto simp: found_def)
next
  case False
  show ?thesis
    by (rule okI_mono [OF member_fetch_new [OF assms False]])
      (use fresh_cell(1) [OF assms(1)] in \<open>auto simp: found_def\<close>)
qed

lemma session_wf_add_sender:
  assumes "session_wf x" "q \<in> set (members x)" "q \<notin> set (senders x)" "cell x q = Some m"
    "list_invar l" "list_abs l = senders x @ [q]"
  shows "session_wf (x\<lparr>x_senders := l, x_heap := mh_set q (m\<lparr>m_ref := m_ref m + 1\<rparr>) (x_heap x)\<rparr>)"
proof -
  define h where "h = mh_set q (m\<lparr>m_ref := m_ref m + 1\<rparr>) (x_heap x)"
  define y where "y = x\<lparr>x_senders := l, x_heap := h\<rparr>"
  have r: "refs y p = refs x p + (if p = q then 1 else 0)" for p
    using assms(6) by (simp add: refs_def y_def)
  have "heap_wf h" using assms(1,4) by (auto simp: session_wf_def heap_wf_def h_def)
  moreover have "counted (refs y) h"
  proof (rule counted_upd [of "refs x" "x_heap x" q])
    show "case mh_cells h q of None \<Rightarrow> refs y q = 0 | Some m \<Rightarrow> 0 < refs y q \<and> m_ref m = int (refs y q)"
      using member_cell [OF assms(1), of q] assms(2,4) r [of q] by (auto simp: h_def)
  qed (use assms(1) r in \<open>auto simp: session_wf_def h_def\<close>)
  moreover have "sources h (members x) = sources (x_heap x) (members x)"
    using assms(4) by (auto simp: sources_def h_def)
  ultimately have "session_wf y"
    using assms by (simp add: session_wf_def y_def)
  then show ?thesis by (simp add: y_def h_def)
qed

lemma sender_fetch_ok:
  assumes "session_wf x" "\<forall>n. mem E n"
  shows "ok (found senders ssrc x) (rtp_sender_fetch E ssrc x)"
proof -
  have find: "rtp_member_list_find (x_heap x) (x_senders x) ssrc = Some (first_source (x_heap x) ssrc (senders x))"
    using assms(1) session_live(2) [OF assms(1)] by (simp add: session_wf_def sl.find_abs)
  show ?thesis
  proof (cases "first_source (x_heap x) ssrc (senders x)")
    case (Some q)
    then show ?thesis
      using first_source_SomeD [OF Some] find assms(1) by (auto simp: rtp_sender_fetch_def found_def)
  next
    case None
    obtain q y m where fetch: "rtp_member_fetch E ssrc x = Some (Some q, y)" "session_wf y" "kept x y"
      "q \<in> set (members y)" "cell y q = Some m" "m_ssrc m = ssrc" "x_senders y = x_senders x"
      "\<And>q m. cell x q = Some m \<Longrightarrow> cell y q = Some m"
      using member_fetch_ok [OF assms, of ssrc] by (elim okE) (auto simp: found_def)
    have notin: "q \<notin> set (senders y)"
    proof
      assume "q \<in> set (senders y)"
      then have q: "q \<in> set (senders x)" by (simp add: fetch(7))
      then obtain m' where m': "cell x q = Some m'" using session_live(2) [OF assms(1)] by (auto simp: live_def)
      show False
        using first_source_NoneD [OF None session_live(2) [OF assms(1)] q m'] fetch(5,6) fetch(8) [OF m'] by simp
    qed
    have m: "0 < m_ref m" using member_cell [OF fetch(2), of q] fetch(4,5) by auto
    have "ok (\<lambda>(r, l, h). list_invar l \<and> list_abs l = senders y @ [q]
        \<and> h = mh_set q (m\<lparr>m_ref := m_ref m + 1\<rparr>) (x_heap y)) (rtp_member_list_add E q (x_senders y) (x_heap y))"
      using fetch(2) assms(2)
      by (intro okI_mono [OF sl.add_abs [OF _ fetch(5) m]]) (auto simp: session_wf_def)
    then obtain r l where add: "rtp_member_list_add E q (x_senders y) (x_heap y)
        = Some (r, l, mh_set q (m\<lparr>m_ref := m_ref m + 1\<rparr>) (x_heap y))" "list_invar l" "list_abs l = senders y @ [q]"
      by (auto elim!: okE)
    have "kept x (y\<lparr>x_senders := l, x_heap := h\<rparr>)" for h
      using fetch(3) by (rule kept_trans) (simp add: kept_def)
    then show ?thesis
      using find None fetch(1,6) add session_wf_add_sender [OF fetch(2,4) notin fetch(5) add(2,3)]
      by (simp add: rtp_sender_fetch_def found_def)
  qed
qed


text \<open>Giving back a reference that is counted.\<close>

lemma release_counted:
  assumes "counted f h" "0 < f p" "nd E"
  shows "ok (\<lambda>h'. counted (f(p := f p - 1)) h' \<and> (\<forall>q. q \<noteq> p \<longrightarrow> mh_cells h' q = mh_cells h q)
      \<and> mh_next h' = mh_next h \<and> (heap_wf h \<longrightarrow> heap_wf h')
      \<and> (1 < f p \<longrightarrow> (\<exists>m m'. mh_cells h p = Some m \<and> mh_cells h' p = Some m' \<and> m_ssrc m' = m_ssrc m)))
    (rtp_member_release E p h)"
proof -
  obtain m where m: "mh_cells h p = Some m" "m_ref m = int (f p)" using countedD [OF assms(1,2)] by blast
  show ?thesis
  proof (cases "f p = 1")
    case True
    have "counted (f(p := 0)) (mh_free p h)"
      by (rule counted_upd [OF assms(1)]) auto
    then show ?thesis
      using True m assms(3) by (simp add: rtp_member_release_def heap_wf_free)
  next
    case False
    then have one: "1 < m_ref m" "1 < f p" using assms(2) m(2) by linarith+
    have "counted (f(p := f p - 1)) (mh_set p (m\<lparr>m_ref := m_ref m - 1\<rparr>) h)"
      by (rule counted_upd [OF assms(1)]) (use one m(2) in \<open>auto simp: of_nat_diff\<close>)
    moreover have "heap_wf h \<Longrightarrow> heap_wf (mh_set p (m\<lparr>m_ref := m_ref m - 1\<rparr>) h)"
      using m(1) by (auto simp: heap_wf_def)
    ultimately show ?thesis
      using release_shared [OF m(1) one(1), of E] one m(1) by auto
  qed
qed

section \<open>An RTP packet keeps the invariant\<close>

lemma seq_update_same [simp]:
  "m_ref (rtp_seq_init seq m) = m_ref m" "m_ssrc (rtp_seq_init seq m) = m_ssrc m"
  "member_wf (rtp_seq_init seq m) = member_wf m"
  "m_ref (snd (rtp_seq_update seq m)) = m_ref m" "m_ssrc (snd (rtp_seq_update seq m)) = m_ssrc m"
  "member_wf (snd (rtp_seq_update seq m)) = member_wf m"
  by (simp_all add: rtp_seq_update_def rtp_seq_init_def member_wf_def Let_def)

lemma jitter_update_same [simp]:
  "m_ref (jitter_update E f c t m) = m_ref m" "m_ssrc (jitter_update E f c t m) = m_ssrc m"
  "member_wf (jitter_update E f c t m) = member_wf m"
  by (simp_all add: jitter_update_def)

lemma wf_cell: "\<lbrakk>session_wf x; cell x p = Some m\<rbrakk> \<Longrightarrow> member_wf m"
  by (auto simp: session_wf_def heap_wf_def)

lemma session_wf_touch:
  assumes "session_wf x" "cell x p = Some m"
    and "m_ref m' = m_ref m" "m_ssrc m' = m_ssrc m" "member_wf m' = member_wf m"
  shows "session_wf (put_member p m' (x\<lparr>x_ticks := t\<rparr>))"
  using assms wf_cell [OF assms(1,2)] by (intro session_wf_put [of _ p m m']) simp_all

lemma input_rtp_ok:
  assumes "session_wf x" "\<forall>n. mem E n" "nd E" "bytes \<le> int (length data)"
  shows "ok (\<lambda>(r, y). session_wf y \<and> x_self y = x_self x) (rtcp_input_rtp E data bytes x)"
proof -
  obtain r where r: "rtp_packet_deserialize True data bytes = Some r"
    using rtp_packet_deserialize_total [OF assms(4)] by blast
  show ?thesis
  proof (cases r)
    case (Inl e)
    then show ?thesis using r assms(1,3) by (simp add: rtcp_input_rtp_def)
  next
    case (Inr pkt)
    obtain q y m where f: "rtp_sender_fetch E (h_ssrc (pk_rtp pkt)) x = Some (Some q, y)" "session_wf y"
        "kept x y" "cell y q = Some m"
      using sender_fetch_ok [OF assms(1,2), of "h_ssrc (pk_rtp pkt)"] by (elim okE) (auto simp: found_def)
    show ?thesis
      using r Inr assms(3) f keptD [OF f(3)]
      by (simp add: rtcp_input_rtp_def clock_now_def case_prod_unfold Let_def session_wf_touch [OF f(2,4)])
  qed
qed

section \<open>Accounting of sequence numbers\<close>

text \<open>\<open>tracks n e m\<close>: the source is past its probation, started with the number \<open>n\<close> and the highest number so
  far is \<open>e\<close>, both counted without wrap-around.\<close>

definition tracks :: "nat \<Rightarrow> nat \<Rightarrow> rtp_member \<Rightarrow> bool" where
  "tracks n e m \<longleftrightarrow> m_rtp_probation m = 0 \<and> n < 2 ^ 16 \<and> n \<le> e \<and> m_rtp_seq_base m = of_nat n
     \<and> m_rtp_seq m = of_nat e \<and> m_rtp_seq_cycles m = of_nat (e div 2 ^ 16 * 2 ^ 16)"

lemma tracks_init: "tracks (unat seq) (unat seq) (rtp_seq_init seq m)"
  by (simp add: tracks_def rtp_seq_init_def of_nat_unat)

lemma unat_of_nat_mod_u16: "unat (of_nat n :: u16) = n mod 2 ^ 16"
  by (simp add: unsigned_of_nat take_bit_eq_mod)

lemma seq_ahead:
  assumes "e \<le> e'" "e' < e + 2 ^ 16"
  shows "unat (of_nat e' - of_nat e :: u16) = e' - e"
    and "(of_nat e' :: u16) < of_nat e \<longleftrightarrow> e' div 2 ^ 16 = e div 2 ^ 16 + 1"
    and "e' div 2 ^ 16 = e div 2 ^ 16 \<or> e' div 2 ^ 16 = e div 2 ^ 16 + 1"
proof -
  have eq: "(of_nat e' - of_nat e :: u16) = of_nat (e' - e)" using assms(1) by (simp add: of_nat_diff)
  show "unat (of_nat e' - of_nat e :: u16) = e' - e"
    unfolding eq unat_of_nat_mod_u16 using assms by simp
  have "e' mod 2 ^ 16 < e mod 2 ^ 16 \<longleftrightarrow> e' div 2 ^ 16 = e div 2 ^ 16 + 1"
    "e' div 2 ^ 16 = e div 2 ^ 16 \<or> e' div 2 ^ 16 = e div 2 ^ 16 + 1"
  proof -
    have "e div 2 ^ 16 \<le> e' div 2 ^ 16" "e' div 2 ^ 16 \<le> e div 2 ^ 16 + 1"
      using div_le_mono [OF assms(1), of "2 ^ 16"] div_le_mono [of e' "e + 2 ^ 16" "2 ^ 16"] assms(2) by simp_all
    then show *: "e' div 2 ^ 16 = e div 2 ^ 16 \<or> e' div 2 ^ 16 = e div 2 ^ 16 + 1" by linarith
    have e: "e mod 2 ^ 16 = e - 2 ^ 16 * (e div 2 ^ 16)" "e' mod 2 ^ 16 = e' - 2 ^ 16 * (e' div 2 ^ 16)"
        "2 ^ 16 * (e div 2 ^ 16) \<le> e" "2 ^ 16 * (e' div 2 ^ 16) \<le> e'"
      by (rule minus_mult_div_eq_mod [symmetric] times_div_less_eq_dividend)+
    show "e' mod 2 ^ 16 < e mod 2 ^ 16 \<longleftrightarrow> e' div 2 ^ 16 = e div 2 ^ 16 + 1"
      unfolding e(1,2) using * e(3,4) assms by (elim disjE) auto
  qed
  then show "(of_nat e' :: u16) < of_nat e \<longleftrightarrow> e' div 2 ^ 16 = e div 2 ^ 16 + 1"
    "e' div 2 ^ 16 = e div 2 ^ 16 \<or> e' div 2 ^ 16 = e div 2 ^ 16 + 1"
    by (simp_all add: word_less_nat_alt unat_of_nat_mod_u16)
qed

lemma seq_behind:
  assumes "e' < e" "e \<le> e' + 2 ^ 16"
  shows "unat (of_nat e' - of_nat e :: u16) = 2 ^ 16 - (e - e')"
proof -
  have "(of_nat (2 ^ 16 - (e - e')) :: u16) = of_nat (2 ^ 16) - of_nat (e - e')"
    using assms by (subst of_nat_diff) simp_all
  also have "(of_nat (2 ^ 16) :: u16) = 0" by simp
  finally have eq: "(of_nat e' - of_nat e :: u16) = of_nat (2 ^ 16 - (e - e'))"
    using assms(1) by (simp add: of_nat_diff)
  show ?thesis unfolding eq unat_of_nat_mod_u16 using assms(1) by simp
qed

definition same_counters :: "rtp_member \<Rightarrow> rtp_member \<Rightarrow> bool" where
  "same_counters m m' \<longleftrightarrow> m_ssrc m' = m_ssrc m \<and> m_rtp_packets0 m' = m_rtp_packets0 m
     \<and> m_rtp_expected0 m' = m_rtp_expected0 m"

lemma tracks_step:
  assumes "tracks n e m" "n \<le> e'" "e < e' + RTP_MEMBER_MISORDER" "e' < e + RTP_MEMBER_DROPOUT"
  shows "fst (rtp_seq_update (of_nat e') m) = 1 \<and> tracks n (max e e') (snd (rtp_seq_update (of_nat e') m))
    \<and> same_counters m (snd (rtp_seq_update (of_nat e') m))
    \<and> m_rtp_packets (snd (rtp_seq_update (of_nat e') m)) = m_rtp_packets m"
proof (cases "e \<le> e'")
  case True
  have "e' < e + 2 ^ 16" using assms(4) by (simp add: RTP_MEMBER_DROPOUT_def)
  note a = seq_ahead [OF True this]
  have "e' - e < RTP_MEMBER_DROPOUT" using assms(4) True by linarith
  then show ?thesis
    using assms(1,2) True a
    by (auto simp: rtp_seq_update_def tracks_def same_counters_def max_def algebra_simps)
next
  case False
  then have "unat (of_nat e' - of_nat e :: u16) = 2 ^ 16 - (e - e')"
    using assms(3) by (intro seq_behind) (auto simp: RTP_MEMBER_MISORDER_def)
  moreover have "\<not> 2 ^ 16 - (e - e') < RTP_MEMBER_DROPOUT" "\<not> 2 ^ 16 - (e - e') \<le> 2 ^ 16 - RTP_MEMBER_MISORDER"
    using assms(3) False by (simp_all add: RTP_MEMBER_MISORDER_def RTP_MEMBER_DROPOUT_def)
  ultimately show ?thesis
    using assms(1) False by (simp add: rtp_seq_update_def tracks_def same_counters_def Let_def max_def)
qed


text \<open>The reception of a sequence of datagrams, and the sequence numbers (counted without wrap-around) that it
  may have: at most 99 behind and less than 500 ahead of the highest so far.\<close>

fun input_rtp_all :: "env \<Rightarrow> u8 list list \<Rightarrow> rtp_context \<Rightarrow> rtp_context option" where
  "input_rtp_all E [] x = Some x"
| "input_rtp_all E (d # ds) x = do {
     (r, x) \<leftarrow> rtcp_input_rtp E d (int (length d)) x;
     input_rtp_all E ds x }"

fun paced :: "nat \<Rightarrow> nat \<Rightarrow> nat list \<Rightarrow> bool" where
  "paced n e [] \<longleftrightarrow> True"
| "paced n e (e' # es) \<longleftrightarrow> n \<le> e' \<and> e < e' + RTP_MEMBER_MISORDER \<and> e' < e + RTP_MEMBER_DROPOUT \<and> paced n (max e e') es"

text \<open>\<open>carries ssrc e d\<close>: the datagram is an RTP packet of the source with this sequence number.\<close>

definition carries :: "u32 \<Rightarrow> nat \<Rightarrow> u8 list \<Rightarrow> bool" where
  "carries ssrc e d \<longleftrightarrow> (case rtp_packet_deserialize True d (int (length d)) of
     Some (Inr pkt) \<Rightarrow> h_ssrc (pk_rtp pkt) = ssrc \<and> h_seq (pk_rtp pkt) = of_nat e | _ \<Rightarrow> False)"

lemma sender_fetch_known:
  assumes "session_wf x" "q \<in> set (senders x)" "cell x q = Some m"
  shows "rtp_sender_fetch E (m_ssrc m) x = Some (Some q, x)"
  using assms session_live(2) [OF assms(1)] sender_sources_distinct [OF assms(1)]
    first_source_of [of "x_heap x" "senders x" q m]
  by (simp add: rtp_sender_fetch_def session_wf_def sl.find_abs)

lemma input_rtp_tracked:
  assumes "session_wf x" "nd E" "q \<in> set (senders x)" "cell x q = Some m" "tracks n e m"
    "carries (m_ssrc m) e' d" "n \<le> e'" "e < e' + RTP_MEMBER_MISORDER" "e' < e + RTP_MEMBER_DROPOUT"
  shows "ok (\<lambda>(r, y). r = 1 \<and> session_wf y \<and> senders y = senders x \<and> (\<exists>m'. cell y q = Some m'
      \<and> same_counters m m' \<and> tracks n (max e e') m' \<and> m_rtp_packets m' = m_rtp_packets m + 1))
    (rtcp_input_rtp E d (int (length d)) x)"
proof -
  obtain pkt where pkt: "rtp_packet_deserialize True d (int (length d)) = Some (Inr pkt)"
      "h_ssrc (pk_rtp pkt) = m_ssrc m" "h_seq (pk_rtp pkt) = of_nat e'"
    using assms(6) by (auto simp: carries_def split: option.splits sum.splits)
  note step = tracks_step [OF assms(5,7-9)]
  show ?thesis
    using step assms(2,4) pkt sender_fetch_known [OF assms(1,3,4), of E]
    by (simp add: rtcp_input_rtp_def clock_now_def case_prod_unfold Let_def session_wf_touch [OF assms(1,4)])
      (simp add: tracks_def same_counters_def jitter_update_def)
qed

lemma input_rtp_all_tracked:
  "\<lbrakk>session_wf x; nd E; q \<in> set (senders x); cell x q = Some m; tracks n e m; paced n e es;
    list_all2 (carries (m_ssrc m)) es ds\<rbrakk> \<Longrightarrow>
   ok (\<lambda>y. session_wf y \<and> senders y = senders x \<and> (\<exists>m'. cell y q = Some m' \<and> same_counters m m'
      \<and> tracks n (fold max es e) m' \<and> m_rtp_packets m' = m_rtp_packets m + of_nat (length es))) (input_rtp_all E ds x)"
proof (induction es arbitrary: ds x m e)
  case Nil
  then show ?case by (simp add: same_counters_def)
next
  case (Cons e' es)
  obtain d ds' where ds: "ds = d # ds'" "carries (m_ssrc m) e' d" "list_all2 (carries (m_ssrc m)) es ds'"
    using Cons.prems(7) by (auto simp: list_all2_Cons1)
  have w: "n \<le> e'" "e < e' + RTP_MEMBER_MISORDER" "e' < e + RTP_MEMBER_DROPOUT" using Cons.prems(6) by simp_all
  obtain y m' where y: "rtcp_input_rtp E d (int (length d)) x = Some (1, y)" "session_wf y" "senders y = senders x"
      "cell y q = Some m'" "same_counters m m'" "tracks n (max e e') m'" "m_rtp_packets m' = m_rtp_packets m + 1"
    using input_rtp_tracked [OF Cons.prems(1-5) ds(2) w] by (elim okE) auto
  have "ok (\<lambda>z. session_wf z \<and> senders z = senders y \<and> (\<exists>m''. cell z q = Some m'' \<and> same_counters m' m''
      \<and> tracks n (fold max es (max e e')) m'' \<and> m_rtp_packets m'' = m_rtp_packets m' + of_nat (length es)))
      (input_rtp_all E ds' y)"
    using Cons.prems(2,3,6) y ds(3) by (intro Cons.IH) (auto simp: same_counters_def)
  then show ?case
    using y ds(1) by (auto simp: max.commute add.assoc same_counters_def elim!: okI_mono)
qed

end
