(* ===== verification/Rtp_Time.thy ===== *)
theory Rtp_Time
  imports C_Prelude
begin

text \<open>
  \<open>lib/librtp/source/rtp-time.c\<close>: the conversions between the wall clock in microseconds since
  1970 and the 64-bit NTP timestamp of a sender report (seconds since 1900 in the high word, a binary
  fraction of a second in the low word). The reading \<open>rtpclock()\<close> itself is the system's; the
  session takes the sequence of its readings as a parameter.
\<close>

definition clock2ntp :: "u64 \<Rightarrow> u64" where
  "clock2ntp clock =
     (let ntp = push_bit 32 (clock div 1000000 + 0x83AA7E80)
      in ntp OR ucast (ucast (push_bit 26 (clock mod 1000000) div 15625) :: u32))"

definition ntp2clock :: "u64 \<Rightarrow> u64" where
  "ntp2clock ntp =
     (let clock = ucast (ucast (drop_bit 32 ntp) - 0x83AA7E80 :: u32) * 1000000
      in clock + drop_bit 26 ((ntp AND 0xFFFFFFFF) * 15625))"

section \<open>The halves of an NTP timestamp\<close>

lemma unat_u64_less [simp]: "unat (x :: u64) < 18446744073709551616"
  using unat_bound [of x] by simp

lemma ntp_low: "(push_bit 32 s OR ucast (f :: u32)) AND 0xFFFFFFFF = (ucast f :: u64)"
proof -
  have m: "(0xFFFFFFFF :: u64) = mask 32" by (simp add: mask_eq_exp_minus_1)
  show ?thesis
    unfolding m using bit_imp_le_length [of f] by (auto intro!: bit_word_eqI simp: bit_simps)
qed

lemma ntp_high: "ucast (drop_bit 32 (push_bit 32 s OR ucast (f :: u32) :: u64)) = (ucast s :: u32)"
  by (auto intro!: bit_word_eqI simp: bit_simps)

text \<open>Truncating twice when a number of units is rescaled by \<open>a / b\<close> and back loses at most one unit,
  and none exactly when the number is a multiple of \<open>b\<close>.\<close>

lemma rescale_twice:
  fixes us a b :: nat
  assumes "coprime b a" "0 < b" "b \<le> a"
  shows "us * a div b * b div a = (if us mod b = 0 then us else us - 1)"
proof -
  define k where "k = us * a div b"
  have k: "us * a = k * b + us * a mod b" "us * a mod b < b"
    using assms(2) by (simp_all add: k_def)
  have dvd: "us * a mod b = 0 \<longleftrightarrow> us mod b = 0"
    using assms(1) by (simp add: mod_eq_0_iff_dvd coprime_dvd_mult_left_iff)
  show ?thesis
  proof (cases "us mod b = 0")
    case True
    then have "k * b = us * a" using dvd k(1) by simp
    then show ?thesis using True assms by (simp flip: k_def)
  next
    case False
    then have "0 < us" "k * b < us * a" "us * a < k * b + a"
      using dvd k assms(3) by (auto intro: gr0I)
    moreover have "us * a = (us - 1) * a + a"
      using \<open>0 < us\<close> by (cases us) simp_all
    ultimately have "k * b div a = us - 1"
      by (intro div_nat_eqI) (auto simp: algebra_simps)
    then show ?thesis using False by (simp flip: k_def)
  qed
qed

lemma fraction_fits: "us < 1000000 \<Longrightarrow> us * 67108864 div 15625 < (4294967296 :: nat)"
  by (auto intro: less_mult_imp_div_less)

lemma fraction_back:
  "us * 67108864 div 15625 * 15625 div 67108864 = (if us mod 15625 = 0 then us else us - 1 :: nat)"
  by (rule rescale_twice) (simp_all add: coprime_iff_gcd_eq_1 gcd_non_0_nat)

lemma unat_push_bit_small:
  "unat (w :: u64) * 2 ^ n < 2 ^ 64 \<Longrightarrow> unat (push_bit n w) = unat w * 2 ^ n"
  by (subst unsigned_push_bit_eq) (simp add: take_bit_eq_mod push_bit_eq_mult)

lemma clock2ntp_fraction:
  "unat (push_bit 26 (clock mod 1000000 :: u64) div 15625) = unat clock mod 1000000 * 67108864 div 15625"
proof -
  have "unat (clock mod 1000000) = unat clock mod 1000000" by (simp add: unat_mod)
  then show ?thesis by (simp add: unat_div unat_push_bit_small)
qed

text \<open>Converting a clock to an NTP timestamp and back gives the clock itself when its sub-second
  part is a multiple of 15625 microseconds, and the clock less one microsecond otherwise, for every
  clock whose seconds fit into 32 bits (up to the year 2106).\<close>

theorem clock_ntp_roundtrip:
  assumes "unat clock < 1000000 * 2 ^ 32"
  shows "unat (ntp2clock (clock2ntp clock))
    = (if unat clock mod 15625 = 0 then unat clock else unat clock - 1)"
proof -
  define sec us f where "sec = clock div 1000000"
    and "us = unat clock mod 1000000"
    and "f = (ucast (push_bit 26 (clock mod 1000000) div 15625) :: u32)"
  have sec: "unat sec < 4294967296" "unat clock = unat sec * 1000000 + us" "us < 1000000"
    using assms by (simp_all add: sec_def us_def unat_div less_mult_imp_div_less)
  have f: "unat f = us * 67108864 div 15625"
    using fraction_fits [OF sec(3)]
    by (simp add: f_def us_def unsigned_ucast_eq take_bit_eq_mod clock2ntp_fraction)
  have "unat (ucast f :: u64) = unat f"
    using less_trans [OF unat_u32_less [of f], of 18446744073709551616]
    by (simp add: unsigned_ucast_eq take_bit_eq_mod)
  moreover have "unat f * 15625 < 18446744073709551616"
    using unat_u32_less [of f] by linarith
  ultimately have "unat (ucast f * 15625 :: u64) = us * 67108864 div 15625 * 15625"
    by (simp add: unat_word_ariths f)
  then have low: "unat (drop_bit 26 (ucast f * 15625 :: u64)) = (if us mod 15625 = 0 then us else us - 1)"
    by (simp add: drop_bit_eq_div unat_div fraction_back)
  have add: "ucast (sec + 0x83AA7E80) = (ucast sec :: u32) + 0x83AA7E80"
    by (simp add: word_unat_eq_iff unsigned_ucast_eq take_bit_eq_mod unat_word_ariths mod_mod_cancel mod_add_left_eq)
  have "ucast (ucast sec :: u32) = sec"
    using sec(1) by (simp add: word_unat_eq_iff unsigned_ucast_eq take_bit_eq_mod unat_mod)
  then have high: "ucast (ucast (sec + 0x83AA7E80) - 0x83AA7E80 :: u32) = sec"
    unfolding add by simp
  have secs: "unat (sec * 1000000) = unat sec * 1000000"
    using sec(1) by (simp add: unat_word_ariths)
  have mod: "unat clock mod 15625 = us mod 15625"
    unfolding us_def by (simp add: mod_mod_cancel)
  have "ntp2clock (clock2ntp clock) = sec * 1000000 + drop_bit 26 (ucast f * 15625)"
    unfolding ntp2clock_def clock2ntp_def Let_def sec_def [symmetric] f_def [symmetric] ntp_low ntp_high high ..
  then show ?thesis
    using sec low secs mod by (auto simp: unat_word_ariths)
qed

theorem clock_ntp_roundtrip_witness:
  "unat (ntp2clock (clock2ntp 1597463063913139)) = 1597463063913138"
  using clock_ntp_roundtrip [of 1597463063913139] by simp

text \<open>The unit test of the source file.\<close>

lemma rtp_time_test: "clock2ntp (ntp2clock 0xe2e1d897e9c38b05) = 0xe2e1d897e9c38b04"
  by (simp add: clock2ntp_def ntp2clock_def)

end
