(* ===== verification/Rtcp_Report.thy ===== *)
theory Rtcp_Report
  imports Rtp_Session Rtp_Time
begin

text \<open>
  \<open>lib/librtp/source/rtcp-sr.c\<close> and \<open>rtcp-rr.c\<close>: sender and receiver reports. A report block is read and
  written as a fixed-size item, so the loops of the unpackers are those of \<open>Rtcp_Items\<close>.

  The conversion of a \<open>double\<close> to \<open>uint32_t\<close> outside its range has no value in C (\<open>bad_cast\<close>), and
  the arithmetic of \<open>float\<close> rounds (\<open>rnd32\<close>).
\<close>

section \<open>Report blocks\<close>

definition rd_rb :: "u8 list \<Rightarrow> rtcp_rb_t option" where
  "rd_rb p = do {
     ssrc \<leftarrow> rtp_read_uint32 p;
     fraction \<leftarrow> rd p 4;
     c0 \<leftarrow> rd p 5; c1 \<leftarrow> rd p 6; c2 \<leftarrow> rd p 7;
     p8 \<leftarrow> adv p 8; exthsn \<leftarrow> rtp_read_uint32 p8;
     p12 \<leftarrow> adv p 12; jitter \<leftarrow> rtp_read_uint32 p12;
     p16 \<leftarrow> adv p 16; lsr \<leftarrow> rtp_read_uint32 p16;
     p20 \<leftarrow> adv p 20; dlsr \<leftarrow> rtp_read_uint32 p20;
     Some \<lparr>rb_ssrc = ssrc, rb_fraction = fraction,
       rb_cumulative = ucast (push_bit 16 (ucast c0) OR push_bit 8 (ucast c1) OR ucast c2 :: u32),
       rb_exthsn = exthsn, rb_jitter = jitter, rb_lsr = lsr, rb_dlsr = dlsr\<rparr> }"

definition wr_rb :: "rtcp_rb_t \<Rightarrow> u8 list \<Rightarrow> nat \<Rightarrow> u8 list option" where
  "wr_rb rb b off = do {
     b \<leftarrow> rtp_write_uint32 b off (rb_ssrc rb);
     b \<leftarrow> wr b (off + 4) (rb_fraction rb);
     b \<leftarrow> wr b (off + 5) (ucast (drop_bit 16 (rb_cumulative rb)));
     b \<leftarrow> wr b (off + 6) (ucast (drop_bit 8 (rb_cumulative rb)));
     b \<leftarrow> wr b (off + 7) (ucast (rb_cumulative rb));
     b \<leftarrow> rtp_write_uint32 b (off + 8) (rb_exthsn rb);
     b \<leftarrow> rtp_write_uint32 b (off + 12) (rb_jitter rb);
     b \<leftarrow> rtp_write_uint32 b (off + 16) (rb_lsr rb);
     rtp_write_uint32 b (off + 20) (rb_dlsr rb) }"

definition rb_bytes :: "rtcp_rb_t \<Rightarrow> u8 list" where
  "rb_bytes rb = be32 (rb_ssrc rb) @ [rb_fraction rb, ucast (drop_bit 16 (rb_cumulative rb)),
     ucast (drop_bit 8 (rb_cumulative rb)), ucast (rb_cumulative rb)]
     @ be32 (rb_exthsn rb) @ be32 (rb_jitter rb) @ be32 (rb_lsr rb) @ be32 (rb_dlsr rb)"

section \<open>Receiving a report\<close>

definition report_blocks :: "int \<Rightarrow> u32 \<Rightarrow> rtcp_rb_t list \<Rightarrow> rtp_context \<Rightarrow> rtp_context" where
  "report_blocks t ssrc rbs x = fold (\<lambda>rb. on_rtcp \<lparr>msg_type = t, msg_ssrc = ssrc, msg_u = Msg_rb rb\<rparr>) rbs x"

definition rtcp_sr_unpack :: "env \<Rightarrow> rtcp_header_t \<Rightarrow> u8 list \<Rightarrow> nat \<Rightarrow> rtp_context \<Rightarrow> rtp_context option" where
  "rtcp_sr_unpack E header ptr bytes x =
     (if bytes < 24 + unat (r_rc header) * 24 then do { c_assert (nd E) False; Some x }
      else do {
        ssrc \<leftarrow> rtp_read_uint32 ptr;
        (sender, x) \<leftarrow> rtp_sender_fetch E ssrc x;
        case sender of
          None \<Rightarrow> Some x
        | Some p \<Rightarrow> do {
            c_assert (nd E) (p \<noteq> x_self x);
            m \<leftarrow> cell x p;
            c_assert (nd E) (sr_ssrc (m_rtcp_sr m) = ssrc);
            let (clock, x) = clock_now E x;
            p4 \<leftarrow> adv ptr 4; ntpmsw \<leftarrow> rtp_read_uint32 p4;
            p8 \<leftarrow> adv ptr 8; ntplsw \<leftarrow> rtp_read_uint32 p8;
            p12 \<leftarrow> adv ptr 12; rtpts \<leftarrow> rtp_read_uint32 p12;
            p16 \<leftarrow> adv ptr 16; spc \<leftarrow> rtp_read_uint32 p16;
            p20 \<leftarrow> adv ptr 20; soc \<leftarrow> rtp_read_uint32 p20;
            let x = put_member p (m\<lparr>m_rtcp_clock := clock, m_rtcp_sr := (m_rtcp_sr m)\<lparr>sr_ntpmsw := ntpmsw,
                      sr_ntplsw := ntplsw, sr_rtpts := rtpts, sr_spc := spc, sr_soc := soc\<rparr>\<rparr>) x;
            p24 \<leftarrow> adv ptr 24;
            rbs \<leftarrow> rd_items rd_rb 24 (unat (r_rc header)) p24;
            Some (report_blocks RTCP_RR ssrc rbs x) } })"

definition rtcp_rr_unpack :: "env \<Rightarrow> rtcp_header_t \<Rightarrow> u8 list \<Rightarrow> nat \<Rightarrow> rtp_context \<Rightarrow> rtp_context option" where
  "rtcp_rr_unpack E header ptr bytes x =
     (if bytes < 4 + unat (r_rc header) * 24 then do { c_assert (nd E) False; Some x }
      else do {
        ssrc \<leftarrow> rtp_read_uint32 ptr;
        (receiver, x) \<leftarrow> rtp_member_fetch E ssrc x;
        case receiver of
          None \<Rightarrow> Some x
        | Some p \<Rightarrow> do {
            c_assert (nd E) (p \<noteq> x_self x);
            m \<leftarrow> cell x p;
            c_assert (nd E) (sr_ssrc (m_rtcp_sr m) = ssrc);
            let (clock, x) = clock_now E x;
            let x = put_member p (m\<lparr>m_rtcp_clock := clock\<rparr>) x;
            p4 \<leftarrow> adv ptr 4;
            rbs \<leftarrow> rd_items rd_rb 24 (unat (r_rc header)) p4;
            Some (report_blocks RTCP_RR ssrc rbs x) } })"

section \<open>Sending a report\<close>

definition u32_of_rat :: "env \<Rightarrow> rat \<Rightarrow> u32" where
  "u32_of_rat E r = (if -1 < r \<and> r < 2 ^ 32 then (if r < 0 then 0 else of_int \<lfloor>r\<rfloor>) else bad_cast E r)"

definition expected_of :: "rtp_member \<Rightarrow> u32" where
  "expected_of m = m_rtp_seq_cycles m + ucast (m_rtp_seq m) - ucast (m_rtp_seq_base m) + 1"

definition fraction_of :: "rtp_member \<Rightarrow> u32" where
  "fraction_of m =
     (let expected_interval = expected_of m - m_rtp_expected0 m;
          received_interval = m_rtp_packets m - m_rtp_packets0 m;
          lost_interval = expected_interval - received_interval
      in if sint lost_interval < 0 \<or> expected_interval = 0 then 0
         else push_bit 8 lost_interval div expected_interval)"

definition lost_of :: "rtp_member \<Rightarrow> int" where
  "lost_of m = (let lost = sint (expected_of m - m_rtp_packets m)
     in if 0x007FFFFF < lost then 0x007FFFFF else if lost < 0 then 0 else lost)"

definition block_of :: "env \<Rightarrow> u64 \<Rightarrow> rtp_member \<Rightarrow> rtcp_rb_t" where
  "block_of E clock m =
     (let delay = clock - m_rtcp_clock m;
          lsr = push_bit 16 (sr_ntpmsw (m_rtcp_sr m) AND 0xFFFF) OR (drop_bit 16 (sr_ntplsw (m_rtcp_sr m)) AND 0xFFFF);
          dlsr = u32_of_rat E (rnd32 E (rnd32 E (rnd32 E (of_nat (unat delay)) / 1000000) * 65536))
      in \<lparr>rb_ssrc = m_ssrc m, rb_fraction = ucast (fraction_of m), rb_cumulative = of_int (lost_of m),
          rb_exthsn = m_rtp_seq_cycles m + ucast (m_rtp_seq m), rb_jitter = u32_of_rat E (m_jitter m),
          rb_lsr = lsr, rb_dlsr = (if lsr = 0 then 0 else dlsr)\<rparr>)"

definition rtcp_report_block ::
  "env \<Rightarrow> member_ptr \<Rightarrow> u8 list \<Rightarrow> nat \<Rightarrow> int \<Rightarrow> rtp_context \<Rightarrow> (nat \<times> u8 list \<times> rtp_context) option" where
  "rtcp_report_block E p b off bytes x =
     (if bytes < 24 then Some (0, b, x)
      else do {
        m \<leftarrow> cell x p;
        c_assert (nd E) (ucast (m_rtp_seq_base m) \<le> m_rtp_seq_cycles m + ucast (m_rtp_seq m));
        let (clock, x) = clock_now E x;
        b \<leftarrow> wr_rb (block_of E clock m) b off;
        Some (24, b, put_member p (m\<lparr>m_rtp_expected0 := expected_of m, m_rtp_packets0 := m_rtp_packets m\<rparr>) x) })"

text \<open>The loop over the senders: one that has not sent anything, and the own source, are skipped.\<close>

fun report_loop :: "env \<Rightarrow> nat \<Rightarrow> nat \<Rightarrow> u8 list \<Rightarrow> nat \<Rightarrow> rtp_context \<Rightarrow> (nat \<times> u8 list \<times> rtp_context) option" where
  "report_loop E i 0 b off x = Some (off, b, x)"
| "report_loop E i (Suc k) b off x = do {
     p \<leftarrow> rtp_member_list_get (x_senders x) (int i);
     p \<leftarrow> p;
     m \<leftarrow> cell x p;
     self \<leftarrow> cell x (x_self x);
     if m_rtp_packets m = 0 \<or> m_ssrc m = m_ssrc self then report_loop E (i + 1) k b off x
     else do {
       (n, b, x) \<leftarrow> rtcp_report_block E p b off 24 x;
       report_loop E (i + 1) k b (off + n) x } }"

definition rtcp_rr_pack :: "env \<Rightarrow> u8 list \<Rightarrow> nat \<Rightarrow> int \<Rightarrow> rtp_context \<Rightarrow> (int \<times> u8 list \<times> rtp_context) option" where
  "rtcp_rr_pack E b off bytes x = do {
     let n = rtp_member_list_count (x_senders x);
     c_assert (nd E) (n < 32);
     let rc = min 31 n;
     let len = (4 + rc * 24) div 4;
     if unat (of_int bytes :: u32) < 4 + len * 4 then Some (int (4 + len * 4), b, x)
     else do {
       b \<leftarrow> nbo_write_rtcp_header b off
         \<lparr>r_v = 2, r_p = 0, r_rc = of_nat rc, r_pt = of_int RTCP_RR, r_length = of_nat len\<rparr>;
       self \<leftarrow> cell x (x_self x);
       b \<leftarrow> rtp_write_uint32 b (off + 4) (m_ssrc self);
       (_, b, x) \<leftarrow> report_loop E 0 rc b (off + 8) x;
       Some (int ((len + 1) * 4), b, x) } }"

definition rtcp_sr_pack :: "env \<Rightarrow> u8 list \<Rightarrow> nat \<Rightarrow> int \<Rightarrow> rtp_context \<Rightarrow> (int \<times> u8 list \<times> rtp_context) option" where
  "rtcp_sr_pack E b off bytes x = do {
     let n = rtp_member_list_count (x_senders x);
     c_assert (nd E) (n < 32);
     let rc = min 31 n;
     let len = (24 + rc * 24) div 4;
     if unat (of_int bytes :: u32) < (len + 1) * 4 then Some (int ((len + 1) * 4), b, x)
     else do {
       b \<leftarrow> nbo_write_rtcp_header b off
         \<lparr>r_v = 2, r_p = 0, r_rc = of_nat rc, r_pt = of_int RTCP_SR, r_length = of_nat len\<rparr>;
       let (clock, x) = clock_now E x;
       self \<leftarrow> cell x (x_self x);
       let self = (if m_rtp_packets self = 0 then self\<lparr>m_rtp_clock := clock\<rparr> else self);
       let x = put_member (x_self x) self x;
       let timestamp = (ucast ((clock - m_rtp_clock self) * of_int (x_frequence x) div 1000000) + m_rtp_timestamp self :: u32);
       let ntp = clock2ntp clock;
       b \<leftarrow> rtp_write_uint32 b (off + 4) (m_ssrc self);
       b \<leftarrow> rtp_write_uint32 b (off + 8) (ucast (drop_bit 32 ntp));
       b \<leftarrow> rtp_write_uint32 b (off + 12) (ucast (ntp AND 0xFFFFFFFF));
       b \<leftarrow> rtp_write_uint32 b (off + 16) timestamp;
       b \<leftarrow> rtp_write_uint32 b (off + 20) (m_rtp_packets self);
       b \<leftarrow> rtp_write_uint32 b (off + 24) (ucast (m_rtp_bytes self));
       (_, b, x) \<leftarrow> report_loop E 0 rc b (off + 28) x;
       Some (int ((len + 1) * 4), b, x) } }"


section \<open>Blocks are read back as written\<close>

lemma cumulative_back:
  "(ucast (push_bit 16 (ucast (ucast (drop_bit 16 c) :: u8)) OR push_bit 8 (ucast (ucast (drop_bit 8 c) :: u8))
     OR ucast (ucast c :: u8) :: u32) :: 24 word) = c"
proof (rule bit_word_eqI)
  fix n
  assume "n < LENGTH(24)"
  then consider "n < 8" | "8 \<le> n" "n < 16" | "16 \<le> n" "n < 24" by force
  then show "bit (ucast (push_bit 16 (ucast (ucast (drop_bit 16 c) :: u8)) OR push_bit 8 (ucast (ucast (drop_bit 8 c) :: u8))
     OR ucast (ucast c :: u8) :: u32) :: 24 word) n = bit c n"
    by cases (auto simp: bit_simps)
qed

interpretation rb_item: fixed_item 24 rd_rb wr_rb rb_bytes "\<lambda>_. True"
proof (unfold_locales, goal_cases)
  case (3 off b x)
  then show ?case
    by (simp add: wr_rb_def rb_bytes_def rtp_write_uint32_eq wr_splice splice_adjacent)
next
  case (4 p)
  then show ?case by (auto simp: rd_rb_def ok_simps)
next
  case (5 x r)
  have "adv (rb_bytes x @ r) 8 = Some (be32 (rb_exthsn x) @ be32 (rb_jitter x) @ be32 (rb_lsr x) @ be32 (rb_dlsr x) @ r)"
    "adv (rb_bytes x @ r) 12 = Some (be32 (rb_jitter x) @ be32 (rb_lsr x) @ be32 (rb_dlsr x) @ r)"
    "adv (rb_bytes x @ r) 16 = Some (be32 (rb_lsr x) @ be32 (rb_dlsr x) @ r)"
    "adv (rb_bytes x @ r) 20 = Some (be32 (rb_dlsr x) @ r)"
    by (simp_all add: rb_bytes_def adv_def)
  moreover have "rd (rb_bytes x @ r) 4 = Some (rb_fraction x)"
    "rd (rb_bytes x @ r) 5 = Some (ucast (drop_bit 16 (rb_cumulative x)))"
    "rd (rb_bytes x @ r) 6 = Some (ucast (drop_bit 8 (rb_cumulative x)))"
    "rd (rb_bytes x @ r) 7 = Some (ucast (rb_cumulative x))"
    "rtp_read_uint32 (rb_bytes x @ r) = Some (rb_ssrc x)"
    by (simp_all add: rb_bytes_def rd_def nth_append)
  ultimately show ?case by (simp add: rd_rb_def cumulative_back)
qed (simp_all add: rb_bytes_def)

section \<open>Receiving a report keeps the invariant\<close>

lemma report_blocks_wf [simp]: "session_wf (report_blocks t ssrc rbs x) = session_wf x"
  "x_self (report_blocks t ssrc rbs x) = x_self x"
  by (induction rbs arbitrary: x) (simp_all add: report_blocks_def, simp add: on_rtcp_def)

lemma sr_unpack_ok:
  assumes "session_wf x" "\<forall>n. mem E n" "nd E" "bytes \<le> length ptr"
  shows "ok (\<lambda>y. session_wf y \<and> x_self y = x_self x) (rtcp_sr_unpack E header ptr bytes x)"
proof (cases "bytes < 24 + unat (r_rc header) * 24")
  case True
  then show ?thesis using assms by (simp add: rtcp_sr_unpack_def)
next
  case False
  define ssrc where "ssrc = un32 (ptr ! 0) (ptr ! 1) (ptr ! 2) (ptr ! 3)"
  obtain q y m where f: "rtp_sender_fetch E ssrc x = Some (Some q, y)" "session_wf y" "kept x y" "cell y q = Some m"
    using sender_fetch_ok [OF assms(1,2), of ssrc] by (elim okE) (auto simp: found_def)
  have rbs: "ok (\<lambda>_. True) (rd_items rd_rb 24 (unat (r_rc header)) (drop 24 ptr))"
    using False assms(4) by (intro okI_mono [OF rb_item.read_items_defined]) auto
  have "rtp_read_uint32 ptr = Some ssrc"
    using False assms(4) by (simp add: rtp_read_uint32_eq ssrc_def)
  then show ?thesis
    using False assms(3,4) f keptD [OF f(3)]
    by (auto simp: rtcp_sr_unpack_def clock_now_def ok_simps Let_def member_wf_def
        intro!: okI_mono [OF rbs] session_wf_touch [OF f(2,4)])
qed

lemma rr_unpack_ok:
  assumes "session_wf x" "\<forall>n. mem E n" "nd E" "bytes \<le> length ptr"
  shows "ok (\<lambda>y. session_wf y \<and> x_self y = x_self x) (rtcp_rr_unpack E header ptr bytes x)"
proof (cases "bytes < 4 + unat (r_rc header) * 24")
  case True
  then show ?thesis using assms by (simp add: rtcp_rr_unpack_def)
next
  case False
  define ssrc where "ssrc = un32 (ptr ! 0) (ptr ! 1) (ptr ! 2) (ptr ! 3)"
  obtain q y m where f: "rtp_member_fetch E ssrc x = Some (Some q, y)" "session_wf y" "kept x y" "cell y q = Some m"
    using member_fetch_ok [OF assms(1,2), of ssrc] by (elim okE) (auto simp: found_def)
  have rbs: "ok (\<lambda>_. True) (rd_items rd_rb 24 (unat (r_rc header)) (drop 4 ptr))"
    using False assms(4) by (intro okI_mono [OF rb_item.read_items_defined]) auto
  have "rtp_read_uint32 ptr = Some ssrc"
    using False assms(4) by (simp add: rtp_read_uint32_eq ssrc_def)
  then show ?thesis
    using False assms(3,4) f keptD [OF f(3)]
    by (auto simp: rtcp_rr_unpack_def clock_now_def ok_simps Let_def
        intro!: okI_mono [OF rbs] session_wf_touch [OF f(2,4)])
qed


section \<open>The content of a block\<close>

lemma ucast_of_nat_u16: "(ucast (of_nat e :: u16) :: u32) = of_nat (e mod 2 ^ 16)"
  by (simp add: unsigned_of_nat take_bit_eq_mod)

lemma tracks_exthsn:
  assumes "tracks n e m"
  shows "m_rtp_seq_cycles m + ucast (m_rtp_seq m) = of_nat e"
proof -
  have "(of_nat (e div 2 ^ 16 * 2 ^ 16) + of_nat (e mod 2 ^ 16) :: u32) = of_nat (e div 2 ^ 16 * 2 ^ 16 + e mod 2 ^ 16)"
    by (simp only: of_nat_add)
  also have "e div 2 ^ 16 * 2 ^ 16 + e mod 2 ^ 16 = e" by (rule div_mult_mod_eq)
  finally show ?thesis using assms unfolding tracks_def ucast_of_nat_u16 by (simp only: ucast_of_nat_u16)
qed

lemma tracks_expected:
  assumes "tracks n e m"
  shows "expected_of m = of_nat (e - n + 1)"
proof -
  have "n mod 2 ^ 16 = n" "n \<le> e" using assms by (simp_all add: tracks_def)
  moreover from this have "ucast (m_rtp_seq_base m) = (of_nat n :: u32)"
    using assms by (simp only: tracks_def ucast_of_nat_u16)
  ultimately show ?thesis
    by (simp add: expected_of_def tracks_exthsn [OF assms] of_nat_diff)
qed

lemma sint_small_u32: "n < 2 ^ 31 \<Longrightarrow> sint (of_nat n :: u32) = int n"
  by (simp add: signed_of_nat signed_take_bit_int_eq_self)

lemma unat_small_u32: "n < 2 ^ 32 \<Longrightarrow> unat (of_nat n :: u32) = n"
  by (simp add: unsigned_of_nat take_bit_eq_mod)

text \<open>A source that has sent \<open>X\<close> packets of which \<open>k\<close> were received; the last report said \<open>a\<close> and \<open>b\<close>.\<close>

lemma lost_exact:
  assumes "expected_of m = of_nat X" "m_rtp_packets m = of_nat k" "k \<le> X" "X < 2 ^ 23"
  shows "lost_of m = int (X - k)"
proof -
  have "(of_nat X - of_nat k :: u32) = of_nat (X - k)" using assms(3) by (simp add: of_nat_diff)
  moreover have "sint (of_nat (X - k) :: u32) = int (X - k)" using assms(4) by (intro sint_small_u32) simp
  ultimately show ?thesis
    using assms by (simp add: lost_of_def Let_def del: of_nat_diff)
qed

lemma fraction_exact:
  assumes "expected_of m = of_nat X" "m_rtp_packets m = of_nat k" "m_rtp_expected0 m = of_nat a"
    "m_rtp_packets0 m = of_nat b" "a < X" "b \<le> k" "k - b \<le> X - a" "X < 2 ^ 23"
  shows "unat (fraction_of m) = 256 * ((X - a) - (k - b)) div (X - a)"
proof -
  have ei: "(of_nat X - of_nat a :: u32) = of_nat (X - a)" and ri: "(of_nat k - of_nat b :: u32) = of_nat (k - b)"
    using assms(5,6) by (simp_all add: of_nat_diff)
  have li: "(of_nat (X - a) - of_nat (k - b) :: u32) = of_nat ((X - a) - (k - b))"
    using assms(7) by (simp only: of_nat_diff)
  define d where "d = (X - a) - (k - b)"
  have d: "d < 2 ^ 23" "0 < X - a" "X - a < 2 ^ 23" using assms by (auto simp: d_def)
  have "push_bit 8 (of_nat d :: u32) = of_nat (256 * d)" by (simp add: push_bit_eq_mult mult.commute)
  moreover have "unat (of_nat (256 * d) :: u32) = 256 * d" using d by (intro unat_small_u32) simp
  moreover have u: "unat (of_nat (X - a) :: u32) = X - a" using d by (intro unat_small_u32) simp
  moreover have "sint (of_nat d :: u32) = int d" using d by (intro sint_small_u32) simp
  moreover have "(of_nat (X - a) :: u32) \<noteq> 0" using u d(2) by (metis unat_0 less_numeral_extra(3))
  ultimately show ?thesis
    by (simp only: fraction_of_def assms(1-4) ei ri li Let_def d_def [symmetric]) (simp add: unat_div)
qed


section \<open>Sending keeps the invariant and stays inside the buffer\<close>

lemma report_block_ok:
  assumes "session_wf x" "nd E" "cell x p = Some m" "off + 24 \<le> length b"
  shows "ok (\<lambda>(n, b', y). n = 24 \<and> b' = splice b off (rb_bytes (block_of E (rtpclock E (x_ticks x)) m))
      \<and> session_wf y \<and> x_self y = x_self x \<and> x_senders y = x_senders x \<and> x_ticks y = x_ticks x + 1
      \<and> (\<forall>q. q \<noteq> p \<longrightarrow> cell y q = cell x q))
    (rtcp_report_block E p b off 24 x)"
  using assms
  by (auto simp: rtcp_report_block_def clock_now_def ok_simps rb_item.write_item member_wf_def
      intro!: session_wf_touch [OF assms(1,3)])

lemma report_loop_ok:
  "\<lbrakk>session_wf x; nd E; i + k \<le> length (senders x); off + 24 * k \<le> length b\<rbrakk> \<Longrightarrow>
   ok (\<lambda>(off', b', y). length b' = length b \<and> take off b' = take off b \<and> session_wf y \<and> x_self y = x_self x)
     (report_loop E i k b off x)"
proof (induction k arbitrary: i b off x)
  case (Suc k)
  define p where "p = senders x ! i"
  have p: "p \<in> set (senders x)" using Suc.prems(3) by (simp add: p_def)
  have get: "rtp_member_list_get (x_senders x) (int i) = Some (Some p)"
    using Suc.prems(1,3) by (simp add: sl.get_abs session_wf_def p_def)
  obtain m s where m: "cell x p = Some m" "cell x (x_self x) = Some s"
    using member_cell [OF Suc.prems(1)] p by blast
  show ?case
  proof (cases "m_rtp_packets m = 0 \<or> m_ssrc m = m_ssrc s")
    case True
    then show ?thesis using Suc.IH [of x "i + 1" off b] Suc.prems get m by simp
  next
    case False
    have "off + 24 \<le> length b" using Suc.prems(4) by simp
    from report_block_ok [OF Suc.prems(1,2) m(1) this]
    obtain b' y where y: "rtcp_report_block E p b off 24 x = Some (24, b', y)" "length b' = length b"
      "take off b' = take off b" "session_wf y" "x_self y = x_self x" "x_senders y = x_senders x"
      using \<open>off + 24 \<le> length b\<close> by (elim okE) (auto simp: rb_item.enc_length take_splice_before)
    have "take off c = take off b" if "take (off + 24) c = take (off + 24) b'" for c
      using that y(3) by (metis le_add1 min_absorb1 take_take)
    then show ?thesis
      using False get m y Suc.IH [of y "i + 1" "off + 24" b'] Suc.prems
      by (auto elim!: okI_mono)
  qed
qed simp

fun blocks_at :: "env \<Rightarrow> rtp_context \<Rightarrow> nat \<Rightarrow> member_ptr list \<Rightarrow> rtcp_rb_t list" where
  "blocks_at E x t [] = []"
| "blocks_at E x t (p # ps) = block_of E (rtpclock E t) (the (cell x p)) # blocks_at E x (t + 1) ps"

lemma blocks_at_cong: "(\<And>p. p \<in> set ps \<Longrightarrow> cell y p = cell x p) \<Longrightarrow> blocks_at E y t ps = blocks_at E x t ps"
  by (induction ps arbitrary: t) auto

lemma length_blocks_at [simp]: "length (blocks_at E x t ps) = length ps"
  by (induction ps arbitrary: t) auto

definition active :: "rtp_context \<Rightarrow> member_ptr \<Rightarrow> bool" where
  "active x p \<longleftrightarrow> (case (cell x p, cell x (x_self x)) of
     (Some m, Some s) \<Rightarrow> m_rtp_packets m \<noteq> 0 \<and> m_ssrc m \<noteq> m_ssrc s | _ \<Rightarrow> False)"

lemma active_not_self: "active x p \<Longrightarrow> p \<noteq> x_self x"
  by (auto simp: active_def split: option.splits)

lemma report_loop_active:
  "\<lbrakk>session_wf x; nd E; senders x = done @ ps; list_all (active x) ps; off + 24 * length ps \<le> length b\<rbrakk> \<Longrightarrow>
   ok (\<lambda>(off', b', y). b' = splice b off (concat (map rb_bytes (blocks_at E x (x_ticks x) ps))) \<and> session_wf y)
     (report_loop E (length done) (length ps) b off x)"
proof (induction ps arbitrary: "done" b off x)
  case Nil
  then show ?case by (simp add: splice_def)
next
  case (Cons p ps)
  have get: "rtp_member_list_get (x_senders x) (int (length done)) = Some (Some p)"
    using Cons.prems(1,3) by (simp add: sl.get_abs session_wf_def)
  obtain m s where m: "cell x p = Some m" "cell x (x_self x) = Some s" "m_rtp_packets m \<noteq> 0" "m_ssrc m \<noteq> m_ssrc s"
    using Cons.prems(4) by (auto simp: active_def split: option.splits)
  have off: "off + 24 \<le> length b" using Cons.prems(5) by simp
  obtain y where y: "rtcp_report_block E p b off 24 x
        = Some (24, splice b off (rb_bytes (block_of E (rtpclock E (x_ticks x)) m)), y)"
      "session_wf y" "x_self y = x_self x" "x_senders y = x_senders x" "x_ticks y = x_ticks x + 1"
      "\<And>q. q \<noteq> p \<Longrightarrow> cell y q = cell x q"
    using report_block_ok [OF Cons.prems(1,2) m(1) off] by (elim okE) auto
  have p: "p \<notin> set ps" using Cons.prems(1,3) by (simp add: session_wf_def)
  have "active y q" if "q \<in> set ps" for q
  proof -
    have "q \<noteq> p" "active x q" "x_self x \<noteq> p"
      using that p Cons.prems(4) active_not_self [of x p] by (auto simp: list_all_iff)
    then show ?thesis by (simp add: active_def y(3) y(6))
  qed
  moreover have "blocks_at E y t ps = blocks_at E x t ps" for t
    using p y(6) by (intro blocks_at_cong) metis
  ultimately show ?case
    using Cons.IH [of y "done @ [p]" "off + 24" "splice b off (rb_bytes (block_of E (rtpclock E (x_ticks x)) m))"]
      Cons.prems get m y off
    by (simp add: list_all_iff splice_adjacent rb_item.enc_length)
qed


lemma unat_of_int_u32: "\<lbrakk>0 \<le> i; i < 2 ^ 32\<rbrakk> \<Longrightarrow> unat (of_int i :: u32) = nat i"
  by (simp add: unsigned_of_int take_bit_int_eq_self)

lemma session_count: "session_wf x \<Longrightarrow> rtp_member_list_count (x_senders x) = length (senders x)"
  by (simp add: session_wf_def sl.size_abs)

lemma report_loop_inside:
  assumes "session_wf z" "nd E" "rc \<le> length (senders z)" "off + d + 24 * rc \<le> length b"
    "length c = length b" "take off c = take off b"
  shows "ok (\<lambda>(off', b', y). length b' = length b \<and> take off b' = take off b \<and> session_wf y \<and> x_self y = x_self z)
    (report_loop E 0 rc c (off + d) z)"
proof -
  have "take off b' = take off b" if "take (off + d) b' = take (off + d) c" for b'
    using that assms(6) by (metis le_add1 min_absorb1 take_take)
  then show ?thesis
    using assms by (intro okI_mono [OF report_loop_ok [of z E 0 rc "off + d" c]]) auto
qed

lemma rr_pack_ok:
  assumes "session_wf x" "nd E" "0 \<le> bytes" "bytes < 2 ^ 31" "off + nat bytes \<le> length b"
  shows "ok (\<lambda>(n, b', y). 0 < n \<and> n \<le> 772 \<and> length b' = length b \<and> take off b' = take off b \<and> session_wf y \<and> x_self y = x_self x)
    (rtcp_rr_pack E b off bytes x)"
proof -
  define rc where "rc = min 31 (length (senders x))"
  have "rc \<le> 31" by (simp add: rc_def)
  obtain s where s: "cell x (x_self x) = Some s" using member_cell [OF assms(1)] by blast
  have len: "(4 + rc * 24) div 4 = 1 + rc * 6" by simp
  note defs = rtcp_rr_pack_def session_count [OF assms(1)] rc_def [symmetric] len
  show ?thesis
  proof (cases "nat bytes < 8 + rc * 24")
    case True
    then show ?thesis using assms \<open>rc \<le> 31\<close> by (simp add: defs unat_of_int_u32)
  next
    case False
    have rc: "rc \<le> length (senders x)" "off + 8 + 24 * rc \<le> length b" using False assms(5) by (auto simp: rc_def)
    then show ?thesis
      using False assms s \<open>rc \<le> 31\<close>
      by (auto simp: defs unat_of_int_u32 nbo_write_rtcp_header_eq rtp_write_uint32_eq splice_adjacent
          take_splice_before ok_simps intro!: okI_mono [OF report_loop_inside [of x E rc off 8 b]])
  qed
qed

lemma sr_pack_ok:
  assumes "session_wf x" "nd E" "0 \<le> bytes" "bytes < 2 ^ 31" "off + nat bytes \<le> length b"
  shows "ok (\<lambda>(n, b', y). 0 < n \<and> n \<le> 772 \<and> length b' = length b \<and> take off b' = take off b \<and> session_wf y \<and> x_self y = x_self x)
    (rtcp_sr_pack E b off bytes x)"
proof -
  define rc where "rc = min 31 (length (senders x))"
  have "rc \<le> 31" by (simp add: rc_def)
  obtain s where s: "cell x (x_self x) = Some s" using member_cell [OF assms(1)] by blast
  have len: "(24 + rc * 24) div 4 = 6 + rc * 6" by simp
  note defs = rtcp_sr_pack_def session_count [OF assms(1)] rc_def [symmetric] len
  show ?thesis
  proof (cases "nat bytes < 28 + rc * 24")
    case True
    then show ?thesis using assms \<open>rc \<le> 31\<close> by (simp add: defs unat_of_int_u32)
  next
    case False
    have rc: "rc \<le> length (senders x)" "off + 28 + 24 * rc \<le> length b" using False assms(5) by (auto simp: rc_def)
    define s' where "s' = (if m_rtp_packets s = 0 then s\<lparr>m_rtp_clock := rtpclock E (x_ticks x)\<rparr> else s)"
    define y where "y = put_member (x_self x) s' (x\<lparr>x_ticks := Suc (x_ticks x)\<rparr>)"
    have y: "session_wf y" "x_self y = x_self x" "senders y = senders x"
      using session_wf_touch [OF assms(1) s, of s'] by (simp_all add: y_def s'_def)
    show ?thesis
      using False assms s rc y \<open>rc \<le> 31\<close>
      by (auto simp: defs unat_of_int_u32 nbo_write_rtcp_header_eq rtp_write_uint32_eq clock_now_def splice_adjacent
          take_splice_before ok_simps Let_def s'_def [symmetric] y_def [symmetric]
          intro!: okI_mono [OF report_loop_inside [of y E rc off 28 b]])
  qed
qed


section \<open>The exact content of a receiver report\<close>

lemma rr_pack_active:
  assumes "session_wf x" "nd E" "cell x (x_self x) = Some s" "list_all (active x) (senders x)"
    "length (senders x) \<le> 31" "8 + 24 * int (length (senders x)) \<le> bytes" "bytes < 2 ^ 31" "off + nat bytes \<le> length b"
  shows "ok (\<lambda>(n, b', y). n = 8 + 24 * int (length (senders x)) \<and> session_wf y \<and>
      b' = splice b off (be32 (rtcp_header_word \<lparr>r_v = 2, r_p = 0, r_rc = of_nat (length (senders x)),
        r_pt = of_int RTCP_RR, r_length = of_nat (1 + 6 * length (senders x))\<rparr>) @ be32 (m_ssrc s)
        @ concat (map rb_bytes (blocks_at E x (x_ticks x) (senders x)))))
    (rtcp_rr_pack E b off bytes x)"
proof -
  define k where "k = length (senders x)"
  define b1 where "b1 = splice (splice b off (be32 (rtcp_header_word \<lparr>r_v = 2, r_p = 0, r_rc = of_nat k,
      r_pt = of_int RTCP_RR, r_length = of_nat (1 + 6 * k)\<rparr>))) (off + 4) (be32 (m_ssrc s))"
  have len: "(4 + k * 24) div 4 = 1 + 6 * k" "min 31 k = k" using assms(5) by (simp_all add: k_def)
  have n: "0 \<le> bytes" "8 + 24 * k \<le> nat bytes" "off + 8 + 24 * k \<le> length b" using assms(6,8) by (auto simp: k_def)
  then have "off + 8 + 24 * length (senders x) \<le> length b1" "length b1 = length b"
    by (simp_all add: b1_def k_def splice_adjacent)
  from report_loop_active [OF assms(1,2) append_Nil [symmetric] assms(4) this(1)]
  obtain b' y where loop: "report_loop E 0 k b1 (off + 8) x = Some (b', splice b1 (off + 8)
      (concat (map rb_bytes (blocks_at E x (x_ticks x) (senders x)))), y)" "session_wf y"
    by (elim okE) (auto simp: k_def)
  have "rtcp_rr_pack E b off bytes x = Some (8 + 24 * int k, splice b1 (off + 8)
      (concat (map rb_bytes (blocks_at E x (x_ticks x) (senders x)))), y)"
    using n assms(2,3,7) loop(1)
    unfolding rtcp_rr_pack_def session_count [OF assms(1)] k_def [symmetric] Let_def len
    by (simp add: unat_of_int_u32 nbo_write_rtcp_header_eq rtp_write_uint32_eq b1_def)
  then show ?thesis
    using loop(2) n(3) by (simp add: k_def [symmetric] b1_def splice_adjacent)
qed

lemma ucast_of_nat_u8: "(ucast (of_nat n :: u32) :: u8) = of_nat n"
  by (simp add: unsigned_of_nat word_of_nat_eq_iff)

lemma unat_of_nat_u24: "X < 2 ^ 23 \<Longrightarrow> unat (of_nat (X - K) :: 24 word) = X - K"
  by (simp add: unsigned_of_nat take_bit_eq_mod)

lemma report_blocks_events:
  "x_events (report_blocks t ssrc rbs x)
   = x_events x @ map (\<lambda>rb. \<lparr>msg_type = t, msg_ssrc = ssrc, msg_u = Msg_rb rb\<rparr>) rbs"
  by (induction rbs arbitrary: x) (simp_all add: report_blocks_def on_rtcp_def)

lemma rr_unpack_events:
  assumes "session_wf y" "\<forall>n. mem E n" "nd E" "unat (r_rc header) = length rbs"
  shows "ok (\<lambda>z. session_wf z \<and> x_events z = x_events y
      @ map (\<lambda>rb. \<lparr>msg_type = RTCP_RR, msg_ssrc = ssrc, msg_u = Msg_rb rb\<rparr>) rbs)
    (rtcp_rr_unpack E header (be32 ssrc @ concat (map rb_bytes rbs) @ r) (4 + 24 * length rbs) y)"
proof -
  obtain q z m where f: "rtp_member_fetch E ssrc y = Some (Some q, z)" "session_wf z" "kept y z" "cell z q = Some m"
    using member_fetch_ok [OF assms(1,2), of ssrc] by (elim okE) (auto simp: found_def)
  have rbs: "rd_items rd_rb 24 (length rbs) (concat (map rb_bytes rbs) @ r) = Some rbs"
    by (rule rb_item.read_items_enc) (simp add: list.pred_True)
  show ?thesis
    using assms(3,4) f keptD [OF f(3)] rbs
    by (auto simp: rtcp_rr_unpack_def clock_now_def adv_def report_blocks_events Let_def
        intro!: session_wf_touch [OF f(2,4)])
qed

text \<open>C22: What a receiver report says of a source is exact. After any sequence of packets in which no
  packet is more than 99 behind or 499 ahead of the highest sequence number so far, across any number of
  wrap-arounds of the 16 bit number, the block that \<open>rtcp_report_block\<close> writes has the true
  highest number, the true number \<open>X - K\<close> of packets that are missing and the share of the packets
  that were lost since the last report in units of 1/256.\<close>

theorem reception_report_exact:
  assumes "session_wf x" "nd E" "q \<in> set (senders x)" "cell x q = Some m" "tracks n e m"
    and "paced n e es" "list_all2 (carries (m_ssrc m)) es ds"
    and "m_rtp_packets m = of_nat k" "m_rtp_expected0 m = of_nat a" "m_rtp_packets0 m = of_nat b"
    and X: "X = fold max es e - n + 1" "X < 2 ^ 23"
    and K: "K = k + length es" "b \<le> K" "a < X" "K \<le> X" "K - b \<le> X - a"
    and "off + 24 \<le> length buf"
  shows "ok (\<lambda>y. ok (\<lambda>(r, buf', z). r = 24 \<and> session_wf z \<and> (\<exists>rb. rd_rb (drop off buf') = Some rb
        \<and> rb_ssrc rb = m_ssrc m \<and> rb_exthsn rb = of_nat (fold max es e) \<and> unat (rb_cumulative rb) = X - K
        \<and> rb_fraction rb = of_nat (256 * ((X - a) - (K - b)) div (X - a))))
      (rtcp_report_block E q buf off 24 y)) (input_rtp_all E ds x)"
proof -
  obtain y m' where y: "input_rtp_all E ds x = Some y" "session_wf y" "cell y q = Some m'" "same_counters m m'"
      "tracks n (fold max es e) m'" "m_rtp_packets m' = of_nat k + of_nat (length es)"
    using input_rtp_all_tracked [OF assms(1-7)] assms(8) by (elim okE) auto
  have p: "m_rtp_packets m' = of_nat K" using y(6) K(1) by simp
  note expected = tracks_expected [OF y(5), folded X(1)]
  define rb where "rb = block_of E (rtpclock E (x_ticks y)) m'"
  have e0: "m_rtp_expected0 m' = of_nat a" "m_rtp_packets0 m' = of_nat b"
    using y(4) assms(9,10) by (simp_all add: same_counters_def)
  have "fraction_of m' = of_nat (256 * ((X - a) - (K - b)) div (X - a))"
    by (simp only: fraction_exact [OF expected p e0 K(3,2,5) X(2), symmetric] of_nat_unat ucast_id)
  then have "rb_fraction rb = of_nat (256 * ((X - a) - (K - b)) div (X - a))"
    by (simp only: rb_def block_of_def Let_def rtcp_rb_t.select_convs ucast_of_nat_u8)
  moreover have "rb_cumulative rb = of_nat (X - K)"
    by (simp only: rb_def block_of_def Let_def rtcp_rb_t.select_convs lost_exact [OF expected p K(4) X(2)] of_int_of_nat_eq)
  then have "unat (rb_cumulative rb) = X - K"
    using X(2) by (simp only: unat_of_nat_u24)
  moreover have "rb_exthsn rb = of_nat (fold max es e)" "rb_ssrc rb = m_ssrc m"
    using tracks_exthsn [OF y(5)] y(4) by (simp_all add: rb_def block_of_def Let_def same_counters_def)
  moreover have "rd_rb (drop off (splice buf off (rb_bytes rb))) = Some rb"
    using assms(18) by (simp add: drop_splice rb_item.enc_length rb_item.read_enc)
  ultimately show ?thesis
    using y(1) by (auto simp: rb_def intro!: okI_mono [OF report_block_ok [OF y(2) assms(2) y(3) assms(18)]])
qed


text \<open>A session with one sender, whose packets 100, 101 and 103 have arrived.\<close>

definition example_sender :: rtp_member where
  "example_sender = (rtp_seq_init 100 (fresh_member 7))\<lparr>m_ref := 2, m_rtp_packets := 1\<rparr>"

definition example_session :: rtp_context where
  "example_session = \<lparr>x_events = [],
     x_members = \<lparr>l_members = [Some 0, Some 1], l_ptr = [], l_count = 2, l_capacity = 0\<rparr>,
     x_senders = \<lparr>l_members = [Some 1, None], l_ptr = [], l_count = 1, l_capacity = 0\<rparr>,
     x_self = 0, x_avg_rtcp_size = 0, x_rtcp_bw = 5000, x_rtcp_cycle = 0, x_frequence = 90000, x_init = True,
     x_role = 2, x_heap = \<lparr>mh_next = 2,
       mh_cells = (\<lambda>_. None)(0 := Some ((fresh_member 5)\<lparr>m_ref := 2\<rparr>), 1 := Some example_sender)\<rparr>, x_ticks = 0\<rparr>"

definition example_rtp :: "u8 \<Rightarrow> u8 list" where
  "example_rtp seq = [0x80, 96, 0, seq, 0, 0, 0, 1, 0, 0, 0, 7]"

lemma example_session_abs [simp]:
  "members example_session = [0, 1]" "senders example_session = [1]"
  by (simp_all add: example_session_def list_abs_def slots_def)

lemma example_session_wf [simp]: "session_wf example_session"
proof -
  have "counted (refs example_session) (x_heap example_session)"
    unfolding counted_def refs_def example_session_abs
    by (auto simp: example_session_def example_sender_def)
  moreover have "heap_wf (x_heap example_session)"
    by (auto simp: example_session_def example_sender_def heap_wf_def)
  moreover have "list_invar (x_members example_session)" "list_invar (x_senders example_session)"
    by (simp_all add: example_session_def list_invar_def slots_def N_SOURCE_def)
  ultimately show ?thesis
    by (simp add: session_wf_def) (simp add: sources_def example_session_def example_sender_def)
qed

theorem reception_report_exact_witness:
  "ok (\<lambda>y. ok (\<lambda>(r, buf', z). r = 24 \<and> session_wf z \<and> (\<exists>rb. rd_rb (drop 0 buf') = Some rb
        \<and> rb_ssrc rb = 7 \<and> rb_exthsn rb = 103 \<and> unat (rb_cumulative rb) = 1 \<and> rb_fraction rb = 64))
      (rtcp_report_block (example_env\<lparr>nd := True\<rparr>) 1 (replicate 24 0) 0 24 y))
    (input_rtp_all (example_env\<lparr>nd := True\<rparr>) [example_rtp 101, example_rtp 103] example_session)"
proof -
  have m: "m_ssrc example_sender = 7" by (simp add: example_sender_def)
  have "carries 7 101 (example_rtp 101)" "carries 7 103 (example_rtp 103)" by code_simp+
  then show ?thesis
    using reception_report_exact [of example_session "example_env\<lparr>nd := True\<rparr>" 1 example_sender 100 100 "[101, 103]"
        "[example_rtp 101, example_rtp 103]" 1 0 0 4 3 0 "replicate 24 0"]
    by (simp add: m) (simp add: example_session_def example_sender_def tracks_def rtp_seq_init_def fresh_member_def
        member_zero_def RTP_MEMBER_MISORDER_def RTP_MEMBER_DROPOUT_def)
qed

end
