(* ===== verification/Rtcp_Control.thy ===== *)
theory Rtcp_Control
  imports Rtcp_Report
begin

text \<open>
  \<open>lib/librtp/source/rtcp-sdec.c\<close>, \<open>rtcp-bye.c\<close> and \<open>rtcp-app.c\<close>, the context part of the feedback and
  extended report unpackers, and the second half of \<open>rtcp.c\<close>: the dispatch on the packet type and the
  loop over a compound packet.

  The source description unpacker rounds the absolute address of its read pointer up to a
  multiple of four, so the address of the datagram is an argument here.
\<close>

section \<open>Source descriptions\<close>

text \<open>The items of one chunk from the offset \<open>i\<close>; \<open>Inl\<close> is the early return from the whole unpacker. The
  type of the message is never set.\<close>

definition sdes_item :: "env \<Rightarrow> u32 \<Rightarrow> member_ptr option \<Rightarrow> u8 \<Rightarrow> u8 \<Rightarrow> u8 list \<Rightarrow> rtp_context \<Rightarrow> rtp_context option" where
  "sdes_item E ssrc member pt len data x = do {
     d \<leftarrow> c_slice data 0 (unat len);
     let x = on_rtcp \<lparr>msg_type = junk E, msg_ssrc = ssrc, msg_u = Msg_sdes pt len d\<rparr> x;
     if RTCP_SDES_CNAME \<le> unat pt \<and> unat pt \<le> RTCP_SDES_NOTE then do {
       p \<leftarrow> member;
       (r, h) \<leftarrow> rtp_member_setvalue E p (unat pt) data (unat len) (x_heap x);
       Some (x\<lparr>x_heap := h\<rparr>) }
     else Some x }"

function sdes_items :: "env \<Rightarrow> u32 \<Rightarrow> member_ptr option \<Rightarrow> u8 list \<Rightarrow> nat \<Rightarrow> nat \<Rightarrow> rtp_context
    \<Rightarrow> (rtp_context + nat \<times> rtp_context) option" where
  "sdes_items E ssrc member p bytes i x =
     (if i + 2 \<le> bytes then do {
        pt \<leftarrow> rd p i;
        if unat pt = RTCP_SDES_END then Some (Inr (i, x))
        else do {
          len \<leftarrow> rd p (i + 1);
          if bytes < i + 2 + unat len then do { c_assert (nd E) False; Some (Inl x) }
          else do {
            q \<leftarrow> adv p (i + 2);
            x \<leftarrow> sdes_item E ssrc member pt len q x;
            sdes_items E ssrc member p bytes (i + 2 + unat len) x } } }
      else Some (Inr (i, x)))"
  by pat_completeness auto
termination by (relation "measure (\<lambda>(E, ssrc, member, p, bytes, i, x). bytes - i)") auto

fun sdes_chunks :: "env \<Rightarrow> nat \<Rightarrow> u8 list \<Rightarrow> nat \<Rightarrow> nat \<Rightarrow> nat \<Rightarrow> rtp_context \<Rightarrow> rtp_context option" where
  "sdes_chunks E addr p bytes 0 i x = Some x"
| "sdes_chunks E addr p bytes (Suc k) i x =
     (if i + 8 \<le> bytes then do {
        q \<leftarrow> adv p i;
        ssrc \<leftarrow> rtp_read_uint32 q;
        (member, x) \<leftarrow> rtp_member_fetch E ssrc x;
        r \<leftarrow> sdes_items E ssrc member p bytes (i + 4) x;
        case r of
          Inl x \<Rightarrow> Some x
        | Inr (i, x) \<Rightarrow> sdes_chunks E addr p bytes k ((addr + i + 3) div 4 * 4 - addr) x }
      else Some x)"

definition rtcp_sdes_unpack :: "env \<Rightarrow> nat \<Rightarrow> rtcp_header_t \<Rightarrow> u8 list \<Rightarrow> nat \<Rightarrow> rtp_context \<Rightarrow> rtp_context option" where
  "rtcp_sdes_unpack E addr header ptr bytes x = do {
     c_assert (nd E) (unat (r_rc header) \<le> unat (r_length header));
     sdes_chunks E addr ptr bytes (unat (r_rc header)) 0 x }"

definition rtcp_sdes_append_item :: "env \<Rightarrow> u8 list \<Rightarrow> nat \<Rightarrow> u64 \<Rightarrow> rtcp_sdes_item_t \<Rightarrow> (nat \<times> u8 list) option" where
  "rtcp_sdes_append_item E b off bytes sdes = do {
     c_assert (nd E) (sdes_data sdes \<noteq> None);
     b \<leftarrow> (if unat (sdes_len sdes) + 2 \<le> unat bytes then do {
             b \<leftarrow> wr b off (sdes_pt sdes);
             b \<leftarrow> wr b (off + 1) (sdes_len sdes);
             d \<leftarrow> sdes_data sdes;
             c_memcpy b (off + 2) d (unat (sdes_len sdes)) }
           else Some b);
     Some (unat (sdes_len sdes) + 2, b) }"

text \<open>Every third report carries one item more than the canonical name.\<close>

definition sdes_extra :: "env \<Rightarrow> u8 list \<Rightarrow> nat \<Rightarrow> int \<Rightarrow> nat \<Rightarrow> rtp_member \<Rightarrow> nat \<Rightarrow> (nat \<times> u8 list) option" where
  "sdes_extra E b off bytes n self cycle =
     (if cycle mod 3 = 0 \<and> 0 < cycle div 3 then do {
        c_assert (nd E) (cycle div 3 < RTCP_SDES_PRIVATE);
        item \<leftarrow> (if cycle div 3 + 1 < length (m_sdes self) then Some (m_sdes self ! (cycle div 3 + 1)) else None);
        if sdes_data item \<noteq> None then do {
          (n', b) \<leftarrow> rtcp_sdes_append_item E b (off + 8 + n) (of_int (bytes - int n - 8)) item;
          Some (n + n', b) }
        else Some (n, b) }
      else Some (n, b))"

definition rtcp_sdes_pack :: "env \<Rightarrow> u8 list \<Rightarrow> nat \<Rightarrow> int \<Rightarrow> rtp_context \<Rightarrow> (int \<times> u8 list \<times> rtp_context) option" where
  "rtcp_sdes_pack E b off bytes x = do {
     self \<leftarrow> cell x (x_self x);
     let cname = m_sdes self ! RTCP_SDES_CNAME;
     if sdes_data cname = None then Some (0, b, x)
     else do {
       (n, b) \<leftarrow> rtcp_sdes_append_item E b (off + 8) (of_int (bytes - 8)) cname;
       if bytes < int (8 + n) then Some (int (8 + n), b, x)
       else do {
         (n, b) \<leftarrow> sdes_extra E b off bytes n self (x_rtcp_cycle x);
         if bytes < int (n + 8) then Some (int (n + 8), b, x)
         else do {
           let x = x\<lparr>x_rtcp_cycle := (x_rtcp_cycle x + 1) mod 24\<rparr>;
           let len = (n + 4 + 3) div 4;
           b \<leftarrow> nbo_write_rtcp_header b off
             \<lparr>r_v = 2, r_p = 0, r_rc = 1, r_pt = of_int RTCP_SDES, r_length = of_nat len\<rparr>;
           b \<leftarrow> rtp_write_uint32 b (off + 4) (m_ssrc self);
           Some (int ((unat (of_nat len :: u16) + 1) * 4), b, x) } } } }"

section \<open>Leaving\<close>

definition forget :: "env \<Rightarrow> u32 \<Rightarrow> rtp_context \<Rightarrow> rtp_context option" where
  "forget E ssrc x = do {
     (r, l, h) \<leftarrow> rtp_member_list_delete E ssrc (x_members x) (x_heap x);
     let x = x\<lparr>x_members := l, x_heap := h\<rparr>;
     (r, l, h) \<leftarrow> rtp_member_list_delete E ssrc (x_senders x) (x_heap x);
     Some (x\<lparr>x_senders := l, x_heap := h\<rparr>) }"

fun bye_others :: "env \<Rightarrow> nat \<Rightarrow> u8 list \<Rightarrow> rtcp_msg_u \<Rightarrow> rtp_context \<Rightarrow> rtp_context option" where
  "bye_others E 0 p u x = Some x"
| "bye_others E (Suc k) p u x = do {
     ssrc \<leftarrow> rtp_read_uint32 p;
     x \<leftarrow> forget E ssrc x;
     let x = on_rtcp \<lparr>msg_type = RTCP_BYE, msg_ssrc = ssrc, msg_u = u\<rparr> x;
     bye_others E k (drop 4 p) u x }"

definition rtcp_bye_unpack :: "env \<Rightarrow> rtcp_header_t \<Rightarrow> u8 list \<Rightarrow> nat \<Rightarrow> rtp_context \<Rightarrow> rtp_context option" where
  "rtcp_bye_unpack E header ptr bytes x = do {
     let rc = unat (r_rc header);
     c_assert (nd E) (rc * 4 \<le> bytes);
     if rc < 1 \<or> bytes < rc * 4 then Some x
     else do {
       ssrc \<leftarrow> rtp_read_uint32 ptr;
       x \<leftarrow> forget E ssrc x;
       u \<leftarrow> (if rc * 4 + 1 < bytes then do {
               n \<leftarrow> rd ptr (rc * 4);
               if bytes < 1 + unat n + rc * 4 then do { c_assert (nd E) False; Some (Msg_bye None) }
               else do { reason \<leftarrow> c_slice ptr (rc * 4 + 1) (unat n); Some (Msg_bye (Some reason)) } }
             else Some (Msg_bye None));
       let x = on_rtcp \<lparr>msg_type = RTCP_BYE, msg_ssrc = ssrc, msg_u = u\<rparr> x;
       p4 \<leftarrow> adv ptr 4;
       bye_others E rc p4 u x } }"

definition rtcp_bye_pack :: "u8 list \<Rightarrow> nat \<Rightarrow> int \<Rightarrow> rtp_context \<Rightarrow> (int \<times> u8 list) option" where
  "rtcp_bye_pack b off bytes x =
     (if bytes < 8 then Some (8, b)
      else do {
        b \<leftarrow> nbo_write_rtcp_header b off \<lparr>r_v = 2, r_p = 0, r_rc = 1, r_pt = of_int RTCP_BYE, r_length = 1\<rparr>;
        self \<leftarrow> cell x (x_self x);
        b \<leftarrow> rtp_write_uint32 b (off + 4) (m_ssrc self);
        Some (8, b) })"

section \<open>Application packets\<close>

definition rtcp_app_unpack :: "env \<Rightarrow> rtcp_header_t \<Rightarrow> u8 list \<Rightarrow> nat \<Rightarrow> rtp_context \<Rightarrow> rtp_context option" where
  "rtcp_app_unpack E header ptr bytes x =
     (if bytes < 8 then do { c_assert (nd E) False; Some x }
      else do {
        ssrc \<leftarrow> rtp_read_uint32 ptr;
        name \<leftarrow> c_slice ptr 4 4;
        data \<leftarrow> c_slice ptr 8 (bytes - 8);
        Some (on_rtcp \<lparr>msg_type = RTCP_APP, msg_ssrc = ssrc, msg_u = Msg_app (ucast (r_rc header)) name data\<rparr> x) })"

definition rtcp_app_pack :: "u8 list \<Rightarrow> nat \<Rightarrow> int \<Rightarrow> u8 list \<Rightarrow> u8 list \<Rightarrow> rtp_context \<Rightarrow> (int \<times> u8 list) option" where
  "rtcp_app_pack b off bytes name app x = do {
     let len = length app;
     let words = (len + 3) div 4;
     b \<leftarrow> (if int (12 + words * 4) \<le> bytes then do {
             b \<leftarrow> nbo_write_rtcp_header b off
               \<lparr>r_v = 2, r_p = 0, r_rc = 0, r_pt = of_int RTCP_APP, r_length = of_nat (2 + words)\<rparr>;
             self \<leftarrow> cell x (x_self x);
             b \<leftarrow> rtp_write_uint32 b (off + 4) (m_ssrc self);
             b \<leftarrow> c_memcpy b (off + 8) name 4;
             if 0 < len then c_memcpy b (off + 12) app len else Some b }
           else Some b);
     Some (int (12 + words * 4), b) }"

section \<open>Feedback and extended reports\<close>

definition emit_all :: "int \<Rightarrow> u32 \<Rightarrow> rtcp_msg_u list \<Rightarrow> rtp_context \<Rightarrow> rtp_context" where
  "emit_all t ssrc us x = fold (\<lambda>u. on_rtcp \<lparr>msg_type = t, msg_ssrc = ssrc, msg_u = u\<rparr>) us x"

definition rtcp_rtpfb_unpack :: "env \<Rightarrow> rtcp_header_t \<Rightarrow> u8 list \<Rightarrow> nat \<Rightarrow> rtp_context \<Rightarrow> rtp_context option" where
  "rtcp_rtpfb_unpack E header ptr bytes x =
     (if bytes < 8 then do { c_assert (nd E) False; Some x }
      else do {
        ssrc \<leftarrow> rtp_read_uint32 ptr;
        p4 \<leftarrow> adv ptr 4; media \<leftarrow> rtp_read_uint32 p4;
        (sender, x) \<leftarrow> rtp_sender_fetch E ssrc x;
        case sender of
          None \<Rightarrow> Some x
        | Some p \<Rightarrow> do {
            (r, us) \<leftarrow> rtpfb_dispatch E (unat (r_rc header)) ptr bytes;
            Some (emit_all (RTCP_RTPFB + 256 * uint (r_rc header)) ssrc (map (Msg_rtpfb media) us) x) } })"

definition rtcp_psfb_unpack :: "env \<Rightarrow> rtcp_header_t \<Rightarrow> u8 list \<Rightarrow> nat \<Rightarrow> rtp_context \<Rightarrow> rtp_context option" where
  "rtcp_psfb_unpack E header ptr bytes x =
     (if bytes < 8 then do { c_assert (nd E) False; Some x }
      else do {
        ssrc \<leftarrow> rtp_read_uint32 ptr;
        p4 \<leftarrow> adv ptr 4; media \<leftarrow> rtp_read_uint32 p4;
        (sender, x) \<leftarrow> rtp_sender_fetch E ssrc x;
        case sender of
          None \<Rightarrow> Some x
        | Some p \<Rightarrow> do {
            c_assert (nd E) (p \<noteq> x_self x);
            (r, us) \<leftarrow> psfb_dispatch E (unat (r_rc header)) ptr bytes;
            Some (emit_all (RTCP_PSFB + 256 * uint (r_rc header)) ssrc (map (Msg_psfb media) us) x) } })"

definition rtcp_xr_unpack :: "env \<Rightarrow> rtcp_header_t \<Rightarrow> u8 list \<Rightarrow> nat \<Rightarrow> rtp_context \<Rightarrow> rtp_context option" where
  "rtcp_xr_unpack E header ptr bytes x =
     (if bytes < 8 then do { c_assert (nd E) False; Some x }
      else do {
        ssrc \<leftarrow> rtp_read_uint32 ptr;
        (sender, x) \<leftarrow> rtp_sender_fetch E ssrc x;
        case sender of
          None \<Rightarrow> Some x
        | Some p \<Rightarrow> do {
            c_assert (nd E) (p \<noteq> x_self x);
            p4 \<leftarrow> adv ptr 4;
            us \<leftarrow> xr_loop E p4 (bytes - 4);
            Some (fold (\<lambda>(bt, u). on_rtcp \<lparr>msg_type = RTCP_XR + 256 * int bt, msg_ssrc = ssrc, msg_u = Msg_xr u\<rparr>) us x) } })"

section \<open>Compound packets\<close>

definition rtcp_header_of :: "u32 \<Rightarrow> rtcp_header_t" where
  "rtcp_header_of w = \<lparr>r_v = ucast (RTCP_V w), r_p = ucast (RTCP_P w), r_rc = ucast (RTCP_RC w),
     r_pt = ucast (RTCP_PT w), r_length = ucast (RTCP_LEN w)\<rparr>"

definition rtcp_dispatch :: "env \<Rightarrow> nat \<Rightarrow> rtcp_header_t \<Rightarrow> u8 list \<Rightarrow> nat \<Rightarrow> rtp_context \<Rightarrow> rtp_context option" where
  "rtcp_dispatch E addr header p n x =
     (let pt = uint (r_pt header) in
      if pt = RTCP_SR then rtcp_sr_unpack E header p n x
      else if pt = RTCP_RR then rtcp_rr_unpack E header p n x
      else if pt = RTCP_SDES then rtcp_sdes_unpack E addr header p n x
      else if pt = RTCP_BYE then rtcp_bye_unpack E header p n x
      else if pt = RTCP_APP then rtcp_app_unpack E header p n x
      else if pt = RTCP_RTPFB then rtcp_rtpfb_unpack E header p n x
      else if pt = RTCP_PSFB then rtcp_psfb_unpack E header p n x
      else if pt = RTCP_XR then rtcp_xr_unpack E header p n x
      else do { c_assert (nd E) False; Some x })"

definition rtcp_parse :: "env \<Rightarrow> nat \<Rightarrow> u8 list \<Rightarrow> nat \<Rightarrow> rtp_context \<Rightarrow> (int \<times> rtp_context) option" where
  "rtcp_parse E addr data bytes x = do {
     c_assert (nd E) (4 \<le> bytes);
     w \<leftarrow> rtp_read_uint32 data;
     let header = rtcp_header_of w;
     let n = unat (r_length header) * 4 + 4;
     bad \<leftarrow> (if bytes < n \<or> r_v header \<noteq> 2 then Some True
             else if r_p header = 0 then Some False
             else if unat (r_length header) < 1 then Some True
             else do { pad \<leftarrow> rd data (n - 1); Some (unat (r_length header) * 4 < unat pad) });
     if bad then do { c_assert (nd E) False; Some (-1, x) }
     else do {
       pad \<leftarrow> (if r_p header = 0 then Some 0 else rd data (n - 1));
       p4 \<leftarrow> adv data 4;
       x \<leftarrow> rtcp_dispatch E (addr + 4) header p4 (n - unat pad - 4) x;
       Some (int n, x) } }"

text \<open>Each round takes at least the four bytes of a header, so the loop ends.\<close>

function rtcp_input_rtcp :: "env \<Rightarrow> nat \<Rightarrow> u8 list \<Rightarrow> int \<Rightarrow> rtp_context \<Rightarrow> (int \<times> rtp_context) option" where
  "rtcp_input_rtcp E addr data bytes x =
     (if 4 < bytes then do {
        (r, x) \<leftarrow> rtcp_parse E addr data (nat bytes) x;
        if r \<le> 0 then Some (0, x)
        else do {
          let x = x\<lparr>x_avg_rtcp_size := (x_avg_rtcp_size x + r * 15) div 16\<rparr>;
          p \<leftarrow> adv data (nat r);
          rtcp_input_rtcp E (addr + nat r) p (bytes - r) x } }
      else Some (0, x))"
  by pat_completeness auto
termination by (relation "measure (\<lambda>(E, addr, data, bytes, x). nat bytes)") auto

declare rtcp_input_rtcp.simps [simp del] sdes_items.simps [simp del]


section \<open>Leaving gives back every reference\<close>

lemma count_remove1: "count_list (remove1 s xs) p = count_list xs p - (if p = s then 1 else 0)"
  by (induction xs) auto

lemma delete_one:
  assumes "list_invar l" "counted f h" "heap_wf h" "nd E" "live h (list_abs l)"
    "first_source h ssrc (list_abs l) = Some s" "0 < f s"
  shows "ok (\<lambda>(r, l', h'). list_invar l' \<and> list_abs l' = remove1 s (list_abs l) \<and> counted (f(s := f s - 1)) h'
      \<and> heap_wf h' \<and> (\<forall>q. q \<noteq> s \<longrightarrow> mh_cells h' q = mh_cells h q)
      \<and> (1 < f s \<longrightarrow> (\<exists>m m'. mh_cells h s = Some m \<and> mh_cells h' s = Some m' \<and> m_ssrc m' = m_ssrc m)))
    (rtp_member_list_delete E ssrc l h)"
proof -
  obtain h' where h': "rtp_member_release E s h = Some h'" "counted (f(s := f s - 1)) h'" "heap_wf h'"
      "\<forall>q. q \<noteq> s \<longrightarrow> mh_cells h' q = mh_cells h q"
      "1 < f s \<longrightarrow> (\<exists>m m'. mh_cells h s = Some m \<and> mh_cells h' s = Some m' \<and> m_ssrc m' = m_ssrc m)"
    using release_counted [OF assms(2,7,4)] assms(3) by (elim okE) auto
  show ?thesis
    by (rule okI_mono [OF sl.delete_first [OF assms(1,5,6) h'(1)]]) (use h' in auto)
qed

lemma sources_same:
  "(\<And>q. q \<in> set ps \<Longrightarrow> map_option m_ssrc (mh_cells h' q) = map_option m_ssrc (mh_cells h q) \<and> mh_cells h q \<noteq> None)
   \<Longrightarrow> sources h' ps = sources h ps \<and> live h' ps"
  by (force simp: sources_def live_def)

lemma forget_ok:
  assumes "session_wf x" "nd E"
  shows "ok (\<lambda>y. session_wf y \<and> x_self y = x_self x \<and> x_events y = x_events x
      \<and> ssrc \<notin> set (sources (x_heap y) (members y))
      \<and> set (sources (x_heap y) (members y)) \<subseteq> set (sources (x_heap x) (members x))) (forget E ssrc x)"
proof (cases "first_source (x_heap x) ssrc (members x)")
  case None
  note live = session_live [OF assms(1)]
  have "ssrc \<notin> set (sources (x_heap x) (members x))" using None live by (simp add: first_source_none_iff)
  then have "ssrc \<notin> set (sources (x_heap x) (senders x))"
    using assms(1) by (auto simp: session_wf_def sources_def)
  then have "first_source (x_heap x) ssrc (senders x) = None" using live by (simp add: first_source_none_iff)
  then have "forget E ssrc x = Some x"
    using assms(1) live None by (simp add: forget_def session_wf_def sl.delete_missing)
  then show ?thesis using assms(1) \<open>ssrc \<notin> set (sources (x_heap x) (members x))\<close> by simp
next
  case (Some s)
  note live = session_live [OF assms(1)]
  obtain m where m: "s \<in> set (members x)" "cell x s = Some m" "m_ssrc m = ssrc"
    using first_source_SomeD [OF Some] by blast
  have wf: "list_invar (x_members x)" "list_invar (x_senders x)" "counted (refs x) (x_heap x)" "heap_wf (x_heap x)"
      "distinct (sources (x_heap x) (members x))" "distinct (senders x)" "set (senders x) \<subseteq> set (members x)"
      "x_rtcp_cycle x < 24"
    using assms(1) by (simp_all add: session_wf_def)
  have "0 < refs x s" using member_cell [OF assms(1), of s] m(1) by auto
  from delete_one [OF wf(1,3,4) assms(2) live(1) Some this]
  obtain r l h where d: "rtp_member_list_delete E ssrc (x_members x) (x_heap x) = Some (r, l, h)" "list_invar l"
      "list_abs l = remove1 s (members x)" "counted ((refs x)(s := refs x s - 1)) h" "heap_wf h"
      "\<And>q. q \<noteq> s \<Longrightarrow> mh_cells h q = cell x q"
      "1 < refs x s \<Longrightarrow> \<exists>m m'. cell x s = Some m \<and> mh_cells h s = Some m' \<and> m_ssrc m' = m_ssrc m"
    by (elim okE) auto
  have s: "s \<notin> set (remove1 s (members x))" "distinct (members x)" "set (remove1 s (members x)) = set (members x) - {s}"
    using session_distinct [OF assms(1)] by auto
  have others: "ssrc \<noteq> m_ssrc (the (cell x q))" if "q \<in> set (members x)" "q \<noteq> s" for q
    using that m wf(5) unfolding sources_def distinct_map inj_on_def by (metis option.sel)
  have rest: "ssrc \<notin> set (sources h' (remove1 s (members x))) \<and> distinct (sources h' (remove1 s (members x)))
      \<and> set (sources h' (remove1 s (members x))) \<subseteq> set (sources (x_heap x) (members x))"
    if "\<And>q. q \<noteq> s \<Longrightarrow> mh_cells h' q = cell x q" for h'
    using that s others wf(5) by (auto simp: sources_def distinct_map distinct_remove1 inj_on_def)
  show ?thesis
  proof (cases "s \<in> set (senders x)")
    case False
    have "sources h (senders x) = sources (x_heap x) (senders x) \<and> live h (senders x)"
      using False d(6) live(2) by (intro sources_same) (metis live_def)
    moreover have "ssrc \<notin> set (sources (x_heap x) (senders x))"
      using False wf(7) others by (fastforce simp: sources_def)
    ultimately have "first_source h ssrc (senders x) = None" "live h (senders x)"
      by (simp_all add: first_source_none_iff)
    then have "forget E ssrc x = Some (x\<lparr>x_members := l, x_heap := h\<rparr>)"
      using d(1) wf(2) by (simp add: forget_def sl.delete_missing)
    moreover have "refs (x\<lparr>x_members := l, x_heap := h\<rparr>) = (refs x)(s := refs x s - 1)"
      using count_pos [OF m(1)] d(3) by (auto simp: refs_def fun_eq_iff count_remove1)
    moreover have "set (senders x) \<subseteq> set (remove1 s (members x))" using False wf(7) s(3) by auto
    ultimately show ?thesis
      using d(2-5) wf(2,6,8) rest [of h] d(6) s(3) by (auto simp: session_wf_def)
  next
    case True
    have two: "1 < refs x s" using True m(1) count_pos [of s "members x"] count_pos [of s "senders x"] by (auto simp: refs_def)
    then obtain m' where m': "mh_cells h s = Some m'" "m_ssrc m' = ssrc" using d(7) m by auto
    have "map_option m_ssrc (mh_cells h q) = map_option m_ssrc (cell x q) \<and> cell x q \<noteq> None" if "q \<in> set (senders x)" for q
      using that m' m d(6) [of q] live(2) by (cases "q = s") (auto simp: live_def)
    then have "sources h (senders x) = sources (x_heap x) (senders x) \<and> live h (senders x)" by (rule sources_same)
    then have h: "live h (senders x)" "distinct (sources h (senders x))"
      using sender_sources_distinct [OF assms(1)] by simp_all
    have "first_source h ssrc (senders x) = Some s" using first_source_of [OF h True m'(1)] m'(2) by simp
    from delete_one [OF wf(2) d(4,5) assms(2) h(1) this] two
    obtain r2 l2 h2 where d2: "rtp_member_list_delete E ssrc (x_senders x) h = Some (r2, l2, h2)" "list_invar l2"
        "list_abs l2 = remove1 s (senders x)" "counted ((refs x)(s := refs x s - Suc (Suc 0))) h2" "heap_wf h2"
        "\<And>q. q \<noteq> s \<Longrightarrow> mh_cells h2 q = mh_cells h q"
      by (auto elim!: okE)
    let ?y = "x\<lparr>x_members := l, x_senders := l2, x_heap := h2\<rparr>"
    have "forget E ssrc x = Some ?y" using d(1) d2(1) by (simp add: forget_def)
    moreover have "refs ?y = (refs x)(s := refs x s - Suc (Suc 0))"
      using s(2) m(1) True d(3) d2(3) count_pos [of s "members x"] count_pos [of s "senders x"]
      by (auto simp: refs_def fun_eq_iff count_remove1)
    moreover have "set (remove1 s (senders x)) \<subseteq> set (remove1 s (members x))" using wf(6,7) s(3) by auto
    ultimately show ?thesis
      using d(2,3) d2(2-6) wf(6,8) rest [of h2] d(6) s(3) by (auto simp: session_wf_def)
  qed
qed


section \<open>The unpackers keep the invariant\<close>

lemma emit_all_wf [simp]: "session_wf (emit_all t ssrc us x) = session_wf x" "x_self (emit_all t ssrc us x) = x_self x"
  by (induction us arbitrary: x) (simp_all add: emit_all_def, simp add: on_rtcp_def)

lemma on_rtcp_simps [simp]:
  "x_self (on_rtcp msg x) = x_self x" "x_members (on_rtcp msg x) = x_members x" "x_heap (on_rtcp msg x) = x_heap x"
  "x_senders (on_rtcp msg x) = x_senders x" "x_events (on_rtcp msg x) = x_events x @ [msg]"
  "(on_rtcp msg x)\<lparr>x_heap := h\<rparr> = on_rtcp msg (x\<lparr>x_heap := h\<rparr>)"
  by (simp_all add: on_rtcp_def)

lemma session_wf_setvalue:
  assumes "session_wf x" "cell x p = Some m" "bytes \<le> length data" "1 \<le> item" "item \<le> 8" "bytes \<le> 255"
  shows "ok (\<lambda>(r, h). session_wf (x\<lparr>x_heap := h\<rparr>) \<and> mh_cells h p \<noteq> None \<and>
      (r = 0 \<and> 0 < bytes \<longrightarrow> (\<exists>m' d. mh_cells h p = Some m' \<and> sdes_data (m_sdes m' ! item) = Some d
        \<and> take bytes d = take bytes data)))
    (rtp_member_setvalue E p item data bytes (x_heap x))"
proof -
  have "heap_wf (x_heap x)" using assms(1) by (simp add: session_wf_def)
  note set = setvalue_ok [OF this assms(2-6), of E]
  have "session_wf (x\<lparr>x_heap := h\<rparr>)" if "heap_wf h" "mh_next h = mh_next (x_heap x)"
      "mh_cells h = (cell x)(p \<mapsto> m\<lparr>m_sdes := items\<rparr>)" for h items
  proof -
    have "h = mh_set p (m\<lparr>m_sdes := items\<rparr>) (x_heap x)"
      using that(2,3) by (intro mheap.equality) (simp_all add: mh_set_def)
    moreover have "member_wf (m\<lparr>m_sdes := items\<rparr>)"
      using that(1) fun_cong [OF that(3), of p] by (simp add: heap_wf_def)
    ultimately show ?thesis
      using session_wf_put [OF assms(1,2), of "m\<lparr>m_sdes := items\<rparr>"] by (simp add: put_member_def)
  qed
  then show ?thesis by (intro okI_mono [OF set]) auto
qed

lemma sdes_item_ok:
  assumes "session_wf x" "cell x q = Some m" "unat len \<le> length data"
  shows "ok (\<lambda>y. session_wf y \<and> x_self y = x_self x \<and> cell y q \<noteq> None) (sdes_item E ssrc (Some q) pt len data x)"
proof (cases "RTCP_SDES_CNAME \<le> unat pt \<and> unat pt \<le> RTCP_SDES_NOTE")
  case True
  have "session_wf (on_rtcp msg x)" "cell (on_rtcp msg x) q = Some m" "1 \<le> unat pt" "unat pt \<le> 8" "unat len \<le> 255" for msg
    using True assms(1,2) unat_u8_less [of len] by (simp_all add: RTCP_SDES_CNAME_def RTCP_SDES_NOTE_def del: unat_u8_less)
  then show ?thesis
    using True assms(3)
    by (simp add: sdes_item_def ok_simps) (intro okI_mono [OF session_wf_setvalue], auto)
next
  case False
  then show ?thesis using assms by (auto simp: sdes_item_def ok_simps)
qed

lemma sdes_items_ok:
  "\<lbrakk>session_wf x; cell x q \<noteq> None; nd E; bytes \<le> length p\<rbrakk> \<Longrightarrow>
   ok (\<lambda>r. case r of Inl y \<Rightarrow> session_wf y \<and> x_self y = x_self x | Inr (j, y) \<Rightarrow> session_wf y \<and> x_self y = x_self x)
     (sdes_items E ssrc (Some q) p bytes i x)"
proof (induction "bytes - i" arbitrary: i x rule: less_induct)
  case less
  show ?case
  proof (cases "i + 2 \<le> bytes \<and> unat (p ! i) \<noteq> RTCP_SDES_END \<and> i + 2 + unat (p ! (i + 1)) \<le> bytes")
    case True
    obtain m where m: "cell x q = Some m" using less.prems(2) by blast
    have "unat (p ! (i + 1)) \<le> length (drop (i + 2) p)" using True less.prems(4) by simp linarith
    from sdes_item_ok [OF less.prems(1) m this, of E ssrc "p ! i"]
    show ?thesis
      using True less.prems
      by (subst sdes_items.simps)
        (auto simp: ok_simps intro!: okI_mono [OF sdes_item_ok [OF less.prems(1) m]] okI_mono [OF less.hyps] split: sum.splits)
  next
    case False
    then show ?thesis
      using less.prems by (subst sdes_items.simps) (auto simp: ok_simps)
  qed
qed

lemma sdes_chunks_ok:
  "\<lbrakk>session_wf x; \<forall>n. mem E n; nd E; bytes \<le> length p\<rbrakk> \<Longrightarrow>
   ok (\<lambda>y. session_wf y \<and> x_self y = x_self x) (sdes_chunks E addr p bytes k i x)"
proof (induction k arbitrary: i x)
  case (Suc k)
  show ?case
  proof (cases "i + 8 \<le> bytes")
    case True
    define ssrc where "ssrc = un32 (p ! i) (p ! (i + 1)) (p ! (i + 2)) (p ! (i + 3))"
    obtain q y where f: "rtp_member_fetch E ssrc x = Some (Some q, y)" "session_wf y" "kept x y" "cell y q \<noteq> None"
      using member_fetch_ok [OF Suc.prems(1,2), of ssrc] by (elim okE) (auto simp: found_def)
    have "rtp_read_uint32 (drop i p) = Some ssrc"
      using True Suc.prems(4) by (simp add: rtp_read_uint32_eq ssrc_def)
    then show ?thesis
      using True Suc.prems f keptD [OF f(3)]
      by (auto simp: adv_Some ok_simps split: sum.splits
          intro!: okI_mono [OF sdes_items_ok [OF f(2,4) Suc.prems(3,4)]] okI_mono [OF Suc.IH])
  qed (use Suc.prems in simp)
qed simp

lemma bye_others_ok:
  "\<lbrakk>session_wf x; nd E; 4 * k \<le> length p\<rbrakk> \<Longrightarrow>
   ok (\<lambda>y. session_wf y \<and> x_self y = x_self x) (bye_others E k p u x)"
proof (induction k arbitrary: p x)
  case (Suc k)
  then show ?case
    by (auto simp: ok_simps intro!: okI_mono [OF forget_ok] okI_mono [OF Suc.IH])
qed simp

lemma bye_unpack_ok:
  assumes "session_wf x" "nd E" "bytes + 4 \<le> length ptr"
  shows "ok (\<lambda>y. session_wf y \<and> x_self y = x_self x) (rtcp_bye_unpack E header ptr bytes x)"
  using assms
  by (auto simp: rtcp_bye_unpack_def ok_simps Let_def
      intro!: okI_mono [OF forget_ok] okI_mono [OF bye_others_ok])


lemma app_unpack_ok:
  assumes "session_wf x" "nd E" "bytes \<le> length ptr"
  shows "ok (\<lambda>y. session_wf y \<and> x_self y = x_self x) (rtcp_app_unpack E header ptr bytes x)"
  using assms by (auto simp: rtcp_app_unpack_def ok_simps)

lemma rtpfb_unpack_ok:
  assumes "session_wf x" "\<forall>n. mem E n" "nd E" "bytes \<le> length ptr"
  shows "ok (\<lambda>y. session_wf y \<and> x_self y = x_self x) (rtcp_rtpfb_unpack E header ptr bytes x)"
  using assms rtpfb_dispatch_ok [of E bytes ptr "unat (r_rc header)"]
  by (auto simp: rtcp_rtpfb_unpack_def ok_simps found_def dest: keptD
      intro!: okI_mono [OF sender_fetch_ok] elim!: okI_mono split: option.splits)

lemma psfb_unpack_ok:
  assumes "session_wf x" "\<forall>n. mem E n" "nd E" "bytes \<le> length ptr" "4 dvd bytes" "bytes < 2 ^ 32"
  shows "ok (\<lambda>y. session_wf y \<and> x_self y = x_self x) (rtcp_psfb_unpack E header ptr bytes x)"
  using assms psfb_dispatch_ok [of E bytes ptr "unat (r_rc header)"]
  by (auto simp: rtcp_psfb_unpack_def ok_simps found_def dest: keptD
      intro!: okI_mono [OF sender_fetch_ok] elim!: okI_mono split: option.splits)

section \<open>Compound packets keep the invariant\<close>

text \<open>A packet that the unpackers survive: not an extended report, whose loop never ends, and no payload specific
  feedback with padding, where the back channel unpacker reads beyond the packet.\<close>

definition survivable :: "rtcp_header_t \<Rightarrow> bool" where
  "survivable h \<longleftrightarrow> uint (r_pt h) \<noteq> RTCP_XR \<and> (uint (r_pt h) = RTCP_PSFB \<longrightarrow> r_p h = 0)"

function rtcp_clean :: "u8 list \<Rightarrow> int \<Rightarrow> bool" where
  "rtcp_clean data bytes \<longleftrightarrow>
     (if 4 < bytes then
        (case rtp_read_uint32 data of None \<Rightarrow> False
         | Some w \<Rightarrow> survivable (rtcp_header_of w)
            \<and> rtcp_clean (drop (unat (r_length (rtcp_header_of w)) * 4 + 4) data)
                (bytes - int (unat (r_length (rtcp_header_of w)) * 4 + 4)))
      else True)"
  by pat_completeness auto
termination by (relation "measure (\<lambda>(data, bytes). nat bytes)") auto

declare rtcp_clean.simps [simp del]

lemma dispatch_ok:
  assumes "session_wf x" "\<forall>n. mem E n" "nd E" "n + 4 \<le> length p" "survivable header"
    "uint (r_pt header) = RTCP_PSFB \<longrightarrow> 4 dvd n \<and> n < 2 ^ 32"
  shows "ok (\<lambda>y. session_wf y \<and> x_self y = x_self x) (rtcp_dispatch E addr header p n x)"
proof -
  have n: "n \<le> length p" using assms(4) by simp
  show ?thesis
    using sr_unpack_ok [OF assms(1-3) n] rr_unpack_ok [OF assms(1-3) n] sdes_chunks_ok [OF assms(1-3) n]
      bye_unpack_ok [OF assms(1,3,4)] app_unpack_ok [OF assms(1,3) n] rtpfb_unpack_ok [OF assms(1-3) n]
      psfb_unpack_ok [OF assms(1-3) n] assms(1,3,5,6)
    by (simp add: rtcp_dispatch_def Let_def survivable_def rtcp_sdes_unpack_def)
qed

lemma parse_ok:
  assumes "session_wf x" "\<forall>n. mem E n" "nd E" "4 < bytes" "bytes + 4 \<le> length data"
    and w: "rtp_read_uint32 data = Some w" "survivable (rtcp_header_of w)"
  shows "ok (\<lambda>(r, y). session_wf y \<and> x_self y = x_self x \<and> (r = -1 \<or>
      r = int (unat (r_length (rtcp_header_of w)) * 4 + 4) \<and> r \<le> int bytes)) (rtcp_parse E addr data bytes x)"
proof -
  define h where "h = rtcp_header_of w"
  define n where "n = unat (r_length h) * 4 + 4"
  show ?thesis
  proof (cases "bytes < n \<or> r_v h \<noteq> 2 \<or> r_p h = 1 \<and> (unat (r_length h) < 1 \<or> unat (r_length h) * 4 < unat (data ! (n - 1)))")
    case True
    then show ?thesis
      using assms(1,3-5) w(1)
      by (auto simp: rtcp_parse_def h_def [symmetric] n_def [symmetric] Let_def ok_simps)
  next
    case False
    define pad where "pad = (if r_p h = 0 then 0 else unat (data ! (n - 1)))"
    have n: "4 \<le> n" "n \<le> bytes" "n < 2 ^ 32" "4 dvd n" using False unat_u16_less [of "r_length h"] by (auto simp: n_def simp del: unat_u16_less)
    have m: "n - pad - 4 + 4 \<le> length (drop 4 data)" using n assms(5) by simp
    have psfb: "uint (r_pt h) = RTCP_PSFB \<longrightarrow> 4 dvd n - pad - 4 \<and> n - pad - 4 < 2 ^ 32"
      using w(2) n by (auto simp: survivable_def h_def [symmetric] pad_def dvd_diff_nat)
    have "ok (\<lambda>y. session_wf y \<and> x_self y = x_self x) (rtcp_dispatch E (addr + 4) h (drop 4 data) (n - pad - 4) x)"
      using dispatch_ok [OF assms(1-3) m _ psfb] w(2) by (simp add: h_def)
    then show ?thesis
      using False assms(3-5) w(1) n
      by (auto simp: rtcp_parse_def h_def [symmetric] n_def [symmetric] pad_def Let_def ok_simps elim!: okI_mono
          split: if_splits)
  qed
qed

lemma input_rtcp_ok:
  "\<lbrakk>session_wf x; \<forall>n. mem E n; nd E; bytes + 4 \<le> int (length data); rtcp_clean data bytes\<rbrakk> \<Longrightarrow>
   ok (\<lambda>(r, y). r = 0 \<and> session_wf y \<and> x_self y = x_self x) (rtcp_input_rtcp E addr data bytes x)"
proof (induction "nat bytes" arbitrary: addr data bytes x rule: less_induct)
  case less
  show ?case
  proof (cases "4 < bytes")
    case True
    obtain w where w: "rtp_read_uint32 data = Some w" "survivable (rtcp_header_of w)"
        "rtcp_clean (drop (unat (r_length (rtcp_header_of w)) * 4 + 4) data)
                (bytes - int (unat (r_length (rtcp_header_of w)) * 4 + 4))"
      using less.prems(5) True by (subst (asm) rtcp_clean.simps) (auto split: option.splits)
    define n where "n = unat (r_length (rtcp_header_of w)) * 4 + 4"
    have b: "4 < nat bytes" "nat bytes + 4 \<le> length data" using True less.prems(4) by auto
    obtain r y where y: "rtcp_parse E addr data (nat bytes) x = Some (r, y)" "session_wf y" "x_self y = x_self x"
        "r = -1 \<or> r = int n \<and> r \<le> bytes"
      using parse_ok [OF less.prems(1-3) b w(1,2), of addr] True by (elim okE) (auto simp: n_def)
    have "0 < int n" by (simp add: n_def)
    let ?y = "y\<lparr>x_avg_rtcp_size := (x_avg_rtcp_size y + r * 15) div 16\<rparr>"
    have "ok (\<lambda>(r, z). r = 0 \<and> session_wf z \<and> x_self z = x_self ?y)
        (rtcp_input_rtcp E (addr + n) (drop n data) (bytes - int n) ?y)" if "r = int n" "r \<le> bytes"
      using that less.prems(2-4) y(2) w(3) True by (intro less.hyps) (auto simp: n_def)
    then show ?thesis
      using True y b \<open>0 < int n\<close> by (subst rtcp_input_rtcp.simps) (auto simp: adv_Some)
  qed (use less.prems in \<open>subst rtcp_input_rtcp.simps, simp\<close>)
qed


section \<open>Sending source descriptions\<close>

lemma unat_of_int_u64: "\<lbrakk>0 \<le> i; i < 2 ^ 31\<rbrakk> \<Longrightarrow> unat (of_int i :: u64) = nat i"
  by (simp add: unsigned_of_int take_bit_int_eq_self)

definition item_wf :: "rtcp_sdes_item_t \<Rightarrow> bool" where
  "item_wf s \<longleftrightarrow> (case sdes_data s of None \<Rightarrow> False | Some d \<Rightarrow> unat (sdes_len s) \<le> length d)"

lemma append_item_ok:
  assumes "item_wf sdes" "0 \<le> k" "k < 2 ^ 31" "off + nat k \<le> length b"
  shows "ok (\<lambda>(n, b'). n = unat (sdes_len sdes) + 2 \<and> length b' = length b \<and>
      (\<forall>j. j \<le> off \<longrightarrow> take j b' = take j b) \<and> (int n \<le> k \<longrightarrow> b' = splice b off
        ([sdes_pt sdes, sdes_len sdes] @ take (unat (sdes_len sdes)) (the (sdes_data sdes)))))
    (rtcp_sdes_append_item E b off (of_int k) sdes)"
proof -
  obtain d where d: "sdes_data sdes = Some d" "unat (sdes_len sdes) \<le> length d"
    using assms(1) by (auto simp: item_wf_def split: option.splits)
  define v where "v = [sdes_pt sdes, sdes_len sdes] @ take (unat (sdes_len sdes)) d"
  have take: "take j (splice b off v) = take j b" if "j \<le> off" "off \<le> length b" for j
    using that by (simp add: splice_def)
  have "rtcp_sdes_append_item E b off (of_int k) sdes = Some (unat (sdes_len sdes) + 2,
      if unat (sdes_len sdes) + 2 \<le> nat k then splice b off v else b)"
    using d assms(2-4)
    by (auto simp: rtcp_sdes_append_item_def unat_of_int_u64 wr_splice c_memcpy_splice splice_adjacent v_def)
  then show ?thesis using take assms(2,4) d by (auto simp: v_def)
qed

lemma self_item_wf:
  assumes "member_wf m" "i < 9" "sdes_data (m_sdes m ! i) \<noteq> None"
  shows "item_wf (m_sdes m ! i)"
  using assms by (auto simp: member_wf_def item_wf_def sdes_wf_def split: option.splits)

lemma sdes_extra_ok:
  assumes "member_wf s" "cycle < 24" "int (8 + n) \<le> bytes" "bytes < 2 ^ 31" "off + nat bytes \<le> length b"
  shows "ok (\<lambda>(n', b'). length b' = length b \<and> take off b' = take off b) (sdes_extra E b off bytes n s cycle)"
proof (cases "cycle mod 3 = 0 \<and> 0 < cycle div 3 \<and> sdes_data (m_sdes s ! (cycle div 3 + 1)) \<noteq> None")
  case True
  have i: "cycle div 3 + 1 < 9" "length (m_sdes s) = 9" using assms(1,2) by (auto simp: member_wf_def)
  have item: "item_wf (m_sdes s ! (cycle div 3 + 1))" using True i by (intro self_item_wf [OF assms(1)]) auto
  have k: "0 \<le> bytes - int n - 8" "bytes - int n - 8 < 2 ^ 31" "off + 8 + n + nat (bytes - int n - 8) \<le> length b"
    using assms(3-5) by auto
  from append_item_ok [OF item k, of E]
  have "ok (\<lambda>(n', b'). length b' = length b \<and> take off b' = take off b)
      (rtcp_sdes_append_item E b (off + 8 + n) (of_int (bytes - int n - 8)) (m_sdes s ! (cycle div 3 + 1)))"
    by (auto simp del: of_int_diff elim!: okI_mono)
  then show ?thesis
    using True i by (auto simp: sdes_extra_def ok_simps RTCP_SDES_PRIVATE_def simp del: of_int_diff elim!: okI_mono)
next
  case False
  then show ?thesis
    using assms(1,2) by (auto simp: sdes_extra_def ok_simps member_wf_def RTCP_SDES_PRIVATE_def)
qed

lemma sdes_pack_ok:
  assumes "session_wf x" "8 \<le> bytes" "bytes < 2 ^ 31" "off + nat bytes \<le> length b"
  shows "ok (\<lambda>(n, b', y). 0 \<le> n \<and> length b' = length b \<and> take off b' = take off b \<and> session_wf y \<and> x_self y = x_self x)
    (rtcp_sdes_pack E b off bytes x)"
proof -
  obtain s where s: "cell x (x_self x) = Some s" using member_cell [OF assms(1)] by blast
  have wf: "member_wf s" "x_rtcp_cycle x < 24"
    using wf_cell [OF assms(1) s] assms(1) by (auto simp: session_wf_def)
  have header: "take off (splice (splice c off H) (off + 4) S) = take off b"
    if "length c = length b" "take off c = take off b" "length H = 4" "length S = 4" for c H S
    using that assms(2,4) by (simp add: splice_adjacent take_splice_before)
  show ?thesis
  proof (cases "sdes_data (m_sdes s ! RTCP_SDES_CNAME)")
    case None
    then show ?thesis using s assms(1) by (simp add: rtcp_sdes_pack_def)
  next
    case (Some d)
    have cname: "item_wf (m_sdes s ! RTCP_SDES_CNAME)"
      using Some by (intro self_item_wf [OF wf(1)]) (auto simp: RTCP_SDES_CNAME_def)
    have k: "0 \<le> bytes - 8" "bytes - 8 < 2 ^ 31" "off + 8 + nat (bytes - 8) \<le> length b" using assms(2-4) by auto
    from append_item_ok [OF cname k, of E]
    obtain n b1 where 1: "rtcp_sdes_append_item E b (off + 8) (of_int (bytes - 8)) (m_sdes s ! RTCP_SDES_CNAME) = Some (n, b1)"
        "length b1 = length b" "take off b1 = take off b"
      by (auto simp del: of_int_diff elim!: okE)
    obtain n2 b2 where 2: "sdes_extra E b1 off bytes n s (x_rtcp_cycle x) = Some (n2, b2)"
        "length b2 = length b" "take off b2 = take off b" if "int (8 + n) \<le> bytes"
      using sdes_extra_ok [OF wf, of n bytes off b1 E] assms(3,4) 1(2,3) by (force simp: ok_iff)
    then show ?thesis
      using s Some assms 1 session_wf_cycle [OF assms(1)]
      by (auto simp: rtcp_sdes_pack_def Let_def nbo_write_rtcp_header_eq rtp_write_uint32_eq header simp del: of_int_diff)
  qed
qed

text \<open>With fewer than eight bytes left the size passed on is negative and becomes a huge unsigned number: the
  name is written behind the buffer.\<close>

lemma sdes_pack_overflow:
  assumes "cell x (x_self x) = Some s" "sdes_data (m_sdes s ! RTCP_SDES_CNAME) \<noteq> None"
    "0 \<le> bytes" "bytes < 8" "length b \<le> off + 8" "nd E"
  shows "rtcp_sdes_pack E b off bytes x = None"
proof -
  have "(bytes - 8) mod 2 ^ 64 = (bytes - 8 + 2 ^ 64) mod 2 ^ 64" by (rule mod_add_self2 [symmetric])
  also have "\<dots> = bytes - 8 + 2 ^ 64" using assms(3,4) by (intro mod_pos_pos_trivial) auto
  finally have "unat (of_int (bytes - 8) :: u64) = nat (bytes - 8 + 2 ^ 64)"
    by (simp add: unsigned_of_int take_bit_eq_mod del: of_int_diff)
  then have "unat (sdes_len (m_sdes s ! RTCP_SDES_CNAME)) + 2 \<le> unat (of_int (bytes - 8) :: u64)"
    using assms(3) unat_u8_less [of "sdes_len (m_sdes s ! RTCP_SDES_CNAME)"] by (simp del: of_int_diff unat_u8_less)
  moreover have "wr b (off + 8) v = None" for v using assms(5) by (simp add: wr_def)
  ultimately show ?thesis
    using assms(1,2,6) by (auto simp: rtcp_sdes_pack_def rtcp_sdes_append_item_def Let_def simp del: of_int_diff)
qed

section \<open>Properties\<close>

lemma bye_others_gone:
  "\<lbrakk>session_wf x; nd E; 4 * k \<le> length p\<rbrakk> \<Longrightarrow>
   ok (\<lambda>y. session_wf y \<and> set (sources (x_heap y) (members y)) \<subseteq> set (sources (x_heap x) (members x))
      \<and> (\<forall>i < k. \<forall>ssrc. rtp_read_uint32 (drop (4 * i) p) = Some ssrc \<longrightarrow> ssrc \<notin> set (sources (x_heap y) (members y))))
     (bye_others E k p u x)"
proof (induction k arbitrary: p x)
  case (Suc k)
  define ssrc where "ssrc = un32 (p ! 0) (p ! 1) (p ! 2) (p ! 3)"
  have p: "rtp_read_uint32 p = Some ssrc" using Suc.prems(3) by (simp add: rtp_read_uint32_eq ssrc_def)
  obtain y where y: "forget E ssrc x = Some y" "session_wf y" "ssrc \<notin> set (sources (x_heap y) (members y))"
      "set (sources (x_heap y) (members y)) \<subseteq> set (sources (x_heap x) (members x))"
    using forget_ok [OF Suc.prems(1,2), of ssrc] by (elim okE) auto
  define z where "z = on_rtcp \<lparr>msg_type = RTCP_BYE, msg_ssrc = ssrc, msg_u = u\<rparr> y"
  have IH: "ok (\<lambda>y. session_wf y \<and> set (sources (x_heap y) (members y)) \<subseteq> set (sources (x_heap z) (members z))
      \<and> (\<forall>i < k. \<forall>ssrc. rtp_read_uint32 (drop (4 * i) (drop 4 p)) = Some ssrc \<longrightarrow> ssrc \<notin> set (sources (x_heap y) (members y))))
     (bye_others E k (drop 4 p) u z)"
    using Suc.prems y(2) by (intro Suc.IH) (auto simp: z_def)
  show ?case
    using p y(1) unfolding z_def [symmetric] bye_others.simps
    by (simp add: z_def [symmetric])
      (rule okI_mono [OF IH], use y(3,4) p in \<open>auto simp: z_def less_Suc_eq_0_disj add.commute\<close>)
qed simp

lemma bye_others_short: "\<lbrakk>session_wf w; nd E\<rbrakk> \<Longrightarrow> bye_others E (length q div 4 + 1) q u w = None"
proof (induction "length q div 4" arbitrary: q w)
  case 0
  then have "rtp_read_uint32 q = None" by simp
  then show ?case by (simp del: rtp_read_uint32_None)
next
  case (Suc n)
  then have q: "4 \<le> length q" "n = length (drop 4 q) div 4" by auto
  show ?case
  proof (cases "rtp_read_uint32 q")
    case (Some s)
    obtain v where "forget E s w = Some v" "session_wf v"
      using forget_ok [OF Suc.prems, of s] by (elim okE) auto
    moreover have "length q div 4 = length (drop 4 q) div 4 + 1" using q Suc.hyps(2) by simp
    ultimately show ?thesis using Some Suc.hyps(1) [OF q(2)] Suc.prems(2) by simp
  qed (simp del: rtp_read_uint32_None)
qed




lemma rtcp_header_of_word [simp]: "rtcp_header_of (rtcp_header_word h) = h"
  by (simp add: rtcp_header_of_def)

text \<open>C23: The receiver report that a session sends is received by another one as it was meant: the compound
  packet parser accepts the packet and reports, in order, one block for each sender, with the fields
  that the sending side computed. This holds when every sender of the list has sent something and
  is not the reporting source itself; otherwise the count in the header includes blocks that were not written.\<close>

theorem report_roundtrip:
  assumes "session_wf x" "nd E" "cell x (x_self x) = Some s" "list_all (active x) (senders x)"
    and "length (senders x) \<le> 31" "8 + 24 * int (length (senders x)) \<le> bytes" "bytes < 2 ^ 31"
    and "off + nat bytes \<le> length b"
    and peer: "session_wf y" "\<forall>n. mem E' n" "nd E'"
  shows "ok (\<lambda>(n, b', x'). n = 8 + 24 * int (length (senders x)) \<and> session_wf x' \<and>
      ok (\<lambda>(r, z). session_wf z \<and> x_events z = x_events y
          @ map (\<lambda>rb. \<lparr>msg_type = RTCP_RR, msg_ssrc = m_ssrc s, msg_u = Msg_rb rb\<rparr>) (blocks_at E x (x_ticks x) (senders x)))
        (rtcp_input_rtcp E' addr (take (nat n) (drop off b')) n y)) (rtcp_rr_pack E b off bytes x)"
proof -
  define k where "k = length (senders x)"
  define rbs where "rbs = blocks_at E x (x_ticks x) (senders x)"
  define h where "h = \<lparr>r_v = 2, r_p = 0, r_rc = of_nat k, r_pt = of_int RTCP_RR, r_length = of_nat (1 + 6 * k)\<rparr>"
  define body where "body = be32 (m_ssrc s) @ concat (map rb_bytes rbs)"
  have k: "k \<le> 31" "length rbs = k" "length body = 4 + 24 * k"
    using assms(5) by (simp_all add: k_def rbs_def body_def rb_item.length_enc_all)
  have "1 + 6 * k < 65536" using k by simp
  then have len: "unat (r_length h) = 1 + 6 * k" "unat (r_rc h) = length rbs" "uint (r_pt h) = RTCP_RR"
    using k by (simp_all only: h_def rtcp_header_t.select_convs unat_of_nat_u16)
      (simp_all add: unsigned_of_nat take_bit_nat_eq_self RTCP_RR_def)
  obtain z where z: "rtcp_rr_unpack E' h body (4 + 24 * k) y = Some z" "session_wf z"
      "x_events z = x_events y @ map (\<lambda>rb. \<lparr>msg_type = RTCP_RR, msg_ssrc = m_ssrc s, msg_u = Msg_rb rb\<rparr>) rbs"
    using rr_unpack_events [OF peer len(2), of "m_ssrc s" "[]"] k(2) by (elim okE) (auto simp: body_def)
  have "r_v h = 2" "r_p h = 0" "RTCP_RR \<noteq> RTCP_SR" by (simp_all add: h_def rtcp_types)
  then have parse: "rtcp_parse E' addr (be32 (rtcp_header_word h) @ body) (8 + 24 * k) y = Some (int (8 + 24 * k), z)"
    using z(1) peer(3) k
    by (simp add: rtcp_parse_def Let_def len adv_def rtcp_dispatch_def)
  have input: "ok (\<lambda>(r, z). session_wf z \<and> x_events z = x_events y
        @ map (\<lambda>rb. \<lparr>msg_type = RTCP_RR, msg_ssrc = m_ssrc s, msg_u = Msg_rb rb\<rparr>) rbs)
      (rtcp_input_rtcp E' addr (be32 (rtcp_header_word h) @ body) (8 + 24 * int k) y)"
    using z parse k(3) by (subst rtcp_input_rtcp.simps) (simp add: adv_def nat_add_distrib nat_mult_distrib rtcp_input_rtcp.simps)
  have "take (nat (8 + 24 * int k)) (drop off (splice b off (be32 (rtcp_header_word h) @ body))) = be32 (rtcp_header_word h) @ body"
    using assms(6,8) k(3) by (subst drop_splice) (auto simp: k_def [symmetric] nat_add_distrib nat_mult_distrib)
  then show ?thesis
    using input unfolding k_def [symmetric] rbs_def [symmetric]
    by (intro okI_mono [OF rr_pack_active [OF assms(1-8), folded k_def rbs_def, folded h_def body_def]]) auto
qed


theorem report_roundtrip_witness:
  "ok (\<lambda>(n, b', x'). n = 32 \<and> session_wf x' \<and>
      ok (\<lambda>(r, z). session_wf z \<and> x_events z
          = map (\<lambda>rb. \<lparr>msg_type = RTCP_RR, msg_ssrc = 5, msg_u = Msg_rb rb\<rparr>) (blocks_at (example_env\<lparr>nd := True\<rparr>) example_session 0 [1]))
        (rtcp_input_rtcp (example_env\<lparr>nd := True\<rparr>) 0 (take (nat n) (drop 0 b')) n example_session))
    (rtcp_rr_pack (example_env\<lparr>nd := True\<rparr>) (replicate 32 0) 0 32 example_session)"
proof -
  have "active example_session 1" "cell example_session (x_self example_session) = Some ((fresh_member 5)\<lparr>m_ref := 2\<rparr>)"
    "x_events example_session = []" "x_ticks example_session = 0"
    by (simp_all add: active_def example_session_def example_sender_def)
  then show ?thesis
    using report_roundtrip [of example_session "example_env\<lparr>nd := True\<rparr>" "(fresh_member 5)\<lparr>m_ref := 2\<rparr>" 32 0
        "replicate 32 0" example_session "example_env\<lparr>nd := True\<rparr>" 0]
    by (simp add: example_env_def)
qed

end
