(* ===== verification/Rtp_Api.thy ===== *)
theory Rtp_Api
  imports Rtcp_Control
begin

text \<open>
  \<open>lib/librtp/source/rtp.c\<close> and \<open>rtcp-interval.c\<close>: the interface of a session, from its creation to its
  destruction, and the time between two reports.

  A session owns its participants, so its heap is empty before \<open>rtp_create\<close>. The random number of
  \<open>drand48\<close> is an argument of the interval.
\<close>

definition RTP_SENDER :: int where "RTP_SENDER = 1"
definition RTP_RECEIVER :: int where "RTP_RECEIVER = 2"
definition sizeof_rtp_context :: nat where "sizeof_rtp_context = 64"

section \<open>Creation and destruction\<close>

definition destroy_parts ::
  "env \<Rightarrow> rtp_member_list option \<Rightarrow> rtp_member_list option \<Rightarrow> member_ptr option \<Rightarrow> mheap \<Rightarrow> mheap option" where
  "destroy_parts E ms ss self h = do {
     h \<leftarrow> (case ms of None \<Rightarrow> Some h | Some l \<Rightarrow> rtp_member_list_destroy E l h);
     h \<leftarrow> (case ss of None \<Rightarrow> Some h | Some l \<Rightarrow> rtp_member_list_destroy E l h);
     case self of None \<Rightarrow> Some h | Some p \<Rightarrow> rtp_member_release E p h }"

definition rtp_destroy :: "env \<Rightarrow> rtp_context \<Rightarrow> mheap option" where
  "rtp_destroy E x = destroy_parts E (Some (x_members x)) (Some (x_senders x)) (Some (x_self x)) (x_heap x)"

text \<open>\<open>Inl\<close> is the null result, with the heap that is left.\<close>

definition rtp_create :: "env \<Rightarrow> u32 \<Rightarrow> u32 \<Rightarrow> int \<Rightarrow> int \<Rightarrow> bool \<Rightarrow> (mheap + rtp_context) option" where
  "rtp_create E ssrc timestamp frequence bandwidth sender =
     (if \<not> mem E sizeof_rtp_context then Some (Inl mh_empty)
      else
        let (self, h) = rtp_member_create E ssrc mh_empty;
            ms = rtp_member_list_create E;
            ss = rtp_member_list_create E
        in case (self, ms, ss) of
             (Some p, Some ms, Some ss) \<Rightarrow> do {
               m \<leftarrow> mh_cells h p;
               let h = mh_set p (m\<lparr>m_rtp_clock := rtpclock E 0, m_rtp_timestamp := timestamp\<rparr>) h;
               (r, ms, h) \<leftarrow> rtp_member_list_add E p ms h;
               Some (Inr \<lparr>x_events = [], x_members = ms, x_senders = ss, x_self = p, x_avg_rtcp_size = 0,
                 x_rtcp_bw = (if 0 \<le> bandwidth then bandwidth div 20 else - (- bandwidth div 20)), x_rtcp_cycle = 0,
                 x_frequence = frequence, x_init = True,
                 x_role = (if sender then RTP_SENDER else RTP_RECEIVER), x_heap = h, x_ticks = 1\<rparr>) }
           | _ \<Rightarrow> do { h \<leftarrow> destroy_parts E ms ss self h; Some (Inl h) })"

section \<open>Packets and reports\<close>

definition rtp_onsend :: "env \<Rightarrow> u8 list \<Rightarrow> int \<Rightarrow> rtp_context \<Rightarrow> (int \<times> rtp_context) option" where
  "rtp_onsend E data bytes x = do {
     c_assert (nd E) (x_role x = RTP_SENDER);
     let x = x\<lparr>x_role := RTP_SENDER\<rparr>;
     r \<leftarrow> rtp_packet_deserialize (nd E) data bytes;
     case r of
       Inl e \<Rightarrow> Some (-1, x)
     | Inr pkt \<Rightarrow> do {
         let (clock, x) = clock_now E x;
         m \<leftarrow> cell x (x_self x);
         Some (0, put_member (x_self x) (m\<lparr>m_rtp_clock := clock, m_rtp_timestamp := h_timestamp (pk_rtp pkt),
           m_rtp_bytes := m_rtp_bytes m + of_int (pk_payloadlen pkt), m_rtp_packets := m_rtp_packets m + 1\<rparr>) x) } }"

definition rtp_onreceived :: "env \<Rightarrow> u8 list \<Rightarrow> int \<Rightarrow> rtp_context \<Rightarrow> (int \<times> rtp_context) option" where
  "rtp_onreceived E data bytes x = rtcp_input_rtp E data bytes x"

definition rtp_onreceived_rtcp :: "env \<Rightarrow> nat \<Rightarrow> u8 list \<Rightarrow> int \<Rightarrow> rtp_context \<Rightarrow> (int \<times> rtp_context) option" where
  "rtp_onreceived_rtcp E addr data bytes x = rtcp_input_rtcp E addr data bytes x"

definition rtp_rtcp_report :: "env \<Rightarrow> u8 list \<Rightarrow> int \<Rightarrow> rtp_context \<Rightarrow> (int \<times> u8 list \<times> rtp_context) option" where
  "rtp_rtcp_report E data bytes x = do {
     (n, data, x) \<leftarrow>
       (if x_role x = RTP_SENDER then rtcp_sr_pack E data 0 bytes x
        else do { c_assert (nd E) (x_role x = RTP_RECEIVER); rtcp_rr_pack E data 0 bytes x });
     (n, data, x) \<leftarrow>
       (if n < bytes then do {
          (n', data, x) \<leftarrow> rtcp_sdes_pack E data (nat n) (bytes - n) x;
          Some (n + n', data, x) }
        else Some (n, data, x));
     Some (n, data, x\<lparr>x_init := False\<rparr>) }"

definition rtp_rtcp_bye :: "u8 list \<Rightarrow> int \<Rightarrow> rtp_context \<Rightarrow> (int \<times> u8 list) option" where
  "rtp_rtcp_bye data bytes x = rtcp_bye_pack data 0 bytes x"

definition rtp_rtcp_app :: "u8 list \<Rightarrow> int \<Rightarrow> u8 list \<Rightarrow> u8 list \<Rightarrow> rtp_context \<Rightarrow> (int \<times> u8 list) option" where
  "rtp_rtcp_app data bytes name app x = rtcp_app_pack data 0 bytes name app x"

definition rtp_rtcp_rtpfb :: "env \<Rightarrow> u8 list \<Rightarrow> nat \<Rightarrow> nat \<Rightarrow> u32 \<Rightarrow> rtpfb_u \<Rightarrow> rtp_context \<Rightarrow> (int \<times> u8 list) option" where
  "rtp_rtcp_rtpfb E data bytes fmt media u x = do {
     self \<leftarrow> cell x (x_self x);
     rtcp_rtpfb_pack E (m_ssrc self) fmt media u data bytes }"

definition rtp_rtcp_psfb :: "env \<Rightarrow> u8 list \<Rightarrow> nat \<Rightarrow> nat \<Rightarrow> u32 \<Rightarrow> psfb_u \<Rightarrow> rtp_context \<Rightarrow> (int \<times> u8 list) option" where
  "rtp_rtcp_psfb E data bytes fmt media u x = do {
     self \<leftarrow> cell x (x_self x);
     rtcp_psfb_pack E (m_ssrc self) fmt media u data bytes }"

definition rtp_rtcp_xr :: "env \<Rightarrow> u8 list \<Rightarrow> nat \<Rightarrow> nat \<Rightarrow> xr_u \<Rightarrow> rtp_context \<Rightarrow> (int \<times> u8 list) option" where
  "rtp_rtcp_xr E data bytes bt u x = do {
     self \<leftarrow> cell x (x_self x);
     rtcp_xr_pack E (m_ssrc self) bt u data bytes }"

section \<open>Descriptions\<close>

definition get_item :: "nat \<Rightarrow> u32 \<Rightarrow> rtp_context \<Rightarrow> u8 list option option" where
  "get_item i ssrc x = do {
     p \<leftarrow> rtp_member_list_find (x_heap x) (x_members x) ssrc;
     case p of
       None \<Rightarrow> Some None
     | Some p \<Rightarrow> do { m \<leftarrow> cell x p; Some (sdes_data (m_sdes m ! i)) } }"

definition rtp_get_cname :: "u32 \<Rightarrow> rtp_context \<Rightarrow> u8 list option option" where
  "rtp_get_cname ssrc x = get_item RTCP_SDES_CNAME ssrc x"

definition rtp_get_name :: "u32 \<Rightarrow> rtp_context \<Rightarrow> u8 list option option" where
  "rtp_get_name ssrc x = get_item RTCP_SDES_NAME ssrc x"

definition rtp_set_info :: "env \<Rightarrow> u8 list \<Rightarrow> u8 list \<Rightarrow> rtp_context \<Rightarrow> (int \<times> rtp_context) option" where
  "rtp_set_info E cname name x = do {
     (r, h) \<leftarrow> rtp_member_setvalue E (x_self x) RTCP_SDES_CNAME cname (length cname) (x_heap x);
     let x = x\<lparr>x_heap := h\<rparr>;
     (r, h) \<leftarrow> rtp_member_setvalue E (x_self x) RTCP_SDES_NAME name (length name) (x_heap x);
     Some (0, x\<lparr>x_heap := h\<rparr>) }"

section \<open>The time between reports\<close>

text \<open>\<open>None\<close>: the quotient by a bandwidth of zero is not a finite number.\<close>

definition rtcp_interval :: "rat \<Rightarrow> int \<Rightarrow> int \<Rightarrow> rat \<Rightarrow> bool \<Rightarrow> rat \<Rightarrow> bool \<Rightarrow> rat option" where
  "rtcp_interval rand n_members n_senders rtcp_bw we_sent avg_rtcp_size initial =
     (let rtcp_min_time = (if initial then 5 / 2 else 5 :: rat);
          (bw, n) = (if of_int n_senders \<le> of_int n_members * (1 / 4 :: rat)
                     then if we_sent then (rtcp_bw * (1 / 4), n_senders) else (rtcp_bw * (1 - 1 / 4), n_members - n_senders)
                     else (rtcp_bw, n_members))
      in if bw = 0 then None
         else let t = avg_rtcp_size * of_int n / bw;
                  t = (if t < rtcp_min_time then rtcp_min_time else t)
              in Some (t * (rand + 1 / 2) / (271828 / 100000 - 3 / 2)))"

definition rtp_rtcp_interval :: "env \<Rightarrow> rat \<Rightarrow> rtp_context \<Rightarrow> (int \<times> rtp_context) option" where
  "rtp_rtcp_interval E rand x = do {
     let (clock, x) = clock_now E x;
     self \<leftarrow> cell x (x_self x);
     t \<leftarrow> rtcp_interval rand (int (rtp_member_list_count (x_members x)))
       (int (rtp_member_list_count (x_senders x)) + (if x_role x = RTP_SENDER then 1 else 0))
       (of_int (x_rtcp_bw x)) (clock < m_rtp_clock self + 2 * 5000 * 1000) (of_int (x_avg_rtcp_size x)) (x_init x);
     if \<lfloor>t * 1000\<rfloor> \<le> 2147483647 \<and> - 2147483649 < t * 1000
     then Some (if t < 0 then - \<lfloor>- (t * 1000)\<rfloor> else \<lfloor>t * 1000\<rfloor>, x) else None }"

section \<open>Destruction frees everything\<close>

lemma release_from_ok:
  assumes "list_invar l" "nd E"
  shows "counted (\<lambda>p. count_list (drop i (list_abs l)) p + g p) h \<Longrightarrow> i \<le> l_count l \<Longrightarrow>
    ok (counted g) (release_from E l i h)"
proof (induction "l_count l - i" arbitrary: i h)
  case 0
  then show ?case using assms(1) by (subst release_from.simps) simp
next
  case (Suc n)
  then have i: "i < l_count l" by linarith
  define s where "s = list_abs l ! i"
  have d: "drop i (list_abs l) = s # drop (i + 1) (list_abs l)"
    using assms(1) i by (simp add: s_def Cons_nth_drop_Suc)
  let ?f = "\<lambda>p. count_list (drop i (list_abs l)) p + g p"
  have "0 < ?f s" by (simp add: d)
  from release_counted [OF Suc.prems(1) this assms(2)]
  obtain h' where h': "rtp_member_release E s h = Some h'" "counted (?f(s := ?f s - 1)) h'"
    by (elim okE) auto
  moreover have "?f(s := ?f s - 1) = (\<lambda>p. count_list (drop (i + 1) (list_abs l)) p + g p)"
    by (auto simp: d fun_eq_iff)
  moreover have "n = l_count l - (i + 1)" "i + 1 \<le> l_count l" using Suc.hyps(2) i by linarith+
  ultimately have "ok (counted g) (release_from E l (i + 1) h')" using Suc.hyps(1) by simp
  then show ?case
    using i h'(1) slot_abs [OF assms(1) i] by (subst release_from.simps) (simp add: s_def)
qed

lemma list_destroy_ok:
  assumes "list_invar l" "nd E" "counted (\<lambda>p. count_list (list_abs l) p + g p) h"
  shows "ok (counted g) (rtp_member_list_destroy E l h)"
  using release_from_ok [OF assms(1,2), of 0 g h] assms(2,3)
  by (auto simp: rtp_member_list_destroy_def ok_simps)

lemma destroy_ok:
  assumes "session_wf x" "nd E"
  shows "ok (\<lambda>h. \<forall>p. mh_cells h p = None) (rtp_destroy E x)"
proof -
  have wf: "list_invar (x_members x)" "list_invar (x_senders x)"
    "counted (\<lambda>p. count_list (members x) p + (count_list (senders x) p + (if p = x_self x then 1 else 0))) (x_heap x)"
  proof -
    have "refs x = (\<lambda>p. count_list (members x) p + (count_list (senders x) p + (if p = x_self x then 1 else 0)))"
      by (simp add: fun_eq_iff refs_def)
    then show "counted (\<lambda>p. count_list (members x) p + (count_list (senders x) p + (if p = x_self x then 1 else 0))) (x_heap x)"
      using assms(1) by (simp add: session_wf_def)
  qed (use assms(1) in \<open>simp_all add: session_wf_def\<close>)
  have none: "\<forall>p. mh_cells h p = None" if "counted (\<lambda>_. 0) h" for h
    using that by (force simp: counted_def split: option.splits)
  have self: "ok (counted (\<lambda>_. 0)) (rtp_member_release E (x_self x) h)"
    if "counted (\<lambda>p. if p = x_self x then 1 else 0) h" for h
    using release_counted [OF that, of "x_self x" E] assms(2)
    by (auto elim!: okI_mono simp: fun_upd_def cong: if_cong)
  show ?thesis
    using assms(2) wf none
    by (auto simp: rtp_destroy_def destroy_parts_def ok_simps
        intro!: okI_mono [OF list_destroy_ok [OF wf(1) assms(2) wf(3)]] okI_mono [OF list_destroy_ok [OF wf(2)]] okI_mono [OF self])
qed


section \<open>Every call keeps the invariant\<close>

lemma create_ok:
  assumes "\<forall>n. mem E n"
  shows "ok (\<lambda>r. case r of Inl h \<Rightarrow> False | Inr x \<Rightarrow> session_wf x) (rtp_create E ssrc timestamp frequence bandwidth sender)"
proof -
  define m where "m = (fresh_member ssrc)\<lparr>m_rtp_clock := rtpclock E 0, m_rtp_timestamp := timestamp\<rparr>"
  define h where "h = mh_set 0 m (mh_empty\<lparr>mh_next := 1\<rparr>)"
  define l :: rtp_member_list where "l = \<lparr>l_members = replicate N_SOURCE None, l_ptr = [], l_count = 0, l_capacity = 0\<rparr>"
  have l: "list_invar l" "list_abs l = []" by (simp_all add: l_def list_invar_def list_abs_def slots_def)
  have m: "mh_cells h 0 = Some m" "0 < m_ref m" "m_ref m = 1" "member_wf m" by (simp_all add: h_def m_def)
  from sl.add_abs [OF l(1) m(1,2), of E] assms
  obtain r l' where add: "rtp_member_list_add E 0 l h = Some (r, l', mh_set 0 (m\<lparr>m_ref := 2\<rparr>) h)" "list_invar l'"
      "list_abs l' = [0]"
    using l m(3) by (auto elim!: okE)
  define h' where "h' = mh_set 0 (m\<lparr>m_ref := 2\<rparr>) h"
  have cells: "mh_cells h' = (\<lambda>_. None)(0 := Some (m\<lparr>m_ref := 2\<rparr>))" "mh_next h' = 1"
    by (simp_all add: h'_def h_def mh_empty_def)
  have wf: "session_wf x" if "x_members x = l'" "x_senders x = l" "x_self x = 0" "x_heap x = h'" "x_rtcp_cycle x = 0" for x
  proof -
    have "counted (refs x) h'" using that l add(3) cells by (auto simp: counted_def refs_def)
    moreover have "heap_wf h'" using cells m(4) by (auto simp: heap_wf_def)
    ultimately show ?thesis using that l add(2,3) by (simp add: session_wf_def sources_def)
  qed
  have "rtp_member_create E ssrc mh_empty = (Some 0, mh_set 0 (fresh_member ssrc) (mh_empty\<lparr>mh_next := 1\<rparr>))"
    "rtp_member_list_create E = Some l"
    using assms by (simp_all add: rtp_member_create_def rtp_member_list_create_def fresh_member_def l_def mh_empty_def Let_def)
  moreover have "mh_set 0 m (mh_set 0 (fresh_member ssrc) (mh_empty\<lparr>mh_next := 1\<rparr>)) = h"
    by (simp add: h_def mh_set_def)
  ultimately show ?thesis
    using assms add(1) wf by (simp add: rtp_create_def m_def [symmetric] h'_def)
qed

lemma create_failure:
  assumes "nd E" "rtp_create E ssrc timestamp frequence bandwidth sender = Some (Inl h)"
  shows "mh_cells h p = None"
proof -
  have empty: "release_from E l 0 h' = Some h'" if "l_count l = 0" for l h'
    using that by (subst release_from.simps) simp
  show ?thesis
    using assms
    by (auto simp: rtp_create_def rtp_member_create_def rtp_member_list_create_def destroy_parts_def empty
        rtp_member_list_destroy_def rtp_member_release_def mh_empty_def Let_def bind_Some_conv split: if_splits)
qed

lemma set_any_value:
  assumes "session_wf x" "nd E" "1 \<le> item" "item \<le> 8"
  shows "ok (\<lambda>(r, h). session_wf (x\<lparr>x_heap := h\<rparr>)) (rtp_member_setvalue E (x_self x) item data (length data) (x_heap x))"
proof -
  obtain s where s: "cell x (x_self x) = Some s" using member_cell [OF assms(1)] by blast
  show ?thesis
  proof (cases "length data \<le> 255")
    case True
    show ?thesis using assms(3,4) True by (intro okI_mono [OF session_wf_setvalue [OF assms(1) s]]) auto
  next
    case False
    then show ?thesis using assms s by (auto simp: rtp_member_setvalue_def ok_simps)
  qed
qed

lemma set_info_ok:
  assumes "session_wf x" "nd E"
  shows "ok (\<lambda>(r, y). session_wf y) (rtp_set_info E cname name x)"
proof -
  have "ok (\<lambda>(r, h). session_wf (x\<lparr>x_heap := h\<rparr>)) (rtp_member_setvalue E (x_self x) 2 name (length name) h)"
    if "session_wf (x\<lparr>x_heap := h\<rparr>)" for h
    using set_any_value [OF that assms(2), of 2 name] by simp
  then show ?thesis
    using assms
    by (auto simp: rtp_set_info_def ok_simps RTCP_SDES_CNAME_def RTCP_SDES_NAME_def intro!: okI_mono [OF set_any_value])
qed

lemma onsend_ok:
  assumes "session_wf x" "nd E" "bytes \<le> int (length data)"
  shows "ok (\<lambda>(r, y). session_wf y) (rtp_onsend E data bytes x)"
proof -
  obtain r where r: "rtp_packet_deserialize True data bytes = Some r"
    using rtp_packet_deserialize_total [OF assms(3)] by blast
  obtain s where s: "cell x (x_self x) = Some s" using member_cell [OF assms(1)] by blast
  have "session_wf (x\<lparr>x_role := RTP_SENDER\<rparr>)" "cell (x\<lparr>x_role := RTP_SENDER\<rparr>) (x_self x) = Some s"
    using assms(1) s by simp_all
  note touch = session_wf_touch [OF this]
  show ?thesis
    using r s assms(1,2) by (cases r) (simp_all add: rtp_onsend_def clock_now_def touch)
qed

lemma report_ok:
  assumes "session_wf x" "nd E" "780 \<le> length b" "length b < 2 ^ 31"
  shows "ok (\<lambda>(n, b', y). session_wf y \<and> length b' = length b) (rtp_rtcp_report E b (int (length b)) x)"
proof -
  have b: "(0 :: int) \<le> int (length b)" "int (length b) < 2 ^ 31" "0 + nat (int (length b)) \<le> length b" using assms(4) by auto
  have sdes: "ok (\<lambda>(n', b', y). session_wf y \<and> length b' = length b) (rtcp_sdes_pack E c (nat n) (int (length b) - n) y)"
    if "session_wf y" "0 < n" "n \<le> 772" "length c = length b" for y n c
    using that assms(3,4) by (intro okI_mono [OF sdes_pack_ok]) auto
  show ?thesis
    using assms(2,3)
    by (auto simp: rtp_rtcp_report_def ok_simps intro!: okI_mono [OF sr_pack_ok [OF assms(1,2) b]]
        okI_mono [OF rr_pack_ok [OF assms(1,2) b]] okI_mono [OF sdes])
qed


section \<open>Properties\<close>

datatype api_call =
    Api_send "u8 list"
  | Api_rtp "u8 list"
  | Api_rtcp nat "u8 list" int
  | Api_report "u8 list"
  | Api_info "u8 list" "u8 list"

fun api_step :: "env \<Rightarrow> api_call \<Rightarrow> rtp_context \<Rightarrow> rtp_context option" where
  "api_step E (Api_send d) x = map_option snd (rtp_onsend E d (int (length d)) x)"
| "api_step E (Api_rtp d) x = map_option snd (rtp_onreceived E d (int (length d)) x)"
| "api_step E (Api_rtcp addr d bytes) x = map_option snd (rtp_onreceived_rtcp E addr d bytes x)"
| "api_step E (Api_report b) x = map_option (snd \<circ> snd) (rtp_rtcp_report E b (int (length b)) x)"
| "api_step E (Api_info c n) x = map_option snd (rtp_set_info E c n x)"

fun api_run :: "env \<Rightarrow> api_call list \<Rightarrow> rtp_context \<Rightarrow> rtp_context option" where
  "api_run E [] x = Some x"
| "api_run E (c # cs) x = do { x \<leftarrow> api_step E c x; api_run E cs x }"

fun api_safe :: "api_call \<Rightarrow> bool" where
  "api_safe (Api_rtcp addr d bytes) \<longleftrightarrow> bytes + 4 \<le> int (length d) \<and> rtcp_clean d bytes"
| "api_safe (Api_report b) \<longleftrightarrow> 780 \<le> length b \<and> length b < 2 ^ 31"
| "api_safe c \<longleftrightarrow> True"

lemma ok_map_option: "ok Q (map_option f m) = ok (\<lambda>x. Q (f x)) m"
  by (cases m) simp_all

lemma api_step_ok:
  assumes "session_wf x" "\<forall>n. mem E n" "nd E" "api_safe c"
  shows "ok session_wf (api_step E c x)"
proof (cases c)
  case (Api_send d)
  then show ?thesis using onsend_ok [OF assms(1,3), of "int (length d)" d] by (auto simp: ok_map_option elim!: okI_mono)
next
  case (Api_rtp d)
  then show ?thesis using input_rtp_ok [OF assms(1-3), of "int (length d)" d]
    by (auto simp: ok_map_option rtp_onreceived_def elim!: okI_mono)
next
  case (Api_rtcp addr d bytes)
  then show ?thesis using input_rtcp_ok [OF assms(1-3), of bytes d addr] assms(4)
    by (auto simp: ok_map_option rtp_onreceived_rtcp_def elim!: okI_mono)
next
  case (Api_report b)
  then show ?thesis using report_ok [OF assms(1,3), of b] assms(4) by (auto simp: ok_map_option elim!: okI_mono)
next
  case (Api_info cn n)
  then show ?thesis using set_info_ok [OF assms(1,3), of cn n] by (auto simp: ok_map_option elim!: okI_mono)
qed

lemma api_run_ok:
  "\<lbrakk>session_wf x; \<forall>n. mem E n; nd E; list_all api_safe cs\<rbrakk> \<Longrightarrow> ok session_wf (api_run E cs x)"
proof (induction cs arbitrary: x)
  case (Cons c cs)
  then show ?case by (auto simp: ok_simps intro!: okI_mono [OF api_step_ok])
qed simp





end
