(* ===== verification/Rtp_Demuxer.thy ===== *)
theory Rtp_Demuxer
  imports Rtp_Payload Rtp_Queue_Owner Rtp_Api
begin

text \<open>
  \<open>lib/librtp/source/rtp-demuxer.c\<close>: a datagram is copied into a block of memory together with the parsed
  packet, passes the reordering queue, is counted by the session and goes to the payload decoder.

  Blocks are explicit: a block is \<open>cap\<close>, \<open>bytes\<close>, the parsed packet and the datagram, one behind the other. The
  packet in the queue names its block, and a block that is freed twice, or used after it was freed,
  makes the result \<open>None\<close>. One block is kept in \<open>ptr\<close> for the next datagram. The memory behind the
  packet is modelled as the bytes of the datagram, so that a read behind them is \<open>None\<close> too.
\<close>

section \<open>State\<close>

record demux_packet = rtp_packet_t +
  dp_block :: nat

record dblock =
  b_cap :: int
  b_bytes :: int
  b_data :: "u8 list"

record dheap =
  dh_next :: nat
  dh_cells :: "nat \<Rightarrow> dblock option"

type_synonym demux_queue = "unit demux_packet_ext rtp_queue_t"

record ('d, 's) rtp_demuxer_t =
  d_ssrc :: u32
  d_clock :: u64
  d_ptr :: "nat option"
  d_cap :: int
  d_max :: int
  d_queue :: demux_queue
  d_payload :: "('d, 's) rtp_payload_delegate_t"
  d_rtp :: rtp_context
  d_param :: 's
  d_heap :: dheap

definition sizeof_rtp_packet_t :: int where "sizeof_rtp_packet_t = 112"
definition sizeof_rtp_demuxer_t :: nat where "sizeof_rtp_demuxer_t = 72"
definition sizeof_int :: int where "sizeof_int = 4"

definition dh_free :: "nat \<Rightarrow> dheap \<Rightarrow> dheap option" where
  "dh_free b h = (case dh_cells h b of None \<Rightarrow> None | Some c \<Rightarrow> Some (h\<lparr>dh_cells := (dh_cells h)(b := None)\<rparr>))"

definition dh_new :: "dblock \<Rightarrow> dheap \<Rightarrow> nat \<times> dheap" where
  "dh_new c h = (dh_next h, h\<lparr>dh_next := dh_next h + 1, dh_cells := (dh_cells h)(dh_next h \<mapsto> c)\<rparr>)"

definition dh_realloc :: "nat option \<Rightarrow> int \<Rightarrow> dheap \<Rightarrow> (nat \<times> dheap) option" where
  "dh_realloc p r h = do {
     h \<leftarrow> (case p of None \<Rightarrow> Some h | Some b \<Rightarrow> dh_free b h);
     Some (dh_new \<lparr>b_cap = r, b_bytes = 0, b_data = []\<rparr> h) }"

section \<open>Blocks\<close>

definition rtp_demuxer_reserve :: "env \<Rightarrow> int \<Rightarrow> ('d, 's) rtp_demuxer_t \<Rightarrow> ('d, 's) rtp_demuxer_t option option" where
  "rtp_demuxer_reserve E bytes d =
     (let need = bytes + sizeof_rtp_packet_t + sizeof_int in
      if d_cap d < need then
        let r = (if need > 1500 then need else 1500) in
        if \<not> mem E (nat (r + sizeof_int)) then Some None
        else do {
          (b, h) \<leftarrow> dh_realloc (d_ptr d) r (d_heap d);
          Some (Some (d\<lparr>d_cap := r, d_ptr := Some b, d_heap := h\<rparr>)) }
      else Some (Some d))"

definition rtp_demuxer_alloc ::
  "env \<Rightarrow> u8 list \<Rightarrow> int \<Rightarrow> ('d, 's) rtp_demuxer_t \<Rightarrow> (demux_packet option \<times> ('d, 's) rtp_demuxer_t) option" where
  "rtp_demuxer_alloc E data bytes d = do {
     d' \<leftarrow> rtp_demuxer_reserve E bytes d;
     case d' of
       None \<Rightarrow> Some (None, d)
     | Some d \<Rightarrow> do {
         b \<leftarrow> d_ptr d;
         c \<leftarrow> dh_cells (d_heap d) b;
         src \<leftarrow> c_slice data 0 (nat bytes);
         (if 2 * sizeof_int + sizeof_rtp_packet_t + bytes \<le> b_cap c + sizeof_int then Some () else None);
         let d = d\<lparr>d_heap := (d_heap d)\<lparr>dh_cells := (dh_cells (d_heap d))(b \<mapsto> c\<lparr>b_bytes := bytes, b_data := src\<rparr>)\<rparr>\<rparr>;
         r \<leftarrow> rtp_packet_deserialize (nd E) src bytes;
         case r of
           Inl e \<Rightarrow> Some (None, d)
         | Inr pkt \<Rightarrow> Some (Some (rtp_packet_t.extend pkt (demux_packet.fields b)), d\<lparr>d_cap := 0, d_ptr := None\<rparr>) } }"

definition rtp_demuxer_freepkt :: "demux_packet \<Rightarrow> ('d, 's) rtp_demuxer_t \<Rightarrow> ('d, 's) rtp_demuxer_t option" where
  "rtp_demuxer_freepkt pkt d = do {
     let b = dp_block pkt;
     c \<leftarrow> dh_cells (d_heap d) b;
     if b_cap c \<le> d_cap d then do { h \<leftarrow> dh_free b (d_heap d); Some (d\<lparr>d_heap := h\<rparr>) }
     else do {
       h \<leftarrow> (case d_ptr d of Some p \<Rightarrow> if d_cap d > 0 then dh_free p (d_heap d) else Some (d_heap d)
            | None \<Rightarrow> Some (d_heap d));
       Some (d\<lparr>d_heap := h, d_cap := b_cap c, d_ptr := Some b\<rparr>) } }"

fun free_packets :: "demux_packet list \<Rightarrow> ('d, 's) rtp_demuxer_t \<Rightarrow> ('d, 's) rtp_demuxer_t option" where
  "free_packets [] d = Some d"
| "free_packets (p # ps) d = do { d \<leftarrow> rtp_demuxer_freepkt p d; free_packets ps d }"

section \<open>Creation and destruction\<close>

text \<open>The callback of the payload decoder; \<open>onpkt\<close> may be null.\<close>

definition rtp_onpacket :: "('s \<Rightarrow> u8 list \<Rightarrow> u32 \<Rightarrow> int \<Rightarrow> int \<times> 's) option \<Rightarrow> 's \<Rightarrow> u8 list \<Rightarrow> u32 \<Rightarrow> int \<Rightarrow> int \<times> 's" where
  "rtp_onpacket onpkt s packet timestamp flags =
     (case onpkt of Some f \<Rightarrow> f s packet timestamp flags | None \<Rightarrow> (-1, s))"

text \<open>\<open>decoders\<close> are the tables of the payload formats, for the callback \<open>handler\<close>. The session is created with the
  source identifier 0, which \<open>calloc\<close> left in \<open>rtp->ssrc\<close>. \<open>timestamp\<close> is a reading of the clock.\<close>

definition rtp_demuxer_init ::
  "env \<Rightarrow> (payload_format \<Rightarrow> ('d, 's) rtp_payload_decode_t) \<Rightarrow> int \<Rightarrow> int \<Rightarrow> int \<Rightarrow> string option \<Rightarrow> u32 \<Rightarrow> u64
    \<Rightarrow> (int \<times> ('d, 's) rtp_payload_delegate_t option \<times> (mheap + rtp_context) \<times> demux_queue option) option" where
  "rtp_demuxer_init E decoders jitter frequency payload encoding ssrc clock = do {
     p \<leftarrow> rtp_payload_decode_create E decoders payload encoding;
     x \<leftarrow> rtp_create E ssrc (ucast clock) (if frequency \<noteq> 0 then frequency else 90000) (2 * 1024 * 1024) False;
     q \<leftarrow> rtp_queue_create (mem E) jitter frequency;
     Some (if p \<noteq> None \<and> \<not> isl x \<and> q \<noteq> None then 0 else -1, p, x, q) }"

text \<open>\<open>rtp_demuxer_destroy\<close>: the participants and the blocks that are left. The queue hands its packets to
  \<open>rtp_demuxer_freepkt\<close> before the kept block is freed.\<close>

definition rtp_demuxer_destroy :: "env \<Rightarrow> ('d, 's) rtp_demuxer_t \<Rightarrow> (int \<times> mheap \<times> dheap) option" where
  "rtp_demuxer_destroy E d = do {
     m \<leftarrow> rtp_destroy E (d_rtp d);
     (r, fr) \<leftarrow> rtp_queue_destroy (nd E) (d_queue d);
     d \<leftarrow> free_packets fr d;
     h \<leftarrow> (case d_ptr d of None \<Rightarrow> Some (d_heap d) | Some b \<Rightarrow> dh_free b (d_heap d));
     Some (0, m, h) }"

text \<open>The parts of a demuxer that could not be completed; no packet and no block exists yet.\<close>

definition destroy_incomplete :: "env \<Rightarrow> mheap + rtp_context \<Rightarrow> demux_queue option \<Rightarrow> mheap option" where
  "destroy_incomplete E x q = do {
     m \<leftarrow> (case x of Inl m \<Rightarrow> Some m | Inr x \<Rightarrow> rtp_destroy E x);
     (case q of None \<Rightarrow> Some m | Some q \<Rightarrow> do { (r, fr) \<leftarrow> rtp_queue_destroy (nd E) q; Some m }) }"

text \<open>\<open>Inl\<close> is the null result with the participants that are left. \<open>clock\<close> and \<open>clock'\<close> are two readings of the
  clock and \<open>ssrc\<close> is the result of \<open>rtp_ssrc\<close>.\<close>

definition rtp_demuxer_create ::
  "env \<Rightarrow> (payload_format \<Rightarrow> ('d, 's) rtp_payload_decode_t) \<Rightarrow> int \<Rightarrow> int \<Rightarrow> int \<Rightarrow> string option \<Rightarrow> 's
    \<Rightarrow> u64 \<Rightarrow> u64 \<Rightarrow> u32 \<Rightarrow> (mheap + ('d, 's) rtp_demuxer_t) option" where
  "rtp_demuxer_create E decoders jitter frequency payload encoding param clock clock' ssrc =
     (if \<not> mem E sizeof_rtp_demuxer_t then Some (Inl mh_empty)
      else do {
        (r, p, x, q) \<leftarrow> rtp_demuxer_init E decoders jitter frequency payload encoding 0 clock;
        case (p, x, q) of
          (Some p, Inr x, Some q) \<Rightarrow>
            Some (Inr \<lparr>d_ssrc = ssrc, d_clock = clock', d_ptr = None, d_cap = 0, d_max = int RTP_PAYLOAD_MAX_SIZE,
              d_queue = q, d_payload = p, d_rtp = x, d_param = param,
              d_heap = \<lparr>dh_next = 0, dh_cells = (\<lambda>_. None)\<rparr>\<rparr>)
        | _ \<Rightarrow> do { m \<leftarrow> destroy_incomplete E x q; Some (Inl m) } })"

section \<open>Datagrams\<close>

lemma freepkt_queue: "rtp_demuxer_freepkt pkt d = Some d' \<Longrightarrow> d_queue d' = d_queue d"
  by (auto simp: rtp_demuxer_freepkt_def Let_def bind_Some_conv split: if_splits option.splits)

lemma read_shrinks: "rtp_queue_read ndebug q = Some (Some p, q') \<Longrightarrow> q_size q' < q_size q"
  by (auto simp: rtp_queue_read_def rtp_queue_pop_def bind_Some_conv split: if_splits)

function demuxer_drain :: "env \<Rightarrow> ('d, 's) rtp_demuxer_t \<Rightarrow> (int \<times> ('d, 's) rtp_demuxer_t) option" where
  "demuxer_drain E d = do {
     (out, q) \<leftarrow> rtp_queue_read (nd E) (d_queue d);
     let d = d\<lparr>d_queue := q\<rparr>;
     case out of
       None \<Rightarrow> Some (0, d)
     | Some pkt \<Rightarrow> do {
         c \<leftarrow> dh_cells (d_heap d) (dp_block pkt);
         (r, x) \<leftarrow> rtp_onreceived E (b_data c) (b_bytes c) (d_rtp d);
         (r, p, s) \<leftarrow> rtp_payload_decode_input E (d_payload d) (d_param d) (b_data c) (b_bytes c);
         let d = d\<lparr>d_rtp := x, d_payload := p, d_param := s\<rparr>;
         d' \<leftarrow> rtp_demuxer_freepkt pkt d;
         if r < 0 then Some (r, d') else demuxer_drain E d' } }"
  by pat_completeness auto
termination
  by (relation "measure (\<lambda>(E, d). q_size (d_queue d))") (auto dest!: freepkt_queue read_shrinks)

declare demuxer_drain.simps [simp del]

definition RTCP_FIR :: u8 where "RTCP_FIR = 192"
definition RTCP_LIMIT :: u8 where "RTCP_LIMIT = 223"

definition rtp_demuxer_input ::
  "env \<Rightarrow> nat \<Rightarrow> u8 list \<Rightarrow> int \<Rightarrow> ('d, 's) rtp_demuxer_t \<Rightarrow> (int \<times> ('d, 's) rtp_demuxer_t) option" where
  "rtp_demuxer_input E addr data bytes d =
     (if bytes < 12 \<or> bytes > d_max d then Some (- EINVAL, d)
      else do {
        pt \<leftarrow> rd data 1;
        if pt < RTCP_FIR \<or> pt > RTCP_LIMIT then do {
          (pkt, d) \<leftarrow> rtp_demuxer_alloc E data bytes d;
          case pkt of
            None \<Rightarrow> Some (- ENOMEM, d)
          | Some pkt \<Rightarrow> do {
              (r, q, fr) \<leftarrow> rtp_queue_write (nd E) (mem E) (d_queue d) pkt;
              d \<leftarrow> free_packets fr (d\<lparr>d_queue := q\<rparr>);
              if r \<le> 0 then do { d \<leftarrow> rtp_demuxer_freepkt pkt d; Some (r, d) }
              else demuxer_drain E d } }
        else do {
          (r, x) \<leftarrow> rtp_onreceived_rtcp E addr data bytes (d_rtp d);
          Some (uint pt, d\<lparr>d_rtp := x\<rparr>) } })"

definition rtp_demuxer_rtcp ::
  "env \<Rightarrow> rat \<Rightarrow> u8 list \<Rightarrow> int \<Rightarrow> ('d, 's) rtp_demuxer_t \<Rightarrow> (int \<times> u8 list \<times> ('d, 's) rtp_demuxer_t) option" where
  "rtp_demuxer_rtcp E rand buf len d = do {
     let (clock, x) = clock_now E (d_rtp d);
     (interval, x) \<leftarrow> rtp_rtcp_interval E rand x;
     if d_clock d + of_int interval * 1000 < clock then do {
       (r, buf, x) \<leftarrow> rtp_rtcp_report E buf len x;
       Some (r, buf, d\<lparr>d_rtp := x, d_clock := clock\<rparr>) }
     else Some (0, buf, d\<lparr>d_rtp := x\<rparr>) }"

section \<open>Every block has one owner\<close>

text \<open>\<open>owned L Q d\<close>: every allocated block belongs to exactly one packet of \<open>Q\<close>, is the kept block, or is one of
  the blocks \<open>L\<close> that nobody can reach any more.\<close>

definition kept_block :: "('d, 's) rtp_demuxer_t \<Rightarrow> nat multiset" where
  "kept_block d = (case d_ptr d of None \<Rightarrow> {#} | Some b \<Rightarrow> {#b#})"

definition filled :: "dheap \<Rightarrow> demux_packet \<Rightarrow> bool" where
  "filled h p \<longleftrightarrow> (case dh_cells h (dp_block p) of None \<Rightarrow> False
     | Some c \<Rightarrow> 0 < b_cap c \<and> b_bytes c = int (length (b_data c)))"

definition exact_blocks :: "nat multiset \<Rightarrow> dheap \<Rightarrow> bool" where
  "exact_blocks M h \<longleftrightarrow> (\<forall>b. count M b = (if dh_cells h b = None then 0 else 1))"

definition owned :: "nat multiset \<Rightarrow> demux_packet multiset \<Rightarrow> ('d, 's) rtp_demuxer_t \<Rightarrow> bool" where
  "owned L Q d \<longleftrightarrow>
     exact_blocks (image_mset dp_block Q + kept_block d + L) (d_heap d)
   \<and> (\<forall>p \<in># Q. filled (d_heap d) p)
   \<and> (case d_ptr d of None \<Rightarrow> d_cap d = 0
       | Some b \<Rightarrow> 0 < d_cap d \<and> map_option b_cap (dh_cells (d_heap d) b) = Some (d_cap d))
   \<and> (\<forall>b \<ge> dh_next (d_heap d). dh_cells (d_heap d) b = None)"

definition same_demux :: "('d, 's) rtp_demuxer_t \<Rightarrow> ('d, 's) rtp_demuxer_t \<Rightarrow> bool" where
  "same_demux d d' \<longleftrightarrow> d' = d\<lparr>d_heap := d_heap d', d_cap := d_cap d', d_ptr := d_ptr d'\<rparr>"

definition keeps_blocks :: "demux_packet multiset \<Rightarrow> ('d, 's) rtp_demuxer_t \<Rightarrow> ('d, 's) rtp_demuxer_t \<Rightarrow> bool" where
  "keeps_blocks Q d d' \<longleftrightarrow> (\<forall>p \<in># Q. dh_cells (d_heap d') (dp_block p) = dh_cells (d_heap d) (dp_block p))"

lemma same_demux_fields:
  assumes "same_demux d d'"
  shows "d_queue d' = d_queue d" "d_payload d' = d_payload d" "d_rtp d' = d_rtp d" "d_param d' = d_param d"
    "d_max d' = d_max d" "d_clock d' = d_clock d" "d_ssrc d' = d_ssrc d"
  by (subst assms [unfolded same_demux_def], simp)+

lemma same_demux_refl [simp]: "same_demux d d"
  by (simp add: same_demux_def)

lemma same_demux_trans: "same_demux d d' \<Longrightarrow> same_demux d' d'' \<Longrightarrow> same_demux d d''"
  by (cases d; cases d'; cases d'') (simp add: same_demux_def)

lemma owned_update [simp]:
  "owned L Q (d\<lparr>d_queue := q\<rparr>) = owned L Q d" "owned L Q (d\<lparr>d_rtp := x\<rparr>) = owned L Q d"
  "owned L Q (d\<lparr>d_payload := y\<rparr>) = owned L Q d" "owned L Q (d\<lparr>d_param := s\<rparr>) = owned L Q d"
  "owned L Q (d\<lparr>d_clock := c\<rparr>) = owned L Q d"
  by (simp_all add: owned_def kept_block_def cong: option.case_cong)

lemma owned_count:
  "owned L Q d \<Longrightarrow> count (image_mset dp_block Q) b + count (kept_block d) b + count L b
     = (if dh_cells (d_heap d) b = None then 0 else 1)"
  by (simp add: owned_def exact_blocks_def)

lemma owned_distinct:
  assumes "owned L (add_mset p Q) d"
  shows "dp_block p \<notin># image_mset dp_block Q" "dp_block p \<notin># kept_block d" "dp_block p \<notin># L"
    "\<exists>c. dh_cells (d_heap d) (dp_block p) = Some c \<and> 0 < b_cap c \<and> b_bytes c = int (length (b_data c))"
proof -
  have "filled (d_heap d) p"
    using assms by (simp add: owned_def)
  then show c: "\<exists>c. dh_cells (d_heap d) (dp_block p) = Some c \<and> 0 < b_cap c \<and> b_bytes c = int (length (b_data c))"
    by (auto simp: filled_def split: option.splits)
  have "count (image_mset dp_block Q) (dp_block p) = 0" "count (kept_block d) (dp_block p) = 0" "count L (dp_block p) = 0"
    using owned_count [OF assms, of "dp_block p"] c by auto
  then show "dp_block p \<notin># image_mset dp_block Q" "dp_block p \<notin># kept_block d" "dp_block p \<notin># L"
    by (simp_all only: not_in_iff)
qed

lemma filled_cong: "dh_cells h' (dp_block p) = dh_cells h (dp_block p) \<Longrightarrow> filled h' p = filled h p"
  by (simp add: filled_def)

text \<open>Freeing one block of the heap.\<close>

lemma owned_free:
  assumes "owned L (add_mset p Q) d"
  shows "owned L Q (d\<lparr>d_heap := (d_heap d)\<lparr>dh_cells := (dh_cells (d_heap d))(dp_block p := None)\<rparr>\<rparr>)"
    and "\<forall>p' \<in># Q. dp_block p' \<noteq> dp_block p"
proof -
  note o = owned_distinct [OF assms]
  show Q: "\<forall>p' \<in># Q. dp_block p' \<noteq> dp_block p"
    using o(1) by (metis imageI set_image_mset)
  let ?h = "(d_heap d)\<lparr>dh_cells := (dh_cells (d_heap d))(dp_block p := None)\<rparr>"
  have "count (image_mset dp_block Q) b + count (kept_block d) b + count L b = (if dh_cells ?h b = None then 0 else 1)" for b
    using owned_count [OF assms, of b] o by (cases "b = dp_block p") (auto simp: count_eq_zero_iff split: if_splits)
  then have "exact_blocks (image_mset dp_block Q + kept_block d + L) ?h"
    by (simp only: exact_blocks_def count_union simp_thms)
  then show "owned L Q (d\<lparr>d_heap := ?h\<rparr>)"
    using assms Q o(2) by (auto simp: owned_def kept_block_def filled_def split: option.splits)
qed

lemma exact_blocks_plus:
  assumes "\<And>b. count A b + (if b = x then 1 else 0) + count B b = (if dh_cells h b = None then 0 else 1)"
  shows "exact_blocks (A + {#x#} + B) h"
  unfolding exact_blocks_def
proof
  fix b
  show "count (A + {#x#} + B) b = (if dh_cells h b = None then 0 else 1)"
    using assms [of b] by (auto split: if_splits)
qed

lemma freepkt_ok:
  assumes "owned L (add_mset p Q) d"
  shows "ok (\<lambda>d'. owned L Q d' \<and> same_demux d d' \<and> keeps_blocks Q d d') (rtp_demuxer_freepkt p d)"
proof -
  note o = owned_distinct [OF assms]
  obtain c where c: "dh_cells (d_heap d) (dp_block p) = Some c" "0 < b_cap c" "b_bytes c = int (length (b_data c))"
    using o(4) by blast
  show ?thesis
  proof (cases "b_cap c \<le> d_cap d")
    case True
    with c owned_free [OF assms] show ?thesis
      by (auto simp: rtp_demuxer_freepkt_def dh_free_def same_demux_def keeps_blocks_def)
  next
    case False
    show ?thesis
    proof (cases "d_ptr d")
      case None
      have "count (image_mset dp_block Q) a + (if a = dp_block p then 1 else 0) + count L a
        = (if dh_cells (d_heap d) a = None then 0 else 1)" for a
        using owned_count [OF assms, of a] None by (auto simp: kept_block_def split: if_splits)
      then have "exact_blocks (image_mset dp_block Q + {#dp_block p#} + L) (d_heap d)"
        by (rule exact_blocks_plus)
      then have "owned L Q (d\<lparr>d_cap := b_cap c, d_ptr := Some (dp_block p)\<rparr>)"
        using assms c by (auto simp: owned_def kept_block_def)
      with False None c show ?thesis
        by (auto simp: rtp_demuxer_freepkt_def same_demux_def keeps_blocks_def)
    next
      case (Some b)
      then have b: "b \<noteq> dp_block p" "0 < d_cap d" and cb: "dh_cells (d_heap d) b \<noteq> None"
        using o(2) assms by (auto simp: owned_def kept_block_def)
      let ?h = "(d_heap d)\<lparr>dh_cells := (dh_cells (d_heap d))(b := None)\<rparr>"
      have nb: "count (image_mset dp_block Q) b = 0" "count L b = 0"
        using owned_count [OF assms, of b] cb Some by (auto simp: kept_block_def split: if_splits)
      have Q: "\<forall>p' \<in># Q. dp_block p' \<noteq> b"
        using nb(1) by (auto simp: count_eq_zero_iff)
      have "count (image_mset dp_block Q) a + (if a = dp_block p then 1 else 0) + count L a
        = (if dh_cells ?h a = None then 0 else 1)" for a
        using owned_count [OF assms, of a] nb b Some by (auto simp: kept_block_def split: if_splits)
      then have "exact_blocks (image_mset dp_block Q + {#dp_block p#} + L) ?h"
        by (rule exact_blocks_plus)
      then have "owned L Q (d\<lparr>d_heap := ?h, d_cap := b_cap c, d_ptr := Some (dp_block p)\<rparr>)"
        using assms b(1) c Q by (auto simp: owned_def kept_block_def filled_def)
      with False Some b cb c Q show ?thesis
        by (auto simp: rtp_demuxer_freepkt_def dh_free_def same_demux_def keeps_blocks_def)
    qed
  qed
qed

lemma free_packets_ok:
  "owned L (mset ps + Q) d \<Longrightarrow>
   ok (\<lambda>d'. owned L Q d' \<and> same_demux d d' \<and> keeps_blocks Q d d') (free_packets ps d)"
proof (induction ps arbitrary: d)
  case Nil
  then show ?case by (simp add: keeps_blocks_def)
next
  case (Cons p ps)
  then have "owned L (add_mset p (mset ps + Q)) d" by simp
  then show ?case
    by (auto simp: ok_simps keeps_blocks_def intro: same_demux_trans
        intro!: okI_mono [OF freepkt_ok] okI_mono [OF Cons.IH])
qed

lemma count_block_zero: "count (image_mset dp_block Q) b = 0 \<Longrightarrow> \<forall>p \<in># Q. dp_block p \<noteq> b"
  by (metis count_eq_zero_iff imageI set_image_mset)

text \<open>Storing into the kept block, and making a packet of it.\<close>

lemma owned_store:
  assumes "owned L Q d" "d_ptr d = Some b" "dh_cells (d_heap d) b = Some c" "b_cap c' = b_cap c"
  defines "d' \<equiv> d\<lparr>d_heap := (d_heap d)\<lparr>dh_cells := (dh_cells (d_heap d))(b \<mapsto> c')\<rparr>\<rparr>"
  shows "owned L Q d'" "keeps_blocks Q d d'"
    "b_bytes c' = int (length (b_data c')) \<Longrightarrow> dp_block p = b \<Longrightarrow> owned L (add_mset p Q) (d'\<lparr>d_cap := 0, d_ptr := None\<rparr>)"
proof -
  have "count (image_mset dp_block Q) b = 0"
    using owned_count [OF assms(1), of b] assms(2,3) by (simp add: kept_block_def)
  then have Q: "\<forall>p \<in># Q. dp_block p \<noteq> b"
    by (rule count_block_zero)
  then show k: "keeps_blocks Q d d'"
    by (simp add: keeps_blocks_def d'_def)
  have cells: "(dh_cells (d_heap d') a = None) = (dh_cells (d_heap d) a = None)" for a
    using assms(3) by (simp add: d'_def)
  have ex: "exact_blocks (image_mset dp_block Q + {#b#} + L) (d_heap d')"
    using assms(1,2) cells by (simp add: owned_def exact_blocks_def kept_block_def)
  have fill: "\<forall>p \<in># Q. filled (d_heap d') p"
    using assms(1) k by (auto simp: owned_def keeps_blocks_def intro: filled_cong [THEN iffD2])
  have fresh: "\<forall>a \<ge> dh_next (d_heap d'). dh_cells (d_heap d') a = None"
    using assms(1,3) by (auto simp: owned_def d'_def)
  show "owned L Q d'"
    using ex fill fresh assms by (auto simp: owned_def kept_block_def d'_def)
  show "owned L (add_mset p Q) (d'\<lparr>d_cap := 0, d_ptr := None\<rparr>)" if "b_bytes c' = int (length (b_data c'))" "dp_block p = b"
    using ex fill fresh that assms by (auto simp: owned_def kept_block_def d'_def filled_def)
qed

lemma owned_new:
  assumes "owned L Q d" "d_ptr d = None" "0 < b_cap c"
  shows "owned L Q (d\<lparr>d_cap := b_cap c, d_ptr := Some (dh_next (d_heap d)), d_heap := snd (dh_new c (d_heap d))\<rparr>)"
    and "\<forall>p \<in># Q. dp_block p \<noteq> dh_next (d_heap d)"
proof -
  let ?n = "dh_next (d_heap d)" and ?h = "snd (dh_new c (d_heap d))"
  have n: "dh_cells (d_heap d) ?n = None"
    using assms(1) by (simp add: owned_def)
  then have z: "count (image_mset dp_block Q) ?n = 0" "count L ?n = 0"
    using owned_count [OF assms(1), of ?n] by simp_all
  show Q: "\<forall>p \<in># Q. dp_block p \<noteq> ?n"
    using z(1) by (rule count_block_zero)
  have "count (image_mset dp_block Q) a + (if a = ?n then 1 else 0) + count L a = (if dh_cells ?h a = None then 0 else 1)" for a
    using owned_count [OF assms(1), of a] assms(2) z by (auto simp: dh_new_def kept_block_def)
  then have "exact_blocks (image_mset dp_block Q + {#?n#} + L) ?h"
    by (rule exact_blocks_plus)
  then show "owned L Q (d\<lparr>d_cap := b_cap c, d_ptr := Some ?n, d_heap := ?h\<rparr>)"
    using assms Q by (auto simp: owned_def kept_block_def dh_new_def filled_def)
qed

text \<open>Freeing the kept block.\<close>

lemma owned_free_kept:
  assumes "owned L Q d" "d_ptr d = Some b"
  shows "\<exists>h. dh_free b (d_heap d) = Some h \<and> owned L Q (d\<lparr>d_cap := 0, d_ptr := None, d_heap := h\<rparr>)
    \<and> (\<forall>p \<in># Q. dh_cells h (dp_block p) = dh_cells (d_heap d) (dp_block p))"
proof -
  obtain c where c: "dh_cells (d_heap d) b = Some c" "0 < d_cap d"
    using assms by (auto simp: owned_def)
  have z: "count (image_mset dp_block Q) b = 0" "count L b = 0"
    using owned_count [OF assms(1), of b] assms(2) c by (simp_all add: kept_block_def)
  let ?h = "(d_heap d)\<lparr>dh_cells := (dh_cells (d_heap d))(b := None)\<rparr>"
  have Q: "\<forall>p \<in># Q. dp_block p \<noteq> b"
    using z(1) by (rule count_block_zero)
  have "count (image_mset dp_block Q) a + count L a = (if dh_cells ?h a = None then 0 else 1)" for a
    using owned_count [OF assms(1), of a] assms(2) z by (auto simp: kept_block_def)
  then have "exact_blocks (image_mset dp_block Q + L) ?h"
    unfolding exact_blocks_def count_union by blast
  then have "owned L Q (d\<lparr>d_cap := 0, d_ptr := None, d_heap := ?h\<rparr>)"
    using assms Q by (auto simp: owned_def kept_block_def filled_def)
  with c Q show ?thesis
    by (auto simp: dh_free_def)
qed

lemma reserve_ok:
  assumes "owned L Q d" "0 \<le> bytes"
  shows "ok (\<lambda>r. case r of None \<Rightarrow> \<not> (\<forall>n. mem E n) | Some d' \<Rightarrow> owned L Q d' \<and> same_demux d d' \<and> keeps_blocks Q d d' \<and>
      (\<exists>b c. d_ptr d' = Some b \<and> dh_cells (d_heap d') b = Some c
        \<and> 2 * sizeof_int + sizeof_rtp_packet_t + bytes \<le> b_cap c + sizeof_int))
    (rtp_demuxer_reserve E bytes d)"
proof (cases "d_cap d < bytes + sizeof_rtp_packet_t + sizeof_int")
  case False
  then have "0 < d_cap d"
    using assms(2) by (simp add: sizeof_rtp_packet_t_def sizeof_int_def)
  then obtain b c where "d_ptr d = Some b" "dh_cells (d_heap d) b = Some c" "b_cap c = d_cap d"
    using assms(1) by (auto simp: owned_def split: option.splits)
  with False assms(1) show ?thesis
    by (auto simp: rtp_demuxer_reserve_def Let_def sizeof_int_def keeps_blocks_def)
next
  case True
  let ?need = "bytes + sizeof_rtp_packet_t + sizeof_int"
  define r where "r = (if ?need > 1500 then ?need else 1500)"
  have r: "0 < r" "?need \<le> r"
    by (simp_all add: r_def)
  let ?c = "\<lparr>b_cap = r, b_bytes = 0, b_data = []\<rparr>"
  have free: "\<exists>h. (case d_ptr d of None \<Rightarrow> Some (d_heap d) | Some b \<Rightarrow> dh_free b (d_heap d)) = Some h
      \<and> owned L Q (d\<lparr>d_cap := 0, d_ptr := None, d_heap := h\<rparr>)
      \<and> (\<forall>p \<in># Q. dh_cells h (dp_block p) = dh_cells (d_heap d) (dp_block p))"
  proof (cases "d_ptr d")
    case None
    then have "d\<lparr>d_cap := 0, d_ptr := None, d_heap := d_heap d\<rparr> = d"
      using assms(1) by (cases d) (simp add: owned_def)
    with None assms(1) show ?thesis by simp
  next
    case (Some b)
    with owned_free_kept [OF assms(1)] show ?thesis by simp
  qed
  then obtain h where h: "(case d_ptr d of None \<Rightarrow> Some (d_heap d) | Some b \<Rightarrow> dh_free b (d_heap d)) = Some h"
      "owned L Q (d\<lparr>d_cap := 0, d_ptr := None, d_heap := h\<rparr>)"
      "\<forall>p \<in># Q. dh_cells h (dp_block p) = dh_cells (d_heap d) (dp_block p)"
    by blast
  have new: "owned L Q (d\<lparr>d_cap := r, d_ptr := Some (dh_next h), d_heap := snd (dh_new ?c h)\<rparr>)"
      "\<forall>p \<in># Q. dp_block p \<noteq> dh_next h"
    using owned_new [OF h(2), of ?c] r(1) by simp_all
  have "rtp_demuxer_reserve E bytes d = (if \<not> mem E (nat (r + sizeof_int)) then Some None
      else do { (b, h) \<leftarrow> dh_realloc (d_ptr d) r (d_heap d); Some (Some (d\<lparr>d_cap := r, d_ptr := Some b, d_heap := h\<rparr>)) })"
    using True by (simp add: rtp_demuxer_reserve_def Let_def r_def)
  then show ?thesis
    using h(1,3) new r(2)
    by (auto simp: dh_realloc_def same_demux_def keeps_blocks_def dh_new_def
        sizeof_int_def split: option.splits)
qed

lemma extend_packet [simp]:
  "dp_block (rtp_packet_t.extend pkt (demux_packet.fields b)) = b"
  "pk_rtp (rtp_packet_t.extend pkt (demux_packet.fields b)) = pk_rtp pkt"
  by (simp_all add: rtp_packet_t.extend_def demux_packet.fields_def)

definition block_holds :: "('d, 's) rtp_demuxer_t \<Rightarrow> demux_packet \<Rightarrow> u8 list \<Rightarrow> bool" where
  "block_holds d p data \<longleftrightarrow> (case dh_cells (d_heap d) (dp_block p) of None \<Rightarrow> False
     | Some c \<Rightarrow> b_data c = data \<and> b_bytes c = int (length data))"

lemma alloc_ok:
  assumes "owned L Q d" "nd E" "bytes = int (length src)" "take (length src) data = src"
  shows "ok (\<lambda>(out, d'). same_demux d d' \<and> keeps_blocks Q d d' \<and>
      (case out of None \<Rightarrow> owned L Q d' \<and> (\<not> (\<forall>n. mem E n) \<or> (\<exists>e. rtp_packet_deserialize True src bytes = Some (Inl e)))
       | Some p \<Rightarrow> owned L (add_mset p Q) d' \<and> block_holds d' p src
           \<and> (\<exists>pkt. rtp_packet_deserialize True src bytes = Some (Inr pkt) \<and> pk_rtp p = pk_rtp pkt)))
    (rtp_demuxer_alloc E data bytes d)"
proof -
  have len: "length src \<le> length data"
    using assms(4) by (metis length_take min.cobounded1 min_def order_refl)
  have data: "c_slice data 0 (nat bytes) = Some src"
    using assms(3,4) len by (simp add: c_slice_def)
  have "0 \<le> bytes" using assms(3) by simp
  from reserve_ok [OF assms(1) this, of E] obtain r where r: "rtp_demuxer_reserve E bytes d = Some r"
    "case r of None \<Rightarrow> \<not> (\<forall>n. mem E n) | Some d' \<Rightarrow> owned L Q d' \<and> same_demux d d' \<and> keeps_blocks Q d d' \<and>
      (\<exists>b c. d_ptr d' = Some b \<and> dh_cells (d_heap d') b = Some c
        \<and> 2 * sizeof_int + sizeof_rtp_packet_t + bytes \<le> b_cap c + sizeof_int)"
    by (elim okE) auto
  show ?thesis
  proof (cases r)
    case None
    with r assms(1) show ?thesis by (auto simp: rtp_demuxer_alloc_def keeps_blocks_def)
  next
    case (Some d1)
    with r(2) obtain b c where d1: "owned L Q d1" "same_demux d d1" "keeps_blocks Q d d1"
      "d_ptr d1 = Some b" "dh_cells (d_heap d1) b = Some c" "2 * sizeof_int + sizeof_rtp_packet_t + bytes \<le> b_cap c + sizeof_int"
      by auto
    let ?c = "c\<lparr>b_bytes := bytes, b_data := src\<rparr>"
    let ?d = "d1\<lparr>d_heap := (d_heap d1)\<lparr>dh_cells := (dh_cells (d_heap d1))(b \<mapsto> ?c)\<rparr>\<rparr>"
    have st: "owned L Q ?d" "keeps_blocks Q d1 ?d"
      using owned_store(1,2) [OF d1(1,4,5), of ?c] by simp_all
    have st': "owned L (add_mset p Q) (?d\<lparr>d_cap := 0, d_ptr := None\<rparr>)" if "dp_block p = b" for p
      using owned_store(3) [OF d1(1,4,5), of ?c] assms(3) that by simp
    have same: "same_demux d ?d" "same_demux d (?d\<lparr>d_cap := 0, d_ptr := None\<rparr>)"
      using d1(2) by (cases d; cases d1; simp add: same_demux_def)+
    have keeps: "keeps_blocks Q d ?d" "keeps_blocks Q d (?d\<lparr>d_cap := 0, d_ptr := None\<rparr>)"
      using d1(3) st(2) by (simp_all add: keeps_blocks_def)
    obtain v where v: "rtp_packet_deserialize True src bytes = Some v"
      using rtp_packet_deserialize_total [of bytes src] assms(3) by auto
    show ?thesis
      using r(1) Some d1(4-6) data v assms(2,3) st(1) st' same keeps
      by (cases v) (auto simp: rtp_demuxer_alloc_def Let_def block_holds_def)
  qed
qed

lemma owned_leak: "owned L (Q + R) d \<Longrightarrow> owned (L + image_mset dp_block R) Q d"
  by (auto simp: owned_def exact_blocks_def ac_simps)

section \<open>The invariant\<close>

lemma read_held:
  assumes "live_queue q"
  shows "rtp_queue_read ndebug q = Some (None, q) \<or>
    (\<exists>p q'. rtp_queue_read ndebug q = Some (Some p, q') \<and> live_queue q' \<and> mset (q_held q) = add_mset p (mset (q_held q')))"
proof -
  have bads: "q_bads q' = q_bads q" if "rtp_queue_read ndebug q = Some (Some p, q')" for p q'
    using that by (auto simp: rtp_queue_read_def rtp_queue_pop_def bind_Some_conv q_bads_def split: if_splits)
  from live_queue_get [OF assms, of ndebug] show ?thesis
  proof
    assume "\<exists>p q'. rtp_queue_read ndebug q = Some (Some p, q') \<and> live_queue q' \<and> q_list q = p # q_list q'"
    then obtain p q' where g: "rtp_queue_read ndebug q = Some (Some p, q')" "live_queue q'" "q_list q = p # q_list q'"
      by blast
    then have "mset (q_held q) = add_mset p (mset (q_held q'))"
      using bads [OF g(1)] by (simp add: q_held_def)
    with g show ?thesis by blast
  qed simp
qed

lemma destroy_held:
  assumes "queue_inv q"
  shows "\<exists>fr. rtp_queue_destroy ndebug q = Some (0, fr) \<and> mset fr = mset (q_held q)"
proof -
  have "rtp_queue_reset q = Some (q\<lparr>q_bad_seq := 0, q_bad_count := 0, q_pos := 0, q_size := 0,
     q_probation := RTP_SEQUENTIAL\<rparr>, q_bads q @ q_list q)"
    using reset_ok [of q] assms by (simp add: queue_inv_def q_bads_def)
  then show ?thesis
    by (simp add: rtp_queue_destroy_def q_held_def)
qed

definition demux_ok :: "('d \<Rightarrow> bool) \<Rightarrow> nat multiset \<Rightarrow> ('d, 's) rtp_demuxer_t \<Rightarrow> bool" where
  "demux_ok invar L d \<longleftrightarrow> live_queue (d_queue d) \<and> session_wf (d_rtp d) \<and> invar (pd_packer (d_payload d))
     \<and> owned L (mset (q_held (d_queue d))) d"

text \<open>What no call changes.\<close>

definition same_setup :: "('d, 's) rtp_demuxer_t \<Rightarrow> ('d, 's) rtp_demuxer_t \<Rightarrow> bool" where
  "same_setup d d' \<longleftrightarrow> d_max d' = d_max d \<and> pd_decoder (d_payload d') = pd_decoder (d_payload d)"

lemma same_setup_refl [simp]: "same_setup d d"
  by (simp add: same_setup_def)

lemma same_setup_trans: "same_setup d d' \<Longrightarrow> same_setup d' d'' \<Longrightarrow> same_setup d d''"
  by (simp add: same_setup_def)

context payload_decoder
begin

lemma drain_ok:
  assumes "\<forall>n. mem E n" "nd E"
  shows "\<lbrakk>demux_ok invar L d; dec_input (pd_decoder (d_payload d)) E = input\<rbrakk> \<Longrightarrow>
    ok (\<lambda>(r, d'). demux_ok invar L d' \<and> same_setup d d' \<and> length (q_held (d_queue d')) \<le> length (q_held (d_queue d)))
      (demuxer_drain E d)"
proof (induction "q_size (d_queue d)" arbitrary: d rule: less_induct)
  case less
  let ?q = "d_queue d"
  have inv: "live_queue ?q" "session_wf (d_rtp d)" "invar (pd_packer (d_payload d))" "owned L (mset (q_held ?q)) d"
    using less.prems(1) by (simp_all add: demux_ok_def)
  from read_held [OF inv(1), of "nd E"] show ?case
  proof
    assume "rtp_queue_read (nd E) ?q = Some (None, ?q)"
    with less.prems(1) show ?thesis by (subst demuxer_drain.simps) simp
  next
    assume "\<exists>p q'. rtp_queue_read (nd E) ?q = Some (Some p, q') \<and> live_queue q' \<and> mset (q_held ?q) = add_mset p (mset (q_held q'))"
    then obtain p q' where q': "rtp_queue_read (nd E) ?q = Some (Some p, q')" "live_queue q'"
        "mset (q_held ?q) = add_mset p (mset (q_held q'))" by blast
    have len: "length (q_held ?q) = Suc (length (q_held q'))"
      using arg_cong [OF q'(3), of size] by simp
    obtain c where c: "dh_cells (d_heap d) (dp_block p) = Some c" "b_bytes c = int (length (b_data c))"
      using owned_distinct(4) [of L p "mset (q_held q')" d] inv(4) q'(3) by auto
    obtain r1 x where x: "rtp_onreceived E (b_data c) (b_bytes c) (d_rtp d) = Some (r1, x)" "session_wf x"
      using input_rtp_ok [OF inv(2) assms, of "b_bytes c" "b_data c"] c(2) by (auto simp: rtp_onreceived_def elim!: okE)
    obtain r u s where u: "input (pd_packer (d_payload d)) (d_param d) (b_data c) (b_bytes c) = Some (r, u, s)" "invar u"
      using input_total [OF inv(3), of "b_bytes c" "b_data c" "d_param d"] c(2) by (auto elim!: okE)
    define d1 where "d1 = d\<lparr>d_queue := q', d_rtp := x, d_payload := (d_payload d)\<lparr>pd_packer := u\<rparr>, d_param := s\<rparr>"
    have o1: "owned L (add_mset p (mset (q_held q'))) d1"
      using inv(4) q'(3) by (simp add: d1_def)
    obtain d2 where d2: "rtp_demuxer_freepkt p d1 = Some d2" "owned L (mset (q_held q')) d2" "same_demux d1 d2"
      using freepkt_ok [OF o1] by (elim okE) auto
    note f = same_demux_fields [OF d2(3)]
    have ok2: "demux_ok invar L d2" "same_setup d d2" "d_queue d2 = q'"
      using d2(2) q'(2) x(2) u(2) f by (simp_all add: demux_ok_def same_setup_def d1_def)
    have step: "demuxer_drain E d = (if r < 0 then Some (r, d2) else demuxer_drain E d2)"
      using q'(1) c(1) x(1) u(1) d2(1) less.prems(2)
      by (subst demuxer_drain.simps) (simp add: rtp_payload_decode_input_def d1_def)
    have "q_size (d_queue d2) < q_size ?q"
      using read_shrinks [OF q'(1)] ok2(3) by simp
    moreover have "dec_input (pd_decoder (d_payload d2)) E = input"
      using less.prems(2) ok2(2) by (simp add: same_setup_def)
    ultimately have "ok (\<lambda>(r, d'). demux_ok invar L d' \<and> same_setup d2 d' \<and> length (q_held (d_queue d')) \<le> length (q_held q'))
      (demuxer_drain E d2)"
      using less.hyps [of d2] ok2(1,3) by simp
    then show ?thesis
      using step ok2 len by (auto elim!: okI_mono intro: same_setup_trans)
  qed
qed

text \<open>A new packet, from the queue on.\<close>

lemma enqueue_ok:
  assumes E: "\<forall>n. mem E n" "nd E" and d: "live_queue q" "session_wf (d_rtp d)" "invar (pd_packer (d_payload d))"
      "owned L (add_mset p (mset (q_held q))) d" "dec_input (pd_decoder (d_payload d)) E = input"
  shows "ok (\<lambda>(r, d'). same_setup d d' \<and> length (q_held (d_queue d')) \<le> length (q_held q) + 1
      \<and> (\<exists>L'. demux_ok invar (L + L') d' \<and> (roomy (mem E) q 4 \<longrightarrow> L' = {#})))
    (do { (r, q, fr) \<leftarrow> rtp_queue_write (nd E) (mem E) q p;
          d \<leftarrow> free_packets fr (d\<lparr>d_queue := q\<rparr>);
          if r \<le> 0 then do { d \<leftarrow> rtp_demuxer_freepkt p d; Some (r, d) } else demuxer_drain E d })"
proof -
  obtain r q' fr where w: "rtp_queue_write (nd E) (mem E) q p = Some (r, q', fr)" "live_queue q'"
    using live_queue_put [OF d(1), of "nd E" "mem E" p] by blast
  have "queue_inv q"
    using d(1) by (simp add: live_queue_def)
  from write_held [OF this w(1)] obtain R where
    R: "mset (q_held q') + mset fr + R = (if r = 1 then add_mset p (mset (q_held q)) else mset (q_held q))"
    and r: "r = 1 \<or> r < 0" and L: "roomy (mem E) q 4 \<longrightarrow> R = {#}"
    by (auto simp: accounts_def)
  let ?L = "L + image_mset dp_block R" and ?Q = "if r = 1 then mset (q_held q') else add_mset p (mset (q_held q'))"
  have len: "length (q_held q') \<le> length (q_held q) + 1"
    using arg_cong [OF R, of size] by (auto split: if_splits)
  have "add_mset p (mset (q_held q)) = mset fr + ?Q + R"
    using R by (auto simp: ac_simps)
  with d(4) have "owned L (mset fr + ?Q + R) (d\<lparr>d_queue := q'\<rparr>)"
    by (simp only: owned_update)
  then have "owned ?L (mset fr + ?Q) (d\<lparr>d_queue := q'\<rparr>)"
    by (rule owned_leak)
  from free_packets_ok [OF this] obtain d1 where
    d1: "free_packets fr (d\<lparr>d_queue := q'\<rparr>) = Some d1" "owned ?L ?Q d1" "same_demux (d\<lparr>d_queue := q'\<rparr>) d1"
    by (elim okE) auto
  note f1 = same_demux_fields [OF d1(3)]
  show ?thesis
  proof (cases "r = 1")
    case True
    with d1(2) f1 d w(2) have k: "demux_ok invar ?L d1" "same_setup d d1" "dec_input (pd_decoder (d_payload d1)) E = input"
      by (simp_all add: demux_ok_def same_setup_def)
    show ?thesis
      using True w(1) d1(1) len L k(2) f1(1)
      by (auto intro!: okI_mono [OF drain_ok [OF E k(1,3)]] intro: same_setup_trans)
  next
    case False
    with d1(2) have "owned ?L (add_mset p (mset (q_held q'))) d1" by simp
    from freepkt_ok [OF this] obtain d2 where
      d2: "rtp_demuxer_freepkt p d1 = Some d2" "owned ?L (mset (q_held q')) d2" "same_demux d1 d2"
      by (elim okE) auto
    note f2 = same_demux_fields [OF d2(3)]
    have "demux_ok invar ?L d2" "same_setup d d2" "d_queue d2 = q'"
      using d2(2) f1 f2 d w(2) by (simp_all add: demux_ok_def same_setup_def)
    then show ?thesis
      using False r w(1) d1(1) d2(1) len L by auto
  qed
qed

lemma input_ok:
  assumes E: "\<forall>n. mem E n" "nd E" and d: "demux_ok invar L d" "dec_input (pd_decoder (d_payload d)) E = input"
    and data: "bytes + 4 \<le> int (length data)"
      "RTCP_FIR \<le> data ! 1 \<Longrightarrow> data ! 1 \<le> RTCP_LIMIT \<Longrightarrow> rtcp_clean data bytes"
  shows "ok (\<lambda>(r, d'). same_setup d d' \<and> length (q_held (d_queue d')) \<le> length (q_held (d_queue d)) + 1
      \<and> (\<exists>L'. demux_ok invar (L + L') d' \<and> (roomy (mem E) (d_queue d) 4 \<longrightarrow> L' = {#})))
    (rtp_demuxer_input E addr data bytes d)"
proof -
  have inv: "live_queue (d_queue d)" "session_wf (d_rtp d)" "invar (pd_packer (d_payload d))"
      "owned L (mset (q_held (d_queue d))) d"
    using d(1) by (simp_all add: demux_ok_def)
  have triv: "\<exists>L'. demux_ok invar (L + L') d' \<and> (roomy (mem E) (d_queue d) 4 \<longrightarrow> L' = {#})" if "demux_ok invar L d'" for d'
    using that by (intro exI [of _ "{#}"]) simp
  show ?thesis
  proof (cases "bytes < 12 \<or> bytes > d_max d")
    case True
    with d(1) triv show ?thesis by (simp add: rtp_demuxer_input_def)
  next
    case False
    then have pt: "rd data 1 = Some (data ! 1)" and n: "12 \<le> bytes"
      using data(1) by (auto simp: rd_def)
    show ?thesis
    proof (cases "data ! 1 < RTCP_FIR \<or> data ! 1 > RTCP_LIMIT")
      case rtp: True
      let ?src = "take (nat bytes) data"
      have src: "bytes = int (length ?src)" "take (length ?src) data = ?src"
        using data(1) n by auto
      from alloc_ok [OF inv(4) E(2) src] obtain out d1 where
        a: "rtp_demuxer_alloc E data bytes d = Some (out, d1)" "same_demux d d1"
          "case out of None \<Rightarrow> owned L (mset (q_held (d_queue d))) d1
           | Some p \<Rightarrow> owned L (add_mset p (mset (q_held (d_queue d)))) d1"
        by (elim okE) (auto split: option.splits)
      note f = same_demux_fields [OF a(2)]
      show ?thesis
      proof (cases out)
        case None
        with a(3) f inv have "demux_ok invar L d1" "same_setup d d1"
          by (simp_all add: demux_ok_def same_setup_def)
        with None a(1) False pt rtp triv f(1) show ?thesis
          by (simp add: rtp_demuxer_input_def)
      next
        case (Some p)
        have "same_setup d d1"
          using f by (simp add: same_setup_def)
        with Some a f inv d(2) False pt rtp show ?thesis
          by (auto simp: rtp_demuxer_input_def intro!: okI_mono [OF enqueue_ok [OF E]] intro: same_setup_trans)
      qed
    next
      case rtcp: False
      then have "rtcp_clean data bytes"
        using data(2) by (simp add: not_less)
      from input_rtcp_ok [OF inv(2) E data(1) this, of addr] obtain r x where
        x: "rtp_onreceived_rtcp E addr data bytes (d_rtp d) = Some (r, x)" "session_wf x"
        by (auto simp: rtp_onreceived_rtcp_def elim!: okE)
      then have "demux_ok invar L (d\<lparr>d_rtp := x\<rparr>)"
        using inv by (simp add: demux_ok_def)
      with x(1) False pt rtcp triv show ?thesis
        by (simp add: rtp_demuxer_input_def same_setup_def)
    qed
  qed
qed

text \<open>A demuxer for a format that the decoder implements.\<close>

lemma create_demux:
  assumes E: "\<forall>n. mem E n" "nd E" and f: "rtp_payload_find (nd E) payload encoding = Some (Some (e, f))"
    and dec: "dec_create (decoders f) E = Some init" "dec_input (decoders f) E = input"
  shows "ok (\<lambda>r. case r of Inl m \<Rightarrow> False | Inr d \<Rightarrow> demux_ok invar {#} d \<and> q_held (d_queue d) = []
      \<and> rtp_queue_init 0 frequency = Some (d_queue d) \<and> d_payload d = \<lparr>pd_decoder = decoders f, pd_packer = init\<rparr>
      \<and> d_param d = param \<and> d_max d = int RTP_PAYLOAD_MAX_SIZE)
    (rtp_demuxer_create E decoders 0 frequency payload encoding param clock clock' ssrc)"
proof -
  obtain q :: demux_queue where q: "rtp_queue_init 0 frequency = Some q"
    using rtp_queue_init_inv by blast
  then have lq: "live_queue q" "q_held q = []"
    using rtp_queue_init_Some [OF q]
    by (auto simp: live_queue_def q_held_def q_bads_def queue_inv_def)
  from create_ok [OF E(1), of 0 "ucast clock" "if frequency \<noteq> 0 then frequency else 90000" "2 * 1024 * 1024" False]
  obtain x where x: "rtp_create E 0 (ucast clock) (if frequency \<noteq> 0 then frequency else 90000) (2 * 1024 * 1024) False = Some (Inr x)"
    "session_wf x" by (elim okE) (auto split: sum.splits)
  show ?thesis
    using E f dec q lq x init_invar
    by (simp add: rtp_demuxer_create_def rtp_demuxer_init_def rtp_payload_decode_create_def rtp_queue_create_def demux_ok_def
        owned_def exact_blocks_def kept_block_def)
qed

lemma destroy_demux:
  assumes "demux_ok invar L d" "nd E"
  shows "ok (\<lambda>(r, m, h). r = 0 \<and> (\<forall>p. mh_cells m p = None) \<and> exact_blocks L h) (rtp_demuxer_destroy E d)"
proof -
  have inv: "queue_inv (d_queue d)" "session_wf (d_rtp d)" "owned L (mset (q_held (d_queue d))) d"
    using assms(1) by (simp_all add: demux_ok_def live_queue_def)
  obtain m where m: "rtp_destroy E (d_rtp d) = Some m" "\<forall>p. mh_cells m p = None"
    using destroy_ok [OF inv(2) assms(2)] by (elim okE) auto
  obtain fr where fr: "rtp_queue_destroy (nd E) (d_queue d) = Some (0, fr)" "mset fr = mset (q_held (d_queue d))"
    using destroy_held [OF inv(1)] by blast
  with inv(3) have "owned L (mset fr + {#}) d" by simp
  from free_packets_ok [OF this] obtain d1 where d1: "free_packets fr d = Some d1" "owned L {#} d1"
    by (elim okE) auto
  show ?thesis
  proof (cases "d_ptr d1")
    case None
    with d1(2) have "exact_blocks L (d_heap d1)"
      by (simp add: owned_def kept_block_def)
    with m fr d1(1) None show ?thesis
      by (simp add: rtp_demuxer_destroy_def)
  next
    case (Some b)
    from owned_free_kept [OF d1(2) Some] obtain h where "dh_free b (d_heap d1) = Some h" "exact_blocks L h"
      by (auto simp: owned_def kept_block_def)
    with m fr d1(1) Some show ?thesis
      by (simp add: rtp_demuxer_destroy_def)
  qed
qed

lemma rtcp_ok:
  assumes "demux_ok invar L d" "nd E" "780 \<le> length buf" "length buf < 2 ^ 31"
    and "rtp_rtcp_interval E rand (snd (clock_now E (d_rtp d))) = Some (i, x)" "session_wf x"
  shows "ok (\<lambda>(r, b, d'). demux_ok invar L d' \<and> same_setup d d' \<and> length b = length buf \<and> d_queue d' = d_queue d)
    (rtp_demuxer_rtcp E rand buf (int (length buf)) d)"
proof -
  from report_ok [OF assms(6,2-4)] obtain n b y where
    "rtp_rtcp_report E buf (int (length buf)) x = Some (n, b, y)" "session_wf y" "length b = length buf"
    by (elim okE) auto
  with assms(1,5,6) show ?thesis
    by (auto simp: rtp_demuxer_rtcp_def demux_ok_def same_setup_def split: prod.splits)
qed

end

section \<open>Sequences of datagrams\<close>

fun demux_run ::
  "env \<Rightarrow> (nat \<times> u8 list \<times> int) list \<Rightarrow> ('d, 's) rtp_demuxer_t \<Rightarrow> (int list \<times> ('d, 's) rtp_demuxer_t) option" where
  "demux_run E [] d = Some ([], d)"
| "demux_run E ((addr, data, bytes) # cs) d = do {
     (r, d) \<leftarrow> rtp_demuxer_input E addr data bytes d;
     (rs, d) \<leftarrow> demux_run E cs d;
     Some (r # rs, d) }"

text \<open>A datagram of \<open>bytes\<close> bytes in a larger buffer; control packets without extended reports.\<close>

fun arrival_ok :: "nat \<times> u8 list \<times> int \<Rightarrow> bool" where
  "arrival_ok (addr, data, bytes) \<longleftrightarrow> bytes + 4 \<le> int (length data)
     \<and> (RTCP_FIR \<le> data ! 1 \<and> data ! 1 \<le> RTCP_LIMIT \<longrightarrow> rtcp_clean data bytes)"

context payload_decoder
begin

lemma run_ok:
  "\<lbrakk>\<forall>n. mem E n; nd E; demux_ok invar L d; dec_input (pd_decoder (d_payload d)) E = input; list_all arrival_ok cs\<rbrakk> \<Longrightarrow>
   ok (\<lambda>(rs, d'). length rs = length cs
      \<and> (\<exists>L'. demux_ok invar (L + L') d' \<and> (length (q_held (d_queue d)) + length cs + 3 \<le> MAX_PACKET \<longrightarrow> L' = {#})))
    (demux_run E cs d)"
proof (induction cs arbitrary: L d)
  case Nil
  then show ?case by (auto intro!: exI [of _ "{#}"])
next
  case (Cons c cs)
  obtain addr data bytes where c: "c = (addr, data, bytes)" by (cases c)
  have data: "bytes + 4 \<le> int (length data)"
      "RTCP_FIR \<le> data ! 1 \<Longrightarrow> data ! 1 \<le> RTCP_LIMIT \<Longrightarrow> rtcp_clean data bytes"
    using Cons.prems(5) c by auto
  have "ok (\<lambda>(r, d'). same_setup d d' \<and> length (q_held (d_queue d')) \<le> length (q_held (d_queue d)) + 1
      \<and> (\<exists>L'. demux_ok invar (L + L') d' \<and> (roomy (mem E) (d_queue d) 4 \<longrightarrow> L' = {#})))
    (rtp_demuxer_input E addr data bytes d)"
    by (rule input_ok [OF Cons.prems(1-4)]) (use data in auto)
  then obtain r d1 L1 where
    d1: "rtp_demuxer_input E addr data bytes d = Some (r, d1)" "same_setup d d1"
      "length (q_held (d_queue d1)) \<le> length (q_held (d_queue d)) + 1" "demux_ok invar (L + L1) d1"
      "roomy (mem E) (d_queue d) 4 \<longrightarrow> L1 = {#}"
    by (elim okE) auto
  have "dec_input (pd_decoder (d_payload d1)) E = input"
    using d1(2) Cons.prems(4) by (simp add: same_setup_def)
  from Cons.IH [OF Cons.prems(1,2) d1(4) this] Cons.prems(5) obtain rs d2 L2 where
    d2: "demux_run E cs d1 = Some (rs, d2)" "length rs = length cs" "demux_ok invar (L + L1 + L2) d2"
      "length (q_held (d_queue d1)) + length cs + 3 \<le> MAX_PACKET \<longrightarrow> L2 = {#}"
    by (auto elim!: okE)
  have "L1 + L2 = {#}" if "length (q_held (d_queue d)) + length (c # cs) + 3 \<le> MAX_PACKET"
    using that d1(3,5) d2(4) Cons.prems(1) by (auto simp: roomy_def q_held_def)
  then show ?case
    using c d1(1) d2(1-3) by (auto simp: add.assoc intro!: exI [of _ "L1 + L2"])
qed

end

section \<open>A stream without loss\<close>

text \<open>The queue hands out the packet at once.\<close>

definition expects :: "demux_queue \<Rightarrow> u16 \<Rightarrow> bool" where
  "expects q s \<longleftrightarrow> (\<exists>f. rtp_queue_init 0 f = Some q) \<or> caught_up q \<and> s = q_last_seq q + 1"

lemma expects_step:
  assumes "expects q (pk_seq p)" "\<forall>n. m n"
  shows "\<exists>q' q'' fr. rtp_queue_write ndebug m q p = Some (1, q', fr) \<and> rtp_queue_read ndebug q' = Some (Some p, q'')
    \<and> live_queue q' \<and> caught_up q'' \<and> q_last_seq q'' = pk_seq p \<and> mset (q_held q') = add_mset p (mset (q_held q''))
    \<and> mset (q_held q') + mset fr = add_mset p (mset (q_held q))"
proof -
  have m: "m = (\<lambda>_. True)" using assms(2) by blast
  have q: "live_queue q" "q_list q = []"
    using assms(1) rtp_queue_init_Some [of 0 _ q] by (auto simp: expects_def caught_up_def live_queue_def)
  then have room: "roomy m q 4"
    using assms(2) length_q_list [of q] by (simp add: roomy_def MAX_PACKET_def)
  from assms(1) obtain q' q'' fr where
    s: "rtp_queue_write ndebug m q p = Some (1, q', fr)" "rtp_queue_read ndebug q' = Some (Some p, q'')"
      "caught_up q''" "q_last_seq q'' = pk_seq p"
    unfolding expects_def m by (elim disjE exE conjE) (blast dest: first_packet [of _ q ndebug p] caught_up_step [of q p ndebug])+
  obtain q0 where w: "rtp_queue_write ndebug m q p = Some (1, q', fr)" "live_queue q'"
    using live_queue_put [OF q(1), of ndebug m p] s(1) by auto
  have "mset (q_held q') + mset fr = add_mset p (mset (q_held q))"
    using write_held [of q ndebug m p 1 q' fr] q(1) w(1) room by (auto simp: accounts_def live_queue_def)
  moreover have "mset (q_held q') = add_mset p (mset (q_held q''))"
    using read_held [OF w(2), of ndebug] s(2) by auto
  ultimately show ?thesis using s w(2) by blast
qed

context payload_decoder
begin

lemma in_order_step:
  assumes E: "\<forall>n. mem E n" "nd E" and d: "demux_ok invar L d" "dec_input (pd_decoder (d_payload d)) E = input"
    and src: "12 \<le> length src" "int (length src) \<le> d_max d" "src ! 1 < RTCP_FIR \<or> RTCP_LIMIT < src ! 1"
      "rtp_packet_deserialize True src (int (length src)) = Some (Inr pkt)" "expects (d_queue d) (pk_seq pkt)"
    and feed: "input (pd_packer (d_payload d)) (d_param d) src (int (length src)) = Some (r, u, s)"
  shows "ok (\<lambda>(r', d'). r' = min r 0 \<and> demux_ok invar L d' \<and> same_setup d d'
      \<and> pd_packer (d_payload d') = u \<and> d_param d' = s \<and> expects (d_queue d') (pk_seq pkt + 1))
    (rtp_demuxer_input E addr src (int (length src)) d)"
proof -
  let ?q = "d_queue d" and ?n = "int (length src)"
  have inv: "session_wf (d_rtp d)" "owned L (mset (q_held ?q)) d"
    using d(1) by (simp_all add: demux_ok_def)
  have "invar u"
    using input_total [of "pd_packer (d_payload d)" ?n src "d_param d"] feed d(1) by (simp add: demux_ok_def)
  from alloc_ok [OF inv(2) E(2) refl take_all [OF order_refl], of src] obtain out d1 where
    a: "rtp_demuxer_alloc E src ?n d = Some (out, d1)" "same_demux d d1" and
    out: "case out of None \<Rightarrow> owned L (mset (q_held ?q)) d1 \<and> (\<not> (\<forall>n. mem E n) \<or> (\<exists>e. rtp_packet_deserialize True src ?n = Some (Inl e)))
       | Some p \<Rightarrow> owned L (add_mset p (mset (q_held ?q))) d1 \<and> block_holds d1 p src
           \<and> (\<exists>pkt. rtp_packet_deserialize True src ?n = Some (Inr pkt) \<and> pk_rtp p = pk_rtp pkt)"
    by (elim okE) auto
  obtain p where p: "out = Some p" "owned L (add_mset p (mset (q_held ?q))) d1" "block_holds d1 p src" "pk_rtp p = pk_rtp pkt"
    using out src(4) E(1) by (cases out) simp_all
  note f1 = same_demux_fields [OF a(2)]
  from expects_step [of ?q p "mem E" "nd E"] src(5) p(4) E(1) obtain q' q'' fr where
    q: "rtp_queue_write (nd E) (mem E) ?q p = Some (1, q', fr)" "rtp_queue_read (nd E) q' = Some (Some p, q'')"
      "live_queue q'" "caught_up q''" "q_last_seq q'' = pk_seq pkt" "mset (q_held q') = add_mset p (mset (q_held q''))"
      "mset (q_held q') + mset fr = add_mset p (mset (q_held ?q))"
    by auto
  have "owned L (mset fr + mset (q_held q')) (d1\<lparr>d_queue := q'\<rparr>)"
    using p(2) q(7) by (simp add: add.commute)
  from free_packets_ok [OF this] obtain d2 where
    d2: "free_packets fr (d1\<lparr>d_queue := q'\<rparr>) = Some d2" "owned L (mset (q_held q')) d2"
      "same_demux (d1\<lparr>d_queue := q'\<rparr>) d2" "keeps_blocks (mset (q_held q')) d1 d2"
    by (elim okE) (auto simp: keeps_blocks_def)
  note f2 = same_demux_fields [OF d2(3)]
  have "dh_cells (d_heap d2) (dp_block p) = dh_cells (d_heap d1) (dp_block p)"
    using d2(4) q(6) by (simp add: keeps_blocks_def)
  then obtain c where c: "dh_cells (d_heap d2) (dp_block p) = Some c" "b_data c = src" "b_bytes c = ?n"
    using p(3) by (auto simp: block_holds_def split: option.splits)
  obtain r1 x where x: "rtp_onreceived E src ?n (d_rtp d) = Some (r1, x)" "session_wf x"
    using input_rtp_ok [OF inv(1) E, of ?n src] by (auto simp: rtp_onreceived_def elim!: okE)
  define d3 where "d3 = d2\<lparr>d_queue := q'', d_rtp := x, d_payload := (d_payload d)\<lparr>pd_packer := u\<rparr>, d_param := s\<rparr>"
  have "owned L (add_mset p (mset (q_held q''))) d3"
    using d2(2) q(6) by (simp add: d3_def)
  from freepkt_ok [OF this] obtain d4 where
    d4: "rtp_demuxer_freepkt p d3 = Some d4" "owned L (mset (q_held q'')) d4" "same_demux d3 d4"
    by (elim okE) auto
  note f4 = same_demux_fields [OF d4(3)]
  have stop: "demuxer_drain E d4 = Some (0, d4)"
  proof -
    have "q_size q'' = 0"
      using q(4) length_q_list [of q''] by (simp add: caught_up_def)
    then have "rtp_queue_read (nd E) (d_queue d4) = Some (None, q'')"
      using f4(1) by (simp add: rtp_queue_read_def d3_def)
    then show ?thesis
      using f4(1) by (subst demuxer_drain.simps) (simp add: d3_def)
  qed
  have drain: "demuxer_drain E d2 = Some (min r 0, d4)"
    using q(2) c x(1) feed d4(1) stop f1 f2 d(2)
    by (subst demuxer_drain.simps) (simp add: rtp_payload_decode_input_def d3_def)
  have "demux_ok invar L d4"
    using d4(2) f4 x(2) \<open>invar u\<close> q(4) by (simp add: demux_ok_def d3_def caught_up_def)
  moreover have "same_setup d d4"
    using f1 f2 f4 by (simp add: same_setup_def d3_def)
  moreover have "rtp_demuxer_input E addr src ?n d = Some (min r 0, d4)"
    using src(1-3) a(1) p(1) q(1) d2(1) drain f1(1) by (auto simp: rtp_demuxer_input_def rd_def)
  ultimately show ?thesis
    using f4 q(4,5) by (simp add: d3_def expects_def)
qed

text \<open>A stream of datagrams in sequence: each is an RTP packet of admissible size.\<close>

end

fun in_sequence :: "u16 \<Rightarrow> u8 list list \<Rightarrow> bool" where
  "in_sequence s [] \<longleftrightarrow> True"
| "in_sequence s (d # ds) \<longleftrightarrow> 12 \<le> length d \<and> length d \<le> RTP_PAYLOAD_MAX_SIZE \<and> (d ! 1 < RTCP_FIR \<or> RTCP_LIMIT < d ! 1)
     \<and> (case rtp_packet_deserialize True d (int (length d)) of Some (Inr pkt) \<Rightarrow> pk_seq pkt = s | _ \<Rightarrow> False)
     \<and> in_sequence (s + 1) ds"

context payload_decoder
begin

lemma in_order_run:
  "\<lbrakk>\<forall>n. mem E n; nd E; demux_ok invar L d; dec_input (pd_decoder (d_payload d)) E = input;
    d_max d = int RTP_PAYLOAD_MAX_SIZE; in_sequence q ds; expects (d_queue d) q;
    feed (pd_packer (d_payload d)) (d_param d) ds = Some (rs, u, s)\<rbrakk> \<Longrightarrow>
   ok (\<lambda>(rs', d'). rs' = map (min 0) rs \<and> demux_ok invar L d' \<and> pd_packer (d_payload d') = u \<and> d_param d' = s)
    (demux_run E (map (\<lambda>p. (addr, p, int (length p))) ds) d)"
proof (induction ds arbitrary: d q rs)
  case Nil
  then show ?case by simp
next
  case (Cons p ds)
  obtain pkt where pkt: "rtp_packet_deserialize True p (int (length p)) = Some (Inr pkt)" "pk_seq pkt = q"
    using Cons.prems(6) by (auto split: option.splits sum.splits)
  obtain r u1 s1 rs1 where f: "input (pd_packer (d_payload d)) (d_param d) p (int (length p)) = Some (r, u1, s1)"
      "feed u1 s1 ds = Some (rs1, u, s)" "rs = r # rs1"
    using Cons.prems(8) by (auto simp: bind_Some_conv)
  have "12 \<le> length p" "int (length p) \<le> d_max d" "p ! 1 < RTCP_FIR \<or> RTCP_LIMIT < p ! 1" "expects (d_queue d) (pk_seq pkt)"
    using Cons.prems(5-7) pkt(2) by auto
  from in_order_step [OF Cons.prems(1-4) this(1-3) pkt(1) this(4) f(1), of addr] obtain d1 where
    d1: "rtp_demuxer_input E addr p (int (length p)) d = Some (min r 0, d1)" "demux_ok invar L d1" "same_setup d d1"
      "pd_packer (d_payload d1) = u1" "d_param d1 = s1" "expects (d_queue d1) (q + 1)"
    using pkt(2) by (elim okE) auto
  have "ok (\<lambda>(rs', d'). rs' = map (min 0) rs1 \<and> demux_ok invar L d' \<and> pd_packer (d_payload d') = u \<and> d_param d' = s)
    (demux_run E (map (\<lambda>p. (addr, p, int (length p))) ds) d1)"
    using d1 f(2) Cons.prems by (intro Cons.IH [of d1 "q + 1"]) (simp_all add: same_setup_def)
  then show ?case
    using d1(1) f(3) by (auto simp: ok_simps min.commute elim!: okI_mono)
qed

end

text \<open>What a destruction returns when all participants are freed and, if \<open>all\<close>, all blocks.\<close>

definition nothing_left :: "bool \<Rightarrow> int \<times> mheap \<times> dheap \<Rightarrow> bool" where
  "nothing_left all = (\<lambda>(r, m, h). r = 0 \<and> (\<forall>p. mh_cells m p = None) \<and> (all \<longrightarrow> (\<forall>b. dh_cells h b = None)))"

section \<open>Properties\<close>



text \<open>C12: The demuxer adds nothing and loses nothing between the socket and the decoder: on a stream of RTP datagrams in
  sequence, from any first sequence number and across the wrap to 0, the decoder and the application behind it
  end in the state in which the decoder leaves them when it is fed the datagrams directly. Each call
  returns the error of the decoder, if there is one, and else 0.\<close>

theorem demuxer_refines_decoder:
  assumes "nd E" "\<forall>n. mem E n" "decoders F_h265 = rtp_h265_decode handler" "in_sequence q ds"
  shows "ok (\<lambda>r. case r of Inl m \<Rightarrow> False | Inr d \<Rightarrow>
      ok (\<lambda>(rs', d'). \<exists>rs. h265_dec.feed (mem E) handler rtp_h265_unpack_create param ds
            = Some (rs, pd_packer (d_payload d'), d_param d') \<and> rs' = map (min 0) rs)
        (demux_run E (map (\<lambda>p. (addr, p, int (length p))) ds) d))
    (rtp_demuxer_create E decoders 0 90000 96 (Some ''H265'') param clock clock' ssrc)"
proof -
  have dec: "dec_create (decoders F_h265) E = Some rtp_h265_unpack_create"
      "dec_input (decoders F_h265) E = rtp_h265_unpack_input True (mem E) handler"
    using assms(1-3) by (simp_all add: rtp_h265_decode_def)
  obtain rs u s where f: "h265_dec.feed (mem E) handler rtp_h265_unpack_create param ds = Some (rs, u, s)"
    using h265_dec.feed_init [of "mem E" handler param ds] by blast
  have run: "ok (\<lambda>(rs', d'). \<exists>rs. h265_dec.feed (mem E) handler rtp_h265_unpack_create param ds
            = Some (rs, pd_packer (d_payload d'), d_param d') \<and> rs' = map (min 0) rs)
        (demux_run E (map (\<lambda>p. (addr, p, int (length p))) ds) d)"
    if "demux_ok u5_inv {#} d" "rtp_queue_init 0 90000 = Some (d_queue d)"
      "d_payload d = \<lparr>pd_decoder = decoders F_h265, pd_packer = rtp_h265_unpack_create\<rparr>" "d_param d = param"
      "d_max d = int RTP_PAYLOAD_MAX_SIZE" for d
    using that dec(2) f assms
    by (intro okI_mono [OF h265_dec.in_order_run [OF assms(2,1) that(1), of "mem E" handler q ds rs u s addr]])
      (auto simp: expects_def)
  show ?thesis
    by (rule okI_mono [OF h265_dec.create_demux [where decoders = decoders, OF assms(2,1) find_video(2) dec]])
      (simp add: run split: sum.splits)
qed

theorem demuxer_refines_decoder_witness:
  "ok (\<lambda>r. case r of Inl m \<Rightarrow> False | Inr d \<Rightarrow>
      ok (\<lambda>(rs', d'). \<exists>rs. h265_dec.feed (mem (example_env\<lparr>nd := True\<rparr>)) recorder rtp_h265_unpack_create []
              [[0x80, 96, 255, 255, 0, 0, 0, 1, 0, 0, 0, 7, 2, 1, 9], [0x80, 224, 0, 0, 0, 0, 0, 1, 0, 0, 0, 7, 98]]
            = Some (rs, pd_packer (d_payload d'), d_param d') \<and> rs' = map (min 0) rs)
        (demux_run (example_env\<lparr>nd := True\<rparr>) [(0, [0x80, 96, 255, 255, 0, 0, 0, 1, 0, 0, 0, 7, 2, 1, 9], 15),
          (0, [0x80, 224, 0, 0, 0, 0, 0, 1, 0, 0, 0, 7, 98], 13)] d))
    (rtp_demuxer_create (example_env\<lparr>nd := True\<rparr>) (\<lambda>_. rtp_h265_decode recorder) 0 90000 96 (Some ''H265'') [] 5 6 7)"
proof -
  have "case rtp_packet_deserialize True [0x80, 96, 255, 255, 0, 0, 0, 1, 0, 0, 0, 7, 2, 1, 9] 15 of Some (Inr pkt) \<Rightarrow> pk_seq pkt = 65535 | _ \<Rightarrow> False"
    "case rtp_packet_deserialize True [0x80, 224, 0, 0, 0, 0, 0, 1, 0, 0, 0, 7, 98] 13 of Some (Inr pkt) \<Rightarrow> pk_seq pkt = 65535 + 1 | _ \<Rightarrow> False"
    by code_simp+
  then have sq: "in_sequence 65535 [[0x80, 96, 255, 255, 0, 0, 0, 1, 0, 0, 0, 7, 2, 1, 9], [0x80, 224, 0, 0, 0, 0, 0, 1, 0, 0, 0, 7, 98]]"
    by (simp add: RTP_PAYLOAD_MAX_SIZE_def RTCP_FIR_def RTCP_LIMIT_def split: option.splits sum.splits)
  have E: "nd (example_env\<lparr>nd := True\<rparr>)" "\<forall>n. mem (example_env\<lparr>nd := True\<rparr>) n"
    by (simp_all add: example_env_def)
  have m: "map (\<lambda>p. (0 :: nat, p, int (length p))) [[0x80, 96, 255, 255, 0, 0, 0, 1, 0, 0, 0, 7, 2, 1, 9], [0x80, 224, 0, 0, 0, 0, 0, 1, 0, 0, 0, 7, 98 :: u8]]
      = [(0, [0x80, 96, 255, 255, 0, 0, 0, 1, 0, 0, 0, 7, 2, 1, 9], 15), (0, [0x80, 224, 0, 0, 0, 0, 0, 1, 0, 0, 0, 7, 98], 13)]"
    by simp
  show ?thesis
    using demuxer_refines_decoder [where decoders = "\<lambda>_. rtp_h265_decode recorder" and addr = 0 and param = "[]", OF E refl sq]
    unfolding m .
qed

end
