(* ===== verification/Rtp_Bitstream.thy ===== *)
theory Rtp_Bitstream
  imports Rtp_Packet
begin

text \<open>
  \<open>lib/librtp/payload/rtp-h264-bitstream.c\<close>: splitting a byte stream of NAL units, in Annex B format
  (start codes) or in AVCC format (length prefixes), into calls of a handler. A read pointer \<open>p\<close>
  is the list of the bytes from \<open>p\<close> on, \<open>next - p\<close> is an offset into it, and the handler gets
  the pointer, the length and the flag \<open>last\<close> and threads the state of its owner.
\<close>

type_synonym 's nalu_handler = "'s \<Rightarrow> u8 list \<Rightarrow> nat \<Rightarrow> bool \<Rightarrow> (int \<times> 's) option"

section \<open>Start codes\<close>

function startcode_from :: "u8 list \<Rightarrow> nat \<Rightarrow> nat \<Rightarrow> nat option option" where
  "startcode_from data bytes i =
     (if i + 1 < bytes then do {
        x \<leftarrow> rd data i;
        y \<leftarrow> rd data (i - 1);
        z \<leftarrow> rd data (i - 2);
        if x = 0x01 \<and> y = 0x00 \<and> z = 0x00 then Some (Some (i + 1))
        else startcode_from data bytes (i + 1) }
      else Some None)"
  by pat_completeness auto
termination
  by (relation "measure (\<lambda>(data, bytes, i). bytes - i)") auto

declare startcode_from.simps [simp del]

definition h264_startcode :: "u8 list \<Rightarrow> nat \<Rightarrow> nat option option" where
  "h264_startcode data bytes = startcode_from data bytes 2"

section \<open>Length prefixes\<close>

fun avcc_read :: "u8 list \<Rightarrow> nat \<Rightarrow> nat \<Rightarrow> u32 \<Rightarrow> u32 option" where
  "avcc_read h264 i 0 n = Some n"
| "avcc_read h264 i (Suc k) n = do { x \<leftarrow> rd h264 i; avcc_read h264 (i + 1) k (push_bit 8 n OR ucast x) }"

definition h264_avcc_length :: "bool \<Rightarrow> u8 list \<Rightarrow> nat \<Rightarrow> nat \<Rightarrow> int option" where
  "h264_avcc_length nd h264 bytes avcc = do {
     c_assert nd (3 \<le> avcc \<and> avcc \<le> 4);
     n \<leftarrow> avcc_read h264 0 (min avcc bytes) 0;
     Some (if avcc \<ge> bytes then -1 else sint n) }"

text \<open>The sum \<open>n + avcc\<close> is computed in \<open>int\<close>: beyond \<open>INT_MAX\<close> it is undefined.\<close>

partial_function (option) h264_avcc_bitstream_valid :: "bool \<Rightarrow> u8 list \<Rightarrow> nat \<Rightarrow> nat \<Rightarrow> bool option" where
  "h264_avcc_bitstream_valid nd h264 bytes avcc =
     (if avcc + 1 < bytes then do {
        n \<leftarrow> h264_avcc_length nd h264 bytes avcc;
        if n < 0 then Some False
        else if n + int avcc > int INT_MAX then None
        else if n + int avcc > int bytes then Some False
        else do {
          p \<leftarrow> adv h264 (nat n + avcc);
          h264_avcc_bitstream_valid nd p (bytes - (nat n + avcc)) avcc } }
      else Some (bytes = 0))"

definition h264_bitstream_format :: "bool \<Rightarrow> u8 list \<Rightarrow> nat \<Rightarrow> int option" where
  "h264_bitstream_format nd h264 bytes =
     (if bytes < 4 then Some (-1) else do {
        a \<leftarrow> rd h264 0; b \<leftarrow> rd h264 1; c \<leftarrow> rd h264 2; d \<leftarrow> rd h264 3;
        let n = (push_bit 16 (ucast a) OR push_bit 8 (ucast b) OR ucast c :: u32);
        if n = 0 \<and> d \<le> 1 then Some 0
        else if n = 1 then do {
          v \<leftarrow> h264_avcc_bitstream_valid nd h264 bytes 4; Some (if v then 4 else 0) }
        else do {
          v \<leftarrow> h264_avcc_bitstream_valid nd h264 bytes 4;
          if v then Some 4 else do {
            w \<leftarrow> h264_avcc_bitstream_valid nd h264 bytes 3; Some (if w then 3 else -1) } } })"

section \<open>Calling the handler for every NAL unit\<close>

text \<open>\<open>rest\<close> is \<open>end - p\<close>. The length \<open>-1\<close> of a too short rest becomes \<open>2 ^ 32 - 1\<close> in the unsigned
  \<open>n\<close>, which ends the loop.\<close>

partial_function (option) avcc_loop ::
  "bool \<Rightarrow> 's nalu_handler \<Rightarrow> nat \<Rightarrow> u8 list \<Rightarrow> nat \<Rightarrow> int \<Rightarrow> 's \<Rightarrow> (int \<times> 's) option" where
  "avcc_loop nd handler avcc p rest r s = do {
     len \<leftarrow> h264_avcc_length nd p rest avcc;
     let n = unat (of_int len :: u32);
     if r = 0 \<and> n + avcc \<le> rest then do {
       c_assert nd (n > 0);
       q \<leftarrow> adv p avcc;
       (r, s) \<leftarrow> (if n > 0 then handler s q n (\<not> avcc + n < rest) else Some (r, s));
       p' \<leftarrow> adv p (n + avcc);
       avcc_loop nd handler avcc p' (rest - (n + avcc)) r s }
     else Some (r, s) }"

definition h264_avcc_nalu ::
  "bool \<Rightarrow> u8 list \<Rightarrow> nat \<Rightarrow> nat \<Rightarrow> 's nalu_handler \<Rightarrow> 's \<Rightarrow> (int \<times> 's) option" where
  "h264_avcc_nalu nd h264 bytes avcc handler s = avcc_loop nd handler avcc h264 bytes 0 s"

fun trim_zeros :: "u8 list \<Rightarrow> nat \<Rightarrow> nat option" where
  "trim_zeros p 0 = Some 0"
| "trim_zeros p (Suc k) = do { x \<leftarrow> rd p k; if x = 0 then trim_zeros p k else Some (Suc k) }"

partial_function (option) annexb_loop ::
  "bool \<Rightarrow> 's nalu_handler \<Rightarrow> u8 list \<Rightarrow> nat \<Rightarrow> 's \<Rightarrow> (int \<times> 's) option" where
  "annexb_loop nd handler p rest s = do {
     nxt \<leftarrow> h264_startcode p rest;
     n \<leftarrow> trim_zeros p (case nxt of Some k \<Rightarrow> k - 3 | None \<Rightarrow> rest);
     c_assert nd (n > 0);
     (r, s) \<leftarrow> (if n > 0 then handler s p n (nxt = None) else Some (0, s));
     (case nxt of
        None \<Rightarrow> Some (r, s)
      | Some k \<Rightarrow> if r = 0 then annexb_loop nd handler (drop k p) (rest - k) s else Some (r, s)) }"

definition rtp_h264_annexb_nalu ::
  "bool \<Rightarrow> u8 list \<Rightarrow> nat \<Rightarrow> 's nalu_handler \<Rightarrow> 's \<Rightarrow> (int \<times> 's) option" where
  "rtp_h264_annexb_nalu nd h264 bytes handler s = do {
     avcc \<leftarrow> h264_bitstream_format nd h264 bytes;
     if avcc > 0 then h264_avcc_nalu nd h264 bytes (nat avcc) handler s
     else do {
       p \<leftarrow> h264_startcode h264 bytes;
       (case p of
          None \<Rightarrow> Some (0, s)
        | Some k \<Rightarrow> annexb_loop nd handler (drop k h264) (bytes - k) s) } }"

section \<open>Finding start codes\<close>

lemma startcode_from_total:
  "bytes \<le> length data \<Longrightarrow> \<exists>r. startcode_from data bytes i = Some r \<and> (\<forall>k. r = Some k \<longrightarrow> i < k \<and> k < bytes)"
proof (induction data bytes i rule: startcode_from.induct)
  case (1 data bytes i)
  show ?case
  proof (cases "i + 1 < bytes")
    case True
    with 1 have "\<exists>r. startcode_from data bytes (i + 1) = Some r \<and> (\<forall>k. r = Some k \<longrightarrow> i + 1 < k \<and> k < bytes)"
      if "\<not> (data ! i = 1 \<and> data ! (i - 1) = 0 \<and> data ! (i - 2) = 0)"
      using that by (auto simp: rd_Some)
    with True 1(2) show ?thesis
      by (subst startcode_from.simps) (auto simp: rd_Some)
  qed (simp add: startcode_from.simps)
qed

lemma h264_startcode_total:
  assumes "bytes \<le> length data"
  obtains (none) "h264_startcode data bytes = Some None"
    | (found) k where "h264_startcode data bytes = Some (Some k)" "2 < k" "k < bytes"
proof -
  obtain r where "startcode_from data bytes 2 = Some r" "\<forall>k. r = Some k \<longrightarrow> 2 < k \<and> k < bytes"
    using startcode_from_total [OF assms, of 2] by blast
  with none found show thesis
    by (cases r) (auto simp: h264_startcode_def)
qed

definition code_at :: "u8 list \<Rightarrow> nat \<Rightarrow> bool" where
  "code_at d i \<longleftrightarrow> d ! i = 1 \<and> d ! (i - 1) = 0 \<and> d ! (i - 2) = 0"

lemma startcode_hit:
  "\<lbrakk>bytes \<le> length d; i + 1 < bytes; code_at d i\<rbrakk> \<Longrightarrow> startcode_from d bytes i = Some (Some (i + 1))"
  by (subst startcode_from.simps) (simp add: rd_Some code_at_def)

lemma startcode_step:
  "\<lbrakk>bytes \<le> length d; \<not> code_at d i; i + 1 < bytes\<rbrakk>
   \<Longrightarrow> startcode_from d bytes i = startcode_from d bytes (i + 1)"
  by (subst startcode_from.simps) (auto simp: rd_Some code_at_def)

lemma startcode_end: "bytes \<le> i + 1 \<Longrightarrow> startcode_from d bytes i = Some None"
  by (subst startcode_from.simps) simp

lemma startcode_skip:
  assumes "bytes \<le> length d" "i \<le> k" "k < bytes" "\<And>j. \<lbrakk>i \<le> j; j < k\<rbrakk> \<Longrightarrow> \<not> code_at d j"
  shows "startcode_from d bytes i = startcode_from d bytes k"
  using assms(2,1,3,4)
proof (induction i rule: inc_induct)
  case (step n)
  then show ?case
    using startcode_step [of bytes d n] by simp
qed simp

text \<open>A NAL unit as the encoder emits it: not empty, no trailing zero byte and no start code inside.\<close>

definition nal_ok :: "u8 list \<Rightarrow> bool" where
  "nal_ok n \<longleftrightarrow> n \<noteq> [] \<and> last n \<noteq> 0 \<and> (\<forall>i \<in> set [2..<length n]. \<not> code_at n i)"

lemma code_at_append: "i < length n \<Longrightarrow> code_at (n @ r) i = code_at n i"
  using less_imp_diff_less [of i "length n" 1] less_imp_diff_less [of i "length n" 2]
  by (simp add: code_at_def nth_append)

lemma startcode_next:
  assumes "nal_ok n" "rest \<noteq> []"
  shows "h264_startcode (n @ [0, 0, 0, 1] @ rest) (length n + 4 + length rest) = Some (Some (length n + 4))"
proof -
  let ?d = "n @ [0, 0, 0, 1] @ rest" and ?m = "length n"
  have "\<not> code_at ?d j" if "2 \<le> j" "j < ?m + 3" for j
  proof (cases "j < ?m")
    case True
    with that assms(1) show ?thesis
      by (simp only: code_at_append) (simp add: nal_ok_def)
  next
    case False
    with that have "j - ?m = 0 \<or> j - ?m = 1 \<or> j - ?m = 2"
      by linarith
    with False show ?thesis
      by (auto simp: code_at_def nth_append)
  qed
  then have "startcode_from ?d (?m + 4 + length rest) 2 = startcode_from ?d (?m + 4 + length rest) (?m + 3)"
    using assms by (intro startcode_skip) (auto simp: nal_ok_def Suc_le_eq)
  also have "\<dots> = Some (Some (?m + 4))"
    using assms(2) startcode_hit [of "?m + 4 + length rest" ?d "?m + 3"]
    by (cases rest) (auto simp: code_at_def nth_append)
  finally show ?thesis
    by (simp add: h264_startcode_def)
qed

lemma startcode_last:
  assumes "nal_ok n"
  shows "h264_startcode n (length n) = Some None"
proof (cases "2 < length n")
  case True
  then have "startcode_from n (length n) 2 = startcode_from n (length n) (length n - 1)"
    using assms by (intro startcode_skip) (auto simp: nal_ok_def)
  then show ?thesis
    by (simp add: h264_startcode_def startcode_end)
next
  case False
  then show ?thesis
    by (simp add: h264_startcode_def startcode_end)
qed

lemma trim_zeros_total:
  "k \<le> length p \<Longrightarrow> \<exists>n. trim_zeros p k = Some n \<and> n \<le> k"
  by (induction k) (auto simp: rd_Some intro: le_SucI)

lemma trim_zeros_nonzero:
  "\<lbrakk>n \<noteq> []; last n \<noteq> 0\<rbrakk> \<Longrightarrow> trim_zeros (n @ r) (length n) = Some (length n)"
  by (cases n rule: rev_cases) (auto simp: rd_def nth_append)

lemma trim_zeros_one:
  "\<lbrakk>n \<noteq> []; last n \<noteq> 0\<rbrakk> \<Longrightarrow> trim_zeros (n @ 0 # r) (Suc (length n)) = Some (length n)"
  by (simp add: rd_def trim_zeros_nonzero)

section \<open>Annex B streams\<close>

text \<open>The calls of the handler: a pointer into the stream and a length for every NAL unit, until one call
  fails.\<close>

fun run_nalus :: "'s nalu_handler \<Rightarrow> 's \<Rightarrow> (u8 list \<times> nat) list \<Rightarrow> (int \<times> 's) option" where
  "run_nalus handler s [] = Some (0, s)"
| "run_nalus handler s ((p, k) # ps) = do {
     (r, s) \<leftarrow> handler s p k (ps = []);
     if r = 0 then run_nalus handler s ps else Some (r, s) }"

fun nalu_ptrs :: "(u8 list list \<Rightarrow> u8 list) \<Rightarrow> u8 list list \<Rightarrow> (u8 list \<times> nat) list" where
  "nalu_ptrs join [] = []"
| "nalu_ptrs join (n # ns) = (n @ join ns, length n) # nalu_ptrs join ns"

lemma nalu_ptrs_Nil [simp]: "nalu_ptrs join ns = [] \<longleftrightarrow> ns = []"
  by (cases ns) auto

lemma nalu_ptrs_units: "map (\<lambda>(p, k). take k p) (nalu_ptrs join ns) = ns"
  by (induction ns) auto

fun run_units :: "('a \<Rightarrow> u8 list \<Rightarrow> bool \<Rightarrow> 'a) \<Rightarrow> 'a \<Rightarrow> u8 list list \<Rightarrow> 'a" where
  "run_units step a [] = a"
| "run_units step a (n # ns) = run_units step (step a n (ns = [])) ns"

text \<open>A handler that simulates \<open>step\<close> on every unit simulates the whole run.\<close>

lemma run_nalus_simulation:
  assumes "\<And>s a n r l. \<lbrakk>Rel s a; n \<in> set ns\<rbrakk> \<Longrightarrow>
      ok (\<lambda>(ret, s'). ret = 0 \<and> Rel s' (step a n l)) (handler s (n @ r) (length n) l)"
    and "Rel s a"
  shows "ok (\<lambda>(ret, s'). ret = 0 \<and> Rel s' (run_units step a ns)) (run_nalus handler s (nalu_ptrs join ns))"
  using assms
proof (induction ns arbitrary: s a)
  case (Cons n ns)
  have "ok (\<lambda>(ret, s'). ret = 0 \<and> Rel s' (step a n (ns = []))) (handler s (n @ join ns) (length n) (ns = []))"
    using Cons.prems by auto
  from okI_mono [OF this] show ?case
    using Cons by (auto simp: ok_simps)
qed simp

definition annexb_stream :: "u8 list list \<Rightarrow> u8 list" where
  "annexb_stream ns = concat (map ((@) [0, 0, 0, 1]) ns)"

lemma annexb_stream_simps [simp]:
  "annexb_stream [] = []" "annexb_stream (n # ns) = [0, 0, 0, 1] @ n @ annexb_stream ns"
  by (simp_all add: annexb_stream_def)

lemma annexb_loop_stream:
  assumes "nal_ok n" "\<forall>m \<in> set ns. nal_ok m"
  shows "annexb_loop nd handler (n @ annexb_stream ns) (length (n @ annexb_stream ns)) s =
    run_nalus handler s (nalu_ptrs annexb_stream (n # ns))"
  using assms
proof (induction ns arbitrary: n s)
  case Nil
  then show ?case
    using trim_zeros_nonzero [of n "[]"]
    by (cases "handler s n (length n) True"; subst annexb_loop.simps) (auto simp: startcode_last nal_ok_def)
next
  case (Cons m ns)
  let ?rest = "m @ annexb_stream ns"
  define d where "d = n @ annexb_stream (m # ns)"
  have n: "n \<noteq> []" "last n \<noteq> 0" and m: "?rest \<noteq> []"
    using Cons.prems by (auto simp: nal_ok_def)
  have d: "d = n @ [0, 0, 0, 1] @ ?rest" and len: "length d = length n + 4 + length ?rest"
    by (simp_all add: d_def)
  have "h264_startcode d (length d) = Some (Some (length n + 4))"
    unfolding len unfolding d by (rule startcode_next [OF Cons.prems(1) m])
  moreover have "trim_zeros d (length n + 4 - 3) = Some (length n)"
    using trim_zeros_one [OF n, of "0 # 0 # 1 # ?rest"] by (simp add: d)
  moreover have "annexb_loop nd handler (drop (length n + 4) d) (length d - (length n + 4)) s'
      = run_nalus handler s' (nalu_ptrs annexb_stream (m # ns))" for s'
    using Cons by (simp add: d)
  moreover have "nalu_ptrs annexb_stream (n # m # ns) = (d, length n) # nalu_ptrs annexb_stream (m # ns)"
    by (simp add: d_def)
  ultimately show ?case
    using n unfolding d_def [symmetric]
    by (subst annexb_loop.simps) (cases "handler s d (length n) False"; auto simp del: trim_zeros.simps nalu_ptrs.simps)
qed

section \<open>AVCC streams\<close>

definition avcc_stream :: "u8 list list \<Rightarrow> u8 list" where
  "avcc_stream ns = concat (map (\<lambda>n. be32 (of_nat (length n)) @ n) ns)"

lemma avcc_stream_simps [simp]:
  "avcc_stream [] = []" "avcc_stream (n # ns) = be32 (of_nat (length n)) @ n @ avcc_stream ns"
  by (simp_all add: avcc_stream_def)

lemma avcc_read_be32: "avcc_read (be32 v @ r) 0 4 0 = Some v"
proof -
  have "push_bit 8 (push_bit 8 (push_bit 8 (ucast a :: u32) OR ucast b) OR ucast c) OR ucast d = un32 a b c d"
    for a b c d :: u8
    by (simp add: un32_def bit_word_eqI push_bit_or push_bit_push_bit or.assoc)
  moreover have "(4 :: nat) = Suc (Suc (Suc (Suc 0)))"
    by simp
  ultimately show ?thesis
    by (simp only: avcc_read.simps be32_def) (simp add: un32_be32)
qed

lemma h264_avcc_length_be32:
  assumes "length n \<le> INT_MAX" "4 < bytes"
  shows "h264_avcc_length nd (be32 (of_nat (length n)) @ r) bytes 4 = Some (int (length n))"
proof -
  have "sint (of_nat (length n) :: u32) = int (length n)"
    using assms(1) by (simp add: INT_MAX_def signed_of_nat signed_take_bit_int_eq_self)
  with assms show ?thesis
    by (simp add: h264_avcc_length_def avcc_read_be32 min_def)
qed

lemma avcc_length_stream:
  assumes "2 \<le> length n" "length n + 4 \<le> INT_MAX"
  shows "h264_avcc_length nd (avcc_stream (n # ns)) (length (avcc_stream (n # ns))) 4 = Some (int (length n))"
  using assms by (simp only: avcc_stream_simps) (rule h264_avcc_length_be32; auto)

lemma h264_avcc_length_end: "h264_avcc_length nd p 0 4 = Some (-1)"
  by (simp add: h264_avcc_length_def)

lemma avcc_valid_stream:
  assumes "\<forall>n \<in> set ns. 2 \<le> length n \<and> length n + 4 \<le> INT_MAX"
  shows "h264_avcc_bitstream_valid nd (avcc_stream ns) (length (avcc_stream ns)) 4 = Some True"
  using assms
proof (induction ns)
  case Nil
  then show ?case
    by (subst h264_avcc_bitstream_valid.simps) simp
next
  case (Cons n ns)
  define d where "d = avcc_stream (n # ns)"
  have len: "length d = length n + 4 + length (avcc_stream ns)"
    by (simp add: d_def)
  have "h264_avcc_length nd d (length d) 4 = Some (int (length n))"
    using Cons.prems unfolding d_def by (intro avcc_length_stream) simp_all
  moreover have "adv d (length n + 4) = Some (avcc_stream ns)" "length d - (length n + 4) = length (avcc_stream ns)"
    by (simp_all add: adv_def len) (simp add: d_def)
  ultimately show ?case
    using Cons len unfolding d_def [symmetric] by (subst h264_avcc_bitstream_valid.simps) simp
qed

lemma avcc_loop_stream:
  assumes "\<forall>n \<in> set ns. 2 \<le> length n \<and> length n + 4 \<le> INT_MAX"
  shows "avcc_loop nd handler 4 (avcc_stream ns) (length (avcc_stream ns)) 0 s =
    run_nalus handler s (nalu_ptrs avcc_stream ns)"
  using assms
proof (induction ns arbitrary: s)
  case Nil
  then show ?case
    by (subst avcc_loop.simps) (simp add: h264_avcc_length_end)
next
  case (Cons n ns)
  define d where "d = avcc_stream (n # ns)"
  have len: "length d = length n + 4 + length (avcc_stream ns)"
    by (simp add: d_def)
  have n: "n \<noteq> []"
    using Cons.prems by auto
  have "h264_avcc_length nd d (length d) 4 = Some (int (length n))"
    using Cons.prems unfolding d_def by (intro avcc_length_stream) simp_all
  moreover have "unat (of_int (int (length n)) :: u32) = length n"
    using Cons.prems by (simp add: INT_MAX_def unsigned_of_nat take_bit_nat_eq_self)
  moreover have "adv d 4 = Some (n @ avcc_stream ns)"
    "adv d (length n + 4) = Some (avcc_stream ns)" "length d - (length n + 4) = length (avcc_stream ns)"
    by (simp_all add: adv_def len) (simp_all add: d_def)
  moreover have "(\<not> 4 + length n < length d) = (ns = [])"
    using len by (cases ns) auto
  moreover have "avcc_loop nd handler 4 (avcc_stream ns) (length (avcc_stream ns)) r s' =
      (if r = 0 then run_nalus handler s' (nalu_ptrs avcc_stream ns) else Some (r, s'))" for r s'
  proof (cases "r = 0")
    case False
    show ?thesis
    proof (cases ns)
      case Nil
      with False show ?thesis
        by (subst avcc_loop.simps) (simp add: h264_avcc_length_end)
    next
      case (Cons m ms)
      with False Cons.prems have "h264_avcc_length nd (avcc_stream ns) (length (avcc_stream ns)) 4 = Some (int (length m))"
        using avcc_length_stream [of m nd ms] by (simp del: avcc_stream_simps)
      with False show ?thesis
        by (subst avcc_loop.simps) simp
    qed
  qed (use Cons in simp)
  ultimately show ?case
    using n len unfolding d_def [symmetric]
    by (subst avcc_loop.simps) simp
qed

section \<open>Safety on arbitrary input\<close>

definition handler_total :: "'s nalu_handler \<Rightarrow> bool" where
  "handler_total handler \<longleftrightarrow>
     (\<forall>s p n l. 0 < n \<and> n \<le> length p \<longrightarrow> handler s p n l \<noteq> None)"

lemma handler_totalD:
  "\<lbrakk>handler_total handler; 0 < n; n \<le> length p\<rbrakk> \<Longrightarrow> \<exists>r s'. handler s p n l = Some (r, s')"
  by (metis handler_total_def not_None_eq surj_pair)

lemma annexb_loop_total:
  fixes handler :: "'s nalu_handler"
  assumes "handler_total handler" "rest \<le> length p"
  shows "\<exists>r s'. annexb_loop True handler p rest s = Some (r, s')"
  using assms(2)
proof (induction rest arbitrary: p s rule: less_induct)
  case (less rest)
  from less.prems show ?case
  proof (cases rule: h264_startcode_total)
    case none
    obtain n where n: "trim_zeros p rest = Some n" "n \<le> rest"
      using trim_zeros_total [OF less.prems] by blast
    with none less.prems handler_totalD [OF assms(1), of n p s True] show ?thesis
      by (subst annexb_loop.simps) auto
  next
    case (found k)
    then have k: "k - 3 \<le> length p"
      using less.prems by simp
    obtain n where n: "trim_zeros p (k - 3) = Some n" "n \<le> k - 3"
      using trim_zeros_total [OF k] by blast
    have "\<exists>r s''. annexb_loop True handler (drop k p) (rest - k) s' = Some (r, s'')" for s' :: 's
      using found less.prems less.IH [of "rest - k" "drop k p" s'] by auto
    moreover have "n \<le> length p"
      using n found less.prems by linarith
    ultimately show ?thesis
      using found n less.prems handler_totalD [OF assms(1), of n p s False]
      by (subst annexb_loop.simps) (cases "n = 0"; auto)
  qed
qed

lemma avcc_read_total: "i + k \<le> length p \<Longrightarrow> \<exists>v. avcc_read p i k n = Some v"
  by (induction k arbitrary: i n) (auto simp: rd_Some)

lemma avcc_loop_total:
  fixes handler :: "'s nalu_handler"
  assumes "handler_total handler" "rest \<le> length p" "0 < avcc"
  shows "\<exists>r s'. avcc_loop True handler avcc p rest r0 s = Some (r, s')"
  using assms(2)
proof (induction rest arbitrary: p r0 s rule: less_induct)
  case (less rest)
  have "0 + min avcc rest \<le> length p"
    using less.prems by simp
  from avcc_read_total [OF this, of 0] obtain len where len: "h264_avcc_length True p rest avcc = Some len"
    by (auto simp: h264_avcc_length_def)
  define n where "n = unat (of_int len :: u32)"
  show ?case
  proof (cases "r0 = 0 \<and> n + avcc \<le> rest")
    case True
    have "\<exists>r s'. avcc_loop True handler avcc (drop (n + avcc) p) (rest - (n + avcc)) r1 s1 = Some (r, s')"
      for r1 and s1 :: 's
      using True less.prems assms(3) less.IH [of "rest - (n + avcc)" "drop (n + avcc) p" r1 s1] by simp
    moreover have "n \<le> length (drop avcc p)"
      using True less.prems by (simp; linarith)
    ultimately show ?thesis
      using True len less.prems handler_totalD [OF assms(1), of n "drop avcc p" s "\<not> avcc + n < rest"]
      by (subst avcc_loop.simps, simp add: n_def [symmetric] adv_Some) (cases "n = 0"; auto)
  next
    case False
    with len show ?thesis
      unfolding n_def by (subst avcc_loop.simps) auto
  qed
qed

lemma h264_bitstream_format_values:
  assumes "h264_bitstream_format nd data bytes = Some f"
  shows "f = -1 \<or> f = 0 \<or> f = 3 \<or> f = 4"
  using assms by (auto simp: h264_bitstream_format_def Let_def bind_Some_conv split: if_splits)

lemma h264_bitstream_format_annexb:
  "h264_bitstream_format nd (0 # 0 # 0 # 1 # p) (4 + n) = Some 0"
  by (simp add: h264_bitstream_format_def)

lemma unat_ucast_u8: "unat (ucast (x :: u8) :: u32) = unat x"
  by (simp add: unsigned_ucast_eq, rule take_bit_nat_eq_self, rule less_trans [OF unat_u8_less]) simp

lemma u24_eq:
  fixes a b c :: u8
  shows "(push_bit 16 (ucast a) OR push_bit 8 (ucast b) OR ucast c :: u32) = 0 \<longleftrightarrow> a = 0 \<and> b = 0 \<and> c = 0"
proof
  assume eq: "(push_bit 16 (ucast a) OR push_bit 8 (ucast b) OR ucast c :: u32) = 0"
  have "un32 0 a b c = 0"
    using eq by (simp add: un32_def or.assoc)
  then have "be32 (un32 0 a b c) = be32 0"
    by simp
  then show "a = 0 \<and> b = 0 \<and> c = 0"
    unfolding be32_un32 by (simp add: be32_def)
qed simp

lemma be32_not_annexb:
  fixes v :: u32
  assumes "2 \<le> v"
  shows "\<not> (ucast (drop_bit 24 v) = (0 :: u8) \<and> ucast (drop_bit 16 v) = (0 :: u8)
      \<and> ucast (drop_bit 8 v) = (0 :: u8) \<and> (ucast v :: u8) \<le> 1)"
proof
  assume a: "ucast (drop_bit 24 v) = (0 :: u8) \<and> ucast (drop_bit 16 v) = (0 :: u8)
      \<and> ucast (drop_bit 8 v) = (0 :: u8) \<and> (ucast v :: u8) \<le> 1"
  then have "v = un32 0 0 0 (ucast v)"
    using un32_be32 [of v] by simp
  also have "\<dots> = ucast (ucast v :: u8)"
    by (simp add: un32_def)
  finally have "unat v = unat (ucast v :: u8)"
    by (metis unat_ucast_u8)
  with a assms show False
    by (simp add: word_le_nat_alt)
qed

lemma h264_bitstream_format_avcc:
  assumes "h264_avcc_bitstream_valid nd (be32 v @ p) (4 + k) 4 \<noteq> Some False" "2 \<le> v"
  shows "h264_bitstream_format nd (be32 v @ p) (4 + k) =
    map_option (\<lambda>_. 4) (h264_avcc_bitstream_valid nd (be32 v @ p) (4 + k) 4)"
  using assms(1) be32_not_annexb [OF assms(2)]
  by (cases "h264_avcc_bitstream_valid nd (be32 v @ p) (4 + k) 4")
    (auto simp: h264_bitstream_format_def Let_def be32_def u24_eq)

lemma annexb_nalu_stream:
  assumes "ns \<noteq> []" "\<forall>n \<in> set ns. nal_ok n"
  shows "rtp_h264_annexb_nalu nd (annexb_stream ns) (length (annexb_stream ns)) handler s =
      run_nalus handler s (nalu_ptrs annexb_stream ns)"
proof (cases ns)
  case (Cons n ms)
  let ?p = "n @ annexb_stream ms"
  have nz: "?p \<noteq> []"
    using assms(2) Cons by (auto simp: nal_ok_def)
  have "startcode_from (0 # 0 # 0 # 1 # ?p) (4 + length ?p) 2 = Some (Some 4)"
    using nz startcode_step [of "4 + length ?p" "0 # 0 # 0 # 1 # ?p" 2]
      startcode_hit [of "4 + length ?p" "0 # 0 # 0 # 1 # ?p" 3]
    by (simp add: code_at_def)
  then have "rtp_h264_annexb_nalu nd (0 # 0 # 0 # 1 # ?p) (4 + length ?p) handler s
      = annexb_loop nd handler ?p (length ?p) s"
    unfolding rtp_h264_annexb_nalu_def h264_bitstream_format_annexb h264_startcode_def by simp
  moreover have "annexb_stream ns = 0 # 0 # 0 # 1 # ?p" "length (annexb_stream ns) = 4 + length ?p"
    using Cons by simp_all
  moreover have "annexb_loop nd handler ?p (length ?p) s = run_nalus handler s (nalu_ptrs annexb_stream ns)"
    using annexb_loop_stream [of n ms nd handler s] assms(2) Cons by simp
  ultimately show ?thesis
    by (simp only:)
qed (use assms in simp)

lemma avcc_nalu_stream:
  assumes "ns \<noteq> []" "\<forall>n \<in> set ns. 2 \<le> length n \<and> length n + 4 \<le> INT_MAX"
  shows "rtp_h264_annexb_nalu nd (avcc_stream ns) (length (avcc_stream ns)) handler s =
      run_nalus handler s (nalu_ptrs avcc_stream ns)"
proof (cases ns)
  case (Cons n ms)
  let ?p = "n @ avcc_stream ms"
  have "2 \<le> (of_nat (length n) :: u32)"
    using assms(2) Cons by (simp add: word_le_nat_alt unsigned_of_nat take_bit_nat_eq_self INT_MAX_def)
  moreover have "h264_avcc_bitstream_valid nd (be32 (of_nat (length n)) @ ?p) (4 + length ?p) 4 = Some True"
    using avcc_valid_stream [OF assms(2), of nd] Cons by simp
  ultimately have "h264_bitstream_format nd (be32 (of_nat (length n)) @ ?p) (4 + length ?p) = Some 4"
    by (subst h264_bitstream_format_avcc) simp_all
  then have "h264_bitstream_format nd (avcc_stream ns) (length (avcc_stream ns)) = Some 4"
    using Cons by simp
  with avcc_loop_stream [OF assms(2), of nd handler s] show ?thesis
    by (simp add: rtp_h264_annexb_nalu_def h264_avcc_nalu_def)
qed (use assms in simp)

section \<open>Properties\<close>



text \<open>C34: A stream of NAL units, each preceded by the start code \<open>00 00 00 01\<close>, is split into exactly
  these units, in order: the handler is called for every unit with a pointer to its first byte and
  its length, with \<open>last\<close> set on the final one only, and an error it returns ends the split and is
  the result.\<close>

theorem annexb_split:
  assumes "ns \<noteq> []" "\<forall>n \<in> set ns. nal_ok n"
  shows "rtp_h264_annexb_nalu nd (annexb_stream ns) (length (annexb_stream ns)) handler s =
      run_nalus handler s (nalu_ptrs annexb_stream ns)
    \<and> map (\<lambda>(p, k). take k p) (nalu_ptrs annexb_stream ns) = ns"
  by (simp add: annexb_nalu_stream [OF assms] nalu_ptrs_units)

theorem annexb_split_witness:
  "rtp_h264_annexb_nalu False (annexb_stream [[0x67, 5], [0x65, 0, 0, 3, 9]])
     (length (annexb_stream [[0x67, 5], [0x65, 0, 0, 3, 9]]))
     (\<lambda>s p n l. Some (0, s @ [(take n p, l)])) []
   = Some (0, [([0x67, 5], False), ([0x65, 0, 0, 3, 9], True)])"
proof -
  have u: "\<forall>n \<in> set [[0x67, 5], [0x65, 0, 0, 3, 9]]. nal_ok n"
    by code_simp
  show ?thesis
    by (rule trans [OF conjunct1 [OF annexb_split [OF _ u]]]) simp_all
qed

text \<open>A stream of NAL units, each preceded by its length in four bytes, is recognised as such, whatever
  the units contain, and split into exactly these units, in order.\<close>

theorem avcc_split:
  assumes "ns \<noteq> []" "\<forall>n \<in> set ns. 2 \<le> length n \<and> length n + 4 \<le> INT_MAX"
  shows "rtp_h264_annexb_nalu nd (avcc_stream ns) (length (avcc_stream ns)) handler s =
      run_nalus handler s (nalu_ptrs avcc_stream ns)
    \<and> map (\<lambda>(p, k). take k p) (nalu_ptrs avcc_stream ns) = ns"
  by (simp add: avcc_nalu_stream [OF assms] nalu_ptrs_units)

theorem avcc_split_witness:
  "rtp_h264_annexb_nalu False (avcc_stream [[0x67, 5], [0x65, 0, 0, 1, 9]])
     (length (avcc_stream [[0x67, 5], [0x65, 0, 0, 1, 9]]))
     (\<lambda>s p n l. Some (0, s @ [(take n p, l)])) []
   = Some (0, [([0x67, 5], False), ([0x65, 0, 0, 1, 9], True)])"
proof -
  have u: "\<forall>n \<in> set [[0x67, 5], [0x65, 0, 0, 1, 9 :: u8]]. 2 \<le> length n \<and> length n + 4 \<le> INT_MAX"
    by (simp add: INT_MAX_def)
  show ?thesis
    by (rule trans [OF conjunct1 [OF avcc_split [OF _ u]]]) simp_all
qed

text \<open>The probe for the AVCC format adds the announced length to the size of the length field in
  \<open>int\<close>. A first length of \<open>0x7FFFFFFC\<close> or more (and less than \<open>2^31\<close>) overflows, in every stream of
  at least six bytes.\<close>

theorem avcc_probe_overflow:
  assumes "0x7FFFFFFC \<le> v" "v < 0x80000000" "2 \<le> length p"
  shows "rtp_h264_annexb_nalu nd (be32 v @ p) (4 + length p) handler s = None"
proof -
  have "sint v = uint v"
    using assms(2) by (simp add: sint_uint word_less_def signed_take_bit_int_eq_self_iff)
      (use uint_ge_0 [of v] in linarith)
  moreover have "uint v \<ge> 0x7FFFFFFC"
    using assms(1) by (simp add: word_le_def)
  ultimately have "h264_avcc_bitstream_valid nd (be32 v @ p) (4 + length p) 4 = None"
    using assms(3) by (subst h264_avcc_bitstream_valid.simps)
      (auto simp add: h264_avcc_length_def avcc_read_be32 min_def INT_MAX_def)
  moreover have "2 \<le> v"
    using assms(1) by (rule order_trans [rotated]) simp
  ultimately show ?thesis
    by (simp add: rtp_h264_annexb_nalu_def h264_bitstream_format_avcc)
qed

theorem avcc_probe_overflow_witness:
  "rtp_h264_annexb_nalu True (be32 0x7FFFFFFF @ [1, 2]) (4 + length [1, 2 :: u8]) (\<lambda>s p n l. Some (0, ())) () = None"
  by (rule avcc_probe_overflow) simp_all

end
