(* ===== verification/Packet_Sink.thy ===== *)
theory Packet_Sink
  imports Rtp_Payload_Helper Rtp_Bitstream
begin

text \<open>
  What the H.264 and H.265 packers share. \<open>rtp-h264-pack.c\<close> and \<open>rtp-h265-pack.c\<close> build a packet in a
  buffer they get from the \<open>alloc\<close> callback and hand it to the \<open>packet\<close> callback, either with the
  whole NAL unit as payload or with a fragment behind a short prefix. The contract of the callbacks
  is the locale \<open>packet_sink\<close>: memory is always found, packets are taken in order and none is refused.
\<close>

definition set_marker :: "1 word \<Rightarrow> rtp_packet_t \<Rightarrow> rtp_packet_t" where
  "set_marker m pkt = pkt\<lparr>pk_rtp := (pk_rtp pkt)\<lparr>h_m := m\<rparr>\<rparr>"

definition next_seq :: "rtp_packet_t \<Rightarrow> rtp_packet_t" where
  "next_seq pkt = pkt\<lparr>pk_rtp := (pk_rtp pkt)\<lparr>h_seq := h_seq (pk_rtp pkt) + 1\<rparr>\<rparr>"

definition send_single ::
  "bool \<Rightarrow> 's rtp_payload_t \<Rightarrow> rtp_packet_t \<Rightarrow> 's \<Rightarrow> 1 word \<Rightarrow> (int \<times> rtp_packet_t \<times> 's) option" where
  "send_single nd handler pkt s m =
     (let n = 12 + pk_payloadlen pkt; (rtp, s) = alloc_cb handler s (nat n) in
      case rtp of
        None \<Rightarrow> Some (- ENOMEM, pkt, s)
      | Some buf \<Rightarrow> do {
          let pkt = set_marker m pkt;
          (n', buf) \<leftarrow> rtp_packet_serialize nd pkt buf n;
          if n' \<noteq> n then do { c_assert nd False; Some (-1, pkt, s) }
          else do {
            out \<leftarrow> c_slice buf 0 (nat n);
            let (r, s) = packet_cb handler s out (pk_timestamp pkt) 0;
            Some (r, next_seq pkt, free_cb handler s buf) } })"

text \<open>A fragment: the packet header, the prefix (the FU indicator or payload header, and the FU header),
  then \<open>payloadlen\<close> bytes of the NAL unit. A negative size is undefined in the copy.\<close>

fun write_prefix :: "u8 list \<Rightarrow> nat \<Rightarrow> u8 list \<Rightarrow> u8 list option" where
  "write_prefix buf off [] = Some buf"
| "write_prefix buf off (x # xs) = do { b \<leftarrow> wr buf off x; write_prefix b (off + 1) xs }"

definition send_fragment ::
  "bool \<Rightarrow> 's rtp_payload_t \<Rightarrow> rtp_packet_t \<Rightarrow> 's \<Rightarrow> u8 list \<Rightarrow> 1 word \<Rightarrow> (int \<times> rtp_packet_t \<times> 's \<times> bool) option" where
  "send_fragment nd handler pkt s prefix m =
     (if pk_payloadlen pkt < 0 then None else
      let len = nat (pk_payloadlen pkt); n = 12 + length prefix + len; (rtp, s) = alloc_cb handler s n in
      case rtp of
        None \<Rightarrow> Some (- ENOMEM, pkt, s, False)
      | Some buf \<Rightarrow> do {
          let pkt = set_marker m pkt;
          (n', buf) \<leftarrow> rtp_packet_serialize_header nd pkt buf (int n);
          if n' \<noteq> 12 then do { c_assert nd False; Some (-1, pkt, s, False) }
          else do {
            buf \<leftarrow> write_prefix buf 12 prefix;
            buf \<leftarrow> c_memcpy buf (12 + length prefix) (pk_payload pkt) len;
            out \<leftarrow> c_slice buf 0 n;
            let (r, s) = packet_cb handler s out (pk_timestamp pkt) 0;
            Some (r, pkt, free_cb handler s buf, True) } })"

section \<open>The loop over the fragments\<close>

text \<open>The loop is the same in both packers: \<open>pre\<close> is what stands before the FU header (one byte for
  H.264, two for H.265), \<open>msk\<close> clears the flags of the FU header, and \<open>sz\<close> is the largest packet. It
  does not end when a packet has no room for payload.\<close>

partial_function (option) fu_loop ::
  "bool \<Rightarrow> 's rtp_payload_t \<Rightarrow> int \<Rightarrow> 1 word \<Rightarrow> u8 list \<Rightarrow> u8 \<Rightarrow> rtp_packet_t \<Rightarrow> 's \<Rightarrow> u8 \<Rightarrow> u8 list \<Rightarrow> int \<Rightarrow> int
    \<Rightarrow> (int \<times> rtp_packet_t \<times> 's) option" where
  "fu_loop nd handler sz mark pre msk pkt s fu_header nalu bytes r =
     (if r = 0 \<and> bytes > 0 then do {
        let fits = (bytes + 12 \<le> sz - int (length pre + 1));
        c_assert nd (fits \<longrightarrow> fu_header AND 0x80 = 0);
        let fu_header = (if fits then 0x40 OR (fu_header AND msk) else fu_header);
        let len = (if fits then bytes else sz - 12 - int (length pre + 1));
        (r, pkt, s, go) \<leftarrow> send_fragment nd handler (pkt\<lparr>pk_payload := nalu, pk_payloadlen := len\<rparr>) s
          (pre @ [fu_header]) (if fu_header AND 0x40 \<noteq> 0 then mark else 0);
        if \<not> go then Some (r, pkt, s)
        else fu_loop nd handler sz mark pre msk (next_seq pkt) s (fu_header AND msk)
               (drop (nat len) nalu) (bytes - len) r }
      else Some (r, pkt, s))"

definition blank_packet :: "u8 \<Rightarrow> u16 \<Rightarrow> u32 \<Rightarrow> rtp_packet_t" where
  "blank_packet pt seq ssrc =
     \<lparr>pk_rtp = \<lparr>h_v = 2, h_p = 0, h_x = 0, h_cc = 0, h_m = 0, h_pt = ucast pt, h_seq = seq, h_timestamp = 0, h_ssrc = ssrc\<rparr>,
      pk_csrc = replicate 16 0, pk_extension = [], pk_extlen = 0, pk_extprofile = 0, pk_payload = [], pk_payloadlen = 0\<rparr>"

section \<open>The packet of a packer\<close>

definition plain_pkt :: "rtp_packet_t \<Rightarrow> bool" where
  "plain_pkt pkt \<longleftrightarrow> h_v (pk_rtp pkt) = 2 \<and> h_p (pk_rtp pkt) = 0 \<and> h_x (pk_rtp pkt) = 0 \<and> h_cc (pk_rtp pkt) = 0
     \<and> pk_csrc pkt = replicate 16 0 \<and> pk_extlen pkt = 0 \<and> pk_extprofile pkt = 0"

definition datagram :: "rtp_header_t \<Rightarrow> u8 list \<Rightarrow> u8 list" where
  "datagram h payload = rtp_header_bytes h @ payload"

lemma plain_pkt_update [simp]:
  "plain_pkt (set_marker m pkt) = plain_pkt pkt" "plain_pkt (next_seq pkt) = plain_pkt pkt"
  "plain_pkt (pkt\<lparr>pk_payload := p\<rparr>) = plain_pkt pkt" "plain_pkt (pkt\<lparr>pk_payloadlen := n\<rparr>) = plain_pkt pkt"
  "plain_pkt (pkt\<lparr>pk_rtp := (pk_rtp pkt)\<lparr>h_timestamp := t\<rparr>\<rparr>) = plain_pkt pkt"
  by (simp_all add: plain_pkt_def set_marker_def next_seq_def)

lemma set_marker_simps [simp]:
  "pk_payload (set_marker m pkt) = pk_payload pkt" "pk_payloadlen (set_marker m pkt) = pk_payloadlen pkt"
  "pk_rtp (set_marker m pkt) = (pk_rtp pkt)\<lparr>h_m := m\<rparr>"
  by (simp_all add: set_marker_def)

lemma next_seq_simps [simp]:
  "pk_payload (next_seq pkt) = pk_payload pkt" "pk_payloadlen (next_seq pkt) = pk_payloadlen pkt"
  "pk_rtp (next_seq pkt) = (pk_rtp pkt)\<lparr>h_seq := pk_seq pkt + 1\<rparr>"
  by (simp_all add: next_seq_def)

lemma plain_pkt_header_bytes: "plain_pkt pkt \<Longrightarrow> packet_header_bytes pkt = rtp_header_bytes (pk_rtp pkt)"
  by (simp add: plain_pkt_def packet_header_bytes_def)

lemma plain_pkt_wf: "\<lbrakk>plain_pkt pkt; pkt_ok pkt\<rbrakk> \<Longrightarrow> wf_packet pkt"
  by (simp add: plain_pkt_def pkt_ok_def wf_packet_def)

lemma plain_pkt_bytes: "plain_pkt pkt \<Longrightarrow> packet_bytes pkt = datagram (pk_rtp pkt) (pk_data pkt)"
  by (simp add: packet_bytes_def plain_pkt_header_bytes datagram_def pk_data_def)

lemma serialize_plain:
  assumes "plain_pkt pkt" "pkt_ok pkt" "nat (12 + pk_payloadlen pkt) \<le> length buf"
  shows "rtp_packet_serialize nd pkt buf (12 + pk_payloadlen pkt) =
    Some (12 + pk_payloadlen pkt, splice buf 0 (datagram (pk_rtp pkt) (pk_data pkt)))"
proof -
  have "int (length (packet_bytes pkt)) = 12 + pk_payloadlen pkt"
    using assms(1,2) by (auto simp: plain_pkt_bytes datagram_def length_pk_data pkt_ok_def)
  then show ?thesis
    using rtp_packet_serialize_eq [OF plain_pkt_wf [OF assms(1,2)], of "12 + pk_payloadlen pkt" buf nd] assms
    by (simp add: plain_pkt_bytes)
qed

lemma serialize_header_plain:
  assumes "plain_pkt pkt" "pkt_ok pkt" "12 \<le> n" "n \<le> length buf"
  shows "rtp_packet_serialize_header nd pkt buf (int n) = Some (12, splice buf 0 (rtp_header_bytes (pk_rtp pkt)))"
  using rtp_packet_serialize_header_eq [OF plain_pkt_wf [OF assms(1,2)], of "int n" buf nd] assms
  by (simp add: plain_pkt_header_bytes)

lemma write_prefix_eq:
  "off + length xs \<le> length b \<Longrightarrow> write_prefix b off xs = Some (splice b off xs)"
proof (induction xs arbitrary: b off)
  case Nil
  then show ?case by (simp add: splice_def)
next
  case (Cons x xs)
  then show ?case
    using splice_splice [of off "[x]" b xs] by (simp add: wr_splice)
qed

lemma take_splice_all: "length xs \<le> length b \<Longrightarrow> take (length xs) (splice b 0 xs) = xs"
  by (simp add: splice_0)

section \<open>Fragments\<close>

function chunks :: "nat \<Rightarrow> 'a list \<Rightarrow> 'a list list" where
  "chunks k xs = (if k = 0 \<or> length xs \<le> k then [xs] else take k xs # chunks k (drop k xs))"
  by pat_completeness auto
termination
  by (relation "measure (\<lambda>(k, xs). length xs)") auto

declare chunks.simps [simp del]

lemma chunks_not_Nil [simp]: "chunks k xs \<noteq> []"
  by (subst chunks.simps) simp

lemma concat_chunks [simp]: "concat (chunks k xs) = xs"
  by (induction k xs rule: chunks.induct) (subst chunks.simps, simp)

lemma length_chunks_le: "\<lbrakk>0 < k; x \<in> set (chunks k xs)\<rbrakk> \<Longrightarrow> length x \<le> k"
proof (induction k xs rule: chunks.induct)
  case (1 k xs)
  then show ?case
    by (cases "length xs \<le> k") (auto simp: chunks.simps [of k xs])
qed

fun fu_payloads :: "u8 list \<Rightarrow> u8 \<Rightarrow> u8 \<Rightarrow> u8 list list \<Rightarrow> (u8 list \<times> bool) list" where
  "fu_payloads pre hdr start [] = []"
| "fu_payloads pre hdr start [c] = [(pre @ [0x40 OR hdr] @ c, True)]"
| "fu_payloads pre hdr start (c # cs) = (pre @ [start OR hdr] @ c, False) # fu_payloads pre hdr 0 cs"

fun packetize :: "rtp_header_t \<Rightarrow> 1 word \<Rightarrow> (u8 list \<times> bool) list \<Rightarrow> u8 list list" where
  "packetize h mark [] = []"
| "packetize h mark ((p, e) # ps) =
     datagram (h\<lparr>h_m := if e then mark else 0\<rparr>) p # packetize (h\<lparr>h_seq := h_seq h + 1\<rparr>) mark ps"

lemma packetize_marker: "packetize (h\<lparr>h_m := m\<rparr>) mark ps = packetize h mark ps"
proof (induction ps arbitrary: h)
  case (Cons p ps)
  show ?case
    using Cons.IH [of "h\<lparr>h_seq := h_seq h + 1\<rparr>"] by (cases p; cases h) simp
qed simp

definition advanced :: "nat \<Rightarrow> rtp_packet_t \<Rightarrow> rtp_packet_t \<Rightarrow> bool" where
  "advanced n pkt pkt' \<longleftrightarrow> plain_pkt pkt' \<and>
     (pk_rtp pkt')\<lparr>h_m := 0\<rparr> = (pk_rtp pkt)\<lparr>h_m := 0, h_seq := pk_seq pkt + of_nat n\<rparr>"

text \<open>The packets of an access unit: those of its NAL units one after the other, \<open>f\<close> gives the payloads
  of one NAL unit.\<close>

fun nal_stream :: "(u8 list \<Rightarrow> (u8 list \<times> bool) list) \<Rightarrow> rtp_header_t \<Rightarrow> u8 list list \<Rightarrow> u8 list list" where
  "nal_stream f h [] = []"
| "nal_stream f h (n # ns) = packetize h (if ns = [] then 1 else 0) (f n)
     @ nal_stream f (h\<lparr>h_seq := h_seq h + of_nat (length (f n))\<rparr>) ns"

definition nal_step ::
  "(u8 list \<Rightarrow> (u8 list \<times> bool) list) \<Rightarrow> rtp_header_t \<times> (u8 list \<times> u32) list \<Rightarrow> u8 list \<Rightarrow> bool
    \<Rightarrow> rtp_header_t \<times> (u8 list \<times> u32) list" where
  "nal_step f = (\<lambda>(h, out) n l. (h\<lparr>h_seq := h_seq h + of_nat (length (f n))\<rparr>,
     out @ map (\<lambda>d. (d, h_timestamp h)) (packetize h (if l then 1 else 0) (f n))))"

lemma length_packetize_list [simp]: "length (packetize h mark ps) = length ps"
  by (induction h mark ps rule: packetize.induct) simp_all

lemma run_units_header:
  "fst (run_units (nal_step f) (h, out) ns) = h\<lparr>h_seq := h_seq h + of_nat (length (nal_stream f h ns))\<rparr>"
proof (induction ns arbitrary: h out)
  case (Cons n ns)
  show ?case
    by (simp add: nal_step_def Cons.IH [unfolded nal_step_def] ac_simps)
qed simp

lemma run_units_nal_step:
  "snd (run_units (nal_step f) (h, out) ns) = out @ map (\<lambda>d. (d, h_timestamp h)) (nal_stream f h ns)"
proof (induction ns arbitrary: h out)
  case (Cons n ns)
  show ?case
    by (simp add: nal_step_def Cons.IH [unfolded nal_step_def])
qed simp

text \<open>A datagram of a packer is parsed to its header and its payload.\<close>

definition plain_hdr :: "rtp_header_t \<Rightarrow> bool" where
  "plain_hdr h \<longleftrightarrow> h_v h = 2 \<and> h_p h = 0 \<and> h_x h = 0 \<and> h_cc h = 0"

definition dpkt :: "rtp_header_t \<Rightarrow> u8 list \<Rightarrow> rtp_packet_t" where
  "dpkt h p = \<lparr>pk_rtp = h, pk_csrc = replicate 16 0, pk_extension = [], pk_extlen = 0, pk_extprofile = 0,
     pk_payload = p, pk_payloadlen = int (length p)\<rparr>"

lemma dpkt_simps [simp]:
  "pk_rtp (dpkt h p) = h" "pk_payload (dpkt h p) = p" "pk_payloadlen (dpkt h p) = int (length p)"
  by (simp_all add: dpkt_def)

lemma plain_hdr_update [simp]:
  "plain_hdr (h\<lparr>h_m := m\<rparr>) = plain_hdr h" "plain_hdr (h\<lparr>h_seq := q\<rparr>) = plain_hdr h"
  by (simp_all add: plain_hdr_def)

lemma with_datagram:
  assumes "plain_hdr h"
  shows "with_packet nd (datagram h p) (int (length (datagram h p))) d s f = f (dpkt h p)"
proof -
  have "plain_pkt (dpkt h p)" "pkt_ok (dpkt h p)"
    using assms by (simp_all add: plain_pkt_def plain_hdr_def pkt_ok_def dpkt_def)
  then have "wf_packet (dpkt h p)" "packet_bytes (dpkt h p) = datagram h p"
    by (simp_all add: plain_pkt_wf plain_pkt_bytes pk_data_def)
  with with_packet_bytes [of "dpkt h p" nd d s f] assms show ?thesis
    by (simp add: plain_hdr_def pk_data_def dpkt_def)
qed

lemma length_fu_payloads [simp]: "length (fu_payloads pre hdr st cs) = length cs"
  by (induction pre hdr st cs rule: fu_payloads.induct) simp_all

lemma chunks_nonempty: "\<lbrakk>xs \<noteq> []; c \<in> set (chunks k xs)\<rbrakk> \<Longrightarrow> c \<noteq> []"
proof (induction k xs rule: chunks.induct)
  case (1 k xs)
  then show ?case
    by (cases "k = 0 \<or> length xs \<le> k") (auto simp: chunks.simps [of k xs])
qed

lemma length_packetize:
  "d \<in> set (packetize h mark ps) \<Longrightarrow> \<exists>p \<in> set ps. length d = 12 + length (fst p)"
  by (induction h mark ps rule: packetize.induct) (auto simp: datagram_def)

lemma length_fu_payload:
  "p \<in> set (fu_payloads pre hdr st cs) \<Longrightarrow> \<exists>c \<in> set cs. length (fst p) = length pre + 1 + length c"
  by (induction pre hdr st cs rule: fu_payloads.induct) auto

lemma length_nal_stream:
  "d \<in> set (nal_stream f h ns) \<Longrightarrow> \<exists>n \<in> set ns. \<exists>p \<in> set (f n). length d = 12 + length (fst p)"
  by (induction f h ns rule: nal_stream.induct) (auto dest: length_packetize)

text \<open>The body of an aggregation packet: every NAL unit behind its length in two bytes.\<close>

definition aggregate :: "u8 list list \<Rightarrow> u8 list" where
  "aggregate ns = concat (map (\<lambda>n. be16 (of_nat (length n)) @ n) ns)"

lemma aggregate_simps [simp]:
  "aggregate [] = []" "aggregate (n # ns) = be16 (of_nat (length n)) @ n @ aggregate ns"
  by (simp_all add: aggregate_def)

section \<open>The contract of the callbacks\<close>

locale packet_sink =
  fixes handler :: "'s rtp_payload_t"
    and sent :: "'s \<Rightarrow> (u8 list \<times> u32) list"
  assumes alloc: "\<exists>b s'. alloc_cb handler s n = (Some b, s') \<and> n \<le> length b \<and> sent s' = sent s"
    and packet: "\<exists>s'. packet_cb handler s p t f = (0, s') \<and> sent s' = sent s @ [(p, t)]"
    and free: "sent (free_cb handler s b) = sent s"
begin

lemma send_single_ok:
  assumes "plain_pkt pkt" "pkt_ok pkt"
  shows "ok (\<lambda>(r, pkt', s'). r = 0 \<and> pkt' = next_seq (set_marker m pkt) \<and>
      sent s' = sent s @ [(datagram ((pk_rtp pkt)\<lparr>h_m := m\<rparr>) (pk_data pkt), pk_timestamp pkt)])
    (send_single nd handler pkt s m)"
proof -
  let ?n = "12 + pk_payloadlen pkt" and ?q = "set_marker m pkt"
  obtain b s1 where a: "alloc_cb handler s (nat ?n) = (Some b, s1)" "nat ?n \<le> length b" "sent s1 = sent s"
    using alloc by blast
  define d where "d = datagram ((pk_rtp pkt)\<lparr>h_m := m\<rparr>) (pk_data pkt)"
  have d: "length d = nat ?n" "length d \<le> length b"
    using assms(2) a(2) by (auto simp: d_def datagram_def length_pk_data pkt_ok_def nat_add_distrib)
  have "pkt_ok ?q" "pk_data ?q = pk_data pkt"
    using assms(2) by (simp_all add: pkt_ok_def pk_data_def)
  then have ser: "rtp_packet_serialize nd ?q b ?n = Some (?n, splice b 0 d)"
    using serialize_plain [of ?q b nd] assms a(2) by (simp add: d_def)
  have sl: "c_slice (splice b 0 d) 0 (nat ?n) = Some d"
    using d take_splice_all [of d b] by (simp add: c_slice_def)
  obtain s2 where p: "packet_cb handler s1 d (pk_timestamp pkt) 0 = (0, s2)" "sent s2 = sent s1 @ [(d, pk_timestamp pkt)]"
    using packet by blast
  show ?thesis
    using a ser sl p free unfolding d_def [symmetric] by (simp add: send_single_def)
qed

lemma send_fragment_ok:
  assumes "plain_pkt pkt" "pkt_ok pkt"
  shows "ok (\<lambda>(r, pkt', s', c). r = 0 \<and> c \<and> pkt' = set_marker m pkt \<and>
      sent s' = sent s @ [(datagram ((pk_rtp pkt)\<lparr>h_m := m\<rparr>) (prefix @ pk_data pkt), pk_timestamp pkt)])
    (send_fragment nd handler pkt s prefix m)"
proof -
  let ?len = "nat (pk_payloadlen pkt)" and ?q = "set_marker m pkt"
  let ?n = "12 + length prefix + ?len" and ?k = "12 + length prefix"
  have len: "\<not> pk_payloadlen pkt < 0" "?len \<le> length (pk_payload pkt)" "length (pk_data pkt) = ?len"
    using assms(2) by (auto simp: pkt_ok_def length_pk_data)
  obtain b s1 where a: "alloc_cb handler s ?n = (Some b, s1)" "?n \<le> length b" "sent s1 = sent s"
    using alloc by blast
  let ?h = "rtp_header_bytes ((pk_rtp pkt)\<lparr>h_m := m\<rparr>)"
  define d where "d = datagram ((pk_rtp pkt)\<lparr>h_m := m\<rparr>) (prefix @ pk_data pkt)"
  have "pkt_ok ?q"
    using assms(2) by (simp add: pkt_ok_def)
  then have ser: "rtp_packet_serialize_header nd ?q b (int ?n) = Some (12, splice b 0 ?h)"
    using serialize_header_plain [of ?q ?n b nd] assms a(2) by simp
  have w: "write_prefix (splice b 0 ?h) 12 prefix = Some (splice b 0 (?h @ prefix))"
    using a(2) splice_splice [of 0 ?h b prefix] by (subst write_prefix_eq) simp_all
  have c: "c_memcpy (splice b 0 (?h @ prefix)) ?k (pk_payload pkt) ?len = Some (splice b 0 d)"
    using a(2) len splice_splice [of 0 "?h @ prefix" b "pk_data pkt"]
    by (subst c_memcpy_splice) (simp_all add: d_def datagram_def pk_data_def)
  have sl: "c_slice (splice b 0 d) 0 ?n = Some d"
    using a(2) len take_splice_all [of d b] by (simp add: c_slice_def d_def datagram_def add.assoc)
  obtain s2 where p: "packet_cb handler s1 d (pk_timestamp pkt) 0 = (0, s2)" "sent s2 = sent s1 @ [(d, pk_timestamp pkt)]"
    using packet by blast
  show ?thesis
    using a len ser w c sl p free unfolding d_def [symmetric] by (simp add: send_fragment_def Let_def)
qed

lemma fu_loop_ok:
  assumes sz: "sz = int (k + 12 + length pre + 1)" "0 < k"
    and hdr: "hdr AND msk = hdr" "hdr AND 0x80 = 0" "hdr AND 0x40 = 0" "msk AND 0x80 = 0"
    and "plain_pkt pkt" "nal \<noteq> []" "start = 0 \<or> start = 0x80 \<and> k < length nal"
  shows "ok (\<lambda>(r, pkt', s'). r = 0 \<and> advanced (length (chunks k nal)) pkt pkt' \<and>
      sent s' = sent s @ map (\<lambda>d. (d, pk_timestamp pkt)) (packetize (pk_rtp pkt) mark (fu_payloads pre hdr start (chunks k nal))))
    (fu_loop nd handler sz mark pre msk pkt s (start OR hdr) (nal @ rest) (int (length nal)) 0)"
  using assms(7-9)
proof (induction "length nal" arbitrary: nal pkt s start rule: less_induct)
  case less
  have "0x80 AND msk = 0"
    using hdr(4) by (simp add: and.commute)
  then have bits: "(start OR hdr) AND msk = hdr" "(start OR hdr) AND 0x40 = 0" "(0x40 OR hdr) AND 0x40 \<noteq> 0"
    "start = 0 \<Longrightarrow> (start OR hdr) AND 0x80 = 0"
    using less.prems(3) hdr by (auto simp: bit.conj_disj_distrib2)
  show ?case
  proof (cases "length nal \<le> k")
    case True
    with less.prems have st: "start = 0" "chunks k nal = [nal]"
      by (auto simp: chunks.simps [of k nal])
    let ?q = "pkt\<lparr>pk_payload := nal @ rest, pk_payloadlen := int (length nal)\<rparr>"
    have q: "plain_pkt ?q" "pkt_ok ?q" "pk_data ?q = nal"
      using less.prems by (simp_all add: pkt_ok_def pk_data_def)
    have f: "int (length nal) + 12 \<le> sz - int (length pre + 1)"
      using True sz by simp
    show ?thesis
      using less.prems(2) f st bits q
      by (subst fu_loop.simps)
        (auto simp: ok_simps Let_def fu_loop.simps [where bytes = 0] advanced_def
          intro!: okI_mono [OF send_fragment_ok [OF q(1,2)]])
  next
    case False
    let ?c = "take k nal" and ?d = "drop k nal"
    have ch: "chunks k nal = ?c # chunks k ?d"
      using False sz by (subst chunks.simps) simp
    let ?q = "pkt\<lparr>pk_payload := nal @ rest, pk_payloadlen := int k\<rparr>"
    have q: "plain_pkt ?q" "pkt_ok ?q" "pk_data ?q = ?c"
      using less.prems False by (simp_all add: pkt_ok_def pk_data_def)
    have f: "\<not> int (length nal) + 12 \<le> sz - int (length pre + 1)" "sz - 12 - int (length pre + 1) = int k"
      using False sz by simp_all
    have pay: "fu_payloads pre hdr start (?c # chunks k ?d)
        = (pre @ [start OR hdr] @ ?c, False) # fu_payloads pre hdr 0 (chunks k ?d)"
      by (cases "chunks k ?d") simp_all
    let ?p = "next_seq (set_marker 0 ?q)"
    have "ok (\<lambda>(r, pkt', s'). r = 0 \<and> advanced (length (chunks k ?d)) ?p pkt' \<and>
      sent s' = sent s1 @ map (\<lambda>d. (d, pk_timestamp ?p)) (packetize (pk_rtp ?p) mark (fu_payloads pre hdr 0 (chunks k ?d))))
      (fu_loop nd handler sz mark pre msk ?p s1 (0 OR hdr) (?d @ rest) (int (length ?d)) 0)" for s1
      using False sz less.prems by (intro less.hyps) auto
    moreover have "int (length ?d) = int (length nal) - int k" "0 OR hdr = hdr"
      using False by simp_all
    ultimately have IH: "ok (\<lambda>(r, pkt', s'). r = 0 \<and> advanced (length (chunks k ?d)) ?p pkt' \<and>
      sent s' = sent s1 @ map (\<lambda>d. (d, pk_timestamp ?p)) (packetize (pk_rtp ?p) mark (fu_payloads pre hdr 0 (chunks k ?d))))
      (fu_loop nd handler sz mark pre msk ?p s1 hdr (?d @ rest) (int (length nal) - int k) 0)" for s1
      by metis
    have pz: "packetize ((pk_rtp pkt)\<lparr>h_m := 0, h_seq := x\<rparr>) mark ps = packetize ((pk_rtp pkt)\<lparr>h_seq := x\<rparr>) mark ps" for x ps
      using packetize_marker [of 0 "(pk_rtp pkt)\<lparr>h_seq := x\<rparr>" mark ps] by (cases "pk_rtp pkt") simp
    have adv: "advanced n ?p pkt' \<Longrightarrow> advanced (Suc n) pkt pkt'" for n pkt'
      by (cases "pk_rtp pkt") (simp add: advanced_def add.assoc)
    show ?thesis
      using less.prems(2) f bits False
      by (subst fu_loop.simps)
        (auto simp: ok_simps Let_def ch pay pz q(3) intro!: okI_mono [OF send_fragment_ok [OF q(1,2)]]
          okI_mono [OF IH] adv)
  qed
qed

end

end
