(* ===== verification/Video_Restreamer.thy ===== *)
theory Video_Restreamer
  imports Packet_Sink
begin

text \<open>
  \<open>src/video_restreamer.cpp\<close>: the callbacks with which the restreamer takes packets from a packer and
  gives them to its socket. The socket is not part of the sources: \<open>send i packet\<close> is what its
  \<open>i\<close>-th call of \<open>send\<close> returns. The callbacks meet the contract \<open>packet_sink\<close> whatever the socket
  answers: a packet the socket refuses is counted as dropped and not reported to the packer.
\<close>

record restreamer =
  vr_pkt :: "u8 list"
  vr_out :: "(u8 list \<times> u32) list"
  vr_packets_sent :: u64
  vr_bytes_sent :: u64
  vr_packets_dropped :: u64

definition send_packet :: "(nat \<Rightarrow> u8 list \<Rightarrow> int) \<Rightarrow> restreamer \<Rightarrow> u8 list \<Rightarrow> u32 \<Rightarrow> restreamer" where
  "send_packet send self packet timestamp =
     (let n = send (length (vr_out self)) packet;
          self = self\<lparr>vr_out := vr_out self @ [(packet, timestamp)]\<rparr> in
      if n = int (length packet)
      then self\<lparr>vr_packets_sent := vr_packets_sent self + 1,
                vr_bytes_sent := vr_bytes_sent self + of_nat (length packet)\<rparr>
      else self\<lparr>vr_packets_dropped := vr_packets_dropped self + 1\<rparr>)"

definition cb_alloc :: "restreamer \<Rightarrow> nat \<Rightarrow> u8 list option \<times> restreamer" where
  "cb_alloc self bytes =
     (let pkt = take bytes (vr_pkt self) @ replicate (bytes - length (vr_pkt self)) 0 in
      (Some pkt, self\<lparr>vr_pkt := pkt\<rparr>))"

definition cb_free :: "restreamer \<Rightarrow> u8 list \<Rightarrow> restreamer" where
  "cb_free self packet = self"

definition cb_packet :: "(nat \<Rightarrow> u8 list \<Rightarrow> int) \<Rightarrow> restreamer \<Rightarrow> u8 list \<Rightarrow> u32 \<Rightarrow> int \<Rightarrow> int \<times> restreamer" where
  "cb_packet send self packet timestamp flags = (0, send_packet send self packet timestamp)"

definition restream_handler :: "(nat \<Rightarrow> u8 list \<Rightarrow> int) \<Rightarrow> restreamer rtp_payload_t" where
  "restream_handler send = \<lparr>alloc_cb = cb_alloc, free_cb = cb_free, packet_cb = cb_packet send\<rparr>"

definition new_restreamer :: restreamer where
  "new_restreamer = \<lparr>vr_pkt = [], vr_out = [], vr_packets_sent = 0, vr_bytes_sent = 0, vr_packets_dropped = 0\<rparr>"

lemma vr_out_send_packet [simp]: "vr_out (send_packet send self p t) = vr_out self @ [(p, t)]"
  by (simp add: send_packet_def Let_def)

interpretation vr: packet_sink "restream_handler send" vr_out for send
  by unfold_locales
    (auto simp: restream_handler_def cb_alloc_def cb_free_def cb_packet_def Let_def)

end
