(* ===== verification/H264_Pack.thy ===== *)
theory H264_Pack
  imports Video_Restreamer H264_Unpack
begin

text \<open>
  \<open>lib/librtp/payload/rtp-h264-pack.c\<close>: from H.264 NAL units to RTP packets (RFC 6184). A NAL unit that
  fits a packet is sent alone, a larger one as FU-A fragments. The lemmas describe the packets that
  reach the callbacks, and show that the unpacker makes the same NAL units of them again.
\<close>

record rtp_encode_h264_t =
  p4_pkt :: rtp_packet_t
  p4_size :: int

definition rtp_h264_pack_create :: "int \<Rightarrow> u8 \<Rightarrow> u16 \<Rightarrow> u32 \<Rightarrow> rtp_encode_h264_t" where
  "rtp_h264_pack_create sz pt seq ssrc = \<lparr>p4_pkt = blank_packet pt seq ssrc, p4_size = sz\<rparr>"

definition rtp_h264_pack_get_info :: "rtp_encode_h264_t \<Rightarrow> u16 \<times> u32" where
  "rtp_h264_pack_get_info packer = (pk_seq (p4_pkt packer), pk_timestamp (p4_pkt packer))"

definition rtp_h264_pack_nalu ::
  "bool \<Rightarrow> 's rtp_payload_t \<Rightarrow> rtp_encode_h264_t \<Rightarrow> 's \<Rightarrow> u8 list \<Rightarrow> int \<Rightarrow> 1 word \<Rightarrow> (int \<times> rtp_encode_h264_t \<times> 's) option" where
  "rtp_h264_pack_nalu nd handler packer s nalu bytes mark = do {
     x \<leftarrow> rd nalu 0;
     (r, pkt, s) \<leftarrow> send_single nd handler ((p4_pkt packer)\<lparr>pk_payload := nalu, pk_payloadlen := bytes\<rparr>) s
       (if x AND 0x1F \<le> 5 then mark else 0);
     Some (r, packer\<lparr>p4_pkt := pkt\<rparr>, s) }"

definition rtp_h264_pack_fu_a ::
  "bool \<Rightarrow> 's rtp_payload_t \<Rightarrow> rtp_encode_h264_t \<Rightarrow> 's \<Rightarrow> u8 list \<Rightarrow> int \<Rightarrow> 1 word \<Rightarrow> (int \<times> rtp_encode_h264_t \<times> 's) option" where
  "rtp_h264_pack_fu_a nd handler packer s nalu bytes mark = do {
     x \<leftarrow> rd nalu 0;
     let fu_indicator = (x AND 0xE0) OR 28;
     let fu_header = x AND 0x1F;
     c_assert nd (bytes - 1 > 0);
     (r, pkt, s) \<leftarrow> fu_loop nd handler (p4_size packer) mark [fu_indicator] 0x1F (p4_pkt packer) s
       (0x80 OR fu_header) (drop 1 nalu) (bytes - 1) 0;
     Some (r, packer\<lparr>p4_pkt := pkt\<rparr>, s) }"

definition rtp_h264_pack_handler ::
  "bool \<Rightarrow> 's rtp_payload_t \<Rightarrow> rtp_encode_h264_t \<times> 's \<Rightarrow> u8 list \<Rightarrow> nat \<Rightarrow> bool \<Rightarrow> (int \<times> rtp_encode_h264_t \<times> 's) option" where
  "rtp_h264_pack_handler nd handler ps nalu bytes is_last =
     (if int bytes + 12 \<le> p4_size (fst ps)
      then rtp_h264_pack_nalu nd handler (fst ps) (snd ps) nalu (int bytes) (if is_last then 1 else 0)
      else rtp_h264_pack_fu_a nd handler (fst ps) (snd ps) nalu (int bytes) (if is_last then 1 else 0))"

definition rtp_h264_pack_input ::
  "bool \<Rightarrow> 's rtp_payload_t \<Rightarrow> rtp_encode_h264_t \<Rightarrow> 's \<Rightarrow> u8 list \<Rightarrow> nat \<Rightarrow> u32 \<Rightarrow> (int \<times> rtp_encode_h264_t \<times> 's) option" where
  "rtp_h264_pack_input nd handler packer s h264 bytes timestamp =
     (let pkt = p4_pkt packer;
          packer = packer\<lparr>p4_pkt := pkt\<lparr>pk_rtp := (pk_rtp pkt)\<lparr>h_timestamp := timestamp\<rparr>\<rparr>\<rparr> in
      rtp_h264_annexb_nalu nd h264 bytes (rtp_h264_pack_handler nd handler) (packer, s))"

section \<open>The packets of a NAL unit\<close>

definition h264_payloads :: "nat \<Rightarrow> u8 list \<Rightarrow> (u8 list \<times> bool) list" where
  "h264_payloads sz nal =
     (if length nal + 12 \<le> sz then [(nal, hd nal AND 0x1F \<le> 5)]
      else fu_payloads [(hd nal AND 0xE0) OR 28] (hd nal AND 0x1F) 0x80 (chunks (sz - 14) (tl nal)))"

definition p4_inv :: "rtp_encode_h264_t \<Rightarrow> bool" where
  "p4_inv p \<longleftrightarrow> plain_pkt (p4_pkt p) \<and> 14 < p4_size p"

definition p4_rel :: "int \<Rightarrow> ('s \<Rightarrow> (u8 list \<times> u32) list) \<Rightarrow> rtp_encode_h264_t \<times> 's
    \<Rightarrow> rtp_header_t \<times> (u8 list \<times> u32) list \<Rightarrow> bool" where
  "p4_rel sz sent ps a \<longleftrightarrow> p4_inv (fst ps) \<and> p4_size (fst ps) = sz
     \<and> (pk_rtp (p4_pkt (fst ps)))\<lparr>h_m := 0\<rparr> = fst a \<and> sent (snd ps) = snd a"

context packet_sink
begin

lemma h264_pack_handler_ok:
  assumes "p4_inv p" "nal \<noteq> []"
  shows "ok (\<lambda>(r, p', s'). r = 0 \<and> p4_inv p' \<and> p4_size p' = p4_size p \<and>
      advanced (length (h264_payloads (nat (p4_size p)) nal)) (p4_pkt p) (p4_pkt p') \<and>
      sent s' = sent s @ map (\<lambda>d. (d, pk_timestamp (p4_pkt p)))
        (packetize (pk_rtp (p4_pkt p)) (if l then 1 else 0) (h264_payloads (nat (p4_size p)) nal)))
    (rtp_h264_pack_handler nd handler (p, s) (nal @ rest) (length nal) l)"
proof -
  define m :: "1 word" where "m = (if l then 1 else 0)"
  have pl: "plain_pkt (p4_pkt p)" and sz: "14 < p4_size p"
    using assms(1) by (auto simp: p4_inv_def)
  have hd: "rd (nal @ rest) 0 = Some (hd nal)"
    using assms(2) by (cases nal) auto
  show ?thesis
  proof (cases "int (length nal) + 12 \<le> p4_size p")
    case True
    let ?q = "(p4_pkt p)\<lparr>pk_payload := nal @ rest, pk_payloadlen := int (length nal)\<rparr>"
    have q: "plain_pkt ?q" "pkt_ok ?q" "pk_data ?q = nal"
      using pl by (simp_all add: pkt_ok_def pk_data_def)
    have pay: "h264_payloads (nat (p4_size p)) nal = [(nal, hd nal AND 0x1F \<le> 5)]"
      using True by (auto simp: h264_payloads_def)
    show ?thesis
      using True hd sz pay q(1,3) unfolding rtp_h264_pack_handler_def rtp_h264_pack_nalu_def m_def [symmetric]
      by (auto simp: ok_simps p4_inv_def advanced_def intro!: okI_mono [OF send_single_ok [OF q(1,2)]])
  next
    case False
    obtain x t where nal: "nal = x # t"
      using assms(2) by (cases nal) auto
    define k where "k = nat (p4_size p) - 14"
    have k: "p4_size p = int (k + 12 + length [(x AND 0xE0) OR 28] + 1)" "0 < k" "k < length t"
      using sz False nal by (auto simp: k_def)
    have pay: "h264_payloads (nat (p4_size p)) nal
        = fu_payloads [(x AND 0xE0) OR 28] (x AND 0x1F) 0x80 (chunks k t)"
      using False nal by (auto simp: h264_payloads_def k_def)
    have bits: "(x AND 0x1F) AND 0x1F = x AND 0x1F" "(x AND 0x1F) AND 0x80 = 0" "(x AND 0x1F) AND 0x40 = 0" "(0x1F :: u8) AND 0x80 = 0"
      by (simp_all add: and.assoc)
    have t: "t \<noteq> []" "(0x80 :: u8) = 0 \<or> (0x80 :: u8) = 0x80 \<and> k < length t"
      using k(3) by auto
    note loop = fu_loop_ok [OF k(1,2) bits pl t, of s m nd rest]
    show ?thesis
      using False nal sz pay k(3) unfolding rtp_h264_pack_handler_def rtp_h264_pack_fu_a_def m_def [symmetric]
      by (auto simp: ok_simps Let_def p4_inv_def advanced_def intro!: okI_mono [OF loop])
  qed
qed

lemma h264_pack_step:
  assumes "p4_rel sz sent ps a" "nal \<noteq> []"
  shows "ok (\<lambda>(r, ps'). r = 0 \<and> p4_rel sz sent ps' (nal_step (h264_payloads (nat sz)) a nal l))
    (rtp_h264_pack_handler nd handler ps (nal @ rest) (length nal) l)"
proof -
  obtain p s where ps: "ps = (p, s)"
    by (cases ps) auto
  obtain h out where a: "a = (h, out)"
    by (cases a) auto
  have r: "p4_inv p" "p4_size p = sz" "(pk_rtp (p4_pkt p))\<lparr>h_m := 0\<rparr> = h" "sent s = out"
    using assms(1) by (simp_all add: p4_rel_def ps a)
  have h: "h_timestamp h = pk_timestamp (p4_pkt p)" "h_seq h = pk_seq (p4_pkt p)"
    "packetize h m qs = packetize (pk_rtp (p4_pkt p)) m qs" for m qs
    using packetize_marker [of 0 "pk_rtp (p4_pkt p)"] by (simp_all flip: r(3))
  show ?thesis
    unfolding ps a nal_step_def
    by (rule okI_mono [OF h264_pack_handler_ok [OF r(1) assms(2)]])
      (use r h in \<open>cases "pk_rtp (p4_pkt p)"; auto simp: p4_rel_def advanced_def\<close>)
qed

lemma h264_pack_stream:
  assumes "p4_inv p" "ns \<noteq> []" "\<forall>n \<in> set ns. nal_ok n"
  shows "ok (\<lambda>(r, p', s'). r = 0 \<and> p4_inv p' \<and>
      sent s' = sent s @ map (\<lambda>d. (d, ts)) (nal_stream (h264_payloads (nat (p4_size p)))
        ((pk_rtp (p4_pkt p))\<lparr>h_m := 0, h_timestamp := ts\<rparr>) ns))
    (rtp_h264_pack_input nd handler p s (annexb_stream ns) (length (annexb_stream ns)) ts)"
proof -
  define h where "h = (pk_rtp (p4_pkt p))\<lparr>h_m := 0, h_timestamp := ts\<rparr>"
  define q where "q = p\<lparr>p4_pkt := (p4_pkt p)\<lparr>pk_rtp := (pk_rtp (p4_pkt p))\<lparr>h_timestamp := ts\<rparr>\<rparr>\<rparr>"
  have rel: "p4_rel (p4_size p) sent (q, s) (h, sent s)"
    using assms(1) by (cases "pk_rtp (p4_pkt p)") (simp add: p4_rel_def q_def h_def p4_inv_def plain_pkt_def)
  have "ok (\<lambda>(r, ps'). r = 0 \<and> p4_rel (p4_size p) sent ps'
        (run_units (nal_step (h264_payloads (nat (p4_size p)))) (h, sent s) ns))
      (run_nalus (rtp_h264_pack_handler nd handler) (q, s) (nalu_ptrs annexb_stream ns))"
    by (rule run_nalus_simulation [where Rel = "p4_rel (p4_size p) sent"], rule h264_pack_step)
      (use assms(3) rel in \<open>auto simp: nal_ok_def\<close>)
  then show ?thesis
    unfolding rtp_h264_pack_input_def Let_def q_def [symmetric] h_def [symmetric] annexb_nalu_stream [OF assms(2,3)]
    by (rule okI_mono) (auto simp: p4_rel_def run_units_nal_step, simp add: h_def)
qed

end

section \<open>Unpacking what was packed\<close>

text \<open>The unpacker between two NAL units, and in the middle of a fragmented one.\<close>

definition u4_sync :: "rtp_decode_h264_t \<Rightarrow> u16 \<Rightarrow> bool" where
  "u4_sync u q \<longleftrightarrow> u4_inv u \<and> u4_size u = 0 \<and> (u4_flags u = -1 \<or> u4_flags u = 0 \<and> u4_seq u + 1 = q)"

definition u4_part :: "rtp_decode_h264_t \<Rightarrow> u16 \<Rightarrow> u8 list \<Rightarrow> bool" where
  "u4_part u q fr \<longleftrightarrow> u4_inv u \<and> u4_flags u = 0 \<and> u4_seq u + 1 = q \<and> fr \<noteq> [] \<and> u4_size u = length fr
     \<and> take (u4_size u) (hb_bytes (u4_ptr u)) = fr"

lemma u4_sync_create: "u4_sync rtp_h264_unpack_create q"
  using u4_inv_create by (simp add: u4_sync_def rtp_h264_unpack_create_def)

lemma h264_track_sync:
  assumes "u4_sync u (h_seq h)"
  shows "u4_inv (h264_track u (dpkt h p))" "u4_flags (h264_track u (dpkt h p)) = 0" "u4_size (h264_track u (dpkt h p)) = 0"
    "u4_seq (h264_track u (dpkt h p)) = h_seq h"
  using assms by (auto simp: u4_sync_def h264_track_def Let_def)

lemma h264_track_part:
  assumes "u4_part u (h_seq h) fr"
  shows "h264_track u (dpkt h p) = u\<lparr>u4_seq := h_seq h\<rparr>"
  using assms by (auto simp: u4_part_def h264_track_def Let_def)

lemma h264_unpack_single:
  assumes "plain_hdr h" "u4_sync u (h_seq h)" "n \<noteq> []" "H264_NAL (hd n) \<in> {1..23}"
  shows "\<exists>u'. rtp_h264_unpack_input nd mem handler u s (datagram h n) (int (length (datagram h n))) =
      Some (handled (fst (emit_nal handler s n (h_timestamp h) 0)), u', snd (emit_nal handler s n (h_timestamp h) 0))
    \<and> u4_sync u' (h_seq h + 1)"
proof -
  obtain x t where n: "n = x # t"
    using assms(3) by (cases n) auto
  note tr = h264_track_sync [OF assms(2), of n]
  show ?thesis
    using assms(1,4) tr by (auto simp: rtp_h264_unpack_input_def with_datagram h264_dispatch_def Let_def n
        c_slice_def u4_sync_def split: prod.splits)
qed

lemma h264_reserve_True: "\<exists>v. h264_reserve (\<lambda>_. True) u bytes n = Some v"
  by (simp add: h264_reserve_def Let_def)

text \<open>What one fragment does to the buffer.\<close>

lemma h264_fu_fragment:
  assumes "u4_inv u" "c \<noteq> []" "u4_size u + length c \<le> RTP_PAYLOAD_MAX_SIZE" "fh AND 0x80 \<noteq> 0 \<or> u4_size u \<noteq> 0"
    and fr: "fr = (if fh AND 0x80 \<noteq> 0 then [(ind AND 0xE0) OR (fh AND 0x1F)] else take (u4_size u) (hb_bytes (u4_ptr u)))"
  shows "\<exists>u'. rtp_h264_unpack_fu (\<lambda>_. True) handler u s (ind # fh # c) (length c + 2) ts False = h264_fu_end handler u' s fh ts
    \<and> u4_inv u' \<and> u4_flags u' = u4_flags u \<and> u4_seq u' = u4_seq u \<and> u4_size u' = length (fr @ c)
    \<and> take (u4_size u') (hb_bytes (u4_ptr u')) = fr @ c"
proof -
  obtain v where v: "h264_reserve (\<lambda>_. True) u (length c + 2) 2 = Some v"
    using h264_reserve_True by blast
  have r: "u4_inv v" "u4_size u + length c + 1 \<le> hb_cap (u4_ptr v)" "v = u\<lparr>u4_ptr := u4_ptr v\<rparr>"
    "take (u4_size u) (hb_bytes (u4_ptr v)) = take (u4_size u) (hb_bytes (u4_ptr u))"
    using h264_reserve_ok [OF assms(1) _ _ _ v] assms(3) by auto
  have f: "u4_size v = u4_size u" "u4_flags v = u4_flags u" "u4_seq v = u4_seq u"
    by (subst r(3), simp)+
  have len: "u4_size u \<le> length (hb_bytes (u4_ptr v))" "u4_size u \<le> length (hb_bytes (u4_ptr u))"
    using r(1) f assms(1) by (simp_all add: u4_inv_def)
  have "ok (\<lambda>w. u4_inv w \<and> u4_size w + length c \<le> hb_cap (u4_ptr w) \<and> u4_size w + length c \<le> RTP_PAYLOAD_MAX_SIZE + 1
      \<and> u4_size w = length fr \<and> take (u4_size w) (hb_bytes (u4_ptr w)) = fr \<and> u4_flags w = u4_flags u \<and> u4_seq w = u4_seq u)
    (h264_fu_start v (ind # fh # c) fh)"
    using r(1,2,4) f len assms(3) unfolding fr
    by (auto simp: h264_fu_start_def ok_simps u4_inv_def hb_wf_def splice_def min_def)
  then obtain w where w: "h264_fu_start v (ind # fh # c) fh = Some w" "u4_inv w" "u4_size w + length c \<le> hb_cap (u4_ptr w)"
    "u4_size w + length c \<le> RTP_PAYLOAD_MAX_SIZE + 1" "u4_size w = length fr" "take (u4_size w) (hb_bytes (u4_ptr w)) = fr"
    "u4_flags w = u4_flags u" "u4_seq w = u4_seq u"
    unfolding ok_iff by (elim exE conjE) (rule that; assumption)
  define x where "x = w\<lparr>u4_timestamp := ts, u4_ptr := (u4_ptr w)\<lparr>hb_bytes := splice (hb_bytes (u4_ptr w)) (u4_size w) c\<rparr>,
    u4_size := u4_size w + length c\<rparr>"
  have app: "h264_fu_append (w\<lparr>u4_timestamp := ts\<rparr>) (ind # fh # c) 2 (length c + 2) = Some x"
    using w assms(2) by (simp add: h264_fu_append_def c_slice_def hb_write_def u4_inv_def x_def)
  have "u4_inv x" "u4_flags x = u4_flags u" "u4_seq x = u4_seq u" "u4_size x = length (fr @ c)"
    "take (u4_size x) (hb_bytes (u4_ptr x)) = fr @ c"
    using w(2-8) by (auto simp: x_def u4_inv_def hb_wf_def splice_def)
  moreover have "fr \<noteq> []"
    using assms(1,4) fr by (auto simp: u4_inv_def)
  ultimately show ?thesis
    using v w(1,5) app assms(3,4)
    by (intro exI [of _ x]) (auto simp: rtp_h264_unpack_fu_def Let_def)
qed

lemma h264_unpack_fragment:
  assumes "plain_hdr h" "c \<noteq> []" "H264_NAL ind = 28"
    and "fh AND 0x80 \<noteq> 0 \<and> u4_sync u (h_seq h) \<and> fr = [(ind AND 0xE0) OR (fh AND 0x1F)]
      \<or> fh AND 0x80 = 0 \<and> u4_part u (h_seq h) fr"
    and "length fr + length c \<le> RTP_PAYLOAD_MAX_SIZE"
  shows "\<exists>u'. rtp_h264_unpack_input nd (\<lambda>_. True) handler u s (datagram h (ind # fh # c)) (int (length (datagram h (ind # fh # c)))) =
      (if fh AND 0x40 \<noteq> 0 then
         Some (handled (fst (emit_nal handler s (fr @ c) (h_timestamp h) 0)), u', snd (emit_nal handler s (fr @ c) (h_timestamp h) 0))
       else Some (1, u', s))
    \<and> (if fh AND 0x40 \<noteq> 0 then u4_sync u' (h_seq h + 1) else u4_part u' (h_seq h + 1) (fr @ c))"
proof -
  define v where "v = h264_track u (dpkt h (ind # fh # c))"
  have v: "u4_inv v" "u4_flags v = 0" "u4_seq v = h_seq h" "u4_size v + length c \<le> RTP_PAYLOAD_MAX_SIZE"
    "fh AND 0x80 \<noteq> 0 \<or> u4_size v \<noteq> 0"
    "fr = (if fh AND 0x80 \<noteq> 0 then [(ind AND 0xE0) OR (fh AND 0x1F)] else take (u4_size v) (hb_bytes (u4_ptr v)))"
    using assms(4,5) h264_track_sync [of u h "ind # fh # c"] h264_track_part [of u h fr "ind # fh # c"]
    by (auto simp: v_def u4_part_def)
  from h264_fu_fragment [OF v(1) assms(2) v(4,5,6), of handler s "h_timestamp h"] obtain u' where
    u': "rtp_h264_unpack_fu (\<lambda>_. True) handler v s (ind # fh # c) (length c + 2) (h_timestamp h) False
        = h264_fu_end handler u' s fh (h_timestamp h)"
      "u4_inv u'" "u4_flags u' = 0" "u4_seq u' = h_seq h" "u4_size u' = length (fr @ c)"
      "take (u4_size u') (hb_bytes (u4_ptr u')) = fr @ c"
    using v by auto
  have "rtp_h264_unpack_input nd (\<lambda>_. True) handler u s (datagram h (ind # fh # c)) (int (length (datagram h (ind # fh # c))))
      = h264_fu_end handler u' s fh (h_timestamp h)"
    using u'(1) assms(1,3)
    by (simp add: rtp_h264_unpack_input_def with_datagram h264_dispatch_def Let_def v_def [symmetric] nat_add_distrib add.commute)
  moreover have "c_slice (hb_bytes (u4_ptr u')) 0 (u4_size u') = Some (fr @ c)"
    using u' by (simp add: c_slice_def u4_inv_def)
  ultimately show ?thesis
    using u' assms(2) by (auto simp: h264_fu_end_def u4_sync_def u4_part_def split: prod.splits)
qed

text \<open>The fragments of a NAL unit from the second one on, then all of them.\<close>

abbreviation h264_feed where
  "h264_feed handler u s ds \<equiv> h264_dec.feed (\<lambda>_. True) handler u s ds"

lemma h264_unpack_fragments:
  assumes "plain_hdr h" "H264_NAL ind = 28" "hdr AND 0x80 = 0" "hdr AND 0x40 = 0" "cs \<noteq> []" "\<forall>c \<in> set cs. c \<noteq> []"
    and "u4_part u (h_seq h) fr" "length fr + length (concat cs) \<le> RTP_PAYLOAD_MAX_SIZE"
  shows "ok (\<lambda>(rs, u', s'). u4_sync u' (h_seq h + of_nat (length cs)) \<and>
      s' = snd (emit_nal handler s (fr @ concat cs) (h_timestamp h) 0))
    (h264_feed handler u s (packetize h mark (fu_payloads [ind] hdr 0 cs)))"
  using assms
proof (induction cs arbitrary: u h fr)
  case (Cons c cs)
  have bits: "(0x40 OR hdr) AND 0x80 = 0" "(0x40 OR hdr) AND 0x40 \<noteq> 0"
    using Cons.prems by (auto simp: bit.conj_disj_distrib2)
  show ?case
  proof (cases "cs = []")
    case True
    let ?h = "h\<lparr>h_m := mark\<rparr>"
    have "u4_part u (h_seq ?h) fr" "plain_hdr ?h"
      using Cons.prems by simp_all
    with h264_unpack_fragment [of ?h c ind "0x40 OR hdr" u fr True handler s] Cons.prems bits True show ?thesis
      by (auto simp: ok_iff)
  next
    case False
    let ?h = "h\<lparr>h_m := 0\<rparr>" and ?h' = "h\<lparr>h_seq := h_seq h + 1\<rparr>"
    have pay: "fu_payloads [ind] hdr 0 (c # cs) = (ind # hdr # c, False) # fu_payloads [ind] hdr 0 cs"
      using False by (cases cs) simp_all
    have "u4_part u (h_seq ?h) fr" "plain_hdr ?h"
      using Cons.prems by simp_all
    with h264_unpack_fragment [of ?h c ind hdr u fr True handler s] Cons.prems obtain u' where
      u': "rtp_h264_unpack_input True (\<lambda>_. True) handler u s (datagram ?h (ind # hdr # c)) (int (length (datagram ?h (ind # hdr # c))))
          = Some (1, u', s)" "u4_part u' (h_seq h + 1) (fr @ c)"
      by auto
    have "ok (\<lambda>(rs, u', s'). u4_sync u' (h_seq ?h' + of_nat (length cs)) \<and>
        s' = snd (emit_nal handler s ((fr @ c) @ concat cs) (h_timestamp ?h') 0))
      (h264_feed handler u' s (packetize ?h' mark (fu_payloads [ind] hdr 0 cs)))"
      using Cons.prems False u' by (intro Cons.IH) simp_all
    then show ?thesis
      using u' pay by (auto simp: ok_iff add.assoc)
  qed
qed simp

lemma h264_fu_header_bits:
  fixes x :: u8
  shows "(((x AND 0xE0) OR 28) AND 0xE0) OR ((0x80 OR (x AND 0x1F)) AND 0x1F) = x"
    "H264_NAL ((x AND 0xE0) OR 28) = 28"
    "(x AND 0x1F) AND 0x80 = 0" "(x AND 0x1F) AND 0x40 = 0"
    "(0x80 OR (x AND 0x1F)) AND 0x80 \<noteq> 0" "(0x80 OR (x AND 0x1F)) AND 0x40 = 0"
proof -
  have "(((x AND 0xE0) OR 28) AND 0xE0) OR ((0x80 OR (x AND 0x1F)) AND 0x1F) = (x AND 0xE0) OR (x AND 0x1F)"
    by (simp add: bit.conj_disj_distrib2 and.assoc)
  also have "\<dots> = x AND (0xE0 OR 0x1F)"
    by (simp only: bit.conj_disj_distrib)
  also have "(0xE0 OR 0x1F :: u8) = -1"
    by simp
  finally show "(((x AND 0xE0) OR 28) AND 0xE0) OR ((0x80 OR (x AND 0x1F)) AND 0x1F) = x"
    by simp
qed (simp_all add: H264_NAL_def bit.conj_disj_distrib2 and.assoc)

lemma h264_unpack_nal:
  assumes "plain_hdr h" "u4_sync u (h_seq h)" "n \<noteq> []" "H264_NAL (hd n) \<in> {1..23}" "14 < sz"
    and "length n \<le> RTP_PAYLOAD_MAX_SIZE"
  shows "ok (\<lambda>(rs, u', s'). u4_sync u' (h_seq h + of_nat (length (h264_payloads sz n))) \<and>
      s' = snd (emit_nal handler s n (h_timestamp h) 0))
    (h264_feed handler u s (packetize h mark (h264_payloads sz n)))"
proof (cases "length n + 12 \<le> sz")
  case True
  let ?h = "h\<lparr>h_m := if hd n AND 0x1F \<le> 5 then mark else 0\<rparr>"
  have "plain_hdr ?h" "u4_sync u (h_seq ?h)"
    using assms by simp_all
  with h264_unpack_single [of ?h u n True "\<lambda>_. True" handler s] assms(3,4) True show ?thesis
    by (auto simp: ok_iff h264_payloads_def)
next
  case False
  obtain x t where n: "n = x # t"
    using assms(3) by (cases n) auto
  define k where "k = sz - 14"
  have k: "0 < k" "k < length t"
    using assms(5) False n by (auto simp: k_def)
  obtain cs where cs: "chunks k t = take k t # cs" "cs \<noteq> []"
    using k chunks.simps [of k t] by simp
  define ind where "ind = (x AND 0xE0) OR 28"
  define hdr where "hdr = x AND 0x1F"
  note bits = h264_fu_header_bits [of x, folded ind_def hdr_def]
  have pay: "h264_payloads sz n = (ind # (0x80 OR hdr) # take k t, False) # fu_payloads [ind] hdr 0 cs"
    using False cs by (cases cs) (auto simp: h264_payloads_def n k_def ind_def hdr_def)
  let ?h = "h\<lparr>h_m := 0\<rparr>" and ?h' = "h\<lparr>h_seq := h_seq h + 1\<rparr>"
  have t: "t \<noteq> []"
    using k by auto
  have ne: "\<forall>c \<in> set (chunks k t). c \<noteq> []" "take k t \<noteq> []" and cat: "take k t @ concat cs = t"
    using chunks_nonempty [of t _ k] t k cs concat_chunks [of k t] by auto
  have "length (take k t @ concat cs) + 1 \<le> RTP_PAYLOAD_MAX_SIZE"
    using assms(6) cat n by simp
  then have len: "length [x] + length (take k t) \<le> RTP_PAYLOAD_MAX_SIZE"
    "length ([x] @ take k t) + length (concat cs) \<le> RTP_PAYLOAD_MAX_SIZE"
    by simp_all
  have "plain_hdr ?h" "u4_sync u (h_seq ?h)"
    using assms by simp_all
  with h264_unpack_fragment [of ?h "take k t" ind "0x80 OR hdr" u "[x]" True handler s] bits ne len(1) obtain u' where
    u': "rtp_h264_unpack_input True (\<lambda>_. True) handler u s (datagram ?h (ind # (0x80 OR hdr) # take k t))
        (int (length (datagram ?h (ind # (0x80 OR hdr) # take k t)))) = Some (1, u', s)"
      "u4_part u' (h_seq h + 1) ([x] @ take k t)"
    by auto
  have "ok (\<lambda>(rs, u', s'). u4_sync u' (h_seq ?h' + of_nat (length cs)) \<and>
      s' = snd (emit_nal handler s (([x] @ take k t) @ concat cs) (h_timestamp ?h') 0))
    (h264_feed handler u' s (packetize ?h' mark (fu_payloads [ind] hdr 0 cs)))"
    using assms(1) bits cs ne u' len(2) by (intro h264_unpack_fragments) auto
  then show ?thesis
    using u' pay cat n by (auto simp: ok_iff add.assoc)
qed

fun emit_all :: "'s rtp_payload_t \<Rightarrow> 's \<Rightarrow> u32 \<Rightarrow> u8 list list \<Rightarrow> 's" where
  "emit_all handler s t [] = s"
| "emit_all handler s t (n # ns) = emit_all handler (snd (emit_nal handler s n t 0)) t ns"

lemma h264_unpack_stream:
  assumes "plain_hdr h" "u4_sync u (h_seq h)" "14 < sz"
    and "\<forall>n \<in> set ns. n \<noteq> [] \<and> H264_NAL (hd n) \<in> {1..23} \<and> length n \<le> RTP_PAYLOAD_MAX_SIZE"
  shows "ok (\<lambda>(rs, u', s'). s' = emit_all handler s (h_timestamp h) ns)
    (h264_feed handler u s (nal_stream (h264_payloads sz) h ns))"
  using assms
proof (induction ns arbitrary: h u s)
  case (Cons n ns)
  let ?m = "if ns = [] then 1 else 0" and ?k = "length (h264_payloads sz n)"
  have "ok (\<lambda>(rs, u', s'). u4_sync u' (h_seq h + of_nat ?k) \<and> s' = snd (emit_nal handler s n (h_timestamp h) 0))
    (h264_feed handler u s (packetize h ?m (h264_payloads sz n)))"
    using Cons.prems by (intro h264_unpack_nal) simp_all
  then obtain rs u' where u': "h264_feed handler u s (packetize h ?m (h264_payloads sz n)) =
      Some (rs, u', snd (emit_nal handler s n (h_timestamp h) 0))" "u4_sync u' (h_seq h + of_nat ?k)"
    by (auto simp: ok_iff)
  have "ok (\<lambda>(rs, u', s'). s' = emit_all handler (snd (emit_nal handler s n (h_timestamp h) 0)) (h_timestamp h) ns)
    (h264_feed handler u' (snd (emit_nal handler s n (h_timestamp h) 0))
      (nal_stream (h264_payloads sz) (h\<lparr>h_seq := h_seq h + of_nat ?k\<rparr>) ns))"
    using Cons.prems u' Cons.IH [of "h\<lparr>h_seq := h_seq h + of_nat ?k\<rparr>" u'] by simp
  then show ?case
    using u' by (auto simp: ok_iff h264_dec.feed_append)
qed simp

lemma length_h264_payload:
  assumes "14 < sz" "p \<in> set (h264_payloads sz n)"
  shows "12 + length (fst p) \<le> sz"
proof (cases "length n + 12 \<le> sz")
  case False
  with assms(2) obtain c where c: "c \<in> set (chunks (sz - 14) (tl n))" "length (fst p) = 2 + length c"
    by (auto simp: h264_payloads_def dest: length_fu_payload)
  from length_chunks_le [OF _ c(1)] assms(1) c(2) show ?thesis
    by simp
qed (use assms in \<open>auto simp: h264_payloads_def\<close>)

section \<open>Aggregation packets\<close>

lemma stap_loop_aggregate:
  assumes "\<forall>n \<in> set ns. 2 \<le> length n \<and> length n < 65536" "u4_flags u = 0"
  shows "\<exists>r' u'. stap_loop handler ts u s (aggregate ns) (int (length (aggregate ns))) r = Some (r', u', emit_all handler s ts ns)
    \<and> u4_seq u' = u4_seq u \<and> (ns = [] \<longrightarrow> u' = u) \<and> (ns \<noteq> [] \<longrightarrow> u' = u\<lparr>u4_flags := 0, u4_size := 0\<rparr>)"
  using assms
proof (induction ns arbitrary: u s r)
  case Nil
  then show ?case
    by (simp add: stap_loop.simps [of _ _ _ _ "[]"])
next
  case (Cons n ns)
  define d where "d = aggregate (n # ns)"
  define v where "v = u\<lparr>u4_flags := 0, u4_size := 0\<rparr>"
  have d: "d = be16 (of_nat (length n)) @ n @ aggregate ns" and l: "length d = 2 + length n + length (aggregate ns)"
    by (simp_all add: d_def)
  have n: "unat (of_nat (length n) :: u16) = length n" "2 \<le> length n"
    using Cons.prems by (simp_all add: unsigned_of_nat take_bit_nat_eq_self)
  have p: "rtp_read_uint16 d = Some (of_nat (length n))" "c_slice d 2 (length n) = Some n"
    "drop (length n + 2) d = aggregate ns" "int (length d) - (int (length n) + 2) = int (length (aggregate ns))"
    unfolding d by (simp_all add: c_slice_def)
  obtain r1 s1 where e: "emit_nal handler s n ts 0 = (r1, s1)"
    by (cases "emit_nal handler s n ts 0") auto
  have "stap_loop handler ts u s d (int (length d)) r = stap_loop handler ts v s1 (aggregate ns) (int (length (aggregate ns))) r1"
    using n p l e Cons.prems(2) by (subst stap_loop.simps) (simp add: v_def)
  moreover have "\<exists>r' u'. stap_loop handler ts v s1 (aggregate ns) (int (length (aggregate ns))) r1 = Some (r', u', emit_all handler s1 ts ns)
    \<and> u4_seq u' = u4_seq v \<and> (ns = [] \<longrightarrow> u' = v) \<and> (ns \<noteq> [] \<longrightarrow> u' = v\<lparr>u4_flags := 0, u4_size := 0\<rparr>)"
    using Cons.prems by (intro Cons.IH) (auto simp: v_def)
  ultimately show ?case
    unfolding d_def [symmetric] using e by (auto simp: v_def)
qed

section \<open>Properties\<close>


text \<open>C15: An access unit of H.264 NAL units that is packed into packets of any size above 14 bytes and
  unpacked again, packet by packet, by a new unpacker yields the same NAL units in the same order,
  each behind a start code, with the timestamp of the access unit and no flag. Every packet carries
  that timestamp and none exceeds the size. The packets go through the callbacks of the restreamer,
  whatever its socket answers.\<close>

theorem h264_roundtrip:
  assumes "p4_inv p" "vr_out s = []" "ns \<noteq> []"
    and "\<forall>n \<in> set ns. nal_ok n \<and> H264_NAL (hd n) \<in> {1..23} \<and> length n \<le> RTP_PAYLOAD_MAX_SIZE"
  shows "\<exists>p' s' rs u'.
    rtp_h264_pack_input nd (restream_handler send) p s (annexb_stream ns) (length (annexb_stream ns)) ts = Some (0, p', s')
    \<and> (\<forall>(d, t) \<in> set (vr_out s'). t = ts \<and> int (length d) \<le> p4_size p)
    \<and> h264_dec.feed (\<lambda>_. True) handler rtp_h264_unpack_create r (map fst (vr_out s')) = Some (rs, u', emit_all handler r ts ns)"
proof -
  let ?sz = "nat (p4_size p)" and ?h = "(pk_rtp (p4_pkt p))\<lparr>h_m := 0, h_timestamp := ts\<rparr>"
  let ?ds = "nal_stream (h264_payloads ?sz) ?h ns"
  have sz: "14 < ?sz" and h: "plain_hdr ?h" "h_timestamp ?h = ts"
    using assms(1) by (auto simp: p4_inv_def plain_pkt_def plain_hdr_def)
  have "\<forall>n \<in> set ns. nal_ok n"
    using assms(4) by blast
  from vr.h264_pack_stream [OF assms(1,3) this, where s = s and ts = ts and nd = nd and send = send] obtain p' s' where
    p: "rtp_h264_pack_input nd (restream_handler send) p s (annexb_stream ns) (length (annexb_stream ns)) ts = Some (0, p', s')"
      "vr_out s' = map (\<lambda>d. (d, ts)) ?ds"
    using assms(2) by (auto simp: ok_iff)
  have "12 + length (fst q) \<le> ?sz" if "q \<in> set (h264_payloads ?sz n)" for q n
    using length_h264_payload [OF sz that] .
  then have "\<forall>d \<in> set ?ds. int (length d) \<le> p4_size p"
    using length_nal_stream [of _ "h264_payloads ?sz" ?h ns] sz by fastforce
  moreover have "\<forall>n \<in> set ns. n \<noteq> [] \<and> H264_NAL (hd n) \<in> {1..23} \<and> length n \<le> RTP_PAYLOAD_MAX_SIZE"
    using assms(4) by (auto simp: nal_ok_def)
  from h264_unpack_stream [OF h(1) u4_sync_create sz this, of handler r] h(2)
  obtain rs u' where "h264_dec.feed (\<lambda>_. True) handler rtp_h264_unpack_create r ?ds = Some (rs, u', emit_all handler r ts ns)"
    by (auto simp: ok_iff)
  ultimately show ?thesis
    using p by (auto simp: comp_def)
qed

theorem h264_roundtrip_witness:
  "\<exists>p' s' rs u'.
    rtp_h264_pack_input False (restream_handler (\<lambda>i d. -1)) (rtp_h264_pack_create 20 96 65535 7) new_restreamer
      (annexb_stream [[0x67, 1, 2], [0x65, 1, 2, 3, 4, 5, 6, 7, 8, 9, 10]])
      (length (annexb_stream [[0x67, 1, 2], [0x65, 1, 2, 3, 4, 5, 6, 7, 8, 9, 10]])) 90000 = Some (0, p', s')
    \<and> h264_dec.feed (\<lambda>_. True) recorder rtp_h264_unpack_create [] (map fst (vr_out s')) =
        Some (rs, u', [(start_code, 90000, 0), ([0x67, 1, 2], 90000, 0),
          (start_code, 90000, 0), ([0x65, 1, 2, 3, 4, 5, 6, 7, 8, 9, 10], 90000, 0)])"
proof -
  let ?ns = "[[0x67, 1, 2], [0x65, 1, 2, 3, 4, 5, 6, 7, 8, 9, 10]]"
  have p: "p4_inv (rtp_h264_pack_create 20 96 65535 7)"
    by (simp add: p4_inv_def rtp_h264_pack_create_def blank_packet_def plain_pkt_def)
  have s: "vr_out new_restreamer = []"
    by (simp add: new_restreamer_def)
  have "\<forall>n \<in> set ?ns. nal_ok n"
    by code_simp
  then have n: "\<forall>n \<in> set ?ns. nal_ok n \<and> H264_NAL (hd n) \<in> {1..23} \<and> length n \<le> RTP_PAYLOAD_MAX_SIZE"
    by (simp add: H264_NAL_def RTP_PAYLOAD_MAX_SIZE_def)
  have e: "emit_all recorder [] 90000 ?ns = [(start_code, 90000, 0), ([0x67, 1, 2], 90000, 0),
      (start_code, 90000, 0), ([0x65, 1, 2, 3, 4, 5, 6, 7, 8, 9, 10], 90000, 0)]"
    by (simp add: emit_nal_def recorder_def)
  from h264_roundtrip [OF p s _ n, of False "\<lambda>i d. -1" 90000 recorder "[]"] show ?thesis
    unfolding e by blast
qed

text \<open>An STAP-A packet with any number of NAL units, of 2 to 65535 bytes each, is taken apart into
  exactly these NAL units, in order, each behind a start code, even when the callback reports an
  error for one of them.\<close>

theorem h264_stap_split:
  assumes "plain_hdr h" "u4_sync u (h_seq h)" "H264_NAL x = 24" "\<forall>n \<in> set ns. 2 \<le> length n \<and> length n < 65536"
  shows "\<exists>r u'. rtp_h264_unpack_input nd mem handler u s (datagram h (x # aggregate ns)) (int (length (datagram h (x # aggregate ns))))
      = Some (r, u', emit_all handler s (h_timestamp h) ns) \<and> u4_sync u' (h_seq h + 1)"
proof -
  define v where "v = h264_track u (dpkt h (x # aggregate ns))"
  have v: "u4_inv v" "u4_flags v = 0" "u4_size v = 0" "u4_seq v = h_seq h"
    unfolding v_def using h264_track_sync [OF assms(2)] by simp_all
  have "rtp_h264_unpack_input nd mem handler u s (datagram h (x # aggregate ns)) (int (length (datagram h (x # aggregate ns))))
      = stap_loop handler (h_timestamp h) v s (aggregate ns) (int (length (aggregate ns))) 0"
    using assms(1,3) by (simp add: rtp_h264_unpack_input_def with_datagram h264_dispatch_def Let_def v_def)
  with stap_loop_aggregate [OF assms(4) v(2), of handler "h_timestamp h" s 0] v show ?thesis
    by (cases "ns = []") (auto simp: u4_sync_def)
qed

theorem h264_stap_split_witness:
  "\<exists>r u'. rtp_h264_unpack_input False (\<lambda>_. True) recorder rtp_h264_unpack_create []
      (datagram (pk_rtp (blank_packet 96 5 7)) (24 # aggregate [[0x67, 1], [0x68, 2, 3]]))
      (int (length (datagram (pk_rtp (blank_packet 96 5 7)) (24 # aggregate [[0x67, 1], [0x68, 2, 3]]))))
    = Some (r, u', [(start_code, 0, 0), ([0x67, 1], 0, 0), (start_code, 0, 0), ([0x68, 2, 3], 0, 0)])"
proof -
  let ?h = "pk_rtp (blank_packet 96 5 7)"
  have "plain_hdr ?h" "H264_NAL 24 = 24"
    by (simp_all add: plain_hdr_def blank_packet_def H264_NAL_def)
  from h264_stap_split [OF this(1) u4_sync_create this(2), of "[[0x67, 1], [0x68, 2, 3]]" False "\<lambda>_. True" recorder "[]"]
  show ?thesis
    by (auto simp: emit_nal_def recorder_def blank_packet_def)
qed

end
