(* ===== verification/H265_Pack.thy ===== *)
theory H265_Pack
  imports Video_Restreamer H265_Unpack
begin

text \<open>
  \<open>lib/librtp/payload/rtp-h265-pack.c\<close>: from H.265 NAL units to RTP packets (RFC 7798). A NAL unit that
  fits a packet is sent alone, a larger one as fragmentation units. The lemmas describe the packets
  that reach the callbacks, and show that the unpacker makes the same NAL units of them again.
\<close>

record rtp_encode_h265_t =
  p5_pkt :: rtp_packet_t
  p5_size :: int

definition rtp_h265_pack_create :: "int \<Rightarrow> u8 \<Rightarrow> u16 \<Rightarrow> u32 \<Rightarrow> rtp_encode_h265_t" where
  "rtp_h265_pack_create sz pt seq ssrc = \<lparr>p5_pkt = blank_packet pt seq ssrc, p5_size = sz\<rparr>"

definition rtp_h265_pack_get_info :: "rtp_encode_h265_t \<Rightarrow> u16 \<times> u32" where
  "rtp_h265_pack_get_info packer = (pk_seq (p5_pkt packer), pk_timestamp (p5_pkt packer))"

definition rtp_h265_pack_nalu ::
  "bool \<Rightarrow> 's rtp_payload_t \<Rightarrow> rtp_encode_h265_t \<Rightarrow> 's \<Rightarrow> u8 list \<Rightarrow> int \<Rightarrow> 1 word \<Rightarrow> (int \<times> rtp_encode_h265_t \<times> 's) option" where
  "rtp_h265_pack_nalu nd handler packer s nalu bytes mark =
     (if bytes < 3 then Some (-1, packer, s) else do {
        x \<leftarrow> rd nalu 0;
        (r, pkt, s) \<leftarrow> send_single nd handler ((p5_pkt packer)\<lparr>pk_payload := nalu, pk_payloadlen := bytes\<rparr>) s
          (if H265_TYPE x < 32 then mark else 0);
        Some (r, packer\<lparr>p5_pkt := pkt\<rparr>, s) })"

definition fu_nalu_header :: "u8 \<Rightarrow> u8 \<Rightarrow> u16" where
  "fu_nalu_header x y = push_bit 8 (ucast ((x AND 0x81) OR push_bit 1 49)) OR ucast y"

definition rtp_h265_pack_fu ::
  "bool \<Rightarrow> 's rtp_payload_t \<Rightarrow> rtp_encode_h265_t \<Rightarrow> 's \<Rightarrow> u8 list \<Rightarrow> int \<Rightarrow> 1 word \<Rightarrow> (int \<times> rtp_encode_h265_t \<times> 's) option" where
  "rtp_h265_pack_fu nd handler packer s ptr bytes mark =
     (if bytes < 3 then Some (-1, packer, s) else do {
        x \<leftarrow> rd ptr 0;
        y \<leftarrow> rd ptr 1;
        let nalu_header = fu_nalu_header x y;
        let fu_header = drop_bit 1 x AND 0x3F;
        c_assert nd (bytes - 2 > 0);
        (r, pkt, s) \<leftarrow> fu_loop nd handler (p5_size packer) mark
          [ucast (drop_bit 8 nalu_header), ucast (nalu_header AND 0xFF)] 0x3F (p5_pkt packer) s
          (0x80 OR fu_header) (drop 2 ptr) (bytes - 2) 0;
        Some (r, packer\<lparr>p5_pkt := pkt\<rparr>, s) })"

definition rtp_h265_pack_handler ::
  "bool \<Rightarrow> 's rtp_payload_t \<Rightarrow> rtp_encode_h265_t \<times> 's \<Rightarrow> u8 list \<Rightarrow> nat \<Rightarrow> bool \<Rightarrow> (int \<times> rtp_encode_h265_t \<times> 's) option" where
  "rtp_h265_pack_handler nd handler ps nalu bytes is_last =
     (if int bytes + 12 \<le> p5_size (fst ps)
      then rtp_h265_pack_nalu nd handler (fst ps) (snd ps) nalu (int bytes) (if is_last then 1 else 0)
      else rtp_h265_pack_fu nd handler (fst ps) (snd ps) nalu (int bytes) (if is_last then 1 else 0))"

definition rtp_h265_pack_input ::
  "bool \<Rightarrow> 's rtp_payload_t \<Rightarrow> rtp_encode_h265_t \<Rightarrow> 's \<Rightarrow> u8 list \<Rightarrow> nat \<Rightarrow> u32 \<Rightarrow> (int \<times> rtp_encode_h265_t \<times> 's) option" where
  "rtp_h265_pack_input nd handler packer s h265 bytes timestamp =
     (let pkt = p5_pkt packer;
          packer = packer\<lparr>p5_pkt := pkt\<lparr>pk_rtp := (pk_rtp pkt)\<lparr>h_timestamp := timestamp\<rparr>\<rparr>\<rparr> in
      rtp_h264_annexb_nalu nd h265 bytes (rtp_h265_pack_handler nd handler) (packer, s))"

section \<open>The packets of a NAL unit\<close>

definition h265_payloads :: "nat \<Rightarrow> u8 list \<Rightarrow> (u8 list \<times> bool) list" where
  "h265_payloads sz nal =
     (if length nal + 12 \<le> sz then [(nal, H265_TYPE (hd nal) < 32)]
      else fu_payloads [(hd nal AND 0x81) OR 98, nal ! 1] (drop_bit 1 (hd nal) AND 0x3F) 0x80
             (chunks (sz - 15) (drop 2 nal)))"

definition p5_inv :: "rtp_encode_h265_t \<Rightarrow> bool" where
  "p5_inv p \<longleftrightarrow> plain_pkt (p5_pkt p) \<and> 15 < p5_size p"

definition p5_rel :: "int \<Rightarrow> ('s \<Rightarrow> (u8 list \<times> u32) list) \<Rightarrow> rtp_encode_h265_t \<times> 's
    \<Rightarrow> rtp_header_t \<times> (u8 list \<times> u32) list \<Rightarrow> bool" where
  "p5_rel sz sent ps a \<longleftrightarrow> p5_inv (fst ps) \<and> p5_size (fst ps) = sz
     \<and> (pk_rtp (p5_pkt (fst ps)))\<lparr>h_m := 0\<rparr> = fst a \<and> sent (snd ps) = snd a"

lemma fu_nalu_header_bytes:
  "ucast (drop_bit 8 (fu_nalu_header x y)) = (x AND 0x81) OR 98" "ucast (fu_nalu_header x y AND 0xFF) = y"
proof -
  let ?z = "(x AND 0x81) OR 98 :: u8"
  have h: "fu_nalu_header x y = un16 ?z y"
    by (simp add: fu_nalu_header_def un16_def)
  from be16_un16 [of ?z y] show "ucast (drop_bit 8 (fu_nalu_header x y)) = ?z"
    unfolding h be16_def by simp
  show "ucast (fu_nalu_header x y AND 0xFF) = y"
    unfolding h un16_def header_masks(7) by (auto intro!: bit_word_eqI simp: bit_simps)
qed

context packet_sink
begin

lemma h265_pack_handler_ok:
  assumes "p5_inv p" "3 \<le> length nal"
  shows "ok (\<lambda>(r, p', s'). r = 0 \<and> p5_inv p' \<and> p5_size p' = p5_size p \<and>
      advanced (length (h265_payloads (nat (p5_size p)) nal)) (p5_pkt p) (p5_pkt p') \<and>
      sent s' = sent s @ map (\<lambda>d. (d, pk_timestamp (p5_pkt p)))
        (packetize (pk_rtp (p5_pkt p)) (if l then 1 else 0) (h265_payloads (nat (p5_size p)) nal)))
    (rtp_h265_pack_handler nd handler (p, s) (nal @ rest) (length nal) l)"
proof -
  define m :: "1 word" where "m = (if l then 1 else 0)"
  have pl: "plain_pkt (p5_pkt p)" and sz: "15 < p5_size p"
    using assms(1) by (auto simp: p5_inv_def)
  obtain x y t where nal: "nal = x # y # t" "t \<noteq> []"
    using assms(2) by (cases nal; cases "tl nal"; cases "tl (tl nal)") auto
  show ?thesis
  proof (cases "int (length nal) + 12 \<le> p5_size p")
    case True
    let ?q = "(p5_pkt p)\<lparr>pk_payload := nal @ rest, pk_payloadlen := int (length nal)\<rparr>"
    have q: "plain_pkt ?q" "pkt_ok ?q" "pk_data ?q = nal"
      using pl by (simp_all add: pkt_ok_def pk_data_def)
    have pay: "h265_payloads (nat (p5_size p)) nal = [(nal, H265_TYPE x < 32)]"
      using True by (auto simp: h265_payloads_def nal)
    have len: "\<not> int (length nal) < 3" "rd (nal @ rest) 0 = Some x"
      using assms(2) nal by auto
    show ?thesis
      using True len sz pay q(1,3) unfolding rtp_h265_pack_handler_def rtp_h265_pack_nalu_def m_def [symmetric]
      by (auto simp: ok_simps p5_inv_def advanced_def intro!: okI_mono [OF send_single_ok [OF q(1,2)]])
  next
    case False
    define k where "k = nat (p5_size p) - 15"
    define hd where "hd = drop_bit 1 x AND 0x3F"
    let ?pre = "[(x AND 0x81) OR 98, y]"
    have k: "p5_size p = int (k + 12 + length ?pre + 1)" "0 < k" "k < length t"
      using sz False nal by (auto simp: k_def)
    have hd: "drop_bit (Suc 0) x AND 0x3F = hd"
      by (simp add: hd_def)
    have pay: "h265_payloads (nat (p5_size p)) nal = fu_payloads ?pre hd 0x80 (chunks k t)"
      using False nal by (auto simp: h265_payloads_def k_def hd_def)
    have bits: "hd AND 0x3F = hd" "hd AND 0x80 = 0" "hd AND 0x40 = 0" "(0x3F :: u8) AND 0x80 = 0"
      by (simp_all add: hd_def and.assoc)
    have t: "t \<noteq> []" "(0x80 :: u8) = 0 \<or> (0x80 :: u8) = 0x80 \<and> k < length t"
      using k(3) nal by auto
    note loop = fu_loop_ok [OF k(1,2) bits pl t, of s m nd rest]
    show ?thesis
      using False nal sz pay k(3)
      unfolding rtp_h265_pack_handler_def rtp_h265_pack_fu_def m_def [symmetric] fu_nalu_header_bytes Let_def
      by (auto simp: ok_simps p5_inv_def advanced_def hd intro!: okI_mono [OF loop])
  qed
qed

lemma h265_pack_step:
  assumes "p5_rel sz sent ps a" "3 \<le> length nal"
  shows "ok (\<lambda>(r, ps'). r = 0 \<and> p5_rel sz sent ps' (nal_step (h265_payloads (nat sz)) a nal l))
    (rtp_h265_pack_handler nd handler ps (nal @ rest) (length nal) l)"
proof -
  obtain p s where ps: "ps = (p, s)"
    by (cases ps) auto
  obtain h out where a: "a = (h, out)"
    by (cases a) auto
  have r: "p5_inv p" "p5_size p = sz" "(pk_rtp (p5_pkt p))\<lparr>h_m := 0\<rparr> = h" "sent s = out"
    using assms(1) by (simp_all add: p5_rel_def ps a)
  have h: "h_timestamp h = pk_timestamp (p5_pkt p)" "h_seq h = pk_seq (p5_pkt p)"
    "packetize h m qs = packetize (pk_rtp (p5_pkt p)) m qs" for m qs
    using packetize_marker [of 0 "pk_rtp (p5_pkt p)"] by (simp_all flip: r(3))
  show ?thesis
    unfolding ps a nal_step_def
    by (rule okI_mono [OF h265_pack_handler_ok [OF r(1) assms(2)]])
      (use r h in \<open>cases "pk_rtp (p5_pkt p)"; auto simp: p5_rel_def advanced_def\<close>)
qed

lemma h265_pack_stream:
  assumes "p5_inv p" "ns \<noteq> []" "\<forall>n \<in> set ns. nal_ok n \<and> 3 \<le> length n"
  shows "ok (\<lambda>(r, p', s').
      let h = (pk_rtp (p5_pkt p))\<lparr>h_m := 0, h_timestamp := ts\<rparr>; ds = nal_stream (h265_payloads (nat (p5_size p))) h ns in
      r = 0 \<and> p5_inv p' \<and> p5_size p' = p5_size p \<and> (pk_rtp (p5_pkt p'))\<lparr>h_m := 0\<rparr> = h\<lparr>h_seq := h_seq h + of_nat (length ds)\<rparr>
      \<and> sent s' = sent s @ map (\<lambda>d. (d, ts)) ds)
    (rtp_h265_pack_input nd handler p s (annexb_stream ns) (length (annexb_stream ns)) ts)"
proof -
  define h where "h = (pk_rtp (p5_pkt p))\<lparr>h_m := 0, h_timestamp := ts\<rparr>"
  define q where "q = p\<lparr>p5_pkt := (p5_pkt p)\<lparr>pk_rtp := (pk_rtp (p5_pkt p))\<lparr>h_timestamp := ts\<rparr>\<rparr>\<rparr>"
  have rel: "p5_rel (p5_size p) sent (q, s) (h, sent s)"
    using assms(1) by (cases "pk_rtp (p5_pkt p)") (simp add: p5_rel_def q_def h_def p5_inv_def plain_pkt_def)
  have ok: "\<forall>n \<in> set ns. nal_ok n"
    using assms(3) by blast
  have "ok (\<lambda>(r, ps'). r = 0 \<and> p5_rel (p5_size p) sent ps'
        (run_units (nal_step (h265_payloads (nat (p5_size p)))) (h, sent s) ns))
      (run_nalus (rtp_h265_pack_handler nd handler) (q, s) (nalu_ptrs annexb_stream ns))"
    by (rule run_nalus_simulation [where Rel = "p5_rel (p5_size p) sent"], rule h265_pack_step)
      (use assms(3) rel in auto)
  then show ?thesis
    unfolding rtp_h265_pack_input_def Let_def q_def [symmetric] h_def [symmetric] annexb_nalu_stream [OF assms(2) ok]
    by (rule okI_mono) (auto simp: p5_rel_def run_units_nal_step run_units_header Let_def, simp add: h_def)
qed

end

section \<open>Unpacking what was packed\<close>

definition u5_sync :: "rtp_decode_h265_t \<Rightarrow> u16 \<Rightarrow> bool" where
  "u5_sync u q \<longleftrightarrow> u5_inv u \<and> u5_size u = 0 \<and> (u5_flags u = -1 \<or> u5_flags u = 0 \<and> u5_seq u + 1 = q)"

definition u5_part :: "rtp_decode_h265_t \<Rightarrow> u16 \<Rightarrow> u8 list \<Rightarrow> bool" where
  "u5_part u q fr \<longleftrightarrow> u5_inv u \<and> u5_flags u = 0 \<and> u5_seq u + 1 = q \<and> fr \<noteq> [] \<and> u5_size u = length fr
     \<and> take (u5_size u) (hb_bytes (u5_ptr u)) = fr"

lemma u5_sync_create: "u5_sync rtp_h265_unpack_create q"
  using u5_inv_create by (simp add: u5_sync_def rtp_h265_unpack_create_def)

lemma h265_track_sync:
  assumes "u5_sync u (h_seq h)"
  shows "u5_inv (h265_track u (dpkt h p))" "u5_flags (h265_track u (dpkt h p)) = 0" "u5_size (h265_track u (dpkt h p)) = 0"
    "u5_seq (h265_track u (dpkt h p)) = h_seq h"
  using assms by (auto simp: u5_sync_def h265_track_def Let_def)

lemma h265_track_part:
  assumes "u5_part u (h_seq h) fr"
  shows "h265_track u (dpkt h p) = u\<lparr>u5_seq := h_seq h\<rparr>"
  using assms by (auto simp: u5_part_def h265_track_def Let_def)

lemma h265_unpack_single:
  assumes "plain_hdr h" "u5_sync u (h_seq h)" "3 \<le> length n" "H265_TYPE (hd n) < 48"
  shows "\<exists>u'. rtp_h265_unpack_input nd mem handler u s (datagram h n) (int (length (datagram h n))) =
      Some (handled (fst (packet_cb handler s (start_code @ n) (h_timestamp h) 0)), u',
        snd (packet_cb handler s (start_code @ n) (h_timestamp h) 0))
    \<and> u5_sync u' (h_seq h + 1)"
proof -
  obtain x t where n: "n = x # t"
    using assms(3) by (cases n) auto
  note tr = h265_track_sync [OF assms(2), of n]
  have "u5_inv u"
    using assms(2) by (simp add: u5_sync_def)
  with assms(1,3,4) tr show ?thesis
    by (auto simp: rtp_h265_unpack_input_def with_datagram h265_dispatch_def Let_def n
        c_slice_def u5_sync_def split: prod.splits)
qed

lemma h265_reserve_True: "\<exists>v. h265_reserve (\<lambda>_. True) u bytes n = Some v"
  by (simp add: h265_reserve_def Let_def)

lemma h265_fu_fragment:
  assumes "u5_inv u" "c \<noteq> []" "u5_size u + length c \<le> RTP_PAYLOAD_MAX_SIZE" "fh AND 0x80 \<noteq> 0 \<or> u5_size u \<noteq> 0"
    and fr: "fr = (if fh AND 0x80 \<noteq> 0 then [push_bit 1 (fh AND 0x3F) OR (x AND 0x81), y]
      else take (u5_size u) (hb_bytes (u5_ptr u)))"
  shows "\<exists>u'. rtp_h265_unpack_fu nd (\<lambda>_. True) handler u s (x # y # fh # c) (length c + 3) ts = h265_fu_end handler u' s fh ts
    \<and> u5_inv u' \<and> u5_flags u' = u5_flags u \<and> u5_seq u' = u5_seq u \<and> u5_size u' = length (fr @ c)
    \<and> take (u5_size u') (hb_bytes (u5_ptr u')) = fr @ c"
proof -
  define n where "n = 1 + (if u5_using_donl_field u then 4 else 2 :: nat)"
  have n: "n = 3"
    using assms(1) by (simp add: n_def)
  obtain v where v: "h265_reserve (\<lambda>_. True) u (length c + 3) 3 = Some v"
    using h265_reserve_True by blast
  have r: "u5_inv v" "u5_size u + length c + 2 \<le> hb_cap (u5_ptr v)" "v = u\<lparr>u5_ptr := u5_ptr v\<rparr>"
    "take (u5_size u) (hb_bytes (u5_ptr v)) = take (u5_size u) (hb_bytes (u5_ptr u))"
    using h265_reserve_ok [OF assms(1) _ _ _ v] assms(3) by auto
  have f: "u5_size v = u5_size u" "u5_flags v = u5_flags u" "u5_seq v = u5_seq u"
    by (subst r(3), simp)+
  have len: "u5_size u \<le> length (hb_bytes (u5_ptr v))" "u5_size u \<le> length (hb_bytes (u5_ptr u))" "0 < length c"
    using r(1) f assms(1,2) by (simp_all add: u5_inv_def)
  then have cap: "2 < hb_cap (u5_ptr v)"
    using r(2) by linarith
  have "ok (\<lambda>w. u5_inv w \<and> u5_size w + length c \<le> hb_cap (u5_ptr w) \<and> u5_size w + length c \<le> RTP_PAYLOAD_MAX_SIZE + 2
      \<and> u5_size w = length fr \<and> take (u5_size w) (hb_bytes (u5_ptr w)) = fr \<and> u5_flags w = u5_flags u \<and> u5_seq w = u5_seq u)
    (h265_fu_start nd v (x # y # fh # c) fh)"
    using r(1,2,4) f len cap assms(3) unfolding fr
    by (auto simp: h265_fu_start_def ok_simps u5_inv_def hb_wf_def splice_def min_def)
  then obtain w where w: "h265_fu_start nd v (x # y # fh # c) fh = Some w" "u5_inv w" "u5_size w + length c \<le> hb_cap (u5_ptr w)"
    "u5_size w + length c \<le> RTP_PAYLOAD_MAX_SIZE + 2" "u5_size w = length fr" "take (u5_size w) (hb_bytes (u5_ptr w)) = fr"
    "u5_flags w = u5_flags u" "u5_seq w = u5_seq u"
    unfolding ok_iff by (elim exE conjE) (rule that; assumption)
  define z where "z = w\<lparr>u5_timestamp := ts, u5_ptr := (u5_ptr w)\<lparr>hb_bytes := splice (hb_bytes (u5_ptr w)) (u5_size w) c\<rparr>,
    u5_size := u5_size w + length c\<rparr>"
  have app: "h265_fu_append nd (w\<lparr>u5_timestamp := ts\<rparr>) (x # y # fh # c) 3 (length c + 3) = Some z"
    using w assms(2) by (simp add: h265_fu_append_def c_slice_def hb_write_def u5_inv_def z_def c_assert_def)
  have "u5_inv z" "u5_flags z = u5_flags u" "u5_seq z = u5_seq u" "u5_size z = length (fr @ c)"
    "take (u5_size z) (hb_bytes (u5_ptr z)) = fr @ c"
    using w(2-8) by (auto simp: z_def u5_inv_def hb_wf_def splice_def)
  moreover have "fr \<noteq> []"
    using assms(1,4) fr by (auto simp: u5_inv_def)
  ultimately show ?thesis
    using v w(1,5) app assms(3,4) unfolding rtp_h265_unpack_fu_def Let_def n_def [symmetric] n
    by (intro exI [of _ z]) auto
qed

lemma h265_unpack_fragment:
  assumes "plain_hdr h" "c \<noteq> []" "H265_TYPE x = 49"
    and "fh AND 0x80 \<noteq> 0 \<and> u5_sync u (h_seq h) \<and> fr = [push_bit 1 (fh AND 0x3F) OR (x AND 0x81), y]
      \<or> fh AND 0x80 = 0 \<and> u5_part u (h_seq h) fr"
    and "length fr + length c \<le> RTP_PAYLOAD_MAX_SIZE"
  shows "\<exists>u'. rtp_h265_unpack_input nd (\<lambda>_. True) handler u s (datagram h (x # y # fh # c)) (int (length (datagram h (x # y # fh # c)))) =
      (if fh AND 0x40 \<noteq> 0 then
         Some (handled (fst (packet_cb handler s (start_code @ fr @ c) (h_timestamp h) 0)), u',
           snd (packet_cb handler s (start_code @ fr @ c) (h_timestamp h) 0))
       else Some (1, u', s))
    \<and> (if fh AND 0x40 \<noteq> 0 then u5_sync u' (h_seq h + 1) else u5_part u' (h_seq h + 1) (fr @ c))"
proof -
  define v where "v = h265_track u (dpkt h (x # y # fh # c))"
  have v: "u5_inv v" "u5_flags v = 0" "u5_seq v = h_seq h" "u5_size v + length c \<le> RTP_PAYLOAD_MAX_SIZE"
    "fh AND 0x80 \<noteq> 0 \<or> u5_size v \<noteq> 0"
    "fr = (if fh AND 0x80 \<noteq> 0 then [push_bit 1 (fh AND 0x3F) OR (x AND 0x81), y] else take (u5_size v) (hb_bytes (u5_ptr v)))"
    using assms(4,5) h265_track_sync [of u h "x # y # fh # c"] h265_track_part [of u h fr "x # y # fh # c"]
    by (auto simp: v_def u5_part_def)
  from h265_fu_fragment [OF v(1) assms(2) v(4,5,6), of nd handler s "h_timestamp h"] obtain u' where
    u': "rtp_h265_unpack_fu nd (\<lambda>_. True) handler v s (x # y # fh # c) (length c + 3) (h_timestamp h)
        = h265_fu_end handler u' s fh (h_timestamp h)"
      "u5_inv u'" "u5_flags u' = 0" "u5_seq u' = h_seq h" "u5_size u' = length (fr @ c)"
      "take (u5_size u') (hb_bytes (u5_ptr u')) = fr @ c"
    using v by auto
  have "u5_inv u" "0 < length c"
    using assms(2,4) by (auto simp: u5_sync_def u5_part_def)
  then have "rtp_h265_unpack_input nd (\<lambda>_. True) handler u s (datagram h (x # y # fh # c)) (int (length (datagram h (x # y # fh # c))))
      = h265_fu_end handler u' s fh (h_timestamp h)"
    using u'(1) assms(1,3)
    by (simp add: rtp_h265_unpack_input_def with_datagram h265_dispatch_def Let_def v_def [symmetric] nat_add_distrib add.commute)
  moreover have "c_slice (hb_bytes (u5_ptr u')) 0 (u5_size u') = Some (fr @ c)"
    using u' by (simp add: c_slice_def u5_inv_def)
  ultimately show ?thesis
    using u' assms(2) by (auto simp: h265_fu_end_def u5_sync_def u5_part_def split: prod.splits)
qed

abbreviation h265_feed where
  "h265_feed handler u s ds \<equiv> h265_dec.feed (\<lambda>_. True) handler u s ds"

lemma h265_unpack_fragments:
  assumes "plain_hdr h" "H265_TYPE x = 49" "hdr AND 0x80 = 0" "hdr AND 0x40 = 0" "cs \<noteq> []" "\<forall>c \<in> set cs. c \<noteq> []"
    and "u5_part u (h_seq h) fr" "length fr + length (concat cs) \<le> RTP_PAYLOAD_MAX_SIZE"
  shows "ok (\<lambda>(rs, u', s'). u5_sync u' (h_seq h + of_nat (length cs)) \<and>
      s' = snd (packet_cb handler s (start_code @ fr @ concat cs) (h_timestamp h) 0))
    (h265_feed handler u s (packetize h mark (fu_payloads [x, y] hdr 0 cs)))"
  using assms
proof (induction cs arbitrary: u h fr)
  case (Cons c cs)
  have bits: "(0x40 OR hdr) AND 0x80 = 0" "(0x40 OR hdr) AND 0x40 \<noteq> 0"
    using Cons.prems by (auto simp: bit.conj_disj_distrib2)
  show ?case
  proof (cases "cs = []")
    case True
    let ?h = "h\<lparr>h_m := mark\<rparr>"
    have "u5_part u (h_seq ?h) fr" "plain_hdr ?h"
      using Cons.prems by simp_all
    with h265_unpack_fragment [of ?h c x "0x40 OR hdr" u fr y True handler s] Cons.prems bits True show ?thesis
      by (auto simp: ok_iff)
  next
    case False
    let ?h = "h\<lparr>h_m := 0\<rparr>" and ?h' = "h\<lparr>h_seq := h_seq h + 1\<rparr>"
    have pay: "fu_payloads [x, y] hdr 0 (c # cs) = (x # y # hdr # c, False) # fu_payloads [x, y] hdr 0 cs"
      using False by (cases cs) simp_all
    have "u5_part u (h_seq ?h) fr" "plain_hdr ?h"
      using Cons.prems by simp_all
    with h265_unpack_fragment [of ?h c x hdr u fr y True handler s] Cons.prems obtain u' where
      u': "rtp_h265_unpack_input True (\<lambda>_. True) handler u s (datagram ?h (x # y # hdr # c)) (int (length (datagram ?h (x # y # hdr # c))))
          = Some (1, u', s)" "u5_part u' (h_seq h + 1) (fr @ c)"
      by auto
    have "ok (\<lambda>(rs, u', s'). u5_sync u' (h_seq ?h' + of_nat (length cs)) \<and>
        s' = snd (packet_cb handler s (start_code @ (fr @ c) @ concat cs) (h_timestamp ?h') 0))
      (h265_feed handler u' s (packetize ?h' mark (fu_payloads [x, y] hdr 0 cs)))"
      using Cons.prems False u' by (intro Cons.IH) simp_all
    then show ?thesis
      using u' pay by (auto simp: ok_iff add.assoc)
  qed
qed simp

lemma h265_fu_header_bits:
  fixes x :: u8
  shows "push_bit 1 ((0x80 OR (drop_bit 1 x AND 0x3F)) AND 0x3F) OR (((x AND 0x81) OR 98) AND 0x81) = x"
    "H265_TYPE ((x AND 0x81) OR 98) = 49"
    "(drop_bit 1 x AND 0x3F) AND 0x80 = 0" "(drop_bit 1 x AND 0x3F) AND 0x40 = 0"
    "(0x80 OR (drop_bit 1 x AND 0x3F)) AND 0x80 \<noteq> 0" "(0x80 OR (drop_bit 1 x AND 0x3F)) AND 0x40 = 0"
proof -
  have "push_bit 1 ((0x80 OR (drop_bit 1 x AND 0x3F)) AND 0x3F) OR (((x AND 0x81) OR 98) AND 0x81)
      = push_bit 1 (drop_bit 1 x AND mask 6) OR (x AND 0x81)"
    by (simp add: bit.conj_disj_distrib2 and.assoc mask_eq_exp_minus_1)
  also have "push_bit 1 (drop_bit 1 x AND mask 6) = x AND 0x7E"
  proof -
    have m: "(0x7E :: u8) = push_bit 1 (mask 6)"
      by (simp add: mask_eq_exp_minus_1 push_bit_eq_mult)
    show ?thesis
      unfolding m by (rule bit_word_eqI) (simp only: bit_push_bit_iff bit_and_iff bit_drop_bit_eq comp_def, auto)
  qed
  also have "(x AND 0x7E) OR (x AND 0x81) = x AND (0x7E OR 0x81)"
    by (simp only: bit.conj_disj_distrib)
  also have "(0x7E OR 0x81 :: u8) = -1"
    by simp
  finally show "push_bit 1 ((0x80 OR (drop_bit 1 x AND 0x3F)) AND 0x3F) OR (((x AND 0x81) OR 98) AND 0x81) = x"
    by simp
  have "drop_bit 1 ((x AND 0x81) OR 98) AND 0x3F = (49 :: u8)"
    by (simp add: drop_bit_or drop_bit_and bit.conj_disj_distrib2 and.assoc)
  then show "H265_TYPE ((x AND 0x81) OR 98) = 49"
    by (simp add: H265_TYPE_def)
qed (simp_all add: bit.conj_disj_distrib2 and.assoc)

lemma h265_unpack_nal:
  assumes "plain_hdr h" "u5_sync u (h_seq h)" "3 \<le> length n" "H265_TYPE (hd n) < 48" "15 < sz"
    and "length n \<le> RTP_PAYLOAD_MAX_SIZE"
  shows "ok (\<lambda>(rs, u', s'). u5_sync u' (h_seq h + of_nat (length (h265_payloads sz n))) \<and>
      s' = snd (packet_cb handler s (start_code @ n) (h_timestamp h) 0))
    (h265_feed handler u s (packetize h mark (h265_payloads sz n)))"
proof (cases "length n + 12 \<le> sz")
  case True
  let ?h = "h\<lparr>h_m := if H265_TYPE (hd n) < 32 then mark else 0\<rparr>"
  have "plain_hdr ?h" "u5_sync u (h_seq ?h)"
    using assms by simp_all
  with h265_unpack_single [of ?h u n True "\<lambda>_. True" handler s] assms(3,4) True show ?thesis
    by (auto simp: ok_iff h265_payloads_def)
next
  case False
  obtain x y t where n: "n = x # y # t"
    using assms(3) by (cases n; cases "tl n") auto
  define k where "k = sz - 15"
  have k: "0 < k" "k < length t"
    using assms(5) False n by (auto simp: k_def)
  obtain cs where cs: "chunks k t = take k t # cs" "cs \<noteq> []"
    using k chunks.simps [of k t] by simp
  define ind where "ind = (x AND 0x81) OR 98"
  define hdr where "hdr = drop_bit 1 x AND 0x3F"
  note bits = h265_fu_header_bits [of x, folded ind_def hdr_def]
  have pay: "h265_payloads sz n = (ind # y # (0x80 OR hdr) # take k t, False) # fu_payloads [ind, y] hdr 0 cs"
    using False cs by (cases cs) (auto simp: h265_payloads_def n k_def ind_def hdr_def)
  let ?h = "h\<lparr>h_m := 0\<rparr>" and ?h' = "h\<lparr>h_seq := h_seq h + 1\<rparr>"
  have t: "t \<noteq> []"
    using k by auto
  have ne: "\<forall>c \<in> set (chunks k t). c \<noteq> []" "take k t \<noteq> []" and cat: "take k t @ concat cs = t"
    using chunks_nonempty [of t _ k] t k cs concat_chunks [of k t] by auto
  have "length (take k t @ concat cs) + 2 \<le> RTP_PAYLOAD_MAX_SIZE"
    using assms(6) cat n by simp
  then have len: "length [x, y] + length (take k t) \<le> RTP_PAYLOAD_MAX_SIZE"
    "length ([x, y] @ take k t) + length (concat cs) \<le> RTP_PAYLOAD_MAX_SIZE"
    by simp_all
  have "plain_hdr ?h" "u5_sync u (h_seq ?h)"
    using assms by simp_all
  with h265_unpack_fragment [of ?h "take k t" ind "0x80 OR hdr" u "[x, y]" y True handler s] bits ne len(1) obtain u' where
    u': "rtp_h265_unpack_input True (\<lambda>_. True) handler u s (datagram ?h (ind # y # (0x80 OR hdr) # take k t))
        (int (length (datagram ?h (ind # y # (0x80 OR hdr) # take k t)))) = Some (1, u', s)"
      "u5_part u' (h_seq h + 1) ([x, y] @ take k t)"
    by auto
  have "ok (\<lambda>(rs, u', s'). u5_sync u' (h_seq ?h' + of_nat (length cs)) \<and>
      s' = snd (packet_cb handler s (start_code @ ([x, y] @ take k t) @ concat cs) (h_timestamp ?h') 0))
    (h265_feed handler u' s (packetize ?h' mark (fu_payloads [ind, y] hdr 0 cs)))"
    using assms(1) bits cs ne u' len(2) by (intro h265_unpack_fragments) auto
  then show ?thesis
    using u' pay cat n by (auto simp: ok_iff add.assoc)
qed

fun emit_units :: "'s rtp_payload_t \<Rightarrow> 's \<Rightarrow> u32 \<Rightarrow> u8 list list \<Rightarrow> 's" where
  "emit_units handler s t [] = s"
| "emit_units handler s t (n # ns) = emit_units handler (snd (packet_cb handler s (start_code @ n) t 0)) t ns"

lemma h265_unpack_stream:
  assumes "plain_hdr h" "u5_sync u (h_seq h)" "15 < sz"
    and "\<forall>n \<in> set ns. 3 \<le> length n \<and> H265_TYPE (hd n) < 48 \<and> length n \<le> RTP_PAYLOAD_MAX_SIZE"
  shows "ok (\<lambda>(rs, u', s'). u5_sync u' (h_seq h + of_nat (length (nal_stream (h265_payloads sz) h ns)))
      \<and> s' = emit_units handler s (h_timestamp h) ns)
    (h265_feed handler u s (nal_stream (h265_payloads sz) h ns))"
  using assms
proof (induction ns arbitrary: h u s)
  case (Cons n ns)
  let ?m = "if ns = [] then 1 else 0" and ?k = "length (h265_payloads sz n)"
  have "ok (\<lambda>(rs, u', s'). u5_sync u' (h_seq h + of_nat ?k) \<and> s' = snd (packet_cb handler s (start_code @ n) (h_timestamp h) 0))
    (h265_feed handler u s (packetize h ?m (h265_payloads sz n)))"
    using Cons.prems by (intro h265_unpack_nal) simp_all
  then obtain rs u' where u': "h265_feed handler u s (packetize h ?m (h265_payloads sz n)) =
      Some (rs, u', snd (packet_cb handler s (start_code @ n) (h_timestamp h) 0))" "u5_sync u' (h_seq h + of_nat ?k)"
    by (auto simp: ok_iff)
  let ?ds = "nal_stream (h265_payloads sz) (h\<lparr>h_seq := h_seq h + of_nat ?k\<rparr>) ns"
  have "ok (\<lambda>(rs, u', s'). u5_sync u' (h_seq h + of_nat ?k + of_nat (length ?ds))
      \<and> s' = emit_units handler (snd (packet_cb handler s (start_code @ n) (h_timestamp h) 0)) (h_timestamp h) ns)
    (h265_feed handler u' (snd (packet_cb handler s (start_code @ n) (h_timestamp h) 0)) ?ds)"
    using Cons.prems u' Cons.IH [of "h\<lparr>h_seq := h_seq h + of_nat ?k\<rparr>" u'] by simp
  then show ?case
    using u' by (auto simp: ok_iff h265_dec.feed_append ac_simps)
qed simp

lemma length_h265_payload:
  assumes "15 < sz" "p \<in> set (h265_payloads sz n)"
  shows "12 + length (fst p) \<le> sz"
proof (cases "length n + 12 \<le> sz")
  case False
  with assms(2) obtain c where c: "c \<in> set (chunks (sz - 15) (drop 2 n))" "length (fst p) = 3 + length c"
    by (auto simp: h265_payloads_def dest: length_fu_payload)
  from length_chunks_le [OF _ c(1)] assms(1) c(2) show ?thesis
    by simp
qed (use assms in \<open>auto simp: h265_payloads_def\<close>)

section \<open>Aggregation packets\<close>

fun emit_raw :: "'s rtp_payload_t \<Rightarrow> 's \<Rightarrow> u32 \<Rightarrow> u8 list list \<Rightarrow> 's" where
  "emit_raw handler s t [] = s"
| "emit_raw handler s t (n # ns) = emit_raw handler (snd (packet_cb handler s n t 0)) t ns"

lemma ap_loop_aggregate:
  assumes "\<forall>n \<in> set ns. 3 \<le> length n \<and> length n < 65536 \<and> H265_TYPE (hd n) < 48" "u5_inv u" "u5_flags u = 0" "u5_size u = 0"
    and "\<forall>s p t f. fst (packet_cb handler s p t f) = 0"
  shows "h265_ap_loop nd handler ts u s (aggregate ns) (int (length (aggregate ns))) 2 0 = Some (1, u, emit_raw handler s ts ns)"
  using assms(1)
proof (induction ns arbitrary: s)
  case Nil
  then show ?case
    by (simp add: h265_ap_loop.simps [of _ _ _ _ _ "[]"] handled_def)
next
  case (Cons n ns)
  define d where "d = aggregate (n # ns)"
  have d: "d = be16 (of_nat (length n)) @ n @ aggregate ns" and l: "length d = 2 + length n + length (aggregate ns)"
    by (simp_all add: d_def)
  have n: "unat (of_nat (length n) :: u16) = length n" "3 \<le> length n" "H265_TYPE (hd n) < 48"
    using Cons.prems by (simp_all add: unsigned_of_nat take_bit_nat_eq_self)
  then obtain x t where x: "n = x # t"
    by (cases n) auto
  have p: "rtp_read_uint16 d = Some (of_nat (length n))" "c_slice d 2 (length n) = Some n" "rd d 2 = Some (hd n)"
    "drop (length n + 2) d = aggregate ns" "int (length d) - (int (length n) + 2) = int (length (aggregate ns))"
    unfolding d by (simp_all add: c_slice_def rd_def nth_append x)
  obtain s1 where e: "packet_cb handler s n ts 0 = (0, s1)"
    using assms(5) by (metis prod.collapse)
  have u: "u\<lparr>u5_flags := 0, u5_size := 0\<rparr> = u"
    using assms(3,4) by (cases u) simp
  have "h265_ap_loop nd handler ts u s d (int (length d)) 2 0
      = h265_ap_loop nd handler ts u s1 (aggregate ns) (int (length (aggregate ns))) 2 0"
    using n p l e u assms(2,3) by (subst h265_ap_loop.simps) (simp add: adv_def)
  with Cons e show ?case
    unfolding d_def [symmetric] by simp
qed

section \<open>Properties\<close>


text \<open>C16: An access unit of H.265 NAL units that is packed into packets of any size above 15 bytes and
  unpacked again, packet by packet, by a new unpacker yields the same NAL units in the same order,
  each behind a start code, with the timestamp of the access unit and no flag. Every packet carries
  that timestamp and none exceeds the size. The packets go through the callbacks of the restreamer,
  whatever its socket answers.\<close>

theorem h265_roundtrip:
  assumes "p5_inv p" "vr_out s = []" "ns \<noteq> []"
    and "\<forall>n \<in> set ns. nal_ok n \<and> 3 \<le> length n \<and> H265_TYPE (hd n) < 48 \<and> length n \<le> RTP_PAYLOAD_MAX_SIZE"
  shows "\<exists>p' s' rs u'.
    rtp_h265_pack_input nd (restream_handler send) p s (annexb_stream ns) (length (annexb_stream ns)) ts = Some (0, p', s')
    \<and> (\<forall>(d, t) \<in> set (vr_out s'). t = ts \<and> int (length d) \<le> p5_size p)
    \<and> h265_dec.feed (\<lambda>_. True) handler rtp_h265_unpack_create r (map fst (vr_out s')) = Some (rs, u', emit_units handler r ts ns)"
proof -
  let ?sz = "nat (p5_size p)" and ?h = "(pk_rtp (p5_pkt p))\<lparr>h_m := 0, h_timestamp := ts\<rparr>"
  let ?ds = "nal_stream (h265_payloads ?sz) ?h ns"
  have sz: "15 < ?sz" and h: "plain_hdr ?h" "h_timestamp ?h = ts"
    using assms(1) by (auto simp: p5_inv_def plain_pkt_def plain_hdr_def)
  have "\<forall>n \<in> set ns. nal_ok n \<and> 3 \<le> length n"
    using assms(4) by blast
  from vr.h265_pack_stream [OF assms(1,3) this, where s = s and ts = ts and nd = nd and send = send] obtain p' s' where
    p: "rtp_h265_pack_input nd (restream_handler send) p s (annexb_stream ns) (length (annexb_stream ns)) ts = Some (0, p', s')"
      "vr_out s' = map (\<lambda>d. (d, ts)) ?ds"
    using assms(2) by (auto simp: ok_iff Let_def)
  have "12 + length (fst q) \<le> ?sz" if "q \<in> set (h265_payloads ?sz n)" for q n
    using length_h265_payload [OF sz that] .
  then have "\<forall>d \<in> set ?ds. int (length d) \<le> p5_size p"
    using length_nal_stream [of _ "h265_payloads ?sz" ?h ns] sz by fastforce
  moreover have "\<forall>n \<in> set ns. 3 \<le> length n \<and> H265_TYPE (hd n) < 48 \<and> length n \<le> RTP_PAYLOAD_MAX_SIZE"
    using assms(4) by (auto simp: nal_ok_def)
  from h265_unpack_stream [OF h(1) u5_sync_create sz this, of handler r] h(2)
  obtain rs u' where "h265_dec.feed (\<lambda>_. True) handler rtp_h265_unpack_create r ?ds = Some (rs, u', emit_units handler r ts ns)"
    by (auto simp: ok_iff)
  ultimately show ?thesis
    using p by (auto simp: comp_def)
qed

theorem h265_roundtrip_witness:
  "\<exists>p' s' rs u'.
    rtp_h265_pack_input False (restream_handler (\<lambda>i d. -1)) (rtp_h265_pack_create 20 96 65535 7) new_restreamer
      (annexb_stream [[0x40, 1, 2], [0x26, 1, 2, 3, 4, 5, 6, 7, 8, 9, 10]])
      (length (annexb_stream [[0x40, 1, 2], [0x26, 1, 2, 3, 4, 5, 6, 7, 8, 9, 10]])) 90000 = Some (0, p', s')
    \<and> h265_dec.feed (\<lambda>_. True) recorder rtp_h265_unpack_create [] (map fst (vr_out s')) =
        Some (rs, u', [(start_code @ [0x40, 1, 2], 90000, 0),
          (start_code @ [0x26, 1, 2, 3, 4, 5, 6, 7, 8, 9, 10], 90000, 0)])"
proof -
  let ?ns = "[[0x40, 1, 2], [0x26, 1, 2, 3, 4, 5, 6, 7, 8, 9, 10]]"
  have p: "p5_inv (rtp_h265_pack_create 20 96 65535 7)"
    by (simp add: p5_inv_def rtp_h265_pack_create_def blank_packet_def plain_pkt_def)
  have s: "vr_out new_restreamer = []"
    by (simp add: new_restreamer_def)
  have "\<forall>n \<in> set ?ns. nal_ok n"
    by code_simp
  then have n: "\<forall>n \<in> set ?ns. nal_ok n \<and> 3 \<le> length n \<and> H265_TYPE (hd n) < 48 \<and> length n \<le> RTP_PAYLOAD_MAX_SIZE"
    by (simp add: H265_TYPE_def RTP_PAYLOAD_MAX_SIZE_def)
  have e: "emit_units recorder [] 90000 ?ns = [(start_code @ [0x40, 1, 2], 90000, 0),
      (start_code @ [0x26, 1, 2, 3, 4, 5, 6, 7, 8, 9, 10], 90000, 0)]"
    by (simp add: recorder_def)
  from h265_roundtrip [OF p s _ n, of False "\<lambda>i d. -1" 90000 recorder "[]"] show ?thesis
    unfolding e by blast
qed

text \<open>C35: An aggregation packet with any number of NAL units, of 3 to 65535 bytes each, is taken apart into
  exactly these NAL units, in order, but they are handed out without the start code that the
  unpacker puts before single and fragmented NAL units.\<close>

theorem h265_ap_split:
  assumes "plain_hdr h" "u5_sync u (h_seq h)" "H265_TYPE x = 48" "ns \<noteq> []"
    and "\<forall>n \<in> set ns. 3 \<le> length n \<and> length n < 65536 \<and> H265_TYPE (hd n) < 48"
    and "\<forall>s p t f. fst (packet_cb handler s p t f) = 0"
  shows "\<exists>u'. rtp_h265_unpack_input nd mem handler u s (datagram h (x # y # aggregate ns))
        (int (length (datagram h (x # y # aggregate ns))))
      = Some (1, u', emit_raw handler s (h_timestamp h) ns) \<and> u5_sync u' (h_seq h + 1)"
proof -
  define v where "v = h265_track u (dpkt h (x # y # aggregate ns))"
  have v: "u5_inv v" "u5_flags v = 0" "u5_size v = 0" "u5_seq v = h_seq h"
    unfolding v_def using h265_track_sync [OF assms(2)] by simp_all
  obtain n ms where "ns = n # ms" "3 \<le> length n"
    using assms(4,5) by (cases ns) auto
  moreover have "u5_inv u"
    using assms(2) by (simp add: u5_sync_def)
  ultimately have "rtp_h265_unpack_input nd mem handler u s (datagram h (x # y # aggregate ns))
        (int (length (datagram h (x # y # aggregate ns))))
      = h265_ap_loop nd handler (h_timestamp h) v s (aggregate ns) (int (length (aggregate ns))) 2 0"
    using assms(1,3) v(1) by (simp add: rtp_h265_unpack_input_def with_datagram h265_dispatch_def rtp_h265_unpack_ap_def
        Let_def v_def adv_def)
  with ap_loop_aggregate [OF assms(5) v(1-3) assms(6), of nd "h_timestamp h" s] v show ?thesis
    by (auto simp: u5_sync_def)
qed

theorem h265_ap_split_witness:
  "\<exists>u'. rtp_h265_unpack_input False (\<lambda>_. True) recorder rtp_h265_unpack_create []
      (datagram (pk_rtp (blank_packet 96 5 7)) (96 # 1 # aggregate [[0x40, 1, 2], [0x42, 1, 3]]))
      (int (length (datagram (pk_rtp (blank_packet 96 5 7)) (96 # 1 # aggregate [[0x40, 1, 2], [0x42, 1, 3]]))))
    = Some (1, u', [([0x40, 1, 2], 0, 0), ([0x42, 1, 3], 0, 0)])"
proof -
  let ?h = "pk_rtp (blank_packet 96 5 7)" and ?ns = "[[0x40, 1, 2], [0x42, 1, 3]]"
  have h: "plain_hdr ?h" "H265_TYPE 96 = 48"
    by (simp_all add: plain_hdr_def blank_packet_def H265_TYPE_def)
  have n: "\<forall>n \<in> set ?ns. 3 \<le> length n \<and> length n < 65536 \<and> H265_TYPE (hd n) < 48"
    by (simp add: H265_TYPE_def)
  have r: "\<forall>s p t f. fst (packet_cb recorder s p t f) = 0"
    by (simp add: recorder_def)
  from h265_ap_split [OF h(1) u5_sync_create h(2) _ n r, of False "\<lambda>_. True" "[]" 1]
  show ?thesis
    by (auto simp: recorder_def blank_packet_def)
qed

end
