(* ===== verification/Codec_Detector.thy ===== *)
theory Codec_Detector
  imports Rtp_Demuxer H264_Pack H265_Pack
begin

text \<open>
  \<open>src/rtp_codec_detector.cpp\<close>: which codec a datagram carries, told from the first bytes of its payload, and the
  detection of the codec of a stream, which runs a demuxer for plain payloads until the codec of one is known.
\<close>

section \<open>One payload\<close>

datatype VideoCodec = UNKNOWN | H264 | H265

definition codec_type_name :: "VideoCodec \<Rightarrow> string" where
  "codec_type_name codec = (case codec of H264 \<Rightarrow> ''H264'' | H265 \<Rightarrow> ''H265'' | _ \<Rightarrow> ''UNKNOWN'')"

definition h264_found :: "u8 \<Rightarrow> u8 \<Rightarrow> bool" where
  "h264_found b0 b1 \<longleftrightarrow>
     (let h264_f = drop_bit 7 b0 AND 0x01; h264_type = b0 AND 0x1F;
          fu_s = drop_bit 7 b1 AND 0x01; fu_e = drop_bit 6 b1 AND 0x01; fu_type = b1 AND 0x1F
      in h264_f = 0 \<and>
        (h264_type = 1 \<or> h264_type = 5 \<or> h264_type = 7 \<or> h264_type = 8
         \<or> (h264_type = 28 \<or> h264_type = 29) \<and> fu_s \<noteq> 0 \<and> fu_e = 0 \<and> (fu_type = 1 \<or> fu_type = 5)))"

definition h265_found :: "u8 \<Rightarrow> u8 \<Rightarrow> u8 \<Rightarrow> bool" where
  "h265_found b0 b1 b2 \<longleftrightarrow>
     (let h265_f = drop_bit 7 b0 AND 0x01; h265_type = drop_bit 1 b0 AND 0x3F; h265_tid_p = b1 AND 0x07;
          fu_s = drop_bit 7 b2 AND 0x01; fu_e = drop_bit 6 b2 AND 0x01; fu_type = b2 AND 0x3F
      in h265_f = 0 \<and> h265_tid_p \<noteq> 0 \<and>
        (h265_type \<le> 21 \<or> h265_type = 32 \<or> h265_type = 33 \<or> h265_type = 34
         \<or> h265_type = 49 \<and> fu_s \<noteq> 0 \<and> fu_e = 0 \<and> fu_type \<le> 21))"

text \<open>The tests of the length before the second and the third byte are read cannot fail behind the first one.\<close>

definition detect_rtp_codec :: "u8 list \<Rightarrow> int \<Rightarrow> VideoCodec option" where
  "detect_rtp_codec payload payload_len =
     (if payload_len < 64 then Some UNKNOWN
      else do {
        b0 \<leftarrow> rd payload 0;
        b1 \<leftarrow> rd payload 1;
        b2 \<leftarrow> rd payload 2;
        Some (if h264_found b0 b1 \<and> \<not> h265_found b0 b1 b2 then H264
              else if h265_found b0 b1 b2 \<and> \<not> h264_found b0 b1 then H265
              else UNKNOWN) })"

section \<open>One datagram\<close>

definition rtp_classify_codec :: "u8 list \<Rightarrow> int \<Rightarrow> VideoCodec option" where
  "rtp_classify_codec pkt len =
     (if len < 12 then Some UNKNOWN
      else do {
        p0 \<leftarrow> rd pkt 0;
        let csrc_count = uint (p0 AND 0x0F);
        let has_extension = drop_bit 4 p0 AND 0x01 \<noteq> 0;
        let payload_offset = 12 + csrc_count * 4;
        if has_extension \<and> len < payload_offset + 4 then Some UNKNOWN
        else do {
          payload_offset \<leftarrow>
            (if has_extension then do {
               x \<leftarrow> rd pkt (nat payload_offset + 2);
               y \<leftarrow> rd pkt (nat payload_offset + 3);
               Some (payload_offset + 4 + (uint x * 256 + uint y) * 4) }
             else Some payload_offset);
          if len \<le> payload_offset then Some UNKNOWN
          else do {
            p \<leftarrow> adv pkt (nat payload_offset);
            detect_rtp_codec p (len - payload_offset) } } })"

section \<open>A stream\<close>

text \<open>The callback of the demuxer: its state is the codec. The result 1 asks the demuxer to stop.\<close>

definition detect_codec_cb :: "VideoCodec rtp_payload_t" where
  "detect_codec_cb = \<lparr>alloc_cb = \<lambda>s n. (Some (replicate n 0), s), free_cb = \<lambda>s b. s,
     packet_cb = \<lambda>s p t f. (case detect_rtp_codec p (int (length p)) of
         Some c \<Rightarrow> if c \<noteq> UNKNOWN then (1, c) else (0, s) | None \<Rightarrow> (0, s))\<rparr>"

text \<open>What one round of a loop finds at the socket: an error of \<open>poll\<close>, interrupted or not, no event in time, an event that is not
  input, or the result \<open>n\<close> of \<open>recvfrom\<close> with the buffer.\<close>

datatype poll_event = Poll_Error bool | Poll_Timeout | Poll_Other | Received "u8 list" int

text \<open>\<open>rounds\<close> are the events until the receiver is told to stop; the loop also ends with an error of \<open>poll\<close>.\<close>

fun detect_loop ::
  "env \<Rightarrow> nat \<Rightarrow> poll_event list \<Rightarrow> ('d, VideoCodec) rtp_demuxer_t \<Rightarrow> ('d, VideoCodec) rtp_demuxer_t option" where
  "detect_loop E addr [] d = Some d"
| "detect_loop E addr (e # rounds) d =
     (if d_param d \<noteq> UNKNOWN then Some d
      else case e of
        Poll_Error eintr \<Rightarrow> if eintr then detect_loop E addr rounds d else Some d
      | Received buf n \<Rightarrow> if n > 0 then do { (r, d) \<leftarrow> rtp_demuxer_input E addr buf n d; detect_loop E addr rounds d }
          else detect_loop E addr rounds d
      | _ \<Rightarrow> detect_loop E addr rounds d)"

definition detect_codec ::
  "env \<Rightarrow> (payload_format \<Rightarrow> ('d, VideoCodec) rtp_payload_decode_t) \<Rightarrow> nat \<Rightarrow> u64 \<Rightarrow> u64 \<Rightarrow> u32 \<Rightarrow> poll_event list
    \<Rightarrow> VideoCodec option" where
  "detect_codec E decoders addr clock clock' ssrc rounds = do {
     r \<leftarrow> rtp_demuxer_create E decoders 100 90000 0 None UNKNOWN clock clock' ssrc;
     case r of
       Inl m \<Rightarrow> Some UNKNOWN
     | Inr d \<Rightarrow> do {
         d \<leftarrow> detect_loop E addr rounds d;
         x \<leftarrow> rtp_demuxer_destroy E d;
         Some (d_param d) } }"

section \<open>Classification of the packets of a stream\<close>

lemma u8_all: "list_all (\<lambda>n. P (word_of_int n :: u8)) [0..255] \<Longrightarrow> \<forall>b. P b"
proof
  fix b :: u8
  assume "list_all (\<lambda>n. P (word_of_int n :: u8)) [0..255]"
  moreover have "uint b \<in> set [0..255]"
    using uint_bounded [of b] by simp
  ultimately have "P (word_of_int (uint b))" by (simp only: list_all_iff)
  then show "P b" by (simp only: word_of_int_uint)
qed

lemma h264_bytes:
  "\<forall>b :: u8. b AND 0x80 = 0 \<longrightarrow> drop_bit 7 b AND 0x01 = 0"
  "\<forall>b :: u8. b AND 0x1F \<in> {1, 5, 7, 8} \<and> b AND 0x60 = 0x60 \<longrightarrow> 49 < drop_bit 1 b AND 0x3F \<or> drop_bit 1 b AND 0x3F = 48"
  "\<forall>b :: u8. b AND 0x60 \<noteq> 0 \<longrightarrow> drop_bit 1 ((b AND 0xE0) OR 28) AND 0x3F \<in> {30, 46, 62}"
  "\<forall>b :: u8. ((b AND 0xE0) OR 28) AND 0x1F = 28 \<and> (b AND 0x80 = 0 \<longrightarrow> ((b AND 0xE0) OR 28) AND 0x80 = 0)"
  by (rule u8_all, code_simp)+

lemma h265_bytes:
  "\<forall>b :: u8. b AND 0x81 = 0 \<longrightarrow> drop_bit 7 b AND 0x01 = 0 \<and> b AND 0x1F \<notin> {1, 5, 7, 29}"
  "\<forall>b :: u8. b AND 0x81 = 0 \<and> b AND 0x1F = 8 \<longrightarrow> drop_bit 1 b AND 0x3F \<in> {4, 20, 36, 52}"
  "\<forall>b :: u8. b AND 0xF8 = 0 \<longrightarrow> drop_bit 7 b AND 0x01 = 0"
  by (rule u8_all, code_simp)+

lemma detect_cases:
  assumes "length p < 64 \<or> P (if h264_found (p ! 0) (p ! 1) \<and> \<not> h265_found (p ! 0) (p ! 1) (p ! 2) then H264
      else if h265_found (p ! 0) (p ! 1) (p ! 2) \<and> \<not> h264_found (p ! 0) (p ! 1) then H265 else UNKNOWN)"
    and "P UNKNOWN"
  shows "ok P (detect_rtp_codec p (int (length p)))"
  using assms by (auto simp: detect_rtp_codec_def ok_simps)

lemma detect_long:
  "64 \<le> length p \<Longrightarrow> detect_rtp_codec p (int (length p)) = Some
     (if h264_found (p ! 0) (p ! 1) \<and> \<not> h265_found (p ! 0) (p ! 1) (p ! 2) then H264
      else if h265_found (p ! 0) (p ! 1) (p ! 2) \<and> \<not> h264_found (p ! 0) (p ! 1) then H265 else UNKNOWN)"
  by (cases "p = []") (simp_all add: detect_rtp_codec_def rd_def)

lemma plain_header_byte:
  assumes "plain_hdr h"
  shows "rtp_header_bytes h ! 0 = 0x80"
  using assms by (simp add: rtp_header_bytes_def rtp_header_first_bytes plain_hdr_def)

lemma classify_datagram:
  assumes "plain_hdr h"
  shows "rtp_classify_codec (datagram h p) (int (length (datagram h p))) = detect_rtp_codec p (int (length p))"
  using plain_header_byte [OF assms]
  by (simp add: rtp_classify_codec_def datagram_def rd_def nth_append adv_def detect_rtp_codec_def)

text \<open>Only the datagram matters, not the rest of the buffer.\<close>

lemma detect_take:
  "int (length p) \<ge> n \<Longrightarrow> detect_rtp_codec (take (nat n) p) n = detect_rtp_codec p n"
  by (auto simp: detect_rtp_codec_def rd_def)

lemma classify_take:
  assumes "n \<le> int (length buf)"
  shows "rtp_classify_codec (take (nat n) buf) n = rtp_classify_codec buf n"
proof -
  have rd: "rd (take (nat n) buf) i = rd buf i" if "int i < n" for i
    using assms that by (auto simp: rd_def)
  have detect: "adv (take (nat n) buf) (nat off) \<bind> (\<lambda>p. detect_rtp_codec p (n - off))
      = adv buf (nat off) \<bind> (\<lambda>p. detect_rtp_codec p (n - off))" if "0 \<le> off" "off < n" for off
    using assms that detect_take [of "n - off" "drop (nat off) buf"] by (auto simp: adv_def drop_take nat_diff_distrib)
  have pos: "0 \<le> uint x" for x :: u8 by simp
  show ?thesis
    using pos
    by (auto simp: rtp_classify_codec_def Let_def rd detect intro!: Option.bind_cong)
qed

text \<open>NAL units as an encoder makes them: H.264 slices and parameter sets that are used for reference, and H.265 units of the
  base layer other than the end of a sequence, which is two bytes long.\<close>

definition h264_coded :: "u8 list \<Rightarrow> bool" where
  "h264_coded n \<longleftrightarrow> n \<noteq> [] \<and> hd n AND 0x1F \<in> {1, 5, 7, 8} \<and> hd n AND 0x80 = 0 \<and> hd n AND 0x60 \<noteq> 0"

definition h265_coded :: "u8 list \<Rightarrow> bool" where
  "h265_coded n \<longleftrightarrow> 3 \<le> length n \<and> hd n AND 0x81 = 0 \<and> n ! 1 AND 0xF8 = 0 \<and> n ! 1 AND 0x07 \<noteq> 0
     \<and> H265_TYPE (hd n) < 48 \<and> H265_TYPE (hd n) \<noteq> 36"

lemma fu_payload_shape:
  "(p, e) \<in> set (fu_payloads pre hdr st cs) \<Longrightarrow> \<exists>x c. p = pre @ x # c"
  by (induction pre hdr st cs rule: fu_payloads.induct) auto

lemma h264_fu_not_h265:
  assumes "b AND 0x60 \<noteq> 0"
  shows "\<not> h265_found ((b AND 0xE0) OR 28) b1 b2"
  using h264_bytes(3) assms unfolding h265_found_def Let_def by fastforce

lemma detect_h264_payload:
  assumes "h264_coded n" "(p, e) \<in> set (h264_payloads sz n)"
  shows "ok (\<lambda>c. c \<noteq> H265) (detect_rtp_codec p (int (length p)))"
proof (cases "length n + 12 \<le> sz")
  case True
  then have p: "p = n" using assms(2) by (simp add: h264_payloads_def)
  have "h264_found (n ! 0) (n ! 1)"
    using assms(1) h264_bytes(1) by (auto simp: h264_coded_def h264_found_def Let_def hd_conv_nth)
  then show ?thesis
    unfolding p by (intro detect_cases) auto
next
  case False
  then obtain x c where p: "p = ((hd n AND 0xE0) OR 28) # x # c"
    using assms(2) fu_payload_shape by (fastforce simp: h264_payloads_def)
  have "hd n AND 0x60 \<noteq> 0"
    using assms(1) by (simp add: h264_coded_def)
  from h264_fu_not_h265 [OF this] show ?thesis
    unfolding p by (intro detect_cases) auto
qed

lemma detect_h265_payload:
  assumes "h265_coded n" "(p, e) \<in> set (h265_payloads sz n)"
  shows "ok (\<lambda>c. c \<noteq> H264) (detect_rtp_codec p (int (length p)))"
proof (cases "length n + 12 \<le> sz")
  case True
  then have p: "p = n" using assms(2) by (simp add: h265_payloads_def)
  have hd: "hd n = n ! 0" using assms(1) by (cases n) (auto simp: h265_coded_def)
  have n: "n ! 0 AND 0x81 = 0" "n ! 1 AND 0xF8 = 0" "n ! 1 AND 0x07 \<noteq> 0" "H265_TYPE (n ! 0) < 48" "H265_TYPE (n ! 0) \<noteq> 36"
    using assms(1) unfolding h265_coded_def hd by blast+
  have type: "H265_TYPE (n ! 0) = 36 \<longleftrightarrow> drop_bit 1 (n ! 0) AND 0x3F = 36" "H265_TYPE (n ! 0) < 48 \<longleftrightarrow> drop_bit 1 (n ! 0) AND 0x3F < 48"
    by (simp_all add: H265_TYPE_def word_less_nat_alt word_unat_eq_iff)
  have "h265_found (n ! 0) (n ! 1) (n ! 2)" if f: "h264_found (n ! 0) (n ! 1)"
  proof -
    have "n ! 0 AND 0x1F = 8"
      using f h265_bytes(1) [rule_format, OF n(1)] h265_bytes(3) [rule_format, OF n(2)] unfolding h264_found_def Let_def by blast
    then have "drop_bit 1 (n ! 0) AND 0x3F \<in> {4, 20}"
      using h265_bytes(2) n(1,4,5) unfolding type by fastforce
    then show ?thesis
      using h265_bytes(1) [rule_format, OF n(1)] n(3) unfolding h265_found_def Let_def by fastforce
  qed
  then show ?thesis
    unfolding p by (intro detect_cases) auto
next
  case False
  then obtain x c where p: "p = ((hd n AND 0x81) OR 98) # n ! 1 # x # c"
    using assms(2) fu_payload_shape by (fastforce simp: h265_payloads_def)
  have "\<not> h264_found 98 b1" for b1
    by (simp add: h264_found_def Let_def)
  with assms(1) show ?thesis
    unfolding p by (intro detect_cases) (auto simp: h265_coded_def)
qed

lemma packetize_payload:
  "\<lbrakk>plain_hdr h; d \<in> set (packetize h mark ps)\<rbrakk> \<Longrightarrow> \<exists>g p e. plain_hdr g \<and> (p, e) \<in> set ps \<and> d = datagram g p"
proof (induction h mark ps rule: packetize.induct)
  case (2 h mark p e ps)
  then consider "d = datagram (h\<lparr>h_m := if e then mark else 0\<rparr>) p" | "d \<in> set (packetize (h\<lparr>h_seq := h_seq h + 1\<rparr>) mark ps)"
    by auto
  then show ?case
  proof cases
    case 1
    with 2 show ?thesis
      by (intro exI [of _ "h\<lparr>h_m := if e then mark else 0\<rparr>"] exI [of _ p] exI [of _ e]) (simp add: plain_hdr_def)
  next
    case in_rest: 2
    with 2 obtain g q e' where "plain_hdr g" "(q, e') \<in> set ps" "d = datagram g q" by (auto simp: plain_hdr_def)
    then show ?thesis
      by (intro exI [of _ g] exI [of _ q] exI [of _ e']) simp
  qed
qed simp

lemma nal_stream_payload:
  "\<lbrakk>plain_hdr h; d \<in> set (nal_stream f h ns)\<rbrakk> \<Longrightarrow> \<exists>n \<in> set ns. \<exists>g p e. plain_hdr g \<and> (p, e) \<in> set (f n) \<and> d = datagram g p"
proof (induction f h ns rule: nal_stream.induct)
  case (2 f h n ns)
  from 2 packetize_payload [of h d "if ns = [] then 1 else 0" "f n"] show ?case
    by (auto simp: plain_hdr_def)
qed simp

text \<open>Streams that are not confused: no datagram of the stream is taken for the other codec.\<close>

lemma stream_classes:
  assumes "plain_hdr h"
  shows "\<forall>n \<in> set ns. h264_coded n \<Longrightarrow> d \<in> set (nal_stream (h264_payloads sz) h ns)
      \<Longrightarrow> ok (\<lambda>c. c \<noteq> H265) (rtp_classify_codec d (int (length d)))"
    and "\<forall>n \<in> set ns. h265_coded n \<Longrightarrow> d \<in> set (nal_stream (h265_payloads sz) h ns)
      \<Longrightarrow> ok (\<lambda>c. c \<noteq> H264) (rtp_classify_codec d (int (length d)))"
proof -
  show "ok (\<lambda>c. c \<noteq> H265) (rtp_classify_codec d (int (length d)))"
    if "\<forall>n \<in> set ns. h264_coded n" "d \<in> set (nal_stream (h264_payloads sz) h ns)"
    using nal_stream_payload [OF assms that(2)] detect_h264_payload that(1) by (metis classify_datagram)
  show "ok (\<lambda>c. c \<noteq> H264) (rtp_classify_codec d (int (length d)))"
    if "\<forall>n \<in> set ns. h265_coded n" "d \<in> set (nal_stream (h265_payloads sz) h ns)"
    using nal_stream_payload [OF assms that(2)] detect_h265_payload that(1) by (metis classify_datagram)
qed

lemma hd_nal_stream:
  "f n \<noteq> [] \<Longrightarrow> \<exists>m. hd (nal_stream f h [n]) = datagram (h\<lparr>h_m := m\<rparr>) (fst (hd (f n)))"
  by (cases "f n") auto

lemma hd_fu_payloads:
  "k < length t \<Longrightarrow> 0 < k \<Longrightarrow> \<exists>ps. fu_payloads pre hdr st (chunks k t) = (pre @ [st OR hdr] @ take k t, False) # ps"
  by (subst chunks.simps, cases "chunks k (drop k t)") simp_all

lemma fragment_bytes:
  "\<forall>b :: u8. b AND 0x1F \<in> {1, 5} \<longrightarrow> (0x80 OR (b AND 0x1F)) AND 0x1F = b AND 0x1F"
  "\<forall>b :: u8. drop_bit 7 (0x80 OR (b AND 0x1F)) AND 0x01 = 1 \<and> drop_bit 6 (0x80 OR (b AND 0x1F)) AND 0x01 = 0"
  "\<forall>b :: u8. drop_bit 7 (0x80 OR (drop_bit 1 b AND 0x3F)) AND 0x01 = 1 \<and> drop_bit 6 (0x80 OR (drop_bit 1 b AND 0x3F)) AND 0x01 = 0"
  "\<forall>b :: u8. (0x80 OR (drop_bit 1 b AND 0x3F)) AND 0x3F = drop_bit 1 b AND 0x3F"
  by (rule u8_all, code_simp)+

lemma first_fragment_h264:
  assumes "plain_hdr h" "sz < length n + 12" "76 \<le> sz" and n: "h264_coded n" "hd n AND 0x1F \<in> {1, 5}"
  shows "rtp_classify_codec (hd (nal_stream (h264_payloads sz) h [n])) (int sz) = Some H264"
proof -
  have k: "sz - 14 < length (tl n)" "0 < sz - 14"
    using assms(2,3) by auto
  let ?p = "((hd n AND 0xE0) OR 28) # (0x80 OR (hd n AND 0x1F)) # take (sz - 14) (tl n)"
  obtain ps where ps: "h264_payloads sz n = (?p, False) # ps"
    using hd_fu_payloads [OF k(1,2), of "[(hd n AND 0xE0) OR 28]" "hd n AND 0x1F" "0x80"] assms(2)
    by (auto simp: h264_payloads_def)
  then obtain m where m: "hd (nal_stream (h264_payloads sz) h [n]) = datagram (h\<lparr>h_m := m\<rparr>) ?p"
    using hd_nal_stream [of "h264_payloads sz" n h] by auto
  have len: "length (datagram (h\<lparr>h_m := m\<rparr>) ?p) = sz" "64 \<le> length ?p"
    using assms(2,3) by (simp_all add: datagram_def)
  have "\<not> h265_found ((hd n AND 0xE0) OR 28) b1 b2" for b1 b2
    using n(1) by (intro h264_fu_not_h265) (simp add: h264_coded_def)
  moreover have "h264_found ((hd n AND 0xE0) OR 28) (0x80 OR (hd n AND 0x1F))"
    using n h264_bytes(1,4) fragment_bytes(1,2) unfolding h264_found_def h264_coded_def Let_def by auto
  ultimately have "detect_rtp_codec ?p (int (length ?p)) = Some H264"
    using detect_long [OF len(2)] by simp
  then show ?thesis
    using classify_datagram [of "h\<lparr>h_m := m\<rparr>" ?p] assms(1) unfolding m len(1) by (simp add: plain_hdr_def)
qed

lemma first_fragment_h265:
  assumes "plain_hdr h" "sz < length n + 12" "76 \<le> sz" and n: "h265_coded n" "H265_TYPE (hd n) \<le> 21"
  shows "rtp_classify_codec (hd (nal_stream (h265_payloads sz) h [n])) (int sz) = Some H265"
proof -
  have k: "sz - 15 < length (drop 2 n)" "0 < sz - 15"
    using assms(2,3) by auto
  let ?p = "98 # n ! 1 # (0x80 OR (drop_bit 1 (hd n) AND 0x3F)) # take (sz - 15) (drop 2 n)"
  have "(hd n AND 0x81) OR 98 = 98"
    using n(1) by (simp add: h265_coded_def)
  then obtain ps where ps: "h265_payloads sz n = (?p, False) # ps"
    using hd_fu_payloads [OF k(1,2), of "[(hd n AND 0x81) OR 98, n ! 1]" "drop_bit 1 (hd n) AND 0x3F" "0x80"] assms(2)
    by (auto simp: h265_payloads_def)
  then obtain m where m: "hd (nal_stream (h265_payloads sz) h [n]) = datagram (h\<lparr>h_m := m\<rparr>) ?p"
    using hd_nal_stream [of "h265_payloads sz" n h] by auto
  have len: "length (datagram (h\<lparr>h_m := m\<rparr>) ?p) = sz" "64 \<le> length ?p"
    using assms(2,3) by (simp_all add: datagram_def)
  have "\<not> h264_found 98 (n ! 1)"
    by (simp add: h264_found_def Let_def)
  moreover have "h265_found 98 (n ! 1) (0x80 OR (drop_bit 1 (hd n) AND 0x3F))"
    using n fragment_bytes(3,4) unfolding h265_found_def h265_coded_def Let_def H265_TYPE_def by (auto simp: word_le_nat_alt)
  ultimately have "detect_rtp_codec ?p (int (length ?p)) = Some H265"
    using detect_long [OF len(2)] by simp
  then show ?thesis
    using classify_datagram [of "h\<lparr>h_m := m\<rparr>" ?p] assms(1) unfolding m len(1) by (simp add: plain_hdr_def)
qed

section \<open>Properties\<close>

text \<open>C30: Neither codec is taken for the other: when the NAL units of a stream are H.264 slices and parameter sets that are used for
  reference, no datagram of it is classified as H.265, whatever the packet size; and no datagram of a stream of H.265 units of the
  base layer is classified as H.264. The first fragment of a fragmented reference slice of at least 64 bytes is recognised as H.264, and that
  of an H.265 slice as H.265.\<close>

theorem codec_not_confused:
  assumes "plain_hdr h"
  shows "((\<forall>n \<in> set ns. h264_coded n)
        \<longrightarrow> list_all (\<lambda>d. ok (\<lambda>c. c \<noteq> H265) (rtp_classify_codec d (int (length d)))) (nal_stream (h264_payloads sz) h ns))
    \<and> ((\<forall>n \<in> set ns. h265_coded n)
        \<longrightarrow> list_all (\<lambda>d. ok (\<lambda>c. c \<noteq> H264) (rtp_classify_codec d (int (length d)))) (nal_stream (h265_payloads sz) h ns))
    \<and> (h264_coded n \<and> hd n AND 0x1F \<in> {1, 5} \<and> sz < length n + 12 \<and> 76 \<le> sz
        \<longrightarrow> rtp_classify_codec (hd (nal_stream (h264_payloads sz) h [n])) (int sz) = Some H264)
    \<and> (h265_coded n \<and> H265_TYPE (hd n) \<le> 21 \<and> sz < length n + 12 \<and> 76 \<le> sz
        \<longrightarrow> rtp_classify_codec (hd (nal_stream (h265_payloads sz) h [n])) (int sz) = Some H265)"
  using stream_classes [OF assms] first_fragment_h264 [OF assms] first_fragment_h265 [OF assms] by (auto simp: list_all_iff)

text \<open>The reference slice and the H.265 picture of the witness, 150 bytes long and sent in packets of 100 bytes.\<close>

theorem codec_not_confused_witness:
  "let h = \<lparr>h_v = 2, h_p = 0, h_x = 0, h_cc = 0, h_m = 0, h_pt = 96, h_seq = 7, h_timestamp = 90000, h_ssrc = 1\<rparr>;
       a = 0x65 # replicate 149 1; b = [0x26, 1] @ replicate 148 1
   in list_all (\<lambda>d. ok (\<lambda>c. c \<noteq> H265) (rtp_classify_codec d (int (length d)))) (nal_stream (h264_payloads 100) h [[0x67, 1], a])
    \<and> list_all (\<lambda>d. ok (\<lambda>c. c \<noteq> H264) (rtp_classify_codec d (int (length d)))) (nal_stream (h265_payloads 100) h [b])
    \<and> rtp_classify_codec (hd (nal_stream (h264_payloads 100) h [a])) 100 = Some H264
    \<and> rtp_classify_codec (hd (nal_stream (h265_payloads 100) h [b])) 100 = Some H265"
proof -
  let ?h = "\<lparr>h_v = 2, h_p = 0, h_x = 0, h_cc = 0, h_m = 0, h_pt = 96, h_seq = 7, h_timestamp = 90000, h_ssrc = 1\<rparr> :: rtp_header_t"
  let ?a = "0x65 # replicate 149 1 :: u8 list" and ?b = "[0x26, 1] @ replicate 148 1 :: u8 list"
  have h: "plain_hdr ?h" by (simp add: plain_hdr_def)
  have n: "h264_coded [0x67, 1]" "h264_coded ?a" "h265_coded ?b" "H265_TYPE (hd ?b) = 19"
    by (simp_all add: h264_coded_def h265_coded_def H265_TYPE_def)
  show ?thesis
    using codec_not_confused [OF h, of "[[0x67, 1], ?a]" 100 ?a] codec_not_confused [OF h, of "[?b]" 100 ?b] n
    unfolding Let_def by simp
qed

text \<open>Where the tests overlap: a fragment in the middle of an H.264 slice that is not used for reference, and an H.264 message of user data, are
  taken for H.265.\<close>

lemma codec_confused:
  assumes "64 \<le> length p"
  shows "p ! 0 = 0x1C \<Longrightarrow> p ! 1 = 0x01 \<Longrightarrow> detect_rtp_codec p (int (length p)) = Some H265"
    and "p ! 0 = 0x06 \<Longrightarrow> p ! 1 = 0x05 \<Longrightarrow> detect_rtp_codec p (int (length p)) = Some H265"
  using detect_long [OF assms] by (simp_all add: h264_found_def h265_found_def Let_def)

end
