(* ===== verification/Rtp_Receiver.thy ===== *)
theory Rtp_Receiver
  imports Codec_Detector
begin

text \<open>
  \<open>src/rtp_receiver.cpp\<close>: the loop that receives datagrams, notices a change of the codec and feeds the demuxer. The
  application is its callback \<open>m_cb\<close> with the state that it changes: it gets the data of the demuxer with
  the flag \<open>False\<close>, and no data with the flag \<open>True\<close> when the codec has changed. \<open>main.cpp\<close> then stops the thread and starts
  it again for the new codec.
\<close>

section \<open>The thread\<close>

definition CODEC_MISMATCH_CONFIRM :: int where "CODEC_MISMATCH_CONFIRM = 5"

record ('d, 's) rtp_receiver =
  m_video_codec :: VideoCodec
  m_codec_mismatch_count :: int
  m_demuxer :: "('d, 's) rtp_demuxer_t"

definition main_rtp_cb :: "('s \<Rightarrow> u8 list \<Rightarrow> bool \<Rightarrow> 's) \<Rightarrow> 's \<Rightarrow> u8 list \<Rightarrow> u32 \<Rightarrow> int \<Rightarrow> int \<times> 's" where
  "main_rtp_cb m_cb s packet timestamp flags = (0, m_cb s packet False)"

definition receive ::
  "env \<Rightarrow> nat \<Rightarrow> ('s \<Rightarrow> u8 list \<Rightarrow> bool \<Rightarrow> 's) \<Rightarrow> u8 list \<Rightarrow> int \<Rightarrow> ('d, 's) rtp_receiver \<Rightarrow> ('d, 's) rtp_receiver option" where
  "receive E addr m_cb buffer n r = do {
     packet_codec \<leftarrow> rtp_classify_codec buffer n;
     let changed = packet_codec \<noteq> UNKNOWN \<and> packet_codec \<noteq> m_video_codec r;
     let r = (if changed then r\<lparr>m_codec_mismatch_count := m_codec_mismatch_count r + 1\<rparr>
              else if packet_codec = m_video_codec r then r\<lparr>m_codec_mismatch_count := 0\<rparr> else r);
     if changed \<and> m_codec_mismatch_count r \<ge> CODEC_MISMATCH_CONFIRM
     then let d = m_demuxer r in
       Some (r\<lparr>m_video_codec := packet_codec, m_codec_mismatch_count := 0, m_demuxer := d\<lparr>d_param := m_cb (d_param d) [] True\<rparr>\<rparr>)
     else do {
       (x, d) \<leftarrow> rtp_demuxer_input E addr buffer n (m_demuxer r);
       Some (r\<lparr>m_demuxer := d\<rparr>) } }"

fun receiver_loop ::
  "env \<Rightarrow> nat \<Rightarrow> ('s \<Rightarrow> u8 list \<Rightarrow> bool \<Rightarrow> 's) \<Rightarrow> poll_event list \<Rightarrow> ('d, 's) rtp_receiver \<Rightarrow> ('d, 's) rtp_receiver option" where
  "receiver_loop E addr m_cb [] r = Some r"
| "receiver_loop E addr m_cb (e # rounds) r =
     (case e of
        Poll_Error eintr \<Rightarrow> if eintr then receiver_loop E addr m_cb rounds r else Some r
      | Received buffer n \<Rightarrow>
          if n > 0 then do { r \<leftarrow> receive E addr m_cb buffer n r; receiver_loop E addr m_cb rounds r }
          else receiver_loop E addr m_cb rounds r
      | _ \<Rightarrow> receiver_loop E addr m_cb rounds r)"

text \<open>The result is the codec, the count, the state of the application, and what the destruction of the demuxer returned.\<close>

definition rtp_receiver_thread ::
  "env \<Rightarrow> (payload_format \<Rightarrow> ('d, 's) rtp_payload_decode_t) \<Rightarrow> nat \<Rightarrow> ('s \<Rightarrow> u8 list \<Rightarrow> bool \<Rightarrow> 's) \<Rightarrow> u64 \<Rightarrow> u64 \<Rightarrow> u32
    \<Rightarrow> poll_event list \<Rightarrow> VideoCodec \<Rightarrow> int \<Rightarrow> 's \<Rightarrow> (VideoCodec \<times> int \<times> 's \<times> (int \<times> mheap \<times> dheap) option) option" where
  "rtp_receiver_thread E decoders addr m_cb clock clock' ssrc rounds codec mismatch s =
     (let codec_name = codec_type_name codec in
      if codec_name = ''UNKNOWN'' then Some (codec, mismatch, s, None)
      else do {
        x \<leftarrow> rtp_demuxer_create E decoders 0 90000 RTP_PAYLOAD_DYNAMIC (Some codec_name) s clock clock' ssrc;
        case x of
          Inl m \<Rightarrow> Some (codec, mismatch, s, None)
        | Inr d \<Rightarrow> do {
            r \<leftarrow> receiver_loop E addr m_cb rounds \<lparr>m_video_codec = codec, m_codec_mismatch_count = mismatch, m_demuxer = d\<rparr>;
            y \<leftarrow> rtp_demuxer_destroy E (m_demuxer r);
            Some (m_video_codec r, m_codec_mismatch_count r, d_param (m_demuxer r), Some y) } })"

section \<open>When the codec changes\<close>

text \<open>The number of datagrams of another codec since the last one of the codec \<open>cur\<close>.\<close>

definition mismatches :: "VideoCodec \<Rightarrow> VideoCodec list \<Rightarrow> nat" where
  "mismatches cur cs = length (filter (\<lambda>c. c \<noteq> UNKNOWN) (takeWhile (\<lambda>c. c \<noteq> cur) (rev cs)))"

fun inputs :: "poll_event list \<Rightarrow> (u8 list \<times> int) list" where
  "inputs [] = []"
| "inputs (Received buffer n # es) = (if n > 0 then (buffer, n) # inputs es else inputs es)"
| "inputs (e # es) = inputs es"

definition classified :: "(u8 list \<times> int) list \<Rightarrow> VideoCodec list \<Rightarrow> bool" where
  "classified ds cs \<longleftrightarrow> (\<forall>(buffer, n) \<in> set ds. 0 < n) \<and> map (\<lambda>(buffer, n). rtp_classify_codec buffer n) ds = map Some cs"

definition interrupted_only :: "poll_event list \<Rightarrow> bool" where
  "interrupted_only es \<longleftrightarrow> Poll_Error False \<notin> set es"

lemma mismatches_simps [simp]:
  "mismatches cur [] = 0"
  "mismatches cur (cs @ [c]) = (if c = cur then 0 else if c = UNKNOWN then mismatches cur cs else mismatches cur cs + 1)"
  by (auto simp: mismatches_def)

lemma loop_inputs:
  "interrupted_only es \<Longrightarrow> receiver_loop E addr m_cb es r = receiver_loop E addr m_cb (map (\<lambda>(buffer, n). Received buffer n) (inputs es)) r"
proof (induction es arbitrary: r)
  case (Cons e es)
  then show ?case
    by (cases e) (auto simp: interrupted_only_def split: Option.bind_split)
qed simp

lemma loop_append:
  "interrupted_only es \<Longrightarrow> receiver_loop E addr m_cb (es @ es') r = receiver_loop E addr m_cb es r \<bind> receiver_loop E addr m_cb es'"
proof (induction es arbitrary: r)
  case (Cons e es)
  then show ?case
    by (cases e) (auto simp: interrupted_only_def split: Option.bind_split)
qed simp

lemma demux_run_append:
  "demux_run E (xs @ ys) d = do { (rs, d) \<leftarrow> demux_run E xs d; (ss, d) \<leftarrow> demux_run E ys d; Some (rs @ ss, d) }"
proof (induction xs arbitrary: d)
  case (Cons x xs)
  obtain a b c where x: "x = (a, b, c)" by (cases x)
  show ?case
    unfolding x by (cases "rtp_demuxer_input E a b c d") (auto simp: Cons.IH split_beta split: Option.bind_split)
qed (auto split: Option.bind_split)

lemma receive_quiet:
  assumes "m_video_codec r = cur" "cur \<noteq> UNKNOWN" "m_codec_mismatch_count r = int (mismatches cur cs)"
    and "rtp_classify_codec buffer n = Some c" "mismatches cur (cs @ [c]) < 5"
  shows "receive E addr m_cb buffer n r
    = map_option (\<lambda>(x, d). r\<lparr>m_codec_mismatch_count := int (mismatches cur (cs @ [c])), m_demuxer := d\<rparr>)
        (rtp_demuxer_input E addr buffer n (m_demuxer r))"
  using assms by (auto simp: receive_def Let_def CODEC_MISMATCH_CONFIRM_def split: Option.bind_split)

lemma receive_switch:
  assumes "m_video_codec r = cur" "cur \<noteq> UNKNOWN" "m_codec_mismatch_count r = int (mismatches cur cs)"
    and "rtp_classify_codec buffer n = Some c" "mismatches cur (cs @ [c]) \<ge> 5" "mismatches cur cs < 5"
  shows "receive E addr m_cb buffer n r
    = Some (r\<lparr>m_video_codec := c, m_codec_mismatch_count := 0,
        m_demuxer := (m_demuxer r)\<lparr>d_param := m_cb (d_param (m_demuxer r)) [] True\<rparr>\<rparr>)"
  using assms by (auto simp: receive_def Let_def CODEC_MISMATCH_CONFIRM_def split: if_splits)

lemma loop_quiet:
  assumes "cur \<noteq> UNKNOWN" "m_video_codec r = cur" "m_codec_mismatch_count r = 0"
  shows "\<lbrakk>classified ds cs; \<forall>k \<le> length cs. mismatches cur (take k cs) < 5\<rbrakk> \<Longrightarrow>
   receiver_loop E addr m_cb (map (\<lambda>(buffer, n). Received buffer n) ds) r
   = map_option (\<lambda>(rs, d). r\<lparr>m_codec_mismatch_count := int (mismatches cur cs), m_demuxer := d\<rparr>)
       (demux_run E (map (Pair addr) ds) (m_demuxer r))"
proof (induction ds arbitrary: cs rule: rev_induct)
  case Nil
  then show ?case using assms(3) by (simp add: classified_def)
next
  case (snoc x ds)
  obtain buffer n where x: "x = (buffer, n)" by (cases x)
  obtain c cs' where cs: "cs = cs' @ [c]" "classified ds cs'" "rtp_classify_codec buffer n = Some c"
    using snoc.prems(1) x by (cases cs rule: rev_cases) (auto simp: classified_def)
  have quiet: "\<forall>k \<le> length cs'. mismatches cur (take k cs') < 5" "mismatches cur (cs' @ [c]) < 5"
    using snoc.prems(2) cs(1) by (auto dest: spec [of _ "length cs"]) (metis le_SucI append_eq_conv_conj take_append take_all_iff
        diff_is_0_eq take0 append_Nil2 length_append_singleton)
  let ?es = "map (\<lambda>(buffer, n). Received buffer n) ds"
  have io: "interrupted_only ?es" by (auto simp: interrupted_only_def)
  show ?case
  proof (cases "demux_run E (map (Pair addr) ds) (m_demuxer r)")
    case None
    with snoc.IH [OF cs(2) quiet(1)] show ?thesis
      by (simp add: loop_append [OF io] demux_run_append)
  next
    case (Some rd)
    obtain rs d where rd: "rd = (rs, d)" by (cases rd)
    let ?r = "r\<lparr>m_codec_mismatch_count := int (mismatches cur cs'), m_demuxer := d\<rparr>"
    have "receive E addr m_cb buffer n ?r
        = map_option (\<lambda>(x, d). ?r\<lparr>m_codec_mismatch_count := int (mismatches cur (cs' @ [c])), m_demuxer := d\<rparr>)
          (rtp_demuxer_input E addr buffer n d)"
      using receive_quiet [of ?r cur cs' buffer n c E addr m_cb] assms cs(3) quiet(2) by simp
    moreover have "0 < n"
      using snoc.prems(1) x by (simp add: classified_def)
    ultimately show ?thesis
      using snoc.IH [OF cs(2) quiet(1)] Some rd
      by (auto simp: x cs(1) loop_append [OF io] demux_run_append simp del: mismatches_simps split: Option.bind_split)
  qed
qed

text \<open>The demuxer, too, reads nothing behind an RTP datagram.\<close>

lemma input_take:
  assumes "n \<le> int (length buffer)" "buffer ! 1 < RTCP_FIR \<or> RTCP_LIMIT < buffer ! 1"
  shows "rtp_demuxer_input E addr (take (nat n) buffer) n d = rtp_demuxer_input E addr buffer n d"
proof (cases "n < 12 \<or> n > d_max d")
  case False
  have "rtp_demuxer_alloc E (take (nat n) buffer) n d = rtp_demuxer_alloc E buffer n d"
    using assms(1) False by (simp add: rtp_demuxer_alloc_def c_slice_def nat_le_iff cong: Option.bind_cong option.case_cong)
  with False assms show ?thesis
    by (simp add: rtp_demuxer_input_def rd_def)
qed (simp add: rtp_demuxer_input_def)

definition carries :: "poll_event list \<Rightarrow> u8 list list \<Rightarrow> bool" where
  "carries es ds \<longleftrightarrow> interrupted_only es \<and> (\<forall>(buffer, n) \<in> set (inputs es). n \<le> int (length buffer))
     \<and> map (\<lambda>(buffer, n). take (nat n) buffer) (inputs es) = ds"

lemma inputs_positive: "(buffer, n) \<in> set (inputs es) \<Longrightarrow> 0 < n"
  by (induction es rule: inputs.induct) (auto split: if_splits)

lemma run_carried:
  assumes "\<forall>(buffer, n) \<in> set xs. 0 < n \<and> n \<le> int (length buffer)"
    and "\<forall>(buffer, n) \<in> set xs. 12 \<le> n \<and> (buffer ! 1 < RTCP_FIR \<or> RTCP_LIMIT < buffer ! 1)"
  shows "demux_run E (map (Pair addr) xs) d = demux_run E (map (\<lambda>(buffer, n). (addr, take (nat n) buffer, n)) xs) d"
  using assms by (induction xs arbitrary: d) (auto simp: input_take cong: Option.bind_cong)

section \<open>Properties\<close>

text \<open>C11: The receiver changes its codec exactly when it should: while, since the last datagram of the current codec, there are fewer than five
  of the other one, the codec stays, and the demuxer gets every datagram, in order; with the fifth the codec
  is that of this datagram, the count starts again, the application is told once, and this datagram is not fed
  to the demuxer of the old codec. Datagrams whose codec is not known neither confirm nor delay the change.\<close>

theorem codec_change:
  assumes "cur \<noteq> UNKNOWN" "m_video_codec r = cur" "m_codec_mismatch_count r = 0" "interrupted_only es"
    and "classified (inputs es) cs" "\<forall>k \<le> length cs. mismatches cur (take k cs) < 5"
    and "0 < n" "rtp_classify_codec buffer n = Some c"
  shows "receiver_loop E addr m_cb es r
      = map_option (\<lambda>(rs, d). r\<lparr>m_codec_mismatch_count := int (mismatches cur cs), m_demuxer := d\<rparr>)
          (demux_run E (map (Pair addr) (inputs es)) (m_demuxer r))
    \<and> (5 \<le> mismatches cur (cs @ [c]) \<longrightarrow>
      receiver_loop E addr m_cb (es @ [Received buffer n]) r
      = map_option (\<lambda>(rs, d). r\<lparr>m_video_codec := c, m_codec_mismatch_count := 0, m_demuxer := d\<lparr>d_param := m_cb (d_param d) [] True\<rparr>\<rparr>)
          (demux_run E (map (Pair addr) (inputs es)) (m_demuxer r)))"
proof -
  let ?run = "demux_run E (map (Pair addr) (inputs es)) (m_demuxer r)"
  have quiet: "receiver_loop E addr m_cb es r
      = map_option (\<lambda>(rs, d). r\<lparr>m_codec_mismatch_count := int (mismatches cur cs), m_demuxer := d\<rparr>) ?run"
    unfolding loop_inputs [OF assms(4), of E addr m_cb r] by (rule loop_quiet [OF assms(1-3,5,6)])
  have "mismatches cur cs < 5"
    using assms(6) by (metis order_refl take_all)
  then have "receive E addr m_cb buffer n (r\<lparr>m_codec_mismatch_count := int (mismatches cur cs), m_demuxer := d\<rparr>)
      = Some (r\<lparr>m_video_codec := c, m_codec_mismatch_count := 0, m_demuxer := d\<lparr>d_param := m_cb (d_param d) [] True\<rparr>\<rparr>)"
    if "5 \<le> mismatches cur (cs @ [c])" for d
    using receive_switch [of "r\<lparr>m_codec_mismatch_count := int (mismatches cur cs), m_demuxer := d\<rparr>" cur cs buffer n c] assms that
    by (simp del: mismatches_simps)
  with quiet assms(7) show ?thesis
    by (cases ?run) (auto simp: loop_append [OF assms(4)] simp del: mismatches_simps)
qed

text \<open>Five H.265 datagrams at a receiver of H.264.\<close>

theorem codec_change_witness:
  "\<forall>E m_cb (d :: ('d, 's) rtp_demuxer_t). let b = [0x80, 96, 0, 1, 0, 0, 0, 0, 0, 0, 0, 7, 0x26, 1] @ replicate 62 9 in
     receiver_loop E 0 m_cb (replicate 4 (Received b 76) @ [Poll_Timeout, Received b 76])
       \<lparr>m_video_codec = H264, m_codec_mismatch_count = 0, m_demuxer = d\<rparr>
     = map_option (\<lambda>(rs, d). \<lparr>m_video_codec = H265, m_codec_mismatch_count = 0, m_demuxer = d\<lparr>d_param := m_cb (d_param d) [] True\<rparr>\<rparr>)
         (demux_run E (replicate 4 (0, b, 76)) d)"
proof (intro allI)
  fix E m_cb and d :: "('d, 's) rtp_demuxer_t"
  let ?b = "[0x80, 96, 0, 1, 0, 0, 0, 0, 0, 0, 0, 7, 0x26, 1] @ replicate 62 9 :: u8 list"
  let ?es = "replicate 4 (Received ?b 76) @ [Poll_Timeout]" and ?r = "\<lparr>m_video_codec = H264, m_codec_mismatch_count = 0, m_demuxer = d\<rparr>"
  have b: "rtp_classify_codec ?b 76 = Some H265"
    by (simp add: rtp_classify_codec_def rd_def adv_def detect_rtp_codec_def h264_found_def h265_found_def Let_def)
  have "interrupted_only (replicate 4 (Received B 76) @ [Poll_Timeout])" "inputs (replicate 4 (Received B 76) @ [Poll_Timeout]) = replicate 4 (B, 76)"
      "rtp_classify_codec B 76 = Some H265 \<Longrightarrow> classified (replicate 4 (B, 76)) (replicate 4 H265)" for B
    by (simp_all add: interrupted_only_def classified_def eval_nat_numeral)
  note es = this(1,2) [of ?b] this(3) [OF b]
  have m: "mismatches H264 (replicate k H265) = k" for k
    by (simp add: mismatches_def takeWhile_replicate)
  have "\<forall>k \<le> length (replicate 4 H265). mismatches H264 (take k (replicate 4 H265)) < 5"
    by (simp add: m min_def)
  moreover have "5 \<le> mismatches H264 (replicate 4 H265 @ [H265])"
    by (simp add: m)
  ultimately show "let b = ?b in receiver_loop E 0 m_cb (replicate 4 (Received b 76) @ [Poll_Timeout, Received b 76]) ?r
     = map_option (\<lambda>(rs, d). \<lparr>m_video_codec = H265, m_codec_mismatch_count = 0, m_demuxer = d\<lparr>d_param := m_cb (d_param d) [] True\<rparr>\<rparr>)
         (demux_run E (replicate 4 (0, b, 76)) d)"
    using codec_change [of H264 ?r ?es "replicate 4 H265" 76 ?b H265 E 0 m_cb] b es
    by (simp only: Let_def append.assoc append.simps) simp
qed

end
