(* ===== verification/Receiver_Stream.thy ===== *)
theory Receiver_Stream
  imports Rtp_Receiver
begin

text \<open>
  What a packer puts on the network and the receiver thread takes from it: the datagrams of a packer are parsed to what was packed and follow each
  other in sequence, and the loop of the receiver hands a stream that is classified without a mismatch to the demuxer.
\<close>

section \<open>The datagrams of a packer\<close>

lemma datagram_parsed:
  assumes "plain_hdr h"
  shows "rtp_packet_deserialize ndebug (datagram h p) (int (length (datagram h p))) = Some (Inr (dpkt h p))"
proof -
  have "plain_pkt (dpkt h p)" "pkt_ok (dpkt h p)"
    using assms by (simp_all add: plain_pkt_def plain_hdr_def pkt_ok_def dpkt_def)
  then have "wf_packet (dpkt h p)" "packet_bytes (dpkt h p) = datagram h p"
    by (simp_all add: plain_pkt_wf plain_pkt_bytes pk_data_def)
  with rtp_packet_deserialize_bytes [of "dpkt h p" ndebug] assms show ?thesis
    by (simp add: plain_hdr_def dpkt_def)
qed

text \<open>The second byte of a datagram with payload type 96 is 96 or, with the marker, 224: never one of a control packet.\<close>

lemma datagram_not_rtcp:
  assumes "h_pt h = 96"
  shows "datagram h p ! 1 < RTCP_FIR \<or> RTCP_LIMIT < datagram h p ! 1"
proof -
  have "h_m h = 0 \<or> h_m h = 1"
    by (cases "h_m h" rule: word_nat_cases) (auto simp: less_2_cases_iff)
  then show ?thesis
    using assms by (auto simp: datagram_def rtp_header_bytes_def rtp_header_first_bytes nth_append RTCP_FIR_def RTCP_LIMIT_def)
qed

lemma in_sequence_append:
  "in_sequence q (xs @ ys) \<longleftrightarrow> in_sequence q xs \<and> in_sequence (q + of_nat (length xs)) ys"
  by (induction xs arbitrary: q) (auto simp: ac_simps)

lemma packetize_in_sequence:
  "\<lbrakk>plain_hdr h; h_pt h = 96; \<forall>p \<in> set ps. 12 + length (fst p) \<le> RTP_PAYLOAD_MAX_SIZE\<rbrakk> \<Longrightarrow>
   in_sequence (h_seq h) (packetize h mark ps)"
proof (induction h mark ps rule: packetize.induct)
  case (2 h mark p e ps)
  then have "in_sequence (h_seq h + 1) (packetize (h\<lparr>h_seq := h_seq h + 1\<rparr>) mark ps)" by simp
  moreover have "length (datagram g p) = 12 + length p" for g
    by (simp add: datagram_def)
  ultimately show ?case
    using 2 datagram_parsed [of "h\<lparr>h_m := if e then mark else 0\<rparr>" True p]
      datagram_not_rtcp [of "h\<lparr>h_m := if e then mark else 0\<rparr>" p] by simp
qed simp

lemma nal_stream_in_sequence:
  "\<lbrakk>plain_hdr h; h_pt h = 96; \<forall>n \<in> set ns. \<forall>p \<in> set (f n). 12 + length (fst p) \<le> RTP_PAYLOAD_MAX_SIZE\<rbrakk> \<Longrightarrow>
   in_sequence (h_seq h) (nal_stream f h ns)"
proof (induction f h ns rule: nal_stream.induct)
  case (2 f h n ns)
  then show ?case
    using packetize_in_sequence [of h "f n"] by (simp add: in_sequence_append)
qed simp

section \<open>The loop of the receiver\<close>

lemma in_sequence_datagrams:
  "in_sequence q ds \<Longrightarrow> d \<in> set ds \<Longrightarrow> 12 \<le> length d \<and> (d ! 1 < RTCP_FIR \<or> RTCP_LIMIT < d ! 1)"
  by (induction q ds rule: in_sequence.induct) auto

text \<open>The loop of the receiver thread on a stream that is classified without a mismatch.\<close>

lemma loop_carried:
  assumes "carries es ds" "\<forall>d \<in> set ds. 12 \<le> length d \<and> (d ! 1 < RTCP_FIR \<or> RTCP_LIMIT < d ! 1)
      \<and> ok (\<lambda>c. c \<in> {UNKNOWN, cur}) (rtp_classify_codec d (int (length d)))" "cur \<noteq> UNKNOWN"
  shows "receiver_loop E addr m_cb es \<lparr>m_video_codec = cur, m_codec_mismatch_count = 0, m_demuxer = d\<rparr>
    = map_option (\<lambda>(rs, d). \<lparr>m_video_codec = cur, m_codec_mismatch_count = 0, m_demuxer = d\<rparr>)
        (demux_run E (map (\<lambda>p. (addr, p, int (length p))) ds) d)"
proof -
  let ?xs = "inputs es" and ?r = "\<lparr>m_video_codec = cur, m_codec_mismatch_count = 0, m_demuxer = d\<rparr>"
  have es: "interrupted_only es" "map (\<lambda>(buffer, n). take (nat n) buffer) ?xs = ds"
      and len: "\<forall>(buffer, n) \<in> set ?xs. 0 < n \<and> n \<le> int (length buffer)"
    using assms(1) inputs_positive by (fastforce simp: carries_def)+
  have d: "12 \<le> n \<and> (buffer ! 1 < RTCP_FIR \<or> RTCP_LIMIT < buffer ! 1) \<and> ok (\<lambda>c. c \<in> {UNKNOWN, cur}) (rtp_classify_codec buffer n)"
    if x: "(buffer, n) \<in> set ?xs" for buffer n
  proof -
    have "take (nat n) buffer \<in> set ds" and n: "0 < n" "n \<le> int (length buffer)"
      using x es(2) len by (auto simp: image_iff intro!: bexI [OF _ x])
    then show ?thesis
      using assms(2) classify_take [OF n(2)] by (fastforce simp: min_absorb2)
  qed
  define cs where "cs = map (\<lambda>(buffer, n). the (rtp_classify_codec buffer n)) ?xs"
  have cs: "classified ?xs cs" "set cs \<subseteq> {UNKNOWN, cur}"
    using d len by (fastforce simp: cs_def classified_def ok_iff)+
  have "mismatches cur xs = 0" if "set xs \<subseteq> {UNKNOWN, cur}" for xs
    using that set_takeWhileD by (fastforce simp: mismatches_def filter_empty_conv)
  then have m: "mismatches cur (take k cs) = 0" "mismatches cur cs = 0" for k
    using cs(2) by (meson order_trans set_take_subset)+
  have "demux_run E (map (Pair addr) ?xs) d = demux_run E (map (\<lambda>(buffer, n). (addr, take (nat n) buffer, n)) ?xs) d"
    using len d by (intro run_carried) auto
  also have "map (\<lambda>(buffer, n). (addr, take (nat n) buffer, n)) ?xs = map (\<lambda>p. (addr, p, int (length p))) ds"
    using len unfolding es(2) [symmetric] by (auto simp: min_absorb2)
  finally show ?thesis
    using loop_quiet [of cur ?r ?xs cs E addr m_cb] cs(1) assms(3) m by (simp add: loop_inputs [OF es(1)])
qed

lemma nal_stream_not_Nil: "[] \<notin> set (nal_stream f h ns)"
proof -
  have "datagram g p \<noteq> []" for g p
    using length_rtp_header_bytes [of g] by (auto simp: datagram_def simp del: length_rtp_header_bytes)
  then have "[] \<notin> set (packetize g mark ps)" for g mark ps
    by (induction g mark ps rule: packetize.induct) (simp_all add: neq_Nil_conv, metis list.distinct(1))
  then show ?thesis
    by (induction f h ns rule: nal_stream.induct) simp_all
qed

text \<open>Events that carry datagrams: each after a timeout and with \<open>t\<close> behind it in the buffer.\<close>

definition framed :: "u8 list \<Rightarrow> u8 list list \<Rightarrow> poll_event list" where
  "framed t ds = concat (map (\<lambda>d. [Poll_Timeout, Received (d @ t) (int (length d))]) ds)"

lemma framed_carries: "\<forall>d \<in> set ds. d \<noteq> [] \<Longrightarrow> carries (framed t ds) ds"
  by (induction ds) (auto simp: framed_def carries_def interrupted_only_def)

end
