(* ===== verification/Stream_Consumer.thy ===== *)
theory Stream_Consumer
  imports C_Prelude
begin

text \<open>
  \<open>src/encoder/stream_consumer.h\<close>: what the encoder hands to its consumers, the recorder and the restreamer. The length is that of the data.
\<close>

record AccessUnit =
  au_data :: "u8 list"
  au_pts_ms :: int
  au_keyframe :: bool

end
