(* ===== verification/Restream_Service.thy ===== *)
theory Restream_Service
  imports Receiver_Stream Stream_Consumer
begin

text \<open>
  The rest of \<open>src/video_restreamer.cpp\<close> and the encoder half of \<open>lib/librtp/payload/rtp-payload.c\<close>: the restreamer opens a socket, creates
  the H.265 packer through the dispatch of the payload formats, and packs every access unit of the encoder. Whether the socket opens, what
  its calls of \<open>send\<close> return, the clock and the process number are arguments; \<open>int64_t\<close> times are integers. \<open>restream_end_to_end\<close> takes the
  access units through the packer, the network and the receiver thread.
\<close>

section \<open>Dispatch of the encoders\<close>

record ('e, 's) rtp_payload_encode_t =
  enc_create :: "env \<Rightarrow> int \<Rightarrow> u8 \<Rightarrow> u16 \<Rightarrow> u32 \<Rightarrow> 'e option"
  enc_get_info :: "'e \<Rightarrow> u16 \<times> u32"
  enc_input :: "env \<Rightarrow> 'e \<Rightarrow> 's \<Rightarrow> u8 list \<Rightarrow> nat \<Rightarrow> u32 \<Rightarrow> (int \<times> 'e \<times> 's) option"

record ('e, 's) payload_encoder =
  pe_encoder :: "('e, 's) rtp_payload_encode_t"
  pe_packer :: 'e

definition rtp_payload_encode_create ::
  "env \<Rightarrow> (payload_format \<Rightarrow> ('e, 's) rtp_payload_encode_t) \<Rightarrow> int \<Rightarrow> int \<Rightarrow> string option \<Rightarrow> u16 \<Rightarrow> u32
    \<Rightarrow> ('e, 's) payload_encoder option option" where
  "rtp_payload_encode_create E encoders max_size payload name seq ssrc =
     (if \<not> mem E sizeof_rtp_payload_delegate_t then Some None
      else do {
        f \<leftarrow> rtp_payload_find (nd E) payload name;
        Some (case f of None \<Rightarrow> None
          | Some (e, d) \<Rightarrow> map_option (\<lambda>p. \<lparr>pe_encoder = encoders e, pe_packer = p\<rparr>)
              (enc_create (encoders e) E max_size (of_int payload) seq ssrc)) })"

definition rtp_payload_encode_getinfo :: "('e, 's) payload_encoder \<Rightarrow> u16 \<times> u32" where
  "rtp_payload_encode_getinfo ctx = enc_get_info (pe_encoder ctx) (pe_packer ctx)"

definition rtp_payload_encode_input ::
  "env \<Rightarrow> ('e, 's) payload_encoder \<Rightarrow> 's \<Rightarrow> u8 list \<Rightarrow> nat \<Rightarrow> u32 \<Rightarrow> (int \<times> ('e, 's) payload_encoder \<times> 's) option" where
  "rtp_payload_encode_input E ctx s data bytes timestamp = do {
     (r, p, s) \<leftarrow> enc_input (pe_encoder ctx) E (pe_packer ctx) s data bytes timestamp;
     Some (r, ctx\<lparr>pe_packer := p\<rparr>, s) }"

definition sizeof_rtp_encode_h265_t :: nat where "sizeof_rtp_encode_h265_t = 152"

definition rtp_h265_encode :: "'s rtp_payload_t \<Rightarrow> (rtp_encode_h265_t, 's) rtp_payload_encode_t" where
  "rtp_h265_encode handler =
     \<lparr>enc_create = (\<lambda>E max_size pt seq ssrc. if mem E sizeof_rtp_encode_h265_t then Some (rtp_h265_pack_create max_size pt seq ssrc) else None),
      enc_get_info = rtp_h265_pack_get_info,
      enc_input = (\<lambda>E. rtp_h265_pack_input (nd E) handler)\<rparr>"

section \<open>The restreamer\<close>

text \<open>\<open>vs_self\<close> is the part of the object that the callbacks of the packer change.\<close>

record 'e VideoRestreamer =
  vs_packer :: "('e, restreamer) payload_encoder option"
  vs_socket :: bool
  vs_self :: restreamer
  vs_access_units :: u64
  vs_last_stats_ms :: int
  vs_last_stats_aus :: u64
  vs_last_stats_packets :: u64
  vs_last_stats_bytes :: u64

definition STATS_INTERVAL_MS :: int where "STATS_INTERVAL_MS = 5000"

definition new_VideoRestreamer :: "'e VideoRestreamer" where
  "new_VideoRestreamer = \<lparr>vs_packer = None, vs_socket = False, vs_self = new_restreamer, vs_access_units = 0,
     vs_last_stats_ms = 0, vs_last_stats_aus = 0, vs_last_stats_packets = 0, vs_last_stats_bytes = 0\<rparr>"

definition restream_active :: "'e VideoRestreamer \<Rightarrow> bool" where
  "restream_active v \<longleftrightarrow> vs_socket v \<and> vs_packer v \<noteq> None"

definition start_packer ::
  "env \<Rightarrow> (payload_format \<Rightarrow> ('e, restreamer) rtp_payload_encode_t) \<Rightarrow> int \<Rightarrow> u64 \<Rightarrow> u64 \<Rightarrow> 'e VideoRestreamer
    \<Rightarrow> (bool \<times> 'e VideoRestreamer) option" where
  "start_packer E encoders max_size now pid v = do {
     let ssrc = (ucast (push_bit 16 now XOR pid) :: u32);
     let seq = (ucast (ssrc AND 0xFFFF) :: u16);
     p \<leftarrow> rtp_payload_encode_create E encoders max_size RTP_PAYLOAD_DYNAMIC (Some ''H265'') seq ssrc;
     Some (case p of None \<Rightarrow> (False, v\<lparr>vs_packer := None, vs_socket := False\<rparr>) | Some c \<Rightarrow> (True, v\<lparr>vs_packer := Some c\<rparr>)) }"

definition open_udp ::
  "env \<Rightarrow> (payload_format \<Rightarrow> ('e, restreamer) rtp_payload_encode_t) \<Rightarrow> int \<Rightarrow> u64 \<Rightarrow> u64 \<Rightarrow> bool \<Rightarrow> 'e VideoRestreamer
    \<Rightarrow> (bool \<times> 'e VideoRestreamer) option" where
  "open_udp E encoders max_size now pid init_connection v =
     (if \<not> init_connection then Some (False, v) else start_packer E encoders max_size now pid (v\<lparr>vs_socket := True\<rparr>))"

definition open_unix ::
  "env \<Rightarrow> (payload_format \<Rightarrow> ('e, restreamer) rtp_payload_encode_t) \<Rightarrow> int \<Rightarrow> u64 \<Rightarrow> u64 \<Rightarrow> string \<Rightarrow> bool \<Rightarrow> 'e VideoRestreamer
    \<Rightarrow> (bool \<times> 'e VideoRestreamer) option" where
  "open_unix E encoders max_size now pid path init_connection v =
     (if path = [] \<or> \<not> init_connection then Some (False, v) else start_packer E encoders max_size now pid (v\<lparr>vs_socket := True\<rparr>))"

definition restream_access_unit :: "env \<Rightarrow> AccessUnit \<Rightarrow> 'e VideoRestreamer \<Rightarrow> 'e VideoRestreamer option" where
  "restream_access_unit E au v =
     (case vs_packer v of
        Some c \<Rightarrow>
          if \<not> vs_socket v \<or> au_data au = [] then Some v
          else do {
            (r, c, self) \<leftarrow> rtp_payload_encode_input E c (vs_self v) (au_data au) (length (au_data au)) (of_int (au_pts_ms au * 90));
            Some (v\<lparr>vs_access_units := vs_access_units v + 1, vs_packer := Some c, vs_self := self\<rparr>) }
      | None \<Rightarrow> Some v)"

definition restream_tick :: "int \<Rightarrow> 'e VideoRestreamer \<Rightarrow> 'e VideoRestreamer" where
  "restream_tick now v =
     (if \<not> restream_active v then v
      else if vs_last_stats_ms v = 0 then v\<lparr>vs_last_stats_ms := now\<rparr>
      else if now - vs_last_stats_ms v < STATS_INTERVAL_MS then v
      else v\<lparr>vs_last_stats_ms := now, vs_last_stats_aus := vs_access_units v,
             vs_last_stats_packets := vr_packets_sent (vs_self v), vs_last_stats_bytes := vr_bytes_sent (vs_self v)\<rparr>)"

fun restream_all :: "env \<Rightarrow> AccessUnit list \<Rightarrow> 'e VideoRestreamer \<Rightarrow> 'e VideoRestreamer option" where
  "restream_all E [] v = Some v"
| "restream_all E (au # aus) v = do { v \<leftarrow> restream_access_unit E au v; restream_all E aus v }"

section \<open>Counting the packets\<close>

text \<open>Every packet is counted as sent or as dropped. The callbacks never change whether the counters agree with the packets, so the contract
  of the packer also holds for the packets with a mark in front that tells whether they do.\<close>

definition tallied :: "restreamer \<Rightarrow> bool" where
  "tallied s \<longleftrightarrow> vr_packets_sent s + vr_packets_dropped s = of_nat (length (vr_out s))"

lemma tallied_callbacks:
  "tallied (snd (cb_alloc s n)) = tallied s" "tallied (cb_free s b) = tallied s" "tallied (send_packet send s p t) = tallied s"
  "tallied (s\<lparr>vr_pkt := x\<rparr>) = tallied s"
  by (simp_all add: tallied_def cb_alloc_def cb_free_def send_packet_def Let_def add.assoc [symmetric] add.commute [of 1])

interpretation vc: packet_sink "restream_handler send" "\<lambda>s. (if tallied s then [] else [([], 0)]) @ vr_out s" for send
  by unfold_locales
    (auto simp: restream_handler_def cb_packet_def tallied_callbacks cb_alloc_def Let_def, simp add: cb_free_def)

section \<open>Access units in a row\<close>

text \<open>An access unit with its NAL units, and the datagrams of a sequence of them.\<close>

definition unit_ok :: "AccessUnit \<times> u8 list list \<Rightarrow> bool" where
  "unit_ok = (\<lambda>(au, ns). au_data au = annexb_stream ns \<and> ns \<noteq> []
     \<and> (\<forall>n \<in> set ns. nal_ok n \<and> h265_coded n \<and> length n \<le> RTP_PAYLOAD_MAX_SIZE))"

fun au_stream :: "nat \<Rightarrow> rtp_header_t \<Rightarrow> (AccessUnit \<times> u8 list list) list \<Rightarrow> u8 list list" where
  "au_stream sz h [] = []"
| "au_stream sz h ((au, ns) # us) =
     (let g = h\<lparr>h_timestamp := of_int (au_pts_ms au * 90)\<rparr>; ds = nal_stream (h265_payloads sz) g ns
      in ds @ au_stream sz (g\<lparr>h_seq := h_seq g + of_nat (length ds)\<rparr>) us)"

lemma unit_okD:
  "unit_ok (au, ns) \<Longrightarrow> au_data au = annexb_stream ns \<and> annexb_stream ns \<noteq> [] \<and> ns \<noteq> []"
  "unit_ok (au, ns) \<Longrightarrow> \<forall>n \<in> set ns. nal_ok n \<and> 3 \<le> length n"
  "unit_ok (au, ns) \<Longrightarrow> \<forall>n \<in> set ns. 3 \<le> length n \<and> H265_TYPE (hd n) < 48 \<and> length n \<le> RTP_PAYLOAD_MAX_SIZE"
  "unit_ok (au, ns) \<Longrightarrow> \<forall>n \<in> set ns. h265_coded n"
  by (auto simp: unit_ok_def h265_coded_def neq_Nil_conv)

lemma restream_unit_ok:
  assumes "p5_inv p" "vs_packer v = Some \<lparr>pe_encoder = rtp_h265_encode (restream_handler send), pe_packer = p\<rparr>" "vs_socket v" "unit_ok (au, ns)"
  shows "ok (\<lambda>v'. \<exists>p'. let g = (pk_rtp (p5_pkt p))\<lparr>h_m := 0, h_timestamp := of_int (au_pts_ms au * 90)\<rparr>;
        ds = nal_stream (h265_payloads (nat (p5_size p))) g ns in
      p5_inv p' \<and> p5_size p' = p5_size p \<and> (pk_rtp (p5_pkt p'))\<lparr>h_m := 0\<rparr> = g\<lparr>h_seq := h_seq g + of_nat (length ds)\<rparr>
      \<and> vs_packer v' = Some \<lparr>pe_encoder = rtp_h265_encode (restream_handler send), pe_packer = p'\<rparr> \<and> vs_socket v'
      \<and> vs_access_units v' = vs_access_units v + 1 \<and> tallied (vs_self v') = tallied (vs_self v)
      \<and> map fst (vr_out (vs_self v')) = map fst (vr_out (vs_self v)) @ ds)
    (restream_access_unit E au v)"
proof -
  note u = unit_okD(1) [OF assms(4)]
  then have ns: "ns \<noteq> []" by simp
  define ts :: u32 where "ts = of_int (au_pts_ms au * 90)"
  obtain p' s' where p': "rtp_h265_pack_input (nd E) (restream_handler send) p (vs_self v) (annexb_stream ns) (length (annexb_stream ns)) ts = Some (0, p', s')"
    and f: "let h = (pk_rtp (p5_pkt p))\<lparr>h_m := 0, h_timestamp := ts\<rparr>; ds = nal_stream (h265_payloads (nat (p5_size p))) h ns in
      p5_inv p' \<and> p5_size p' = p5_size p \<and> (pk_rtp (p5_pkt p'))\<lparr>h_m := 0\<rparr> = h\<lparr>h_seq := h_seq h + of_nat (length ds)\<rparr>
      \<and> vr_out s' = vr_out (vs_self v) @ map (\<lambda>d. (d, ts)) ds"
    using vr.h265_pack_stream [OF assms(1) ns unit_okD(2) [OF assms(4)], where s = "vs_self v" and ts = ts and nd = "nd E" and send = send] u
    by (elim okE) (auto simp: Let_def)
  have "tallied s' = tallied (vs_self v)"
    using vc.h265_pack_stream [OF assms(1) ns unit_okD(2) [OF assms(4)], where s = "vs_self v" and ts = ts and nd = "nd E" and send = send] u p' f
    by (auto simp: ok_iff Let_def split: if_splits)
  then show ?thesis
    using u p' f assms(2,3) unfolding ts_def
    by (auto simp: ok_iff restream_access_unit_def rtp_payload_encode_input_def rtp_h265_encode_def Let_def comp_def)
qed

lemma restream_all_ok:
  assumes "p5_inv p" "vs_packer v = Some \<lparr>pe_encoder = rtp_h265_encode (restream_handler send), pe_packer = p\<rparr>" "vs_socket v" "list_all unit_ok us"
  shows "ok (\<lambda>v'. vs_access_units v' = vs_access_units v + of_nat (length us) \<and> tallied (vs_self v') = tallied (vs_self v)
      \<and> map fst (vr_out (vs_self v')) = map fst (vr_out (vs_self v)) @ au_stream (nat (p5_size p)) ((pk_rtp (p5_pkt p))\<lparr>h_m := 0\<rparr>) us)
    (restream_all E (map fst us) v)"
  using assms
proof (induction us arbitrary: p v)
  case (Cons u us)
  obtain au ns where u: "u = (au, ns)" by (cases u) auto
  define g where "g = (pk_rtp (p5_pkt p))\<lparr>h_m := 0, h_timestamp := of_int (au_pts_ms au * 90)\<rparr>"
  define ds where "ds = nal_stream (h265_payloads (nat (p5_size p))) g ns"
  have "unit_ok (au, ns)" "list_all unit_ok us"
    using Cons.prems(4) u by simp_all
  from restream_unit_ok [OF Cons.prems(1-3) this(1), of E] obtain v' p' where
    v': "restream_access_unit E au v = Some v'" "p5_inv p'" "p5_size p' = p5_size p"
      "(pk_rtp (p5_pkt p'))\<lparr>h_m := 0\<rparr> = g\<lparr>h_seq := h_seq g + of_nat (length ds)\<rparr>"
      "vs_packer v' = Some \<lparr>pe_encoder = rtp_h265_encode (restream_handler send), pe_packer = p'\<rparr>" "vs_socket v'"
      "vs_access_units v' = vs_access_units v + 1" "tallied (vs_self v') = tallied (vs_self v)"
      "map fst (vr_out (vs_self v')) = map fst (vr_out (vs_self v)) @ ds"
    unfolding Let_def g_def [symmetric] ds_def [symmetric] by (elim okE) auto
  have "au_stream (nat (p5_size p)) ((pk_rtp (p5_pkt p))\<lparr>h_m := 0\<rparr>) (u # us) = ds @ au_stream (nat (p5_size p')) ((pk_rtp (p5_pkt p'))\<lparr>h_m := 0\<rparr>) us"
    unfolding v'(3,4) by (simp add: u Let_def ds_def g_def)
  then show ?case
    using Cons.IH [OF v'(2,5,6) \<open>list_all unit_ok us\<close>] v'(1,7,8,9) u by (auto simp: ok_iff)
qed simp

section \<open>The receiver of H.265\<close>

lemma au_stream_in_sequence:
  "\<lbrakk>plain_hdr h; h_pt h = 96; 15 < sz; sz \<le> RTP_PAYLOAD_MAX_SIZE\<rbrakk> \<Longrightarrow> in_sequence (h_seq h) (au_stream sz h us)"
proof (induction sz h us rule: au_stream.induct)
  case (2 sz h au ns us)
  define g where "g = h\<lparr>h_timestamp := of_int (au_pts_ms au * 90)\<rparr>"
  have g: "plain_hdr g" "h_pt g = 96" "h_seq g = h_seq h"
    using "2.prems" by (simp_all add: g_def plain_hdr_def)
  have "in_sequence (h_seq g) (nal_stream (h265_payloads sz) g ns)"
    using g length_h265_payload [OF "2.prems"(3)] "2.prems"(4) by (intro nal_stream_in_sequence) fastforce+
  moreover have "in_sequence (h_seq g + of_nat (length (nal_stream (h265_payloads sz) g ns)))
      (au_stream sz (g\<lparr>h_seq := h_seq g + of_nat (length (nal_stream (h265_payloads sz) g ns))\<rparr>) us)"
    using "2.IH" [OF g_def refl] "2.prems" g by (simp add: plain_hdr_def)
  ultimately show ?case
    by (simp add: in_sequence_append Let_def g_def)
qed simp

lemma au_stream_classes:
  "\<lbrakk>plain_hdr h; list_all unit_ok us; d \<in> set (au_stream sz h us)\<rbrakk> \<Longrightarrow> ok (\<lambda>c. c \<in> {UNKNOWN, H265}) (rtp_classify_codec d (int (length d)))"
proof (induction sz h us rule: au_stream.induct)
  case (2 sz h au ns us)
  have c: "c \<noteq> H264 \<longleftrightarrow> c \<in> {UNKNOWN, H265}" for c
    by (cases c) simp_all
  define g where "g = h\<lparr>h_timestamp := of_int (au_pts_ms au * 90)\<rparr>"
  define ds where "ds = nal_stream (h265_payloads sz) g ns"
  have g: "plain_hdr g" "plain_hdr (g\<lparr>h_seq := h_seq g + of_nat (length ds)\<rparr>)"
    using "2.prems"(1) by (simp_all add: g_def plain_hdr_def)
  have u: "unit_ok (au, ns)" "list_all unit_ok us"
    using "2.prems"(2) by simp_all
  consider "d \<in> set ds" | "d \<in> set (au_stream sz (g\<lparr>h_seq := h_seq g + of_nat (length ds)\<rparr>) us)"
    using "2.prems"(3) by (auto simp: Let_def ds_def g_def)
  then show ?case
  proof cases
    case 1
    then show ?thesis
      using stream_classes(2) [OF g(1) unit_okD(4) [OF u(1)]] unfolding ds_def c by blast
  next
    case 2
    then show ?thesis
      using "2.IH" [OF g_def ds_def g(2) u(2)] by blast
  qed
qed simp

lemma au_stream_feed:
  "\<lbrakk>plain_hdr h; u5_sync u (h_seq h); 15 < sz; list_all unit_ok us\<rbrakk> \<Longrightarrow>
   ok (\<lambda>(rs, u', s'). s' = foldl (\<lambda>s (au, ns). emit_units handler s (of_int (au_pts_ms au * 90)) ns) s us)
    (h265_feed handler u s (au_stream sz h us))"
proof (induction sz h us arbitrary: u s rule: au_stream.induct)
  case (2 sz h au ns us)
  define g where "g = h\<lparr>h_timestamp := of_int (au_pts_ms au * 90)\<rparr>"
  define ds where "ds = nal_stream (h265_payloads sz) g ns"
  let ?h = "g\<lparr>h_seq := h_seq g + of_nat (length ds)\<rparr>" and ?s = "emit_units handler s (of_int (au_pts_ms au * 90)) ns"
  have g: "plain_hdr g" "plain_hdr ?h" "u5_sync u (h_seq g)" "h_timestamp g = of_int (au_pts_ms au * 90)"
    using "2.prems"(1,2) by (simp_all add: g_def plain_hdr_def)
  have u: "unit_ok (au, ns)" "list_all unit_ok us"
    using "2.prems"(4) by simp_all
  from h265_unpack_stream [OF g(1,3) "2.prems"(3) unit_okD(3) [OF u(1)], of handler s]
  obtain rs u' where u': "h265_feed handler u s ds = Some (rs, u', ?s)" "u5_sync u' (h_seq ?h)"
    unfolding ds_def [symmetric] g(4) by (elim okE) auto
  have "au_stream sz h ((au, ns) # us) = ds @ au_stream sz ?h us"
    by (simp add: Let_def ds_def g_def)
  with "2.IH" [OF g_def ds_def g(2) u'(2) "2.prems"(3) u(2), of ?s] u'(1) show ?case
    by (auto simp: ok_iff h265_dec.feed_append)
qed simp

lemma emit_units_callback:
  "packet_cb handler = rtp_onpacket (Some (main_rtp_cb m_cb)) \<Longrightarrow>
   emit_units handler s t ns = foldl (\<lambda>s n. m_cb s (start_code @ n) False) s ns"
  by (induction ns arbitrary: s) (simp_all add: rtp_onpacket_def main_rtp_cb_def)

lemma foldl_units: "foldl (\<lambda>s (au, ns). foldl f s ns) s us = foldl f s (concat (map snd us))"
  by (induction us arbitrary: s) auto

text \<open>The receiver thread on datagrams in sequence that a new H.265 unpacker answers with the state \<open>t\<close> of the application.\<close>

lemma thread_h265:
  assumes E: "nd E" "\<forall>n. mem E n" "decoders F_h265 = rtp_h265_decode handler"
    and ds: "in_sequence q ds" "\<forall>d \<in> set ds. ok (\<lambda>c. c \<in> {UNKNOWN, H265}) (rtp_classify_codec d (int (length d)))"
      "h265_dec.feed (mem E) handler rtp_h265_unpack_create param ds = Some (rs, u, t)" and es: "carries es ds"
  shows "ok (\<lambda>(codec, mismatch, t', x). codec = H265 \<and> mismatch = 0 \<and> t' = t \<and> (\<exists>y. x = Some y \<and> nothing_left True y))
    (rtp_receiver_thread E decoders addr m_cb clock clock' ssrc es H265 0 param)"
proof -
  have dec: "dec_create (decoders F_h265) E = Some rtp_h265_unpack_create"
      "dec_input (decoders F_h265) E = rtp_h265_unpack_input True (mem E) handler"
    using E by (simp_all add: rtp_h265_decode_def)
  obtain d where d: "rtp_demuxer_create E decoders 0 90000 96 (Some ''H265'') param clock clock' ssrc = Some (Inr d)"
      "demux_ok u5_inv {#} d" "rtp_queue_init 0 90000 = Some (d_queue d)"
      "d_payload d = \<lparr>pd_decoder = decoders F_h265, pd_packer = rtp_h265_unpack_create\<rparr>" "d_param d = param" "d_max d = int RTP_PAYLOAD_MAX_SIZE"
    using h265_dec.create_demux [where decoders = decoders, OF E(2,1) find_video(2) dec, where param = param and frequency = 90000 and clock = clock and clock' = clock' and ssrc = ssrc]
    by (elim okE) (auto split: sum.splits)
  obtain d' where d': "demux_run E (map (\<lambda>p. (addr, p, int (length p))) ds) d = Some (map (min 0) rs, d')" "demux_ok u5_inv {#} d'" "d_param d' = t"
    using h265_dec.in_order_run [OF E(2,1) d(2), of "mem E" handler q ds rs u t addr] d dec(2) ds(1,3) by (auto simp: expects_def ok_iff)
  obtain y where y: "rtp_demuxer_destroy E d' = Some y" "nothing_left True y"
    using h265_dec.destroy_demux [OF d'(2) E(1)] by (elim okE) (auto simp: nothing_left_def exact_blocks_def split: if_splits)
  show ?thesis
    using loop_carried [OF es, of H265 E addr m_cb d] ds(2) in_sequence_datagrams [OF ds(1)] d(1) d' y
    by (cases y) (simp add: rtp_receiver_thread_def codec_type_name_def RTP_PAYLOAD_DYNAMIC_def)
qed

section \<open>A new restreamer\<close>

definition restream_header :: "u64 \<Rightarrow> u64 \<Rightarrow> rtp_header_t" where
  "restream_header now pid = (let ssrc = ucast (push_bit 16 now XOR pid) :: u32 in
     (pk_rtp (blank_packet 96 (ucast (ssrc AND 0xFFFF)) ssrc))\<lparr>h_m := 0\<rparr>)"

definition opened_restreamer :: "(nat \<Rightarrow> u8 list \<Rightarrow> int) \<Rightarrow> int \<Rightarrow> u64 \<Rightarrow> u64 \<Rightarrow> rtp_encode_h265_t VideoRestreamer" where
  "opened_restreamer send max_size now pid =
     (let ssrc = ucast (push_bit 16 now XOR pid) :: u32 in
      new_VideoRestreamer\<lparr>vs_socket := True, vs_packer := Some \<lparr>pe_encoder = rtp_h265_encode (restream_handler send),
        pe_packer = rtp_h265_pack_create max_size 96 (ucast (ssrc AND 0xFFFF)) ssrc\<rparr>\<rparr>)"

lemma open_udp_h265:
  assumes "nd E" "\<forall>n. mem E n" "encoders F_h265 = rtp_h265_encode (restream_handler send)"
  shows "open_udp E encoders max_size now pid True new_VideoRestreamer = Some (True, opened_restreamer send max_size now pid)"
  using assms by (simp add: open_udp_def start_packer_def rtp_payload_encode_create_def rtp_h265_encode_def
    RTP_PAYLOAD_DYNAMIC_def opened_restreamer_def Let_def)

lemma restream_packets:
  assumes "15 < max_size" "list_all unit_ok us"
  shows "ok (\<lambda>v'. vs_access_units v' = of_nat (length us)
      \<and> vr_packets_sent (vs_self v') + vr_packets_dropped (vs_self v') = of_nat (length (vr_out (vs_self v')))
      \<and> map fst (vr_out (vs_self v')) = au_stream (nat max_size) (restream_header now pid) us)
    (restream_all E (map fst us) (opened_restreamer send max_size now pid))"
proof -
  define ssrc where "ssrc = (ucast (push_bit 16 now XOR pid) :: u32)"
  define p where "p = rtp_h265_pack_create max_size 96 (ucast (ssrc AND 0xFFFF)) ssrc"
  let ?v = "opened_restreamer send max_size now pid"
  have p: "p5_inv p" "p5_size p = max_size" "(pk_rtp (p5_pkt p))\<lparr>h_m := 0\<rparr> = restream_header now pid"
    using assms(1) by (simp_all add: p_def p5_inv_def rtp_h265_pack_create_def blank_packet_def plain_pkt_def restream_header_def ssrc_def Let_def)
  have v: "vs_packer ?v = Some \<lparr>pe_encoder = rtp_h265_encode (restream_handler send), pe_packer = p\<rparr>" "vs_socket ?v" "vs_access_units ?v = 0"
      "vs_self ?v = new_restreamer" "tallied new_restreamer" "vr_out new_restreamer = []"
    by (simp_all add: opened_restreamer_def p_def ssrc_def Let_def new_VideoRestreamer_def tallied_def new_restreamer_def)
  show ?thesis
    by (rule okI_mono [OF restream_all_ok [OF p(1) v(1,2) assms(2)]]) (use v(3-6) p(2,3) in \<open>simp add: tallied_def\<close>)
qed

lemma au_stream_not_Nil: "[] \<notin> set (au_stream sz h us)"
  by (induction sz h us rule: au_stream.induct) (auto simp: Let_def nal_stream_not_Nil)

section \<open>Properties\<close>

text \<open>C1: What the restreamer is given arrives: a new restreamer whose socket opens takes any sequence of H.265 access units. It counts all of them,
  and every packet as sent or as dropped, whatever the socket answers. When its packets arrive in order at the socket of a receiver of
  H.265, with any number of timeouts and interruptions between them and anything behind them in the buffer, the callback of the
  receiver is called with exactly the NAL units of the access units, in order, each behind a start code. The codec
  stays, and the end of the thread leaves nothing allocated.\<close>

theorem restream_end_to_end:
  assumes "nd E" "\<forall>n. mem E n" "encoders F_h265 = rtp_h265_encode (restream_handler send)"
    and "15 < max_size" "max_size \<le> int RTP_PAYLOAD_MAX_SIZE" "list_all unit_ok us"
    and "decoders F_h265 = rtp_h265_decode handler" "packet_cb handler = rtp_onpacket (Some (main_rtp_cb m_cb))"
  shows "ok (\<lambda>(opened, v). opened \<and> ok (\<lambda>v'.
        vs_access_units v' = of_nat (length us)
        \<and> vr_packets_sent (vs_self v') + vr_packets_dropped (vs_self v') = of_nat (length (vr_out (vs_self v')))
        \<and> (carries es (map fst (vr_out (vs_self v'))) \<longrightarrow>
            ok (\<lambda>(codec, mismatch, t, x). codec = H265 \<and> mismatch = 0
                \<and> t = foldl (\<lambda>s n. m_cb s (start_code @ n) False) param (concat (map snd us)) \<and> (\<exists>y. x = Some y \<and> nothing_left True y))
              (rtp_receiver_thread E decoders addr m_cb clock clock' ssrc es H265 0 param)))
      (restream_all E (map fst us) v))
    (open_udp E encoders max_size now pid True new_VideoRestreamer)"
proof -
  let ?h = "restream_header now pid"
  have h: "plain_hdr ?h" "h_pt ?h = 96" and sz: "15 < nat max_size" "nat max_size \<le> RTP_PAYLOAD_MAX_SIZE"
    using assms(4,5) by (simp_all add: restream_header_def blank_packet_def plain_hdr_def Let_def)
  have m: "mem E = (\<lambda>_. True)"
    using assms(2) by blast
  obtain rs u where "h265_dec.feed (mem E) handler rtp_h265_unpack_create param (au_stream (nat max_size) ?h us)
      = Some (rs, u, foldl (\<lambda>s n. m_cb s (start_code @ n) False) param (concat (map snd us)))"
    using au_stream_feed [OF h(1) u5_sync_create sz(1) assms(6), of handler param]
    unfolding m emit_units_callback [OF assms(8)] foldl_units by (auto simp: ok_iff)
  from thread_h265 [where decoders = decoders, OF assms(1,2,7) au_stream_in_sequence [OF h sz] _ this, of es addr m_cb clock clock' ssrc]
  show ?thesis
    using au_stream_classes [OF h(1) assms(6)] restream_packets [OF assms(4,6), where E = E and send = send and now = now and pid = pid]
    unfolding open_udp_h265 [where encoders = encoders, OF assms(1-3)] by (auto simp: ok_iff)
qed

text \<open>Two access units, the second with a slice that takes two packets, sent by a socket that refuses every packet.\<close>

definition example_units :: "(AccessUnit \<times> u8 list list) list" where
  "example_units = map (\<lambda>(ns, pts). (\<lparr>au_data = annexb_stream ns, au_pts_ms = pts, au_keyframe = True\<rparr>, ns))
     [([[0x40, 1, 7]], 0), ([[0x42, 1, 2], [0x26, 1, 2, 3, 4, 5, 6, 7, 8, 9, 10]], 33)]"

theorem restream_end_to_end_witness:
  "let E = example_env\<lparr>nd := True\<rparr>; collect = (\<lambda>s p (c :: bool). s @ [p]);
       handler = \<lparr>alloc_cb = \<lambda>s n. (None, s), free_cb = \<lambda>s b. s, packet_cb = rtp_onpacket (Some (main_rtp_cb collect))\<rparr>
   in ok (\<lambda>(opened, v). opened \<and> ok (\<lambda>v'.
        vs_access_units v' = 2
        \<and> vr_packets_sent (vs_self v') + vr_packets_dropped (vs_self v') = of_nat (length (vr_out (vs_self v')))
        \<and> ok (\<lambda>(codec, mismatch, t, x). codec = H265 \<and> mismatch = 0
            \<and> t = [start_code @ [0x40, 1, 7], start_code @ [0x42, 1, 2], start_code @ [0x26, 1, 2, 3, 4, 5, 6, 7, 8, 9, 10]]
            \<and> (\<exists>y. x = Some y \<and> nothing_left True y))
          (rtp_receiver_thread E (\<lambda>_. rtp_h265_decode handler) 0 collect 5 6 7 (framed [1, 2] (map fst (vr_out (vs_self v')))) H265 0 []))
      (restream_all E (map fst example_units) v))
    (open_udp E (\<lambda>_. rtp_h265_encode (restream_handler (\<lambda>i d. -1))) 20 1700000000 42 True new_VideoRestreamer)"
proof -
  let ?E = "example_env\<lparr>nd := True\<rparr>" and ?cb = "\<lambda>s p (c :: bool). s @ [p]" and ?send = "\<lambda>i d. -1 :: int"
  let ?h = "\<lparr>alloc_cb = \<lambda>s n. (None, s), free_cb = \<lambda>s b. s, packet_cb = rtp_onpacket (Some (main_rtp_cb ?cb))\<rparr>"
  let ?enc = "\<lambda>_. rtp_h265_encode (restream_handler ?send)" and ?v = "opened_restreamer ?send 20 1700000000 42"
  have E: "nd ?E" "\<forall>n. mem ?E n"
    by (simp_all add: example_env_def)
  have sz: "(15 :: int) < 20" "20 \<le> int RTP_PAYLOAD_MAX_SIZE"
    by (simp_all add: RTP_PAYLOAD_MAX_SIZE_def)
  have "\<forall>n \<in> set [[0x40, 1, 7], [0x42, 1, 2], [0x26, 1, 2, 3, 4, 5, 6, 7, 8, 9, 10]]. nal_ok n"
    by code_simp
  then have us: "list_all unit_ok example_units"
    by (simp add: example_units_def unit_ok_def h265_coded_def H265_TYPE_def RTP_PAYLOAD_MAX_SIZE_def)
  have opened: "open_udp ?E ?enc 20 1700000000 42 True new_VideoRestreamer = Some (True, ?v)"
    by (rule open_udp_h265 [OF E refl])
  have units: "concat (map snd example_units) = [[0x40, 1, 7], [0x42, 1, 2], [0x26, 1, 2, 3, 4, 5, 6, 7, 8, 9, 10]]" "length example_units = 2"
    by (simp_all add: example_units_def)
  obtain v' where v': "restream_all ?E (map fst example_units) ?v = Some v'"
      "map fst (vr_out (vs_self v')) = au_stream 20 (restream_header 1700000000 42) example_units"
    using restream_packets [OF sz(1) us, where E = ?E and send = ?send and now = 1700000000 and pid = 42] by (auto simp: ok_iff)
  have "carries (framed [1, 2] (map fst (vr_out (vs_self v')))) (map fst (vr_out (vs_self v')))"
    unfolding v'(2) using au_stream_not_Nil by (intro framed_carries) metis
  then show ?thesis
    using restream_end_to_end [where encoders = ?enc and decoders = "\<lambda>_. rtp_h265_decode ?h" and addr = 0 and param = "[]"
        and m_cb = ?cb and es = "framed [1, 2] (map fst (vr_out (vs_self v')))" and clock = 5 and clock' = 6 and ssrc = 7
        and now = 1700000000 and pid = 42, OF E refl sz us refl] v'(1)
    unfolding units by (simp add: Let_def opened)
qed

end
