(* ===== verification/Mpp_Encoder.thy ===== *)
theory Mpp_Encoder
  imports C_Prelude "HOL-Library.Signed_Division"
begin

text \<open>
  \<open>src/encoder/mpp_encoder.cpp\<close>: the wrapper around the Rockchip MPP library. What the library answers is an argument; the calls that
  matter for the stream are recorded in \<open>me_calls\<close>: a request that the next frame be an IDR frame, a frame, the end of the stream, and
  the destruction of the context. \<open>ctx\<close> and \<open>mpi\<close> are set and cleared together.
\<close>

datatype mpp_call = Mpp_Idr | Mpp_Put int | Mpp_Eos | Mpp_Destroy

text \<open>The value of a setting: a number, or one of the constants of the library.\<close>

datatype mpp_value = S32 int | MPP_FMT_YUV420SP | MPP_ENC_RC_MODE_VBR

record MppEncoder =
  me_ctx :: bool
  me_cfg :: bool
  me_hor_stride :: int
  me_ver_stride :: int
  me_settings :: "(string \<times> mpp_value) list"
  me_calls :: "mpp_call list"

definition new_MppEncoder :: MppEncoder where
  "new_MppEncoder = \<lparr>me_ctx = False, me_cfg = False, me_hor_stride = 0, me_ver_stride = 0, me_settings = [], me_calls = []\<rparr>"

definition GOP_SECONDS :: int where "GOP_SECONDS = 2"

definition mpp_cleanup :: "MppEncoder \<Rightarrow> MppEncoder" where
  "mpp_cleanup e =
     (let e = e\<lparr>me_cfg := False\<rparr>;
          e = (if me_ctx e then e\<lparr>me_ctx := False, me_calls := me_calls e @ [Mpp_Destroy]\<rparr> else e)
      in e\<lparr>me_hor_stride := 0, me_ver_stride := 0\<rparr>)"

record mpp_init_io =
  mi_create :: int
  mi_init :: int
  mi_cfg_init :: int
  mi_get_cfg :: int
  mi_set_cfg :: int
  mi_header_mode :: int
  mi_timeout :: int

definition mpp_settings :: "int \<Rightarrow> int \<Rightarrow> int \<Rightarrow> int \<Rightarrow> int \<Rightarrow> int \<Rightarrow> (string \<times> mpp_value) list" where
  "mpp_settings width height hor_stride ver_stride fps bitrate =
     [(''prep:width'', S32 width), (''prep:height'', S32 height), (''prep:hor_stride'', S32 hor_stride), (''prep:ver_stride'', S32 ver_stride),
      (''prep:format'', MPP_FMT_YUV420SP), (''rc:mode'', MPP_ENC_RC_MODE_VBR), (''rc:bps_target'', S32 bitrate),
      (''rc:bps_max'', S32 (bitrate * 3 sdiv 2)), (''rc:bps_min'', S32 (bitrate sdiv 2)), (''rc:fps_in_num'', S32 fps), (''rc:fps_in_denorm'', S32 1),
      (''rc:fps_out_num'', S32 fps), (''rc:fps_out_denorm'', S32 1), (''rc:gop'', S32 (fps * GOP_SECONDS)), (''h265:profile'', S32 1), (''h265:level'', S32 120)]"

definition mpp_init :: "mpp_init_io \<Rightarrow> int \<Rightarrow> int \<Rightarrow> int \<Rightarrow> int \<Rightarrow> int \<Rightarrow> int \<Rightarrow> MppEncoder \<Rightarrow> bool \<times> MppEncoder" where
  "mpp_init io width height hor_stride ver_stride fps bitrate e =
     (let e = e\<lparr>me_hor_stride := hor_stride, me_ver_stride := ver_stride\<rparr> in
      if mi_create io \<noteq> 0 then (False, e)
      else let e = e\<lparr>me_ctx := True\<rparr> in
        if mi_init io \<noteq> 0 \<or> mi_cfg_init io \<noteq> 0 then (False, mpp_cleanup e)
        else let e = e\<lparr>me_cfg := True\<rparr> in
          if mi_get_cfg io \<noteq> 0 then (False, mpp_cleanup e)
          else let e = e\<lparr>me_settings := mpp_settings width height hor_stride ver_stride fps bitrate\<rparr> in
            if mi_set_cfg io \<noteq> 0 \<or> mi_header_mode io \<noteq> 0 \<or> mi_timeout io \<noteq> 0 then (False, mpp_cleanup e) else (True, e))"

definition mpp_sync_strides :: "int \<Rightarrow> int \<Rightarrow> MppEncoder \<Rightarrow> MppEncoder" where
  "mpp_sync_strides hor_stride ver_stride e =
     e\<lparr>me_hor_stride := hor_stride, me_ver_stride := ver_stride,
       me_settings := me_settings e @ [(''prep:hor_stride'', S32 hor_stride), (''prep:ver_stride'', S32 ver_stride)]\<rparr>"

definition mpp_request_idr :: "MppEncoder \<Rightarrow> MppEncoder" where
  "mpp_request_idr e = (if \<not> me_ctx e then e else e\<lparr>me_calls := me_calls e @ [Mpp_Idr]\<rparr>)"

text \<open>The result \<open>ret\<close> of \<open>encode_put_frame\<close> is handed on.\<close>

definition mpp_submit :: "int \<Rightarrow> MppEncoder \<Rightarrow> MppEncoder" where
  "mpp_submit pts e = e\<lparr>me_calls := me_calls e @ [Mpp_Put pts]\<rparr>"

text \<open>What \<open>encode_get_packet\<close> answers: the timeout, no packet, an error, or a packet with its bytes and the mark of the end.\<close>

datatype mpp_get = Get_Timeout | Get_None | Get_Error | Get_Packet "u8 list" bool

fun mpp_drain :: "(u8 list \<Rightarrow> 's \<Rightarrow> 's) \<Rightarrow> mpp_get list \<Rightarrow> 's \<Rightarrow> 's" where
  "mpp_drain on_nal (Get_Packet data eos # r) s = mpp_drain on_nal r (if data \<noteq> [] then on_nal data s else s)"
| "mpp_drain on_nal _ s = s"

text \<open>Each answer comes with whether the deadline has passed before the call; the deadline bounds their number.\<close>

fun mpp_flush :: "(u8 list \<Rightarrow> 's \<Rightarrow> bool \<times> 's) \<Rightarrow> (bool \<times> mpp_get) list \<Rightarrow> 's \<Rightarrow> 's" where
  "mpp_flush on_nal [] s = s"
| "mpp_flush on_nal ((late, g) # r) s =
     (if late then s
      else case g of
        Get_Timeout \<Rightarrow> mpp_flush on_nal r s
      | Get_None \<Rightarrow> mpp_flush on_nal r s
      | Get_Error \<Rightarrow> s
      | Get_Packet data eos \<Rightarrow>
          let (k, s) = (if data \<noteq> [] then on_nal data s else (True, s)) in
          if eos \<or> \<not> k then s else mpp_flush on_nal r s)"

section \<open>Lemmas\<close>

lemma mpp_drain_inv:
  "\<lbrakk>P s; \<And>data s. \<lbrakk>P s; data \<noteq> []\<rbrakk> \<Longrightarrow> P (on_nal data s)\<rbrakk> \<Longrightarrow> P (mpp_drain on_nal gs s)"
  by (induction on_nal gs s rule: mpp_drain.induct) auto

lemma mpp_flush_inv:
  "\<lbrakk>P s; \<And>data s. \<lbrakk>P s; data \<noteq> []\<rbrakk> \<Longrightarrow> P (snd (on_nal data s))\<rbrakk> \<Longrightarrow> P (mpp_flush on_nal gs s)"
proof (induction gs arbitrary: s)
  case (Cons g gs)
  have "P (snd (if data \<noteq> [] then on_nal data s else (True, s)))" for data
    using Cons.prems by simp
  then show ?case
    using Cons by (cases g) (auto simp: Let_def split_beta split: mpp_get.split)
qed simp

text \<open>After the setup the context exists exactly if it has succeeded, and a failed one leaves the calls of the library balanced.\<close>

lemma mpp_init_cases:
  assumes "\<not> me_ctx e" "mpp_init io w h hs vs fps br e = (k, e')"
  shows "me_ctx e' = k" "me_calls e' = me_calls e \<or> me_calls e' = me_calls e @ [Mpp_Destroy]" "k \<Longrightarrow> me_calls e' = me_calls e"
    "k \<Longrightarrow> me_hor_stride e' = hs \<and> me_ver_stride e' = vs"
  using assms by (auto simp: mpp_init_def mpp_cleanup_def Let_def split: if_splits)

lemma mpp_cleanup_fields [simp]:
  "\<not> me_ctx (mpp_cleanup e)"
  "me_calls (mpp_cleanup e) = (if me_ctx e then me_calls e @ [Mpp_Destroy] else me_calls e)"
  by (simp_all add: mpp_cleanup_def Let_def)

end
