(* ===== verification/Ts_Writer.thy ===== *)
theory Ts_Writer
  imports Rtp_Util
begin

text \<open>
  \<open>src/dvr/ts_writer.cpp\<close>: the recorder's MPEG transport stream multiplexer. A file is the list of the bytes in it.
  What the C library and the clock answer to a call is its argument \<open>io\<close>. \<open>int64_t\<close> values are 64-bit words, read with
  \<open>sint\<close> where their sign matters; the 90 kHz clock reaches the end of their range after three million years. Messages to the log
  and the synchronisation of the directory have no counterpart.

  The reference is a demultiplexer in the terms of ISO/IEC 13818-1, which knows nothing of the way the packets were made.
\<close>

section \<open>State\<close>

type_synonym i64 = "64 word"

definition TS_PACKET_SIZE :: nat where "TS_PACKET_SIZE = 188"
definition PID_PAT :: u16 where "PID_PAT = 0x0000"
definition PID_PMT :: u16 where "PID_PMT = 0x1000"
definition PID_VIDEO :: u16 where "PID_VIDEO = 0x0100"
definition PROGRAM_NUMBER :: u16 where "PROGRAM_NUMBER = 0x0001"
definition TRANSPORT_STREAM_ID :: u16 where "TRANSPORT_STREAM_ID = 0x0001"
definition STREAM_TYPE_HEVC :: u8 where "STREAM_TYPE_HEVC = 0x24"
definition PES_STREAM_ID :: u8 where "PES_STREAM_ID = 0xE0"
definition PTS_PREROLL_90K :: i64 where "PTS_PREROLL_90K = 90000"
definition PSI_INTERVAL_90K :: int where "PSI_INTERVAL_90K = 9000"
definition TS_TIMESTAMP_MASK :: i64 where "TS_TIMESTAMP_MASK = 0x1FFFFFFFF"
definition SYNC_BYTES :: u64 where "SYNC_BYTES = 4 * 1024 * 1024"
definition SYNC_INTERVAL_MS :: int where "SYNC_INTERVAL_MS = 2000"

record TsWriter =
  tw_file :: "u8 list option"
  tw_video_started :: bool
  tw_file_size_bytes :: u64
  tw_discard_count :: u32
  tw_write_fail_count :: u32
  tw_write_fail_streak :: u32
  tw_bytes_since_sync :: u64
  tw_last_sync_ms :: i64
  tw_media_ticks :: i64
  tw_last_psi_ticks :: i64
  tw_psi_pending :: bool
  tw_cc_video :: u8
  tw_cc_pat :: u8
  tw_cc_pmt :: u8

text \<open>What the system answers: whether \<open>fopen\<close>, \<open>fflush\<close>, \<open>fdatasync\<close> and \<open>fclose\<close> succeed, how many bytes \<open>fwrite\<close> of a
  number of bytes writes, and the clock.\<close>

record ts_io =
  io_fopen :: bool
  io_fwrite :: "nat \<Rightarrow> nat"
  io_fflush :: bool
  io_fdatasync :: bool
  io_fclose :: bool
  io_monotonic_ms :: i64

definition new_TsWriter :: TsWriter where
  "new_TsWriter = \<lparr>tw_file = None, tw_video_started = False, tw_file_size_bytes = 0, tw_discard_count = 0,
     tw_write_fail_count = 0, tw_write_fail_streak = 0, tw_bytes_since_sync = 0, tw_last_sync_ms = 0, tw_media_ticks = 0,
     tw_last_psi_ticks = 0, tw_psi_pending = True, tw_cc_video = 0, tw_cc_pat = 0, tw_cc_pmt = 0\<rparr>"

section \<open>Fields\<close>

definition crc_bit :: "u32 \<Rightarrow> u32" where
  "crc_bit crc = (if crc AND 0x80000000 \<noteq> 0 then push_bit 1 crc XOR 0x04C11DB7 else push_bit 1 crc)"

definition crc_byte :: "u32 \<Rightarrow> u8 \<Rightarrow> u32" where
  "crc_byte crc b = (crc_bit ^^ 8) (crc XOR push_bit 24 (ucast b))"

definition crc32_mpeg :: "u8 list \<Rightarrow> u32" where
  "crc32_mpeg data = foldl crc_byte 0xFFFFFFFF data"

fun au_is_keyframe :: "u8 list \<Rightarrow> bool" where
  "au_is_keyframe (a # b # c # d # ds) =
     (if a = 0 \<and> b = 0 \<and> c = 1 then
        let nal_type = unat (drop_bit 1 d AND 0x3f) in
        if nal_type \<ge> 16 \<and> nal_type \<le> 21 then True else au_is_keyframe (d # ds)
      else au_is_keyframe (b # c # d # ds))"
| "au_is_keyframe _ = False"

definition write_timestamp :: "u8 \<Rightarrow> i64 \<Rightarrow> u8 list" where
  "write_timestamp prefix ts =
     [ucast ((ucast (push_bit 4 prefix) :: i64) OR push_bit 1 (drop_bit 30 ts AND 0x07) OR 0x01),
      ucast (drop_bit 22 ts AND 0xFF),
      ucast (push_bit 1 (drop_bit 15 ts AND 0x7F) OR 0x01),
      ucast (drop_bit 7 ts AND 0xFF),
      ucast (push_bit 1 (ts AND 0x7F) OR 0x01)]"

definition write_pcr :: "i64 \<Rightarrow> u8 list" where
  "write_pcr base =
     [ucast (drop_bit 25 base AND 0xFF), ucast (drop_bit 17 base AND 0xFF), ucast (drop_bit 9 base AND 0xFF),
      ucast (drop_bit 1 base AND 0xFF), ucast (push_bit 7 (base AND 0x01) OR 0x7E), 0]"

section \<open>Tables\<close>

definition emit_section :: "u8 list \<Rightarrow> u16 \<Rightarrow> u8 \<Rightarrow> u8 list \<Rightarrow> (u8 list \<times> u8) option" where
  "emit_section out pid cc section =
     (if 5 + length section + 4 \<le> TS_PACKET_SIZE
      then Some (out @ [0x47, ucast (0x40 OR (drop_bit 8 pid AND 0x1F)), ucast (pid AND 0xFF), 0x10 OR (cc AND 0x0F), 0]
          @ section @ be32 (crc32_mpeg section) @ replicate (TS_PACKET_SIZE - (5 + length section + 4)) 0xFF,
        (cc + 1) AND 0x0F)
      else None)"

definition pat_section :: "u8 list" where
  "pat_section = [0x00, 0xB0, 0x0D, ucast (drop_bit 8 TRANSPORT_STREAM_ID), ucast (TRANSPORT_STREAM_ID AND 0xFF),
     0xC1, 0x00, 0x00, ucast (drop_bit 8 PROGRAM_NUMBER), ucast (PROGRAM_NUMBER AND 0xFF),
     ucast (0xE0 OR (drop_bit 8 PID_PMT AND 0x1F)), ucast (PID_PMT AND 0xFF)]"

definition pmt_section :: "u8 list" where
  "pmt_section = [0x02, 0xB0, 0x12, ucast (drop_bit 8 PROGRAM_NUMBER), ucast (PROGRAM_NUMBER AND 0xFF),
     0xC1, 0x00, 0x00, ucast (0xE0 OR (drop_bit 8 PID_VIDEO AND 0x1F)), ucast (PID_VIDEO AND 0xFF), 0xF0, 0x00,
     STREAM_TYPE_HEVC, ucast (0xE0 OR (drop_bit 8 PID_VIDEO AND 0x1F)), ucast (PID_VIDEO AND 0xFF), 0xF0, 0x00]"

definition emit_psi :: "u8 list \<Rightarrow> TsWriter \<Rightarrow> (u8 list \<times> TsWriter) option" where
  "emit_psi out w = do {
     (out, cc) \<leftarrow> emit_section out PID_PAT (tw_cc_pat w) pat_section;
     let w = w\<lparr>tw_cc_pat := cc\<rparr>;
     (out, cc) \<leftarrow> emit_section out PID_PMT (tw_cc_pmt w) pmt_section;
     Some (out, w\<lparr>tw_cc_pmt := cc\<rparr>) }"

section \<open>Access units\<close>

definition pes_header :: "i64 \<Rightarrow> u8 list" where
  "pes_header pts = [0x00, 0x00, 0x01, PES_STREAM_ID, 0x00, 0x00, 0x84, 0x80, 0x05] @ write_timestamp 0x02 pts"

text \<open>The length of the adaptation field, the bytes it takes in the packet, and the bytes left for the payload.\<close>

definition ts_layout :: "bool \<Rightarrow> nat \<Rightarrow> nat \<times> nat \<times> nat" where
  "ts_layout first remaining =
     (let af_len = (if first then 1 + 6 else 0);
          af_total = (if af_len \<noteq> 0 then af_len + 1 else 0);
          room = TS_PACKET_SIZE - 4 - af_total
      in if remaining < room then
           let pad = room - remaining in
           if af_total = 0 then (if pad = 1 then 0 else pad - 1, pad, remaining)
           else (af_len + pad, af_total + pad, remaining)
         else (af_len, af_total, room))"

definition adaptation_field :: "bool \<Rightarrow> bool \<Rightarrow> i64 \<Rightarrow> nat \<Rightarrow> nat \<Rightarrow> u8 list" where
  "adaptation_field first keyframe pcr af_len af_total =
     (if af_total = 0 then []
      else of_nat af_len #
        (if af_len = 0 then []
         else let flags = (if first \<and> keyframe then 0x40 else 0x00);
                  field = (if first then (flags OR 0x10) # write_pcr pcr else [flags])
              in field @ replicate (af_total - (1 + length field)) 0xFF))"

definition pes_pkt :: "bool \<Rightarrow> bool \<Rightarrow> i64 \<Rightarrow> u8 \<Rightarrow> nat \<Rightarrow> nat \<Rightarrow> u8 list \<Rightarrow> u8 list" where
  "pes_pkt first keyframe pcr cc af_len af_total body =
     [0x47, (if first then 0x40 else 0x00) OR ucast (drop_bit 8 PID_VIDEO AND 0x1F), ucast (PID_VIDEO AND 0xFF),
      (if af_total \<noteq> 0 then 0x30 else 0x10) OR (cc AND 0x0F)]
     @ adaptation_field first keyframe pcr af_len af_total @ body"

text \<open>The slice of the header and the access unit that goes into one packet, copied without joining them.\<close>

function copy_slice :: "u8 list \<Rightarrow> u8 list \<Rightarrow> nat \<Rightarrow> nat \<Rightarrow> nat \<Rightarrow> u8 list option" where
  "copy_slice pes au pos room copied =
     (if copied < room then
        let at = pos + copied;
            (src, avail) = (if at < length pes then (drop at pes, length pes - at)
                            else (drop (at - length pes) au, length au - (at - length pes)));
            n = (if room - copied < avail then room - copied else avail)
        in if n = 0 then None
           else map_option ((@) (take n src)) (copy_slice pes au pos room (copied + n))
      else Some [])"
  by pat_completeness auto
termination
  by (relation "measure (\<lambda>(pes, au, pos, room, copied). room - copied)") auto

declare copy_slice.simps [simp del]

function pes_loop :: "u8 list \<Rightarrow> u8 list \<Rightarrow> i64 \<Rightarrow> bool \<Rightarrow> nat \<Rightarrow> bool \<Rightarrow> u8 \<Rightarrow> u8 list \<Rightarrow> (u8 list \<times> u8) option" where
  "pes_loop pes au pcr keyframe pos first cc out =
     (if pos < length pes + length au then do {
        let (af_len, af_total, room) = ts_layout first (length pes + length au - pos);
        body \<leftarrow> copy_slice pes au pos room 0;
        pes_loop pes au pcr keyframe (pos + room) False ((cc + 1) AND 0x0F)
          (out @ pes_pkt first keyframe pcr cc af_len af_total body) }
      else Some (out, cc))"
  by pat_completeness auto
termination
  by (relation "measure (\<lambda>(pes, au, pcr, keyframe, pos, first, cc, out). length pes + length au - pos)")
    (auto simp: ts_layout_def TS_PACKET_SIZE_def Let_def split: if_splits)

declare pes_loop.simps [simp del]

definition emit_pes :: "u8 list \<Rightarrow> u8 list \<Rightarrow> i64 \<Rightarrow> i64 \<Rightarrow> bool \<Rightarrow> TsWriter \<Rightarrow> (u8 list \<times> TsWriter) option" where
  "emit_pes out au pts pcr keyframe w = do {
     (out, cc) \<leftarrow> pes_loop (pes_header pts) au pcr keyframe 0 True (tw_cc_video w) out;
     Some (out, w\<lparr>tw_cc_video := cc\<rparr>) }"

section \<open>The file\<close>

text \<open>\<open>fwrite\<close> appends the bytes it reports as written.\<close>

definition write_block :: "ts_io \<Rightarrow> u8 list \<Rightarrow> TsWriter \<Rightarrow> (bool \<times> TsWriter) option" where
  "write_block io data w = do {
     f \<leftarrow> tw_file w;
     let n = min (io_fwrite io (length data)) (length data);
     let w = w\<lparr>tw_file := Some (f @ take n data)\<rparr>;
     Some (if n \<noteq> length data then (False, w)
           else (True, w\<lparr>tw_file_size_bytes := tw_file_size_bytes w + of_nat (length data)\<rparr>)) }"

definition mux_access_unit :: "ts_io \<Rightarrow> u8 list \<Rightarrow> int \<Rightarrow> TsWriter \<Rightarrow> (bool \<times> TsWriter) option" where
  "mux_access_unit io data duration w = do {
     let keyframe = au_is_keyframe data;
     let pcr = tw_media_ticks w AND TS_TIMESTAMP_MASK;
     let pts = (tw_media_ticks w + PTS_PREROLL_90K) AND TS_TIMESTAMP_MASK;
     (out, w) \<leftarrow>
       (if tw_psi_pending w \<or> keyframe \<or> sint (tw_media_ticks w - tw_last_psi_ticks w) \<ge> PSI_INTERVAL_90K then do {
          (out, w) \<leftarrow> emit_psi [] w;
          Some (out, w\<lparr>tw_last_psi_ticks := tw_media_ticks w, tw_psi_pending := False\<rparr>) }
        else Some ([], w));
     (out, w) \<leftarrow> emit_pes out data pts pcr keyframe w;
     (k, w) \<leftarrow> write_block io out w;
     Some (k, w\<lparr>tw_media_ticks := tw_media_ticks w + of_int duration\<rparr>) }"

definition sync_now :: "ts_io \<Rightarrow> TsWriter \<Rightarrow> bool \<times> TsWriter" where
  "sync_now io w =
     (if tw_file w = None then (True, w)
      else (io_fflush io \<and> io_fdatasync io, w\<lparr>tw_bytes_since_sync := 0, tw_last_sync_ms := io_monotonic_ms io\<rparr>))"

definition sync_if_due :: "ts_io \<Rightarrow> TsWriter \<Rightarrow> TsWriter" where
  "sync_if_due io w =
     (if tw_bytes_since_sync w < SYNC_BYTES \<and> sint (io_monotonic_ms io - tw_last_sync_ms w) < SYNC_INTERVAL_MS then w
      else let (k, w) = sync_now io w in
        if \<not> k then w\<lparr>tw_write_fail_count := tw_write_fail_count w + 1, tw_write_fail_streak := tw_write_fail_streak w + 1\<rparr>
        else w)"

definition ts_open :: "ts_io \<Rightarrow> TsWriter \<Rightarrow> bool \<times> TsWriter" where
  "ts_open io w =
     (if \<not> io_fopen io then (False, w\<lparr>tw_file := None\<rparr>)
      else (True, w\<lparr>tw_file := Some [], tw_file_size_bytes := 0, tw_write_fail_count := 0, tw_write_fail_streak := 0,
        tw_bytes_since_sync := 0, tw_last_sync_ms := io_monotonic_ms io\<rparr>))"

definition begin_video :: "TsWriter \<Rightarrow> bool \<times> TsWriter" where
  "begin_video w =
     (if tw_file w = None then (False, w)
      else (True, w\<lparr>tw_media_ticks := 0, tw_last_psi_ticks := 0, tw_psi_pending := True, tw_cc_video := 0, tw_cc_pat := 0,
        tw_cc_pmt := 0, tw_video_started := True\<rparr>))"

definition write_nal :: "ts_io \<Rightarrow> u8 list \<Rightarrow> int \<Rightarrow> TsWriter \<Rightarrow> (bool \<times> TsWriter) option" where
  "write_nal io data duration w =
     (if data = [] then Some (True, w)
      else if tw_file w = None \<or> \<not> tw_video_started w
      then Some (False, w\<lparr>tw_discard_count := tw_discard_count w + 1\<rparr>)
      else do {
        (k, w) \<leftarrow> mux_access_unit io data duration w;
        if \<not> k then Some (False, w\<lparr>tw_write_fail_count := tw_write_fail_count w + 1,
          tw_write_fail_streak := tw_write_fail_streak w + 1\<rparr>)
        else let w = w\<lparr>tw_write_fail_count := 0, tw_write_fail_streak := 0,
                       tw_bytes_since_sync := tw_bytes_since_sync w + of_nat (length data)\<rparr>
             in Some (True, sync_if_due io w) })"

text \<open>The result, the closed writer and what is left in the file.\<close>

definition ts_close :: "ts_io \<Rightarrow> TsWriter \<Rightarrow> bool \<times> TsWriter \<times> u8 list option" where
  "ts_close io w =
     (let w = w\<lparr>tw_video_started := False\<rparr>;
          (k, w) = sync_now io w
      in (k \<and> (tw_file w \<noteq> None \<longrightarrow> io_fclose io), w\<lparr>tw_file := None\<rparr>, tw_file w))"

section \<open>The reference demultiplexer\<close>

record ts_packet =
  ts_pid :: u16
  ts_start :: bool
  ts_cc :: nat
  ts_rai :: bool
  ts_pcr :: "i64 option"
  ts_payload :: "u8 list"

definition pcr_base :: "u8 list \<Rightarrow> i64" where
  "pcr_base p = push_bit 25 (ucast (p ! 0)) OR push_bit 17 (ucast (p ! 1)) OR push_bit 9 (ucast (p ! 2))
     OR push_bit 1 (ucast (p ! 3)) OR drop_bit 7 (ucast (p ! 4))"

definition ts_parse :: "u8 list \<Rightarrow> ts_packet option" where
  "ts_parse p =
     (if length p \<noteq> 188 \<or> p ! 0 \<noteq> 0x47 then None
      else let n = unat (p ! 4);
               af = bit (p ! 3) 5;
               flags = (if af \<and> 0 < n then p ! 5 else 0);
               skip = (if af then n + 1 else 0)
           in if 184 < skip then None
              else Some \<lparr>ts_pid = push_bit 8 (ucast (p ! 1 AND 0x1F)) OR ucast (p ! 2), ts_start = bit (p ! 1) 6,
                ts_cc = unat (p ! 3 AND 0x0F), ts_rai = bit flags 6,
                ts_pcr = (if bit flags 4 then Some (pcr_base (drop 6 p)) else None),
                ts_payload = (if bit (p ! 3) 4 then drop (4 + skip) p else [])\<rparr>)"

function ts_demux :: "u8 list \<Rightarrow> ts_packet list option" where
  "ts_demux s = (if s = [] then Some [] else do {
     p \<leftarrow> ts_parse (take 188 s);
     ps \<leftarrow> ts_demux (drop 188 s);
     Some (p # ps) })"
  by pat_completeness auto
termination
  by (relation "measure length") auto

declare ts_demux.simps [simp del]

text \<open>The packets of a PID carry consecutive counters.\<close>

fun counts :: "nat \<Rightarrow> ts_packet list \<Rightarrow> bool" where
  "counts c [] \<longleftrightarrow> True"
| "counts c (p # ps) \<longleftrightarrow> ts_cc p = c mod 16 \<and> counts (c + 1) ps"

definition on_pid :: "u16 \<Rightarrow> ts_packet list \<Rightarrow> ts_packet list" where
  "on_pid pid ps = filter (\<lambda>p. ts_pid p = pid) ps"

text \<open>A PES packet starts in a packet with the start indicator and goes on to the next one; with it comes what the first
  packet says of random access and of the clock.\<close>

function pes_units :: "ts_packet list \<Rightarrow> (bool \<times> i64 option \<times> u8 list) list" where
  "pes_units [] = []"
| "pes_units (p # ps) =
     (ts_rai p, ts_pcr p, ts_payload p @ concat (map ts_payload (takeWhile (\<lambda>q. \<not> ts_start q) ps)))
     # pes_units (dropWhile (\<lambda>q. \<not> ts_start q) ps)"
  by pat_completeness auto
termination
  by (relation "measure length") (auto simp: length_dropWhile_le le_imp_less_Suc)

definition read_timestamp :: "u8 list \<Rightarrow> i64" where
  "read_timestamp p = push_bit 30 (drop_bit 1 (ucast (p ! 0)) AND 0x07) OR push_bit 22 (ucast (p ! 1))
     OR push_bit 15 (drop_bit 1 (ucast (p ! 2))) OR push_bit 7 (ucast (p ! 3)) OR drop_bit 1 (ucast (p ! 4))"

text \<open>The time stamp and the data of a video PES packet.\<close>

definition pes_parse :: "u8 list \<Rightarrow> (i64 \<times> u8 list) option" where
  "pes_parse u =
     (if length u < 14 \<or> take 3 u \<noteq> [0, 0, 1] \<or> u ! 3 \<noteq> 0xE0 \<or> \<not> bit (u ! 7) 7 \<or> u ! 8 < 5 then None
      else Some (read_timestamp (drop 9 u), drop (9 + unat (u ! 8)) u))"

text \<open>A section behind its pointer field, without its checksum.\<close>

definition psi_section :: "u8 list \<Rightarrow> u8 list option" where
  "psi_section p =
     (let n = 3 + unat (push_bit 8 (ucast (p ! 2 AND 0x0F)) OR ucast (p ! 3) :: u16)
      in if p ! 0 \<noteq> 0 \<or> length p < n + 1 \<or> n < 4 \<or> crc32_mpeg (take n (drop 1 p)) \<noteq> 0 then None
         else Some (take (n - 4) (drop 1 p)))"

section \<open>Fields are read back\<close>

lemma ts_masks:
  "0x07 = (mask 3 :: i64)" "0x7F = (mask 7 :: i64)" "0xFF = (mask 8 :: i64)" "0x1FFFFFFFF = (mask 33 :: i64)"
  by (simp_all add: mask_eq_exp_minus_1)

lemma bit_times_2: "bit (w * 2 :: i64) n \<longleftrightarrow> 0 < n \<and> n < 64 \<and> bit w (n - 1)"
  using bit_push_bit_iff [of 1 w n] by (auto simp: push_bit_eq_mult possible_bit_word)

lemma byte_back: "(ucast (ucast (w :: i64) :: u8) :: i64) = take_bit 8 w"
  by (rule bit_word_eqI) (auto simp: bit_simps)

lemma bit_126 [simp]: "bit (126 :: i64) n \<longleftrightarrow> 1 \<le> n \<and> n \<le> 6"
proof -
  have "(126 :: i64) = mask 6 * 2"
    by (simp add: mask_eq_exp_minus_1)
  then show ?thesis
    by (simp only: bit_times_2) (auto simp: bit_simps)
qed

lemma bit_33:
  assumes "ts AND TS_TIMESTAMP_MASK = ts"
  shows "bit ts n \<Longrightarrow> n < 33"
  using arg_cong [OF assms, of "\<lambda>w. bit w n"] by (auto simp: TS_TIMESTAMP_MASK_def ts_masks bit_simps)

lemma bit_32 [simp]: "bit (32 :: i64) n \<longleftrightarrow> n = 5"
  using bit_exp_iff [of 5 n, where 'a = i64] by (auto simp: possible_bit_word)

lemma bit_17179869184 [simp]: "bit (17179869184 :: int) n \<longleftrightarrow> n = 34"
  using bit_exp_iff [of 34 n, where 'a = int] by auto

lemma read_write_timestamp:
  assumes "ts AND TS_TIMESTAMP_MASK = ts"
  shows "read_timestamp (write_timestamp 2 ts) = ts"
proof (rule bit_word_eqI)
  fix n assume n: "n < LENGTH(64)"
  have hi: "33 \<le> n \<Longrightarrow> \<not> bit ts n"
    using bit_33 [OF assms, of n] by linarith
  consider "n < 7" | "7 \<le> n" "n < 15" | "15 \<le> n" "n < 22" | "22 \<le> n" "n < 30" | "30 \<le> n" "n < 33" | "33 \<le> n"
    by linarith
  then show "bit (read_timestamp (write_timestamp 2 ts)) n = bit ts n"
    using n hi by cases (auto simp: less_diff_conv2 read_timestamp_def write_timestamp_def byte_back ts_masks bit_simps bit_times_2 possible_bit_word)
qed

lemma pcr_base_write:
  assumes "ts AND TS_TIMESTAMP_MASK = ts"
  shows "pcr_base (write_pcr ts @ xs) = ts"
proof (rule bit_word_eqI)
  fix n assume n: "n < LENGTH(64)"
  have hi: "33 \<le> n \<Longrightarrow> \<not> bit ts n"
    using bit_33 [OF assms, of n] by linarith
  consider "n < 1" | "1 \<le> n" "n < 9" | "9 \<le> n" "n < 17" | "17 \<le> n" "n < 25" | "25 \<le> n" "n < 33" | "33 \<le> n"
    by linarith
  then show "bit (pcr_base (write_pcr ts @ xs)) n = bit ts n"
    using n hi by cases (auto simp: less_diff_conv2 pcr_base_def write_pcr_def byte_back ts_masks bit_simps bit_times_2 possible_bit_word)
qed

section \<open>The checksum of a section\<close>

lemma crc_bit_low: "\<not> bit crc 31 \<Longrightarrow> crc_bit crc = push_bit 1 crc"
proof -
  assume "\<not> bit crc 31"
  then have "crc AND 0x80000000 = 0"
    using and_exp_eq_0_iff_not_bit [of crc 31] by simp
  then show ?thesis by (simp add: crc_bit_def)
qed

lemma crc_bits_low:
  assumes "\<forall>i. 24 \<le> i \<longrightarrow> \<not> bit crc i" "k \<le> 8"
  shows "(crc_bit ^^ k) crc = push_bit k crc"
  using assms(2)
proof (induction k)
  case (Suc k)
  have "\<not> bit (push_bit k crc) 31"
    using assms(1) Suc.prems by (auto simp: bit_push_bit_iff)
  then have "crc_bit (push_bit k crc) = push_bit 1 (push_bit k crc)"
    by (rule crc_bit_low)
  with Suc show ?case
    by simp
qed simp

lemma crc_byte_top:
  assumes "b = ucast (drop_bit 24 crc)"
  shows "crc_byte crc b = push_bit 8 crc"
proof -
  let ?x = "crc XOR push_bit 24 (ucast b)"
  have low: "bit ?x i \<longleftrightarrow> i < 24 \<and> bit crc i" for i
    using assms bit_imp_le_length [of crc i] by (auto simp: bit_simps)
  then have "crc_byte crc b = push_bit 8 ?x"
    unfolding crc_byte_def by (intro crc_bits_low) auto
  also have "\<dots> = push_bit 8 crc"
    by (rule bit_word_eqI) (use low in \<open>auto simp: bit_push_bit_iff\<close>)
  finally show ?thesis .
qed

text \<open>A section with its checksum behind it has the checksum 0, which is how a receiver tests it.\<close>

lemma crc_residue: "crc32_mpeg (section @ be32 (crc32_mpeg section)) = 0"
proof -
  define c where "c = crc32_mpeg section"
  have s: "crc_byte c (ucast (drop_bit 24 c)) = push_bit 8 c"
    "crc_byte (push_bit 8 c) (ucast (drop_bit 16 c)) = push_bit 16 c"
    "crc_byte (push_bit 16 c) (ucast (drop_bit 8 c)) = push_bit 24 c"
    "crc_byte (push_bit 24 c) (ucast c) = push_bit 32 c"
    by (subst crc_byte_top; auto intro!: bit_word_eqI simp: bit_simps)+
  have "foldl crc_byte c (be32 c) = 0"
    by (simp add: be32_def s)
  then show ?thesis
    by (simp add: crc32_mpeg_def c_def)
qed

section \<open>One packet\<close>

lemma copy_slice_eq:
  "\<lbrakk>pos + room \<le> length (pes @ au); copied \<le> room\<rbrakk> \<Longrightarrow>
   copy_slice pes au pos room copied = Some (take (room - copied) (drop (pos + copied) (pes @ au)))"
proof (induction "room - copied" arbitrary: copied rule: less_induct)
  case less
  show ?case
  proof (cases "copied < room")
    case False
    then show ?thesis by (subst copy_slice.simps) simp
  next
    case True
    define at where "at = pos + copied"
    define src where "src = (if at < length pes then drop at pes else drop (at - length pes) au)"
    define n where "n = (if room - copied < length src then room - copied else length src)"
    have len: "(if at < length pes then (drop at pes, length pes - at) else (drop (at - length pes) au, length au - (at - length pes)))
        = (src, length src)"
      by (simp add: src_def)
    have at: "at < length (pes @ au)" and n: "0 < n" "n \<le> room - copied" "n \<le> length src"
      using less.prems True by (auto simp: at_def n_def src_def)
    have "take n src = take n (drop at (pes @ au))"
      using n(3) by (auto simp: src_def)
    moreover have "copy_slice pes au pos room (copied + n) = Some (take (room - (copied + n)) (drop (at + n) (pes @ au)))"
      unfolding at_def add.assoc using less.prems n True by (intro less.hyps) auto
    ultimately have "copy_slice pes au pos room copied
        = Some (take n (drop at (pes @ au)) @ take (room - (copied + n)) (drop (at + n) (pes @ au)))"
      using True n(1) len by (subst copy_slice.simps) (simp add: at_def [symmetric] n_def [symmetric] Let_def del: drop_append take_append)
    also have "take n (drop at (pes @ au)) @ take (room - (copied + n)) (drop (at + n) (pes @ au))
        = take (room - copied) (drop at (pes @ au))"
    proof -
      have "n + (room - (copied + n)) = room - copied"
        using n(2) by simp
      then show ?thesis
        using take_add [of n "room - (copied + n)" "drop at (pes @ au)"] by (simp add: add.commute del: drop_append take_append)
    qed
    finally show ?thesis by (simp add: at_def)
  qed
qed

lemma ts_layout_facts:
  assumes "ts_layout first n = (af_len, af_total, room)" "0 < n"
  shows "4 + af_total + room = 188" "0 < room" "room \<le> n" "af_total \<noteq> 0 \<Longrightarrow> af_total = af_len + 1" "af_len \<le> 183"
    "first \<Longrightarrow> 8 \<le> af_total" "af_total = 0 \<Longrightarrow> af_len = 0"
  using assms by (auto simp: ts_layout_def TS_PACKET_SIZE_def Let_def split: if_splits)

lemma length_adaptation_field:
  assumes "ts_layout first n = (af_len, af_total, room)" "0 < n"
  shows "length (adaptation_field first keyframe pcr af_len af_total) = af_total"
  using ts_layout_facts [OF assms] by (auto simp: adaptation_field_def write_pcr_def Let_def)

lemma unat_low_nibble: "unat (cc AND 0x0F :: u8) = unat cc mod 16"
proof -
  have "cc AND 0x0F = take_bit 4 cc"
    by (simp add: take_bit_eq_mask mask_eq_exp_minus_1)
  then show ?thesis
    by (simp only: unsigned_take_bit_eq) (simp add: take_bit_eq_mod)
qed

lemma cc_step: "unat ((cc + 1) AND 0x0F :: u8) = (unat cc + 1) mod 16"
  unfolding unat_low_nibble by (simp add: unat_word_ariths mod_mod_cancel)

definition video_packet :: "bool \<Rightarrow> bool \<Rightarrow> i64 \<Rightarrow> u8 \<Rightarrow> u8 list \<Rightarrow> ts_packet" where
  "video_packet first keyframe pcr cc body =
     \<lparr>ts_pid = PID_VIDEO, ts_start = first, ts_cc = unat (cc AND 0x0F), ts_rai = (first \<and> keyframe),
      ts_pcr = (if first then Some pcr else None), ts_payload = body\<rparr>"

lemma unat_af_len: "n \<le> 183 \<Longrightarrow> unat (of_nat n :: u8) = n"
  by (simp add: unat_of_nat)

lemma cc_nibble:
  "bit (0x30 OR (cc AND 0x0F) :: u8) 5" "bit (0x30 OR (cc AND 0x0F) :: u8) 4"
  "\<not> bit (0x10 OR (cc AND 0x0F) :: u8) 5" "bit (0x10 OR (cc AND 0x0F) :: u8) 4"
  "(0x30 OR (cc AND 0x0F)) AND 0x0F = (cc AND 0x0F :: u8)" "(0x10 OR (cc AND 0x0F)) AND 0x0F = (cc AND 0x0F :: u8)"
  by (simp_all add: bit_simps bit.conj_disj_distrib2 and.assoc)

lemma drop_past: "length xs = n \<Longrightarrow> drop n (xs @ ys) = ys"
  by simp

lemma parse_video_packet:
  assumes l: "ts_layout first n = (af_len, af_total, room)" "0 < n" and s: "length body = room"
    and pcr: "pcr AND TS_TIMESTAMP_MASK = pcr"
  shows "ts_parse (pes_pkt first keyframe pcr cc af_len af_total body) = Some (video_packet first keyframe pcr cc body)"
proof -
  note f = ts_layout_facts [OF l] and len = length_adaptation_field [OF l, of keyframe pcr]
  show ?thesis
  proof (cases "af_total = 0")
    case True
    with f s show ?thesis
      by (auto simp: ts_parse_def pes_pkt_def video_packet_def adaptation_field_def PID_VIDEO_def cc_nibble Let_def)
  next
    case False
    show ?thesis
    proof (cases first)
      case first: True
      have t: "af_total = Suc af_len" "7 \<le> af_len"
        using first False f(4,6) by auto
      then have af: "adaptation_field True keyframe pcr af_len (Suc af_len)
          = of_nat af_len # (if keyframe then 0x50 else 0x10) # write_pcr pcr @ replicate (af_len - 7) 0xFF"
        by (auto simp: adaptation_field_def write_pcr_def Let_def)
      have d: "drop (5 + af_len) (a # b # c # d # e # g # write_pcr pcr @ replicate (af_len - 7) 0xFF @ body) = body" for a b c d e g
        using drop_past [of "a # b # c # d # e # g # write_pcr pcr @ replicate (af_len - 7) 0xFF" "5 + af_len" body] t(2)
        by (simp add: write_pcr_def)
      have "length (write_pcr pcr) = 6"
        by (simp add: write_pcr_def)
      then show ?thesis
        using first f(1) t s d unat_af_len [OF f(5)] pcr_base_write [OF pcr]
        by (simp add: ts_parse_def pes_pkt_def video_packet_def af PID_VIDEO_def cc_nibble Let_def)
    next
      case rest: False
      have d: "0 < af_len \<Longrightarrow> drop (5 + af_len) (a # b # c # d # e # g # replicate (af_len - Suc 0) 0xFF @ body) = body" for a b c d e g
        using drop_past [of "a # b # c # d # e # g # replicate (af_len - Suc 0) 0xFF" "5 + af_len" body] by simp
      show ?thesis
        using False rest f s len unat_af_len [OF f(5)]
        by (auto simp: d ts_parse_def pes_pkt_def video_packet_def adaptation_field_def PID_VIDEO_def cc_nibble Let_def)
    qed
  qed
qed

section \<open>Many packets\<close>

lemma ts_demux_Nil [simp]: "ts_demux [] = Some []"
  by (subst ts_demux.simps) simp

lemma ts_demux_packet:
  assumes "ts_parse p = Some x"
  shows "ts_demux (p @ s) = map_option ((#) x) (ts_demux s)"
proof -
  have "length p = 188"
    using assms by (auto simp: ts_parse_def split: if_splits)
  then have "p @ s \<noteq> []" "take 188 (p @ s) = p" "drop 188 (p @ s) = s"
    by auto
  then show ?thesis
    using assms by (subst ts_demux.simps) (auto simp: map_option_case split: option.splits)
qed

lemma ts_demux_append:
  "ts_demux a = Some ps \<Longrightarrow> ts_demux (a @ b) = map_option ((@) ps) (ts_demux b)"
proof (induction a arbitrary: ps rule: ts_demux.induct)
  case (1 a)
  show ?case
  proof (cases "a = []")
    case True
    with 1 show ?thesis by (simp add: option.map_id0 id_def [symmetric])
  next
    case False
    with 1(2) obtain x xs where x: "ts_parse (take 188 a) = Some x" "ts_demux (drop 188 a) = Some xs" "ps = x # xs"
      by (subst (asm) ts_demux.simps) (auto simp: bind_Some_conv)
    have "ts_demux (a @ b) = ts_demux (take 188 a @ (drop 188 a @ b))"
      by (metis append.assoc append_take_drop_id)
    also have "\<dots> = map_option ((#) x) (map_option ((@) xs) (ts_demux b))"
      using ts_demux_packet [OF x(1)] 1(1) [OF False x(1,2)] by simp
    finally show ?thesis
      by (simp add: x(3) option.map_comp comp_def)
  qed
qed

lemma counts_append: "counts c (xs @ ys) \<longleftrightarrow> counts c xs \<and> counts (c + length xs) ys"
  by (induction c xs rule: counts.induct) (auto simp: add.assoc)

definition pes_packets :: "bool \<Rightarrow> bool \<Rightarrow> i64 \<Rightarrow> nat \<Rightarrow> u8 list \<Rightarrow> ts_packet list \<Rightarrow> bool" where
  "pes_packets first keyframe pcr c data ps \<longleftrightarrow> concat (map ts_payload ps) = data \<and> counts c ps
     \<and> (\<forall>p \<in> set ps. ts_pid p = PID_VIDEO)
     \<and> (first \<longrightarrow> ps \<noteq> [] \<and> ts_start (hd ps) \<and> ts_rai (hd ps) = keyframe \<and> ts_pcr (hd ps) = Some pcr)
     \<and> (\<forall>p \<in> set (if first then tl ps else ps). \<not> ts_start p)"

lemma pes_loop_ok:
  assumes pcr: "pcr AND TS_TIMESTAMP_MASK = pcr"
  shows "\<lbrakk>pos \<le> length (pes @ au); first \<longrightarrow> pos < length (pes @ au); unat cc = c mod 16\<rbrakk> \<Longrightarrow>
   ok (\<lambda>(out', cc'). \<exists>b ps. out' = out @ b \<and> ts_demux b = Some ps
       \<and> pes_packets first keyframe pcr c (drop pos (pes @ au)) ps \<and> unat cc' = (c + length ps) mod 16)
    (pes_loop pes au pcr keyframe pos first cc out)"
proof (induction "length (pes @ au) - pos" arbitrary: pos first cc c out rule: less_induct)
  case less
  show ?case
  proof (cases "pos < length pes + length au")
    case False
    with less.prems show ?thesis
      by (subst pes_loop.simps) (auto simp: pes_packets_def)
  next
    case True
    obtain af_len af_total room where l: "ts_layout first (length pes + length au - pos) = (af_len, af_total, room)"
      by (metis prod_cases3)
    have n: "0 < length pes + length au - pos" using True by simp
    note f = ts_layout_facts [OF l n]
    define body where "body = take room (drop pos (pes @ au))"
    have body: "copy_slice pes au pos room 0 = Some body" "length body = room"
      using copy_slice_eq [of pos room pes au 0] f(3) True by (auto simp: body_def)
    define pkt where "pkt = pes_pkt first keyframe pcr cc af_len af_total body"
    have p: "ts_parse pkt = Some (video_packet first keyframe pcr cc body)"
      unfolding pkt_def by (rule parse_video_packet [OF l n body(2) pcr])
    have loop: "pes_loop pes au pcr keyframe pos first cc out
        = pes_loop pes au pcr keyframe (pos + room) False ((cc + 1) AND 0x0F) (out @ pkt)"
      using True l body(1) by (subst pes_loop.simps) (simp add: pkt_def [symmetric] Let_def)
    have "ok (\<lambda>(out', cc'). \<exists>b ps. out' = (out @ pkt) @ b \<and> ts_demux b = Some ps
       \<and> pes_packets False keyframe pcr (c + 1) (drop (pos + room) (pes @ au)) ps \<and> unat cc' = (c + 1 + length ps) mod 16)
      (pes_loop pes au pcr keyframe (pos + room) False ((cc + 1) AND 0x0F) (out @ pkt))"
      using f(2,3) True less.prems(3) by (intro less.hyps) (auto simp: cc_step mod_simps)
    moreover have "pes_packets first keyframe pcr c (drop pos (pes @ au)) (video_packet first keyframe pcr cc body # ps)"
      if "pes_packets False keyframe pcr (c + 1) (drop (pos + room) (pes @ au)) ps" for ps
    proof -
      have "unat (cc AND 0x0F) = c mod 16"
        using less.prems(3) by (simp add: unat_low_nibble)
      moreover have "body @ drop (pos + room) (pes @ au) = drop pos (pes @ au)"
        unfolding body_def by (metis append_take_drop_id drop_drop add.commute)
      ultimately show ?thesis
        using that by (auto simp: pes_packets_def video_packet_def)
    qed
    ultimately show ?thesis
      unfolding loop by (elim okI_mono) (fastforce simp: ts_demux_packet [OF p])
  qed
qed

lemma pes_units_append:
  assumes "ts_start p" "\<forall>q \<in> set r. \<not> ts_start q"
  shows "pes_units (xs @ p # r) = pes_units xs @ [(ts_rai p, ts_pcr p, concat (map ts_payload (p # r)))]"
proof (induction xs rule: pes_units.induct)
  case 1
  show ?case
    by (simp add: takeWhile_eq_all_conv [THEN iffD2, OF assms(2)] dropWhile_eq_Nil_conv [THEN iffD2, OF assms(2)])
next
  case (2 q xs)
  have "takeWhile (\<lambda>q. \<not> ts_start q) (xs @ p # r) = takeWhile (\<lambda>q. \<not> ts_start q) xs"
    "dropWhile (\<lambda>q. \<not> ts_start q) (xs @ p # r) = dropWhile (\<lambda>q. \<not> ts_start q) xs @ p # r"
    using assms(1) by (induction xs) simp_all
  with 2 show ?case by simp
qed

lemma pes_parse_header:
  assumes "pts AND TS_TIMESTAMP_MASK = pts"
  shows "pes_parse (pes_header pts @ au) = Some (pts, au)"
proof -
  have "length (write_timestamp 2 pts) = 5"
    by (simp add: write_timestamp_def)
  moreover have "read_timestamp (write_timestamp 2 pts @ au) = pts"
    using read_write_timestamp [OF assms] by (simp add: read_timestamp_def write_timestamp_def)
  ultimately show ?thesis
    by (simp add: pes_parse_def pes_header_def PES_STREAM_ID_def)
qed

section \<open>Tables\<close>

definition table_packet :: "u16 \<Rightarrow> u8 \<Rightarrow> u8 list \<Rightarrow> ts_packet" where
  "table_packet pid cc sec = \<lparr>ts_pid = pid, ts_start = True, ts_cc = unat (cc AND 0x0F), ts_rai = False, ts_pcr = None,
     ts_payload = 0 # sec @ be32 (crc32_mpeg sec) @ replicate (179 - length sec) 0xFF\<rparr>"

lemma emit_section_ok:
  assumes "length sec \<le> 179" "pid = PID_PAT \<or> pid = PID_PMT"
  shows "\<exists>b. emit_section out pid cc sec = Some (out @ b, (cc + 1) AND 0x0F) \<and> ts_parse b = Some (table_packet pid cc sec)"
  using assms by (auto simp: emit_section_def TS_PACKET_SIZE_def PID_PAT_def PID_PMT_def ts_parse_def table_packet_def cc_nibble Let_def)

lemma psi_section_table:
  assumes "length sec + 4 = 3 + unat (push_bit 8 (ucast (sec ! 1 AND 0x0F)) OR ucast (sec ! 2) :: u16)" "3 \<le> length sec" "length sec \<le> 179"
  shows "psi_section (ts_payload (table_packet pid cc sec)) = Some sec"
proof -
  have nth: "(sec @ ys) ! 1 = sec ! 1" "(sec @ ys) ! 2 = sec ! 2" for ys
    using assms(2) by (simp_all add: nth_append)
  have "take (length sec + 4) (sec @ be32 (crc32_mpeg sec) @ replicate (179 - length sec) 0xFF) = sec @ be32 (crc32_mpeg sec)"
    by simp
  then show ?thesis
    using assms nth crc_residue [of sec] by (simp add: psi_section_def table_packet_def Let_def numeral_2_eq_2 numeral_3_eq_3)
qed

lemma psi_tables:
  "psi_section (ts_payload (table_packet PID_PAT cc pat_section)) = Some pat_section"
  "psi_section (ts_payload (table_packet PID_PMT cc pmt_section)) = Some pmt_section"
  by (rule psi_section_table; simp add: pat_section_def pmt_section_def PROGRAM_NUMBER_def TRANSPORT_STREAM_ID_def
      PID_PMT_def PID_VIDEO_def STREAM_TYPE_HEVC_def)+

lemma emit_psi_ok:
  "\<exists>b. emit_psi out w = Some (out @ b, w\<lparr>tw_cc_pat := (tw_cc_pat w + 1) AND 0x0F, tw_cc_pmt := (tw_cc_pmt w + 1) AND 0x0F\<rparr>)
     \<and> ts_demux b = Some [table_packet PID_PAT (tw_cc_pat w) pat_section, table_packet PID_PMT (tw_cc_pmt w) pmt_section]"
proof -
  obtain a where a: "emit_section out PID_PAT (tw_cc_pat w) pat_section = Some (out @ a, (tw_cc_pat w + 1) AND 0x0F)"
      "ts_parse a = Some (table_packet PID_PAT (tw_cc_pat w) pat_section)"
    using emit_section_ok [of pat_section PID_PAT out "tw_cc_pat w"] by (auto simp: pat_section_def)
  obtain b where b: "emit_section (out @ a) PID_PMT (tw_cc_pmt w) pmt_section = Some ((out @ a) @ b, (tw_cc_pmt w + 1) AND 0x0F)"
      "ts_parse b = Some (table_packet PID_PMT (tw_cc_pmt w) pmt_section)"
    using emit_section_ok [of pmt_section PID_PMT "out @ a" "tw_cc_pmt w"] by (auto simp: pmt_section_def)
  have "ts_demux (a @ b @ []) = Some [table_packet PID_PAT (tw_cc_pat w) pat_section, table_packet PID_PMT (tw_cc_pmt w) pmt_section]"
    by (simp only: ts_demux_packet [OF a(2)] ts_demux_packet [OF b(2)]) simp
  with a(1) b(1) show ?thesis
    by (intro exI [of _ "a @ b"]) (simp add: emit_psi_def)
qed

section \<open>A recording\<close>

text \<open>What a demultiplexer should find for each access unit: whether it is a keyframe, the clock reference, and the time stamp with the
  access unit.\<close>

fun expected :: "i64 \<Rightarrow> (u8 list \<times> int) list \<Rightarrow> (bool \<times> i64 option \<times> (i64 \<times> u8 list) option) list" where
  "expected t [] = []"
| "expected t ((au, d) # aus) =
     (au_is_keyframe au, Some (t AND TS_TIMESTAMP_MASK), Some ((t + PTS_PREROLL_90K) AND TS_TIMESTAMP_MASK, au)) # expected (t + of_int d) aus"

definition found_units :: "ts_packet list \<Rightarrow> (bool \<times> i64 option \<times> (i64 \<times> u8 list) option) list" where
  "found_units ps = map (\<lambda>(rai, pcr, u). (rai, pcr, pes_parse u)) (pes_units (on_pid PID_VIDEO ps))"

definition tables_ok :: "ts_packet list \<Rightarrow> bool" where
  "tables_ok ps \<longleftrightarrow> (\<forall>p \<in> set ps. ts_pid p = PID_VIDEO
     \<or> ts_pid p = PID_PAT \<and> psi_section (ts_payload p) = Some pat_section
     \<or> ts_pid p = PID_PMT \<and> psi_section (ts_payload p) = Some pmt_section)"

definition tables_first :: "ts_packet list \<Rightarrow> bool" where
  "tables_first ps \<longleftrightarrow> map ts_pid (take 2 ps) = [PID_PAT, PID_PMT]"

definition counters_ok :: "ts_packet list \<Rightarrow> bool" where
  "counters_ok ps \<longleftrightarrow> (\<forall>pid \<in> {PID_PAT, PID_PMT, PID_VIDEO}. counts 0 (on_pid pid ps))"

definition muxed :: "TsWriter \<Rightarrow> ts_packet list \<Rightarrow> bool" where
  "muxed w ps \<longleftrightarrow> (\<exists>f. tw_file w = Some f \<and> ts_demux f = Some ps \<and> tw_file_size_bytes w = of_nat (length f)) \<and> tw_video_started w \<and> tables_ok ps \<and> counters_ok ps
     \<and> unat (tw_cc_pat w) = length (on_pid PID_PAT ps) mod 16 \<and> unat (tw_cc_pmt w) = length (on_pid PID_PMT ps) mod 16
     \<and> unat (tw_cc_video w) = length (on_pid PID_VIDEO ps) mod 16 \<and> (if ps = [] then tw_psi_pending w else tables_first ps)"

lemma tables_first_append:
  "tables_first ps \<Longrightarrow> tables_first (ps @ qs)"
proof -
  assume p: "tables_first ps"
  then have "length (take 2 ps) = 2"
    using map_eq_imp_length_eq [of ts_pid "take 2 ps" id "[PID_PAT, PID_PMT]"] by (simp add: tables_first_def)
  with p show ?thesis by (simp add: tables_first_def)
qed

lemma pids_distinct [simp]:
  "PID_PAT \<noteq> PID_PMT" "PID_PAT \<noteq> PID_VIDEO" "PID_PMT \<noteq> PID_VIDEO" "PID_PMT \<noteq> PID_PAT" "PID_VIDEO \<noteq> PID_PAT" "PID_VIDEO \<noteq> PID_PMT"
  by (simp_all add: PID_PAT_def PID_PMT_def PID_VIDEO_def)

lemma on_pid_simps [simp]:
  "on_pid pid [] = []" "on_pid pid (p # ps) = (if ts_pid p = pid then p # on_pid pid ps else on_pid pid ps)"
  "on_pid pid (ps @ qs) = on_pid pid ps @ on_pid pid qs"
  by (simp_all add: on_pid_def)

lemma on_pid_video:
  "\<forall>p \<in> set ps. ts_pid p = PID_VIDEO \<Longrightarrow> on_pid PID_VIDEO ps = ps"
  "\<forall>p \<in> set ps. ts_pid p = PID_VIDEO \<Longrightarrow> pid \<noteq> PID_VIDEO \<Longrightarrow> on_pid pid ps = []"
  by (auto simp: on_pid_def filter_empty_conv)

text \<open>The packets of one access unit, with the tables in front of it when they are due.\<close>

lemma mux_packets:
  fixes w :: TsWriter and au :: "u8 list"
  assumes w: "muxed w ps"
  defines "kf \<equiv> au_is_keyframe au" and "t \<equiv> tw_media_ticks w"
  defines "due \<equiv> tw_psi_pending w \<or> kf \<or> sint (t - tw_last_psi_ticks w) \<ge> PSI_INTERVAL_90K"
  shows "\<exists>b v w'. (do { (out, w) \<leftarrow> (if due then do { (out, w) \<leftarrow> emit_psi [] w;
          Some (out, w\<lparr>tw_last_psi_ticks := tw_media_ticks w, tw_psi_pending := False\<rparr>) } else Some ([], w));
        emit_pes out au ((t + PTS_PREROLL_90K) AND TS_TIMESTAMP_MASK) (t AND TS_TIMESTAMP_MASK) kf w }) = Some (b, w')
     \<and> ts_demux b = Some v \<and> v \<noteq> [] \<and> tables_ok (ps @ v) \<and> counters_ok (ps @ v)
     \<and> found_units (ps @ v) = found_units ps @ expected t [(au, d)]
     \<and> (\<forall>f. ts_demux f = Some (ps @ v) \<longrightarrow> muxed (w'\<lparr>tw_file := Some f, tw_file_size_bytes := of_nat (length f)\<rparr>) (ps @ v))
     \<and> tw_file w' = tw_file w \<and> tw_file_size_bytes w' = tw_file_size_bytes w \<and> tw_media_ticks w' = t"
proof -
  let ?pcr = "t AND TS_TIMESTAMP_MASK" and ?pts = "(t + PTS_PREROLL_90K) AND TS_TIMESTAMP_MASK"
  have m: "?pcr AND TS_TIMESTAMP_MASK = ?pcr" "?pts AND TS_TIMESTAMP_MASK = ?pts"
    by (simp_all add: and.assoc)
  define tabs where "tabs = (if due then [table_packet PID_PAT (tw_cc_pat w) pat_section, table_packet PID_PMT (tw_cc_pmt w) pmt_section] else [])"
  define w1 where "w1 = (if due then w\<lparr>tw_cc_pat := (tw_cc_pat w + 1) AND 0x0F, tw_cc_pmt := (tw_cc_pmt w + 1) AND 0x0F,
      tw_last_psi_ticks := t, tw_psi_pending := False\<rparr> else w)"
  have "\<exists>a. (if due then do { (out, w) \<leftarrow> emit_psi [] w;
          Some (out, w\<lparr>tw_last_psi_ticks := tw_media_ticks w, tw_psi_pending := False\<rparr>) } else Some ([], w)) = Some (a, w1)
      \<and> ts_demux a = Some tabs"
    using emit_psi_ok [of "[]" w] by (cases due) (auto simp: tabs_def w1_def t_def)
  then obtain a where a: "(if due then do { (out, w) \<leftarrow> emit_psi [] w;
          Some (out, w\<lparr>tw_last_psi_ticks := tw_media_ticks w, tw_psi_pending := False\<rparr>) } else Some ([], w)) = Some (a, w1)"
      "ts_demux a = Some tabs" by blast
  have cc: "unat (tw_cc_video w1) = length (on_pid PID_VIDEO ps) mod 16"
    using w by (simp add: muxed_def w1_def)
  have "ok (\<lambda>(out', cc'). \<exists>b vs. out' = a @ b \<and> ts_demux b = Some vs
       \<and> pes_packets True kf ?pcr (length (on_pid PID_VIDEO ps)) (drop 0 (pes_header ?pts @ au)) vs
       \<and> unat cc' = (length (on_pid PID_VIDEO ps) + length vs) mod 16)
    (pes_loop (pes_header ?pts) au ?pcr kf 0 True (tw_cc_video w1) a)"
    by (rule pes_loop_ok [OF m(1)]) (use cc in \<open>auto simp: pes_header_def\<close>)
  then obtain b vs cc' where b: "pes_loop (pes_header ?pts) au ?pcr kf 0 True (tw_cc_video w1) a = Some (a @ b, cc')"
      "ts_demux b = Some vs" "pes_packets True kf ?pcr (length (on_pid PID_VIDEO ps)) (pes_header ?pts @ au) vs"
      "unat cc' = (length (on_pid PID_VIDEO ps) + length vs) mod 16"
    by (elim okE) auto
  obtain p r where p: "vs = p # r" "ts_start p" "\<forall>q \<in> set r. \<not> ts_start q" "ts_rai p = kf" "ts_pcr p = Some ?pcr"
      "concat (map ts_payload (p # r)) = pes_header ?pts @ au" "\<forall>q \<in> set vs. ts_pid q = PID_VIDEO"
      "counts (length (on_pid PID_VIDEO ps)) vs"
    using b(3) by (cases vs) (auto simp: pes_packets_def)
  have v: "on_pid PID_VIDEO vs = vs" "on_pid PID_PAT vs = []" "on_pid PID_PMT vs = []"
    using on_pid_video [OF p(7)] by auto
  have tabs: "on_pid PID_VIDEO tabs = []" "tables_ok tabs"
    using psi_tables by (auto simp: tabs_def tables_ok_def table_packet_def)
  have "tables_ok (ps @ tabs @ vs)"
    using w tabs(2) p(7) by (auto simp: muxed_def tables_ok_def)
  moreover have "counters_ok (ps @ tabs @ vs)"
    using w p(8) v tabs(1) by (auto simp: unat_low_nibble muxed_def counters_ok_def counts_append tabs_def table_packet_def)
  moreover have "found_units (ps @ tabs @ vs) = found_units ps @ expected t [(au, d)]"
  proof -
    have "pes_units (on_pid PID_VIDEO ps @ vs) = pes_units (on_pid PID_VIDEO ps) @ [(kf, Some ?pcr, pes_header ?pts @ au)]"
      unfolding p(1) using pes_units_append [OF p(2,3), of "on_pid PID_VIDEO ps"] by (simp only: p(4-6))
    then show ?thesis
      using v tabs(1) pes_parse_header [OF m(2), of au] by (simp add: found_units_def kf_def)
  qed
  moreover have "ts_demux (a @ b) = Some (tabs @ vs)"
    using ts_demux_append [OF a(2), of b] b(2) by simp
  moreover have "tables_first (ps @ tabs @ vs)"
    using w p(1) by (cases "ps = []") (auto simp: muxed_def due_def tabs_def table_packet_def intro: tables_first_append, simp add: tables_first_def)
  ultimately show ?thesis
    using a(1) b(1,4) w v tabs(1) p(1) cc_step
    by (intro exI [of _ "a @ b"] exI [of _ "tabs @ vs"] exI [of _ "w1\<lparr>tw_cc_video := cc'\<rparr>"])
      (auto simp: emit_pes_def muxed_def w1_def tabs_def table_packet_def t_def mod_simps)
qed

definition full_write :: "ts_io \<Rightarrow> bool" where
  "full_write io \<longleftrightarrow> (\<forall>n. n \<le> io_fwrite io n)"

lemma muxed_keep [simp]:
  "muxed (w\<lparr>tw_media_ticks := t\<rparr>) ps = muxed w ps" "muxed (w\<lparr>tw_write_fail_count := c\<rparr>) ps = muxed w ps"
  "muxed (w\<lparr>tw_write_fail_streak := c\<rparr>) ps = muxed w ps" "muxed (w\<lparr>tw_bytes_since_sync := b\<rparr>) ps = muxed w ps"
  "muxed (w\<lparr>tw_last_sync_ms := m\<rparr>) ps = muxed w ps"
  by (simp_all add: muxed_def)

lemma sync_if_due_keeps [simp]:
  "muxed (sync_if_due io w) ps = muxed w ps" "tw_media_ticks (sync_if_due io w) = tw_media_ticks w"
  by (simp_all add: sync_if_due_def sync_now_def Let_def)

lemma write_nal_ok:
  assumes w: "muxed w ps" and "au \<noteq> []" "full_write io"
  shows "ok (\<lambda>(k, w'). k \<and> tw_media_ticks w' = tw_media_ticks w + of_int d
      \<and> (\<exists>v. muxed w' (ps @ v) \<and> found_units (ps @ v) = found_units ps @ expected (tw_media_ticks w) [(au, d)]))
    (write_nal io au d w)"
proof -
  obtain f where f: "tw_file w = Some f" "ts_demux f = Some ps" "tw_file_size_bytes w = of_nat (length f)" "tw_video_started w"
    using w by (auto simp: muxed_def)
  from mux_packets [OF w, of au d] obtain b v w' where
    x: "(do { (out, w) \<leftarrow> (if tw_psi_pending w \<or> au_is_keyframe au \<or> sint (tw_media_ticks w - tw_last_psi_ticks w) \<ge> PSI_INTERVAL_90K
        then do { (out, w) \<leftarrow> emit_psi [] w; Some (out, w\<lparr>tw_last_psi_ticks := tw_media_ticks w, tw_psi_pending := False\<rparr>) } else Some ([], w));
        emit_pes out au ((tw_media_ticks w' + PTS_PREROLL_90K) AND TS_TIMESTAMP_MASK) (tw_media_ticks w' AND TS_TIMESTAMP_MASK)
          (au_is_keyframe au) w }) = Some (b, w')"
    and v: "ts_demux b = Some v" "found_units (ps @ v) = found_units ps @ expected (tw_media_ticks w) [(au, d)]"
    and mx: "\<And>f. ts_demux f = Some (ps @ v) \<Longrightarrow> muxed (w'\<lparr>tw_file := Some f, tw_file_size_bytes := of_nat (length f)\<rparr>) (ps @ v)"
    and w': "tw_file w' = tw_file w" "tw_file_size_bytes w' = tw_file_size_bytes w" "tw_media_ticks w' = tw_media_ticks w"
    by auto
  define g where "g = w'\<lparr>tw_file := Some (f @ b), tw_file_size_bytes := of_nat (length (f @ b))\<rparr>"
  have "write_block io b w' = Some (True, g)"
    using assms(3) f w'(1,2) by (simp add: write_block_def full_write_def g_def min_absorb2 Let_def)
  then have mux: "mux_access_unit io au d w = Some (True, g\<lparr>tw_media_ticks := tw_media_ticks g + of_int d\<rparr>)"
    using x w'(3) by (cases "emit_psi [] w") (auto simp: mux_access_unit_def Let_def split: if_splits)
  have "muxed g (ps @ v)"
    using mx [of "f @ b"] ts_demux_append [OF f(2), of b] v(1) by (simp add: g_def)
  moreover have "tw_media_ticks g = tw_media_ticks w"
    using w'(3) by (simp add: g_def)
  ultimately show ?thesis
    using assms(2) f(1,4) mux v(2) by (auto simp: write_nal_def)
qed

fun record_all :: "(ts_io \<times> u8 list \<times> int) list \<Rightarrow> TsWriter \<Rightarrow> (bool list \<times> TsWriter) option" where
  "record_all [] w = Some ([], w)"
| "record_all ((io, au, d) # cs) w = do {
     (k, w) \<leftarrow> write_nal io au d w;
     (ks, w) \<leftarrow> record_all cs w;
     Some (k # ks, w) }"

lemma record_all_ok:
  "\<lbrakk>muxed w ps; \<forall>(io, au, d) \<in> set cs. full_write io \<and> au \<noteq> []\<rbrakk> \<Longrightarrow>
   ok (\<lambda>(ks, w'). ks = replicate (length cs) True
      \<and> (\<exists>qs. muxed w' qs \<and> found_units qs = found_units ps @ expected (tw_media_ticks w) (map snd cs))) (record_all cs w)"
proof (induction cs arbitrary: w ps)
  case Nil
  then show ?case by auto
next
  case (Cons c cs)
  obtain io au d where c: "c = (io, au, d)" by (cases c)
  from write_nal_ok [OF Cons.prems(1), of au io d] Cons.prems(2) c obtain w1 v where
    w1: "write_nal io au d w = Some (True, w1)" "tw_media_ticks w1 = tw_media_ticks w + of_int d" "muxed w1 (ps @ v)"
      "found_units (ps @ v) = found_units ps @ expected (tw_media_ticks w) [(au, d)]"
    by (auto elim!: okE)
  have "ok (\<lambda>(ks, w'). ks = replicate (length cs) True
      \<and> (\<exists>qs. muxed w' qs \<and> found_units qs = found_units (ps @ v) @ expected (tw_media_ticks w1) (map snd cs))) (record_all cs w1)"
    using Cons.prems(2) by (intro Cons.IH [OF w1(3)]) auto
  then show ?case
    using c w1 by (auto simp: ok_simps elim!: okI_mono)
qed

section \<open>Any file system\<close>

text \<open>Whatever the file system answers: no operation goes wrong, the file only grows at its end, and the count of consecutive
  failures is what \<open>write_nal\<close> reports, except that a failed synchronisation adds one after the reset.\<close>

definition tw_wf :: "TsWriter \<Rightarrow> bool" where
  "tw_wf w \<longleftrightarrow> tw_cc_video w < 16"

definition grows :: "u8 list option \<Rightarrow> u8 list option \<Rightarrow> bool" where
  "grows f g \<longleftrightarrow> (case f of None \<Rightarrow> g = None | Some a \<Rightarrow> (\<exists>b. g = Some (a @ b)))"

lemma grows_refl [simp]: "grows f f"
  by (simp add: grows_def split: option.split)

lemma grows_trans: "\<lbrakk>grows f g; grows g h\<rbrakk> \<Longrightarrow> grows f h"
  by (auto simp: grows_def split: option.splits)

lemma tw_wf_keep [simp]:
  "tw_wf (w\<lparr>tw_write_fail_count := a, tw_write_fail_streak := b\<rparr>) = tw_wf w"
  "tw_wf (w\<lparr>tw_write_fail_count := a, tw_write_fail_streak := b, tw_bytes_since_sync := c\<rparr>) = tw_wf w"
  by (simp_all add: tw_wf_def)

lemma emit_pes_any:
  assumes "tw_wf w" "pcr AND TS_TIMESTAMP_MASK = pcr"
  shows "ok (\<lambda>(out', w'). \<exists>cc. w' = w\<lparr>tw_cc_video := cc\<rparr> \<and> tw_wf w') (emit_pes out au pts pcr kf w)"
proof -
  have "ok (\<lambda>(out', cc'). \<exists>b ps. out' = out @ b \<and> ts_demux b = Some ps
       \<and> pes_packets True kf pcr (unat (tw_cc_video w)) (drop 0 (pes_header pts @ au)) ps
       \<and> unat cc' = (unat (tw_cc_video w) + length ps) mod 16)
    (pes_loop (pes_header pts) au pcr kf 0 True (tw_cc_video w) out)"
    using assms(1) by (intro pes_loop_ok [OF assms(2)]) (simp_all add: pes_header_def tw_wf_def word_less_nat_alt)
  then show ?thesis
    by (auto simp: emit_pes_def ok_simps tw_wf_def word_less_nat_alt elim!: okI_mono)
qed

lemma mux_any:
  assumes "tw_wf w" "tw_file w = Some f"
  shows "ok (\<lambda>(k, w'). tw_wf w' \<and> grows (tw_file w) (tw_file w') \<and> tw_video_started w' = tw_video_started w
      \<and> tw_write_fail_streak w' = tw_write_fail_streak w) (mux_access_unit io au d w)"
proof -
  have m: "(tw_media_ticks w AND TS_TIMESTAMP_MASK) AND TS_TIMESTAMP_MASK = tw_media_ticks w AND TS_TIMESTAMP_MASK"
    by (simp add: and.assoc)
  obtain b where "emit_psi [] w = Some (b, w\<lparr>tw_cc_pat := (tw_cc_pat w + 1) AND 0x0F, tw_cc_pmt := (tw_cc_pmt w + 1) AND 0x0F\<rparr>)"
    using emit_psi_ok [of "[]" w] by auto
  then show ?thesis
    using assms
    by (auto simp: mux_access_unit_def Let_def ok_simps write_block_def grows_def tw_wf_def intro!: okI_mono [OF emit_pes_any [OF _ m]])
qed

lemma sync_if_due_any:
  "tw_wf (sync_if_due io w) = tw_wf w" "tw_file (sync_if_due io w) = tw_file w"
  "tw_video_started (sync_if_due io w) = tw_video_started w"
  "tw_write_fail_streak (sync_if_due io w) \<in> {tw_write_fail_streak w, tw_write_fail_streak w + 1}"
  by (auto simp: sync_if_due_def sync_now_def tw_wf_def Let_def)

lemma write_nal_any:
  assumes "tw_wf w"
  shows "ok (\<lambda>(k, w'). tw_wf w' \<and> grows (tw_file w) (tw_file w') \<and> tw_video_started w' = tw_video_started w
      \<and> (if au = [] \<or> tw_file w = None \<or> \<not> tw_video_started w then tw_write_fail_streak w' = tw_write_fail_streak w
         else if k then tw_write_fail_streak w' \<in> {0, 1} else tw_write_fail_streak w' = tw_write_fail_streak w + 1))
    (write_nal io au d w)"
proof (cases "au = [] \<or> tw_file w = None \<or> \<not> tw_video_started w")
  case True
  with assms show ?thesis by (auto simp: write_nal_def tw_wf_def)
next
  case False
  then obtain f where f: "tw_file w = Some f" by auto
  have s: "tw_write_fail_streak (sync_if_due io w) = 0 \<or> tw_write_fail_streak (sync_if_due io w) = 1"
    if "tw_write_fail_streak w = 0" for w
    using sync_if_due_any(4) [of io w] that by auto
  show ?thesis
    unfolding write_nal_def using False
    by (auto simp: ok_simps Let_def sync_if_due_any(1-3) s intro!: okI_mono [OF mux_any [OF assms f]])
qed

section \<open>Properties\<close>

text \<open>C3: A recording is a transport stream from which a demultiplexer gets back what was recorded: after the file is opened and the video
  begun, as long as the file system takes the bytes, every access unit is written, the file is a whole number of
  well-formed packets that starts with both tables, every table in it passes its checksum and names the program and its HEVC
  stream, the continuity counters of every stream count without a gap, and the video stream consists of exactly the access units in
  order, each with its 33 bit time stamp one second ahead of the clock reference it comes with, and marked for random access exactly
  when it holds a keyframe. The reported size is that of the file.\<close>

theorem ts_recording:
  assumes "io_fopen io" "\<forall>(io, au, d) \<in> set cs. full_write io \<and> au \<noteq> []"
  shows "ok (\<lambda>(ks, w). ks = replicate (length cs) True \<and> (\<exists>f ps. tw_file w = Some f \<and> ts_demux f = Some ps
      \<and> found_units ps = expected 0 (map snd cs) \<and> tables_ok ps \<and> counters_ok ps \<and> (cs \<noteq> [] \<longrightarrow> tables_first ps)
      \<and> tw_file_size_bytes w = of_nat (length f)))
    (record_all cs (snd (begin_video (snd (ts_open io w0)))))"
proof -
  let ?w = "snd (begin_video (snd (ts_open io w0)))"
  have w: "muxed ?w []" "tw_media_ticks ?w = 0" and fu: "found_units [] = []"
    using assms(1) by (simp_all add: ts_open_def begin_video_def muxed_def tables_ok_def counters_ok_def found_units_def)
  obtain ks w' qs where r: "record_all cs ?w = Some (ks, w')" "ks = replicate (length cs) True" "muxed w' qs"
      "found_units qs = expected 0 (map snd cs)"
    using record_all_ok [OF w(1) assms(2)] w(2) fu by (auto elim!: okE)
  moreover from r(4) fu have "cs \<noteq> [] \<Longrightarrow> qs \<noteq> []"
    by (cases cs) auto
  ultimately show ?thesis
    by (auto simp: muxed_def split: if_splits)
qed

text \<open>Two access units, the first with an IDR picture, recorded with a file system that takes everything.\<close>

theorem ts_recording_witness:
  "ok (\<lambda>(ks, w). ks = [True, True] \<and> (\<exists>f ps. tw_file w = Some f \<and> ts_demux f = Some ps
      \<and> found_units ps = [(True, Some 0, Some (90000, [0, 0, 1, 0x26, 7])), (False, Some 3000, Some (93000, [0, 0, 1, 2, 9]))]
      \<and> tables_ok ps \<and> counters_ok ps \<and> tables_first ps \<and> tw_file_size_bytes w = of_nat (length f)))
    (let io = \<lparr>io_fopen = True, io_fwrite = \<lambda>n. n, io_fflush = True, io_fdatasync = True, io_fclose = True, io_monotonic_ms = 5\<rparr>
     in record_all [(io, [0, 0, 1, 0x26, 7], 3000), (io, [0, 0, 1, 2, 9], 3000)] (snd (begin_video (snd (ts_open io new_TsWriter)))))"
proof -
  let ?io = "\<lparr>io_fopen = True, io_fwrite = \<lambda>n. n, io_fflush = True, io_fdatasync = True, io_fclose = True, io_monotonic_ms = 5\<rparr>"
  let ?cs = "[(?io, [0, 0, 1, 0x26, 7], 3000), (?io, [0, 0, 1, 2, 9], 3000)]"
  have "expected 0 (map snd ?cs) =
      [(True, Some 0, Some (90000, [0, 0, 1, 0x26, 7])), (False, Some 3000, Some (93000, [0, 0, 1, 2, 9]))]"
    by (simp add: TS_TIMESTAMP_MASK_def PTS_PREROLL_90K_def)
  with ts_recording [of ?io ?cs new_TsWriter] show ?thesis
    by (simp add: full_write_def Let_def)
qed

end
