(* ===== verification/Video_Encoder.thy ===== *)
theory Video_Encoder
  imports Mpp_Encoder Stream_Consumer Ts_Writer
begin

text \<open>
  \<open>src/encoder/video_encoder.cpp\<close>: the thread that drives the hardware encoder and hands its access units to the consumers, together with the
  capture pool of \<open>src/main.cpp\<close> from which the display thread takes the buffers it fills for the encoder.

  Other threads run at the same time: the decoder offers frames, the display thread captures, consumers change and ask for keyframes.
  Their steps are explicit: \<open>ve_sched\<close> holds lists of steps, and the next list runs (\<open>interfere_enc\<close>) before every access of the thread to shared
  state, which is the queue, the atomic variables and the pool. A capture is two steps, since the encoder runs between the choice of a buffer
  and the commit. Consumers are values with the operations of the class \<open>StreamConsumer\<close>; what a consumer calls back
  (\<open>consumers_changed\<close>, \<open>request_keyframe\<close>, a nested drain, which returns at once) is a step too. The fields from \<open>ve_open_fds\<close> on have no
  counterpart in the code: they record the descriptors of fences that are open, the time stamps of each session of the encoder, and the
  access units. \<open>int64_t\<close> times are integers.
\<close>

section \<open>State\<close>

record enc_frame_info =
  fi_prime_fd :: int
  fi_hor_stride :: u32
  fi_ver_stride :: u32
  fi_width :: u32
  fi_height :: u32
  fi_buf_size :: u64
  fi_pts :: int
  fi_fence_fd :: int
  fi_wb_index :: int

text \<open>The functions that are run on the thread: those of \<open>set_video_params\<close> and \<open>restart\<close>, and what a consumer posts, which delivers the pending
  access units first.\<close>

datatype 'c enc_run = Run_Params u32 u32 | Run_Restart | Run_Posted "'c list \<Rightarrow> 'c list"

datatype 'c enc_task = Task_Frame enc_frame_info | Task_Run "'c enc_run" | Task_Shutdown

record 'c StreamConsumer =
  op_active :: "'c \<Rightarrow> bool"
  op_on_access_unit :: "AccessUnit \<Rightarrow> 'c \<Rightarrow> 'c"
  op_on_encoder_reset :: "int \<Rightarrow> int \<Rightarrow> 'c \<Rightarrow> 'c"
  op_on_encoder_failed :: "'c \<Rightarrow> 'c"
  op_on_tick :: "'c \<Rightarrow> 'c"

datatype 'c enc_step =
    Offer_Frame enc_frame_info | Capture_Arm bool | Capture_Commit int int enc_frame_info
  | Post "'c list \<Rightarrow> 'c list" | Set_Params u32 u32 | Restart | Request_Keyframe | Consumers_Changed "'c list \<Rightarrow> 'c list" | Shutdown_Encoder

record 'c VideoEncoder =
  ve_queue :: "'c enc_task list"
  ve_consumers :: "'c list"
  ve_wants_frames :: bool
  ve_writeback :: bool
  ve_bitrate :: int
  ve_fps :: int
  ve_video_width :: u32
  ve_video_height :: u32
  ve_wb_width :: u32
  ve_wb_height :: u32
  ve_wb_hor_stride :: u32
  ve_wb_ver_stride :: u32
  ve_wb_pending :: int
  ve_cur_width :: int
  ve_cur_height :: int
  ve_draining :: bool
  ve_geometry_dirty :: bool
  ve_init_attempts :: int
  ve_frame_error_streak :: int
  ve_last_idr_pts :: int
  ve_idr_requested :: bool
  ve_encoder :: MppEncoder
  ve_submitted_pts :: "int list"
  ve_frames_submitted :: u32
  ve_frames_emitted :: u32
  ve_last_emitted_pts :: int
  ve_busy :: "bool list"
  ve_wb_mode :: bool
  ve_commit_fails :: int
  ve_capture :: int
  ve_sched :: "'c enc_step list list"
  ve_open_fds :: "int list"
  ve_session :: "int list \<times> int list"
  ve_sessions :: "(int list \<times> int list) list"
  ve_unmatched :: bool
  ve_units :: "AccessUnit list"

definition MAX_PENDING_FRAMES :: nat where "MAX_PENDING_FRAMES = 3"
definition MAX_INIT_ATTEMPTS :: int where "MAX_INIT_ATTEMPTS = 3"
definition MAX_FRAME_ERROR_STREAK :: int where "MAX_FRAME_ERROR_STREAK = 60"
definition KEYFRAME_INTERVAL_MS :: int where "KEYFRAME_INTERVAL_MS = 500"
definition WB_BUF_COUNT :: nat where "WB_BUF_COUNT = 6"

definition new_VideoEncoder :: "bool \<Rightarrow> int \<Rightarrow> int \<Rightarrow> u32 \<Rightarrow> u32 \<Rightarrow> u32 \<Rightarrow> u32 \<Rightarrow> 'c enc_step list list \<Rightarrow> 'c VideoEncoder" where
  "new_VideoEncoder writeback fps bitrate width height hor ver sched =
     \<lparr>ve_queue = [], ve_consumers = [], ve_wants_frames = False, ve_writeback = writeback, ve_bitrate = bitrate,
      ve_fps = (if fps > 0 then fps else 60), ve_video_width = (if writeback then 0 else width), ve_video_height = (if writeback then 0 else height),
      ve_wb_width = (if writeback then width else 0), ve_wb_height = (if writeback then height else 0),
      ve_wb_hor_stride = (if writeback then hor else 0), ve_wb_ver_stride = (if writeback then ver else 0), ve_wb_pending = -1,
      ve_cur_width = 0, ve_cur_height = 0, ve_draining = False, ve_geometry_dirty = True, ve_init_attempts = 0, ve_frame_error_streak = 0,
      ve_last_idr_pts = 0, ve_idr_requested = True, ve_encoder = new_MppEncoder, ve_submitted_pts = [], ve_frames_submitted = 0,
      ve_frames_emitted = 0, ve_last_emitted_pts = 0, ve_busy = replicate WB_BUF_COUNT False, ve_wb_mode = writeback, ve_commit_fails = 0,
      ve_capture = -1, ve_sched = sched, ve_open_fds = [], ve_session = ([], []), ve_sessions = [], ve_unmatched = False, ve_units = []\<rparr>"

section \<open>The capture pool\<close>

definition pp_wb_release :: "int \<Rightarrow> 'c VideoEncoder \<Rightarrow> 'c VideoEncoder" where
  "pp_wb_release index v = (if 0 \<le> index \<and> index < int WB_BUF_COUNT then v\<lparr>ve_busy := (ve_busy v)[nat index := False]\<rparr> else v)"

definition close_fd :: "int \<Rightarrow> 'c VideoEncoder \<Rightarrow> 'c VideoEncoder" where
  "close_fd fd v = v\<lparr>ve_open_fds := remove1 fd (ve_open_fds v)\<rparr>"

definition release_wb_frame :: "enc_frame_info \<Rightarrow> 'c VideoEncoder \<Rightarrow> 'c VideoEncoder" where
  "release_wb_frame fi v =
     (let v = (if fi_fence_fd fi \<ge> 0 then close_fd (fi_fence_fd fi) v else v)
      in if fi_wb_index fi \<ge> 0 then pp_wb_release (fi_wb_index fi) v else v)"

section \<open>The queue and the consumers\<close>

definition recompute_wants_frames :: "'c StreamConsumer \<Rightarrow> 'c VideoEncoder \<Rightarrow> 'c VideoEncoder" where
  "recompute_wants_frames ops v = v\<lparr>ve_wants_frames := list_ex (op_active ops) (ve_consumers v)\<rparr>"

definition add_consumer :: "'c StreamConsumer \<Rightarrow> 'c \<Rightarrow> 'c VideoEncoder \<Rightarrow> 'c VideoEncoder" where
  "add_consumer ops consumer v = recompute_wants_frames ops (v\<lparr>ve_consumers := ve_consumers v @ [consumer]\<rparr>)"

definition enc_frame :: "enc_frame_info \<Rightarrow> 'c VideoEncoder \<Rightarrow> 'c VideoEncoder" where
  "enc_frame info v = (if length (ve_queue v) \<ge> MAX_PENDING_FRAMES then v else v\<lparr>ve_queue := ve_queue v @ [Task_Frame info]\<rparr>)"

definition writeback_frame :: "enc_frame_info \<Rightarrow> 'c VideoEncoder \<Rightarrow> 'c VideoEncoder" where
  "writeback_frame info v =
     (if length (ve_queue v) \<ge> MAX_PENDING_FRAMES then release_wb_frame info v else v\<lparr>ve_queue := ve_queue v @ [Task_Frame info]\<rparr>)"

fun release_frames :: "'c enc_task list \<Rightarrow> 'c VideoEncoder \<Rightarrow> 'c VideoEncoder" where
  "release_frames [] v = v"
| "release_frames (Task_Frame fi # ts) v = release_frames ts (release_wb_frame fi v)"
| "release_frames (t # ts) v = release_frames ts v"

fun is_frame :: "'c enc_task \<Rightarrow> bool" where
  "is_frame (Task_Frame fi) \<longleftrightarrow> True"
| "is_frame _ \<longleftrightarrow> False"

definition drop_pending_frames :: "'c VideoEncoder \<Rightarrow> 'c VideoEncoder" where
  "drop_pending_frames v = (release_frames (ve_queue v) v)\<lparr>ve_queue := filter (\<lambda>t. \<not> is_frame t) (ve_queue v)\<rparr>"

definition enqueue_task :: "'c enc_task \<Rightarrow> bool \<Rightarrow> 'c VideoEncoder \<Rightarrow> 'c VideoEncoder" where
  "enqueue_task t drop_frames v =
     (let v = (if drop_frames then drop_pending_frames v else v) in v\<lparr>ve_queue := ve_queue v @ [t]\<rparr>)"

section \<open>The other threads\<close>

text \<open>The decoder offers a frame only while frames are wanted and the encoder does not take them from the display.\<close>

definition offer_frame :: "enc_frame_info \<Rightarrow> 'c VideoEncoder \<Rightarrow> 'c VideoEncoder" where
  "offer_frame info v =
     (if ve_wants_frames v \<and> \<not> ve_writeback v then enc_frame (info\<lparr>fi_fence_fd := -1, fi_wb_index := -1\<rparr>) v else v)"

fun first_free :: "nat \<Rightarrow> bool list \<Rightarrow> int" where
  "first_free i [] = -1"
| "first_free i (b # bs) = (if b then first_free (i + 1) bs else int i)"

text \<open>A pass of the display thread with a frame to show, up to its commit. \<open>armed\<close> says whether the writeback job could be queued; the thread has one
  capture under way at most. The counter that thins out the warning is left out.\<close>

definition capture_arm :: "bool \<Rightarrow> 'c VideoEncoder \<Rightarrow> 'c VideoEncoder" where
  "capture_arm armed v =
     (if ve_capture v < 0 \<and> ve_wb_mode v \<and> ve_wants_frames v then
        let wb_idx = first_free 0 (ve_busy v) in
        if wb_idx < 0 \<or> \<not> armed then v
        else v\<lparr>ve_busy := (ve_busy v)[nat wb_idx := True], ve_capture := wb_idx\<rparr>
      else v)"

text \<open>The rest of the pass. The commit yields the descriptor of the fence, or a negative number. After three failures the recorder is
  disabled as well, which reaches this thread as a step of its own (\<open>Dvr_Worker\<close>).\<close>

definition capture_commit :: "int \<Rightarrow> int \<Rightarrow> enc_frame_info \<Rightarrow> 'c VideoEncoder \<Rightarrow> 'c VideoEncoder" where
  "capture_commit commit_ret fence info v =
     (if ve_capture v < 0 then v
      else let wb_idx = ve_capture v;
               v = v\<lparr>ve_capture := -1, ve_open_fds := (if fence \<ge> 0 then fence # ve_open_fds v else ve_open_fds v)\<rparr> in
        if commit_ret = 0 then
          writeback_frame (info\<lparr>fi_fence_fd := fence, fi_wb_index := wb_idx\<rparr>) (v\<lparr>ve_commit_fails := 0\<rparr>)
        else
          let v = (if fence \<ge> 0 then close_fd fence v else v);
              v = v\<lparr>ve_busy := (ve_busy v)[nat wb_idx := False], ve_commit_fails := ve_commit_fails v + 1\<rparr>
          in if ve_commit_fails v \<ge> 3 then v\<lparr>ve_wb_mode := False\<rparr> else v)"

fun enc_thread_step :: "'c StreamConsumer \<Rightarrow> 'c enc_step \<Rightarrow> 'c VideoEncoder \<Rightarrow> 'c VideoEncoder" where
  "enc_thread_step ops (Offer_Frame info) v = offer_frame info v"
| "enc_thread_step ops (Capture_Arm armed) v = capture_arm armed v"
| "enc_thread_step ops (Capture_Commit ret fence info) v = capture_commit ret fence info v"
| "enc_thread_step ops (Post f) v = enqueue_task (Task_Run (Run_Posted f)) False v"
| "enc_thread_step ops (Set_Params w h) v = enqueue_task (Task_Run (Run_Params w h)) True v"
| "enc_thread_step ops Restart v = enqueue_task (Task_Run Run_Restart) True v"
| "enc_thread_step ops Request_Keyframe v = v\<lparr>ve_idr_requested := True\<rparr>"
| "enc_thread_step ops (Consumers_Changed f) v = recompute_wants_frames ops (v\<lparr>ve_consumers := f (ve_consumers v)\<rparr>)"
| "enc_thread_step ops Shutdown_Encoder v = enqueue_task Task_Shutdown True v"

definition interfere_enc :: "'c StreamConsumer \<Rightarrow> 'c VideoEncoder \<Rightarrow> 'c VideoEncoder" where
  "interfere_enc ops v = (case ve_sched v of [] \<Rightarrow> v | es # rest \<Rightarrow> fold (enc_thread_step ops) es (v\<lparr>ve_sched := rest\<rparr>))"

section \<open>Access units\<close>

definition emit :: "'c StreamConsumer \<Rightarrow> u8 list \<Rightarrow> 'c VideoEncoder \<Rightarrow> 'c VideoEncoder" where
  "emit ops data v =
     (let (pts, rest) = (case ve_submitted_pts v of p # ps \<Rightarrow> (p, ps) | [] \<Rightarrow> (ve_last_emitted_pts v, []));
          v = v\<lparr>ve_unmatched := ve_unmatched v \<or> ve_submitted_pts v = [], ve_session := (fst (ve_session v), snd (ve_session v) @ [pts])\<rparr>;
          v = v\<lparr>ve_submitted_pts := rest, ve_last_emitted_pts := pts, ve_frames_emitted := ve_frames_emitted v + 1\<rparr>;
          au = \<lparr>au_data = data, au_pts_ms = pts, au_keyframe = au_is_keyframe data\<rparr>;
          v = interfere_enc ops v
      in v\<lparr>ve_consumers := map (\<lambda>s. if op_active ops s then op_on_access_unit ops au s else s) (ve_consumers v), ve_units := ve_units v @ [au]\<rparr>)"

definition drain_to_consumers :: "'c StreamConsumer \<Rightarrow> mpp_get list \<Rightarrow> 'c VideoEncoder \<Rightarrow> 'c VideoEncoder" where
  "drain_to_consumers ops gs v =
     (if ve_draining v then v else (mpp_drain (emit ops) gs (v\<lparr>ve_draining := True\<rparr>))\<lparr>ve_draining := False\<rparr>)"

definition drain_pending :: "'c StreamConsumer \<Rightarrow> mpp_get list \<Rightarrow> 'c VideoEncoder \<Rightarrow> 'c VideoEncoder" where
  "drain_pending ops gs v = (if me_ctx (ve_encoder v) then drain_to_consumers ops gs v else v)"

section \<open>The hardware encoder\<close>

definition align16 :: "u32 \<Rightarrow> u32" where
  "align16 x = (x + 15) AND NOT 15"

definition enc_init :: "mpp_init_io \<Rightarrow> 'c VideoEncoder \<Rightarrow> bool \<times> 'c VideoEncoder" where
  "enc_init io v =
     (if \<not> ve_writeback v \<and> (ve_video_width v = 0 \<or> ve_video_height v = 0) then (False, v)
      else let (w, h, hor, ver) =
            (if ve_writeback v then (sint (ve_wb_width v), sint (ve_wb_height v), sint (ve_wb_hor_stride v), sint (ve_wb_ver_stride v))
             else (sint (ve_video_width v), sint (ve_video_height v), sint (align16 (ve_video_width v)), sint (align16 (ve_video_height v))))
        in if w \<le> 0 \<or> h \<le> 0 \<or> ve_fps v \<le> 0 then (False, v)
           else let (k, e) = mpp_init io w h hor ver (ve_fps v) (ve_bitrate v) (ve_encoder v); v = v\<lparr>ve_encoder := e\<rparr> in
             if \<not> k then (False, v) else (True, v\<lparr>ve_cur_width := w, ve_cur_height := h, ve_idr_requested := True\<rparr>))"

record teardown_io =
  td_drain :: "mpp_get list"
  td_flush :: "(bool \<times> mpp_get) list"

definition flush_nal :: "'c StreamConsumer \<Rightarrow> u8 list \<Rightarrow> 'c VideoEncoder \<Rightarrow> bool \<times> 'c VideoEncoder" where
  "flush_nal ops data v = (if ve_frames_emitted v \<ge> ve_frames_submitted v then (False, v) else (True, emit ops data v))"

definition enc_teardown :: "'c StreamConsumer \<Rightarrow> teardown_io \<Rightarrow> 'c VideoEncoder \<Rightarrow> 'c VideoEncoder" where
  "enc_teardown ops io v =
     (let v = (if me_ctx (ve_encoder v) then
                 let v = drain_to_consumers ops (td_drain io) v;
                     v = v\<lparr>ve_encoder := (ve_encoder v)\<lparr>me_calls := me_calls (ve_encoder v) @ [Mpp_Eos]\<rparr>\<rparr>
                 in mpp_flush (flush_nal ops) (td_flush io) v
               else v);
          v = (if ve_wb_pending v \<ge> 0 then (pp_wb_release (ve_wb_pending v) v)\<lparr>ve_wb_pending := -1\<rparr> else v)
      in v\<lparr>ve_encoder := mpp_cleanup (ve_encoder v), ve_submitted_pts := [], ve_frames_submitted := 0, ve_frames_emitted := 0,
           ve_idr_requested := True, ve_session := ([], []), ve_sessions := ve_sessions v @ [ve_session v]\<rparr>)"

definition encoder_failed :: "'c StreamConsumer \<Rightarrow> 'c VideoEncoder \<Rightarrow> 'c VideoEncoder" where
  "encoder_failed ops v = recompute_wants_frames ops (v\<lparr>ve_consumers := map (op_on_encoder_failed ops) (ve_consumers v)\<rparr>)"

record enc_io =
  ei_ensure :: teardown_io
  ei_init :: mpp_init_io
  ei_drain :: "mpp_get list"
  ei_poll :: int
  ei_import :: bool
  ei_submit :: int
  ei_end :: teardown_io

definition ensure_encoder :: "'c StreamConsumer \<Rightarrow> enc_io \<Rightarrow> 'c VideoEncoder \<Rightarrow> bool \<times> 'c VideoEncoder" where
  "ensure_encoder ops io v =
     (if me_ctx (ve_encoder v) \<and> \<not> ve_geometry_dirty v then (True, v)
      else if ve_init_attempts v \<ge> MAX_INIT_ATTEMPTS then (False, v)
      else
        let v = enc_teardown ops (ei_ensure io) (v\<lparr>ve_init_attempts := ve_init_attempts v + 1\<rparr>);
            (k, v) = enc_init (ei_init io) (v\<lparr>ve_geometry_dirty := False\<rparr>)
        in if \<not> k then (False, if ve_init_attempts v \<ge> MAX_INIT_ATTEMPTS then encoder_failed ops v else v)
           else (True, v\<lparr>ve_init_attempts := 0,
             ve_consumers := map (op_on_encoder_reset ops (ve_cur_width v) (ve_cur_height v)) (ve_consumers v)\<rparr>))"

definition maybe_request_idr :: "'c StreamConsumer \<Rightarrow> int \<Rightarrow> 'c VideoEncoder \<Rightarrow> 'c VideoEncoder" where
  "maybe_request_idr ops pts v =
     (let v = interfere_enc ops v in
      if ve_idr_requested v \<or> pts < ve_last_idr_pts v \<or> pts - ve_last_idr_pts v \<ge> KEYFRAME_INTERVAL_MS then
        let v = v\<lparr>ve_encoder := mpp_request_idr (ve_encoder v), ve_last_idr_pts := pts\<rparr>
        in (interfere_enc ops v)\<lparr>ve_idr_requested := False\<rparr>
      else v)"

definition frame_error :: "'c VideoEncoder \<Rightarrow> 'c VideoEncoder" where
  "frame_error v = v\<lparr>ve_frame_error_streak := ve_frame_error_streak v + 1\<rparr>"

text \<open>Import, submission, and what follows when the library has taken the frame.\<close>

definition submit_frame :: "'c StreamConsumer \<Rightarrow> enc_io \<Rightarrow> enc_frame_info \<Rightarrow> 'c VideoEncoder \<Rightarrow> bool \<times> 'c VideoEncoder" where
  "submit_frame ops io info v =
     (if \<not> ei_import io then (False, frame_error v)
      else let v = maybe_request_idr ops (fi_pts info) v;
               v = v\<lparr>ve_encoder := mpp_submit (fi_pts info) (ve_encoder v)\<rparr>
        in if ei_submit io = 0 then
             (True, v\<lparr>ve_submitted_pts := ve_submitted_pts v @ [fi_pts info], ve_frames_submitted := ve_frames_submitted v + 1,
               ve_session := (fst (ve_session v) @ [fi_pts info], snd (ve_session v)), ve_frame_error_streak := 0\<rparr>)
           else (False, frame_error v))"

definition encode_wb :: "'c StreamConsumer \<Rightarrow> enc_io \<Rightarrow> enc_frame_info \<Rightarrow> 'c VideoEncoder \<Rightarrow> 'c VideoEncoder" where
  "encode_wb ops io info v =
     (let v = (if fi_fence_fd info \<ge> 0 then close_fd (fi_fence_fd info) v else v) in
      if fi_fence_fd info \<ge> 0 \<and> ei_poll io \<le> 0 then frame_error (pp_wb_release (fi_wb_index info) v)
      else
        let v = drain_to_consumers ops (ei_drain io) v;
            v = (if ve_wb_pending v \<ge> 0 then (pp_wb_release (ve_wb_pending v) v)\<lparr>ve_wb_pending := -1\<rparr> else v);
            (k, v) = submit_frame ops io info v
        in if k then v\<lparr>ve_wb_pending := fi_wb_index info\<rparr> else pp_wb_release (fi_wb_index info) v)"

definition encode :: "'c StreamConsumer \<Rightarrow> enc_io \<Rightarrow> enc_frame_info \<Rightarrow> 'c VideoEncoder \<Rightarrow> 'c VideoEncoder" where
  "encode ops io info v =
     (if ve_writeback v then encode_wb ops io info v
      else
        let v = drain_to_consumers ops (ei_drain io) v;
            hor = sint (fi_hor_stride info); ver = sint (fi_ver_stride info);
            v = (if hor \<noteq> me_hor_stride (ve_encoder v) \<or> ver \<noteq> me_ver_stride (ve_encoder v)
                 then v\<lparr>ve_encoder := mpp_sync_strides hor ver (ve_encoder v)\<rparr> else v)
        in snd (submit_frame ops io info v))"

section \<open>The thread\<close>

fun run_task :: "'c StreamConsumer \<Rightarrow> enc_io \<Rightarrow> 'c enc_run \<Rightarrow> 'c VideoEncoder \<Rightarrow> 'c VideoEncoder" where
  "run_task ops io (Run_Params w h) v =
     (if w = ve_video_width v \<and> h = ve_video_height v then v
      else v\<lparr>ve_video_width := w, ve_video_height := h, ve_geometry_dirty := True\<rparr>)"
| "run_task ops io Run_Restart v = v\<lparr>ve_geometry_dirty := True\<rparr>"
| "run_task ops io (Run_Posted f) v = (let v = drain_pending ops (ei_drain io) v in v\<lparr>ve_consumers := f (ve_consumers v)\<rparr>)"

definition frame_task :: "'c StreamConsumer \<Rightarrow> enc_io \<Rightarrow> enc_frame_info \<Rightarrow> 'c VideoEncoder \<Rightarrow> 'c VideoEncoder" where
  "frame_task ops io info v =
     (let v = interfere_enc ops v in
      if \<not> ve_wants_frames v then release_wb_frame info v
      else let (k, v) = ensure_encoder ops io v in
        if \<not> k then release_wb_frame info v
        else let v = encode ops io info v in
          if ve_frame_error_streak v \<ge> MAX_FRAME_ERROR_STREAK then encoder_failed ops (v\<lparr>ve_frame_error_streak := 0\<rparr>) else v)"

definition end_of_round :: "'c StreamConsumer \<Rightarrow> enc_io \<Rightarrow> 'c VideoEncoder \<Rightarrow> 'c VideoEncoder" where
  "end_of_round ops io v =
     (let v = interfere_enc ops v in if \<not> ve_wants_frames v \<and> me_ctx (ve_encoder v) then enc_teardown ops (ei_end io) v else v)"

definition enc_round :: "'c StreamConsumer \<Rightarrow> enc_io \<Rightarrow> 'c VideoEncoder \<Rightarrow> bool \<times> 'c VideoEncoder" where
  "enc_round ops io v =
     (let v = interfere_enc ops v; queue = ve_queue v; v = v\<lparr>ve_queue := tl queue\<rparr>;
          v = v\<lparr>ve_consumers := map (op_on_tick ops) (ve_consumers v)\<rparr>
      in case queue of
           [] \<Rightarrow> (False, v)
         | Task_Shutdown # _ \<Rightarrow> (True, v)
         | Task_Run f # _ \<Rightarrow> (False, end_of_round ops io (recompute_wants_frames ops (run_task ops io f v)))
         | Task_Frame info # _ \<Rightarrow> (False, end_of_round ops io (frame_task ops io info v)))"

fun enc_loop :: "'c StreamConsumer \<Rightarrow> enc_io list \<Rightarrow> teardown_io \<Rightarrow> 'c VideoEncoder \<Rightarrow> bool \<times> 'c VideoEncoder" where
  "enc_loop ops [] final v = (False, v)"
| "enc_loop ops (io # ios) final v =
     (let (finished, v) = enc_round ops io v in if finished then (True, enc_teardown ops final v) else enc_loop ops ios final v)"

end
