(* ===== verification/Encoder_Invariant.thy ===== *)
theory Encoder_Invariant
  imports Video_Encoder "HOL-Library.Multiset" "HOL-Library.Sublist"
begin

text \<open>
  The encoder thread under every interleaving: who holds the buffers of the capture pool and the fences, the time stamps and marks of the access
  units, and the distance of the keyframes. \<open>enc_inv hand v\<close> is the invariant; \<open>hand\<close> are the frames the thread has taken from the queue and not
  yet released or submitted.
\<close>

section \<open>Buffers and fences\<close>

definition slot_list :: "int \<Rightarrow> int list" where
  "slot_list i = (if i \<ge> 0 then [i] else [])"

fun task_infos :: "'c enc_task \<Rightarrow> enc_frame_info list" where
  "task_infos (Task_Frame fi) = [fi]"
| "task_infos _ = []"

definition queued :: "'c VideoEncoder \<Rightarrow> enc_frame_info list" where
  "queued v = concat (map task_infos (ve_queue v))"

definition frame_slots :: "enc_frame_info list \<Rightarrow> int list" where
  "frame_slots fis = concat (map (\<lambda>fi. slot_list (fi_wb_index fi)) fis)"

definition frame_fds :: "enc_frame_info list \<Rightarrow> int list" where
  "frame_fds fis = concat (map (\<lambda>fi. slot_list (fi_fence_fd fi)) fis)"

text \<open>The buffers that are in use: those of queued frames and of the frames in hand, the one the library reads, and the one the display captures.\<close>

definition held :: "enc_frame_info list \<Rightarrow> 'c VideoEncoder \<Rightarrow> int list" where
  "held hand v = frame_slots (queued v @ hand) @ slot_list (ve_wb_pending v) @ slot_list (ve_capture v)"

definition busy_slots :: "bool list \<Rightarrow> int list" where
  "busy_slots bs = map int (filter (\<lambda>i. bs ! i) [0..<length bs])"

definition pool_inv :: "enc_frame_info list \<Rightarrow> 'c VideoEncoder \<Rightarrow> bool" where
  "pool_inv hand v \<longleftrightarrow> length (ve_busy v) = WB_BUF_COUNT \<and> mset (held hand v) = mset (busy_slots (ve_busy v))
     \<and> mset (ve_open_fds v) = mset (frame_fds (queued v @ hand)) \<and> length (queued v) \<le> MAX_PENDING_FRAMES
     \<and> (ve_wb_mode v \<longrightarrow> ve_writeback v) \<and> (\<not> ve_writeback v \<longrightarrow> held hand v = [] \<and> ve_open_fds v = [])"

lemma slots_simps [simp]:
  "frame_slots [] = []" "frame_slots (fi # fis) = slot_list (fi_wb_index fi) @ frame_slots fis" "frame_slots (xs @ ys) = frame_slots xs @ frame_slots ys"
  "frame_fds [] = []" "frame_fds (fi # fis) = slot_list (fi_fence_fd fi) @ frame_fds fis" "frame_fds (xs @ ys) = frame_fds xs @ frame_fds ys"
  by (simp_all add: frame_slots_def frame_fds_def)

lemma in_busy_slots: "i \<in> set (busy_slots bs) \<longleftrightarrow> 0 \<le> i \<and> nat i < length bs \<and> bs ! nat i"
  by (force simp: busy_slots_def image_iff)

lemma distinct_busy_slots: "distinct (busy_slots bs)"
  by (simp add: busy_slots_def distinct_map inj_on_def)

text \<open>Two buffer lists that differ in one place.\<close>

lemma mset_busy_set:
  assumes "n < length bs"
  shows "mset (busy_slots (bs[n := True])) = add_mset (int n) (mset (busy_slots (bs[n := False])))"
proof -
  have "set (busy_slots (bs[n := True])) = insert (int n) (set (busy_slots (bs[n := False])))"
    using assms by (auto simp: in_busy_slots nth_list_update split: if_splits)
  moreover have "int n \<notin> set (busy_slots (bs[n := False]))"
    using assms by (simp add: in_busy_slots)
  ultimately show ?thesis
    using distinct_busy_slots [of "bs[n := True]"] distinct_busy_slots [of "bs[n := False]"]
    by (simp add: mset_set_set [symmetric])
qed

lemma busy_release:
  assumes "mset (busy_slots bs) = add_mset i m"
  shows "0 \<le> i" "nat i < length bs" "mset (busy_slots (bs[nat i := False])) = m"
proof -
  have "i \<in> set (busy_slots bs)"
    using assms by (metis set_mset_mset union_single_eq_member)
  then have i: "0 \<le> i" "nat i < length bs" "bs ! nat i"
    by (simp_all add: in_busy_slots)
  then show "0 \<le> i" "nat i < length bs" by simp_all
  have "bs[nat i := True] = bs"
    using i(2,3) by (metis list_update_id)
  then show "mset (busy_slots (bs[nat i := False])) = m"
    using mset_busy_set [OF i(2)] assms i(1) by simp
qed

lemma busy_acquire:
  assumes "n < length bs" "\<not> bs ! n"
  shows "mset (busy_slots (bs[n := True])) = add_mset (int n) (mset (busy_slots bs))"
proof -
  have "bs[n := False] = bs"
    using assms by (metis list_update_id)
  then show ?thesis using mset_busy_set [OF assms(1)] by simp
qed

lemma first_free_found: "first_free i bs \<ge> 0 \<Longrightarrow> \<exists>n < length bs. first_free i bs = int (i + n) \<and> \<not> bs ! n"
proof (induction i bs rule: first_free.induct)
  case (2 i b bs)
  show ?case
  proof (cases b)
    case True
    with 2 obtain n where "n < length bs" "first_free (i + 1) bs = int (i + 1 + n)" "\<not> bs ! n" by auto
    with True show ?thesis by (intro exI [of _ "Suc n"]) simp
  qed (auto intro!: exI [of _ 0])
qed simp

lemma queued_simps [simp]:
  "queued (v\<lparr>ve_queue := q\<rparr>) = concat (map task_infos q)"
  "queued (v\<lparr>ve_queue := ve_queue v @ [t]\<rparr>) = queued v @ task_infos t"
  by (simp_all add: queued_def)

lemma infos_kept: "concat (map task_infos (filter (\<lambda>t. \<not> is_frame t) q)) = []"
proof (induction q)
  case (Cons t q)
  then show ?case by (cases t) simp_all
qed simp

lemma pool_fields [simp]:
  "ve_queue (close_fd fd v) = ve_queue v" "ve_wb_pending (close_fd fd v) = ve_wb_pending v" "ve_capture (close_fd fd v) = ve_capture v"
  "ve_busy (close_fd fd v) = ve_busy v" "ve_wb_mode (close_fd fd v) = ve_wb_mode v" "ve_writeback (close_fd fd v) = ve_writeback v"
  "ve_open_fds (close_fd fd v) = remove1 fd (ve_open_fds v)"
  "ve_queue (pp_wb_release i v) = ve_queue v" "ve_wb_pending (pp_wb_release i v) = ve_wb_pending v" "ve_capture (pp_wb_release i v) = ve_capture v"
  "ve_wb_mode (pp_wb_release i v) = ve_wb_mode v" "ve_writeback (pp_wb_release i v) = ve_writeback v"
  "ve_open_fds (pp_wb_release i v) = ve_open_fds v"
  by (simp_all add: close_fd_def pp_wb_release_def)

text \<open>The parts of the invariant, over the fields it is about.\<close>

definition pool_ok :: "bool list \<Rightarrow> int list \<Rightarrow> int list \<Rightarrow> int list \<Rightarrow> bool \<Rightarrow> bool" where
  "pool_ok busy used fds open_fds writeback \<longleftrightarrow> length busy = WB_BUF_COUNT \<and> mset used = mset (busy_slots busy) \<and> mset open_fds = mset fds
     \<and> (\<not> writeback \<longrightarrow> used = [] \<and> open_fds = [])"

lemma pool_ok_release:
  assumes "pool_ok busy used fds open_fds writeback" "mset used = add_mset i (mset used')"
  shows "pool_ok (busy[nat i := False]) used' fds open_fds writeback" "0 \<le> i" "i < int WB_BUF_COUNT"
  using assms busy_release [of busy i "mset used'"] by (auto simp: pool_ok_def)

lemma pool_ok_close:
  assumes "pool_ok busy used fds open_fds writeback" "mset fds = add_mset fd (mset fds')"
  shows "pool_ok busy used fds' (remove1 fd open_fds) writeback"
  using assms by (auto simp: pool_ok_def)

lemma pool_ok_perm:
  "\<lbrakk>pool_ok busy used fds open_fds writeback; mset used' = mset used; mset fds' = mset fds\<rbrakk> \<Longrightarrow> pool_ok busy used' fds' open_fds writeback"
  by (auto simp: pool_ok_def)

lemma pool_inv_ok:
  "pool_inv hand v \<longleftrightarrow> pool_ok (ve_busy v) (held hand v) (frame_fds (queued v @ hand)) (ve_open_fds v) (ve_writeback v)
     \<and> length (queued v) \<le> MAX_PENDING_FRAMES \<and> (ve_wb_mode v \<longrightarrow> ve_writeback v)"
  by (auto simp: pool_inv_def pool_ok_def)

lemma pp_wb_release_pool:
  assumes "pool_ok (ve_busy v) used fds open_fds wb" "mset used = mset (slot_list i) + mset used'"
  shows "pool_ok (ve_busy (pp_wb_release i v)) used' fds open_fds wb"
proof (cases "i \<ge> 0")
  case True
  with assms(2) have "mset used = add_mset i (mset used')" by (simp add: slot_list_def)
  from pool_ok_release [OF assms(1) this] show ?thesis by (simp add: pp_wb_release_def)
next
  case False
  with assms show ?thesis by (auto simp: pp_wb_release_def slot_list_def intro: pool_ok_perm)
qed

lemma close_fence_pool:
  assumes "pool_ok busy used fds (ve_open_fds v) wb" "mset fds = mset (slot_list fd) + mset fds'"
  shows "pool_ok busy used fds' (ve_open_fds (if fd \<ge> 0 then close_fd fd v else v)) wb"
  using assms pool_ok_close [OF assms(1), of fd fds'] by (auto simp: slot_list_def intro: pool_ok_perm)

text \<open>A frame in hand is released.\<close>

lemma release_wb_frame_eq:
  "release_wb_frame fi v = pp_wb_release (fi_wb_index fi) (if fi_fence_fd fi \<ge> 0 then close_fd (fi_fence_fd fi) v else v)"
  by (simp add: release_wb_frame_def Let_def pp_wb_release_def)

lemma release_wb_frame_pool:
  assumes "pool_inv (fi # hand) v"
  shows "pool_inv hand (release_wb_frame fi v)"
proof -
  let ?w = "if fi_fence_fd fi \<ge> 0 then close_fd (fi_fence_fd fi) v else v"
  have inv: "pool_ok (ve_busy v) (held (fi # hand) v) (frame_fds (queued v @ fi # hand)) (ve_open_fds v) (ve_writeback v)"
    using assms by (simp add: pool_inv_ok)
  have "pool_ok (ve_busy ?w) (held (fi # hand) v) (frame_fds (queued v @ hand)) (ve_open_fds ?w) (ve_writeback v)"
    using close_fence_pool [OF inv, of "fi_fence_fd fi" "frame_fds (queued v @ hand)"] by (simp add: ac_simps split: if_splits)
  then have "pool_ok (ve_busy (pp_wb_release (fi_wb_index fi) ?w)) (held hand v) (frame_fds (queued v @ hand)) (ve_open_fds ?w) (ve_writeback v)"
    by (rule pp_wb_release_pool) (simp add: held_def ac_simps)
  then show ?thesis
    using assms unfolding release_wb_frame_eq pool_inv_ok by (auto simp: held_def queued_def split: if_splits)
qed

text \<open>Fields that the pool does not depend on.\<close>

lemma pool_inv_cong:
  assumes "pool_inv hand v" "ve_queue w = ve_queue v" "ve_wb_pending w = ve_wb_pending v" "ve_capture w = ve_capture v" "ve_busy w = ve_busy v"
    "ve_wb_mode w = ve_wb_mode v" "ve_writeback w = ve_writeback v" "ve_open_fds w = ve_open_fds v"
  shows "pool_inv hand w"
  using assms by (simp add: pool_inv_def held_def queued_def)

lemma push_pool:
  assumes "pool_inv hand v" "task_infos t = []"
  shows "pool_inv hand (v\<lparr>ve_queue := ve_queue v @ [t]\<rparr>)"
  using assms by (simp add: pool_inv_def held_def queued_def)

lemma push_frame_pool:
  assumes "pool_inv (fi # hand) v" "length (ve_queue v) < MAX_PENDING_FRAMES"
  shows "pool_inv hand (v\<lparr>ve_queue := ve_queue v @ [Task_Frame fi]\<rparr>)"
proof -
  have "length (concat (map task_infos q)) \<le> length q" for q :: "'a enc_task list"
  proof (induction q)
    case (Cons t q)
    then show ?case by (cases t) simp_all
  qed simp
  from this [of "ve_queue v"] show ?thesis
    using assms by (auto simp: pool_inv_def held_def queued_def ac_simps)
qed

lemma pop_pool:
  assumes "pool_inv [] v" "ve_queue v = t # q"
  shows "pool_inv (task_infos t) (v\<lparr>ve_queue := q\<rparr>)"
  using assms by (cases t) (auto simp: pool_inv_def held_def queued_def ac_simps)

lemma release_frames_pool:
  "pool_inv (concat (map task_infos ts) @ hand) v \<Longrightarrow> pool_inv hand (release_frames ts v)"
proof (induction ts arbitrary: v)
  case (Cons t ts)
  then show ?case by (cases t) (auto dest: release_wb_frame_pool)
qed simp

lemma release_queue [simp]: "ve_queue (release_wb_frame fi v) = ve_queue v"
  by (simp add: release_wb_frame_eq)

lemma release_frames_other:
  "release_frames ts (v\<lparr>ve_queue := q\<rparr>) = (release_frames ts v)\<lparr>ve_queue := q\<rparr>"
proof (induction ts arbitrary: v)
  case (Cons t ts)
  have "release_wb_frame fi (v\<lparr>ve_queue := q\<rparr>) = (release_wb_frame fi v)\<lparr>ve_queue := q\<rparr>" for fi v
    by (simp add: release_wb_frame_eq close_fd_def pp_wb_release_def)
  with Cons show ?case by (cases t) simp_all
qed simp

lemma drop_pending_pool:
  assumes "pool_inv hand v"
  shows "pool_inv hand (drop_pending_frames v)"
proof -
  let ?q = "filter (\<lambda>t. \<not> is_frame t) (ve_queue v)"
  have "pool_inv (queued v @ hand) (v\<lparr>ve_queue := ?q\<rparr>)"
    using assms by (auto simp: pool_inv_def held_def infos_kept queued_def)
  then show ?thesis
    unfolding drop_pending_frames_def release_frames_other [symmetric] by (auto simp: queued_def intro!: release_frames_pool)
qed

lemma enqueue_pool: "\<lbrakk>pool_inv hand v; task_infos t = []\<rbrakk> \<Longrightarrow> pool_inv hand (enqueue_task t drop_frames v)"
  by (simp add: enqueue_task_def Let_def push_pool drop_pending_pool)

lemma writeback_frame_pool: "pool_inv (fi # hand) v \<Longrightarrow> pool_inv hand (writeback_frame fi v)"
  by (auto simp: writeback_frame_def intro: release_wb_frame_pool push_frame_pool)

lemma capture_arm_pool:
  assumes "pool_inv hand v"
  shows "pool_inv hand (capture_arm armed v)"
proof (cases "ve_capture v < 0 \<and> ve_wb_mode v \<and> 0 \<le> first_free 0 (ve_busy v)")
  case True
  then obtain n where n: "n < length (ve_busy v)" "first_free 0 (ve_busy v) = int n" "\<not> ve_busy v ! n"
    using first_free_found [of 0 "ve_busy v"] by auto
  then have "mset (busy_slots ((ve_busy v)[n := True])) = add_mset (int n) (mset (held hand v))"
    using assms busy_acquire by (auto simp: pool_inv_def)
  then show ?thesis
    using assms n True by (auto simp: capture_arm_def Let_def pool_inv_def held_def queued_def slot_list_def)
qed (use assms in \<open>auto simp: capture_arm_def Let_def\<close>)

lemma capture_commit_pool:
  assumes "pool_inv hand v"
  shows "pool_inv hand (capture_commit ret fence info v)"
proof (cases "ve_capture v < 0")
  case False
  let ?fi = "info\<lparr>fi_fence_fd := fence, fi_wb_index := ve_capture v\<rparr>"
  let ?v = "v\<lparr>ve_capture := -1, ve_open_fds := (if fence \<ge> 0 then fence # ve_open_fds v else ve_open_fds v)\<rparr>"
  have wb: "ve_writeback v"
    using assms False by (auto simp: pool_inv_def held_def slot_list_def)
  then have "pool_inv (?fi # hand) ?v"
    using assms False by (auto simp: pool_inv_def held_def queued_def slot_list_def ac_simps)
  then have fi: "pool_inv (?fi # hand) (?v\<lparr>ve_commit_fails := n\<rparr>)" for n
    by (rule pool_inv_cong) simp_all
  have cap: "0 \<le> ve_capture v" "ve_capture v < int WB_BUF_COUNT"
    using assms False mset_eq_setD [of "held hand v" "busy_slots (ve_busy v)"]
    by (auto simp: pool_inv_def held_def slot_list_def in_busy_slots dest!: equalityD1)
  show ?thesis
  proof (cases "ret = 0")
    case True
    then show ?thesis
      using False writeback_frame_pool [OF fi [of 0]] by (simp add: capture_commit_def Let_def)
  next
    case ret: False
    let ?w = "release_wb_frame ?fi (?v\<lparr>ve_commit_fails := ve_commit_fails v + 1\<rparr>)"
    have w: "pool_inv hand ?w" "pool_inv hand (?w\<lparr>ve_wb_mode := False\<rparr>)"
      using release_wb_frame_pool [OF fi] by (auto simp: pool_inv_def held_def queued_def)
    have "capture_commit ret fence info v = (if ve_commit_fails v + 1 \<ge> 3 then ?w\<lparr>ve_wb_mode := False\<rparr> else ?w)"
      using False ret cap by (simp add: capture_commit_def Let_def release_wb_frame_eq pp_wb_release_def close_fd_def)
    with w show ?thesis by simp
  qed
qed (use assms in \<open>simp add: capture_commit_def\<close>)

lemma offer_frame_pool: "pool_inv hand v \<Longrightarrow> pool_inv hand (offer_frame info v)"
proof -
  assume v: "pool_inv hand v"
  then have "pool_inv (info\<lparr>fi_fence_fd := -1, fi_wb_index := -1\<rparr> # hand) v"
    by (auto simp: pool_inv_def held_def slot_list_def)
  with v show ?thesis
    by (auto simp: offer_frame_def enc_frame_def intro: push_frame_pool)
qed

section \<open>The stream\<close>

text \<open>The number of frames and access units of the current session are counted, the access units of a session carry the time stamps of its
  frames, in order, and every access unit is not empty and marked as a keyframe exactly if it holds one.\<close>

definition unit_marked :: "AccessUnit \<Rightarrow> bool" where
  "unit_marked au \<longleftrightarrow> au_data au \<noteq> [] \<and> au_keyframe au = au_is_keyframe (au_data au)"

definition stream_inv :: "'c VideoEncoder \<Rightarrow> bool" where
  "stream_inv v \<longleftrightarrow> ve_frames_submitted v = of_nat (length (fst (ve_session v))) \<and> ve_frames_emitted v = of_nat (length (snd (ve_session v)))
     \<and> (\<not> ve_unmatched v \<longrightarrow> fst (ve_session v) = snd (ve_session v) @ ve_submitted_pts v \<and> list_all (\<lambda>(sub, out). prefix out sub) (ve_sessions v))
     \<and> list_all unit_marked (ve_units v) \<and> map au_pts_ms (ve_units v) = concat (map snd (ve_sessions v)) @ snd (ve_session v)"

text \<open>The distance of the keyframes in the calls of the library: whether it was kept, whether an IDR frame is requested, and the time stamp of the
  last frame with a request in this session. A frame without a request lies less than the interval behind one with a request.\<close>

fun cadence_step :: "bool \<times> bool \<times> int option \<Rightarrow> mpp_call \<Rightarrow> bool \<times> bool \<times> int option" where
  "cadence_step (kept, requested, key) Mpp_Idr = (kept, True, key)"
| "cadence_step (kept, requested, key) (Mpp_Put pts) =
     (if requested then (kept, False, Some pts)
      else (kept \<and> (case key of None \<Rightarrow> False | Some k \<Rightarrow> k \<le> pts \<and> pts < k + KEYFRAME_INTERVAL_MS), False, key))"
| "cadence_step s Mpp_Eos = s"
| "cadence_step (kept, requested, key) Mpp_Destroy = (kept, False, None)"

definition cadence :: "mpp_call list \<Rightarrow> bool \<times> bool \<times> int option" where
  "cadence calls = foldl cadence_step (True, False, None) calls"

lemma cadence_simps [simp]: "cadence [] = (True, False, None)" "cadence (cs @ ds) = foldl cadence_step (cadence cs) ds"
  by (simp_all add: cadence_def)

definition key_inv :: "'c VideoEncoder \<Rightarrow> bool" where
  "key_inv v \<longleftrightarrow> (\<exists>key. cadence (me_calls (ve_encoder v)) = (True, False, key)
     \<and> (me_ctx (ve_encoder v) \<and> \<not> ve_idr_requested v \<longrightarrow> key = Some (ve_last_idr_pts v)))"

definition enc_inv :: "enc_frame_info list \<Rightarrow> 'c VideoEncoder \<Rightarrow> bool" where
  "enc_inv hand v \<longleftrightarrow> pool_inv hand v \<and> stream_inv v \<and> key_inv v"

text \<open>What the other threads leave alone.\<close>

definition same_thread :: "'c VideoEncoder \<Rightarrow> 'c VideoEncoder \<Rightarrow> bool" where
  "same_thread v w \<longleftrightarrow> ve_encoder w = ve_encoder v \<and> ve_wb_pending w = ve_wb_pending v \<and> ve_writeback w = ve_writeback v
     \<and> ve_last_idr_pts w = ve_last_idr_pts v \<and> ve_submitted_pts w = ve_submitted_pts v \<and> ve_frames_submitted w = ve_frames_submitted v
     \<and> ve_frames_emitted w = ve_frames_emitted v \<and> ve_session w = ve_session v \<and> ve_sessions w = ve_sessions v
     \<and> ve_unmatched w = ve_unmatched v \<and> ve_units w = ve_units v \<and> (ve_idr_requested v \<longrightarrow> ve_idr_requested w)"

lemma same_thread_trans: "\<lbrakk>same_thread u v; same_thread v w\<rbrakk> \<Longrightarrow> same_thread u w"
  by (simp add: same_thread_def)

lemma same_thread_inv: "\<lbrakk>same_thread v w; stream_inv v\<rbrakk> \<Longrightarrow> stream_inv w" "\<lbrakk>same_thread v w; key_inv v\<rbrakk> \<Longrightarrow> key_inv w"
  by (auto simp: same_thread_def stream_inv_def key_inv_def)

lemma same_thread_release: "same_thread v (release_wb_frame fi v)" "same_thread v (pp_wb_release i v)" "same_thread v (close_fd fd v)"
  by (simp_all add: same_thread_def release_wb_frame_eq pp_wb_release_def close_fd_def)

lemma same_thread_drop: "same_thread v (drop_pending_frames v)"
proof -
  have "same_thread v (release_frames ts v)" for ts
  proof (induction ts arbitrary: v)
    case (Cons t ts)
    then show ?case by (cases t) (auto intro: same_thread_trans same_thread_release)
  qed (simp add: same_thread_def)
  then have "same_thread v (release_frames (ve_queue v) v)" .
  then show ?thesis by (simp add: same_thread_def drop_pending_frames_def)
qed

lemma same_thread_enqueue: "same_thread v (enqueue_task t drop_frames v)"
  using same_thread_drop [of v] by (simp add: same_thread_def enqueue_task_def Let_def)

lemma same_thread_writeback: "same_thread v (writeback_frame fi v)"
  using same_thread_release(1) [of v fi] by (simp add: same_thread_def writeback_frame_def)

lemma same_thread_step: "same_thread v (enc_thread_step ops e v)"
proof (cases e)
  case (Capture_Commit ret fence info)
  let ?v = "v\<lparr>ve_capture := -1, ve_open_fds := (if fence \<ge> 0 then fence # ve_open_fds v else ve_open_fds v), ve_commit_fails := 0\<rparr>"
  have "same_thread v ?v" by (simp add: same_thread_def)
  then have "same_thread v (writeback_frame (info\<lparr>fi_fence_fd := fence, fi_wb_index := ve_capture v\<rparr>) ?v)"
    by (rule same_thread_trans) (rule same_thread_writeback)
  then show ?thesis
    unfolding Capture_Commit by (auto simp: capture_commit_def Let_def) (simp_all add: same_thread_def close_fd_def)
next
  case (Offer_Frame info)
  then show ?thesis by (simp add: offer_frame_def enc_frame_def same_thread_def)
next
  case (Capture_Arm armed)
  then show ?thesis by (simp add: capture_arm_def same_thread_def Let_def)
qed (simp_all add: same_thread_enqueue, simp_all add: same_thread_def recompute_wants_frames_def)

lemma step_pool:
  assumes "pool_inv hand v"
  shows "pool_inv hand (enc_thread_step ops e v)"
  using assms
  by (cases e) (auto simp: recompute_wants_frames_def intro: capture_arm_pool capture_commit_pool offer_frame_pool enqueue_pool elim: pool_inv_cong)

lemma fold_same: "same_thread v (fold (enc_thread_step ops) es v)"
proof (induction es arbitrary: v)
  case (Cons e es)
  from same_thread_trans [OF same_thread_step [of v ops e] Cons.IH] show ?case by simp
qed (simp add: same_thread_def)

lemma interfere_same: "same_thread v (interfere_enc ops v)"
proof (cases "ve_sched v")
  case (Cons es rest)
  have "same_thread v (v\<lparr>ve_sched := rest\<rparr>)" by (simp add: same_thread_def)
  from same_thread_trans [OF this fold_same] show ?thesis by (simp add: interfere_enc_def Cons)
qed (simp add: interfere_enc_def same_thread_def)

lemma interfere_pool:
  assumes "pool_inv hand v"
  shows "pool_inv hand (interfere_enc ops v)"
proof -
  have "pool_inv hand (fold (enc_thread_step ops) es w)" if "pool_inv hand w" for es w
    using that by (induction es arbitrary: w) (auto intro: step_pool)
  moreover have "pool_inv hand (v\<lparr>ve_sched := x\<rparr>)" for x
    using assms by (rule pool_inv_cong) simp_all
  ultimately show ?thesis
    using assms by (auto simp: interfere_enc_def split: list.split)
qed

lemma interfere_inv: "enc_inv hand v \<Longrightarrow> enc_inv hand (interfere_enc ops v)"
  using interfere_same [of v ops] by (auto simp: enc_inv_def interfere_pool same_thread_inv)

section \<open>The steps of the thread\<close>

lemma stream_inv_cong:
  assumes "stream_inv v" "ve_frames_submitted w = ve_frames_submitted v" "ve_frames_emitted w = ve_frames_emitted v" "ve_session w = ve_session v"
    "ve_sessions w = ve_sessions v" "ve_unmatched w = ve_unmatched v" "ve_submitted_pts w = ve_submitted_pts v" "ve_units w = ve_units v"
  shows "stream_inv w"
  using assms by (simp add: stream_inv_def)

lemma key_inv_cong:
  "\<lbrakk>key_inv v; ve_encoder w = ve_encoder v; ve_idr_requested w = ve_idr_requested v; ve_last_idr_pts w = ve_last_idr_pts v\<rbrakk> \<Longrightarrow> key_inv w"
  by (simp add: key_inv_def)

lemma enc_invI: "\<lbrakk>pool_inv hand v; stream_inv v; key_inv v\<rbrakk> \<Longrightarrow> enc_inv hand v"
  by (simp add: enc_inv_def)

lemma enc_invD: "enc_inv hand v \<Longrightarrow> pool_inv hand v" "enc_inv hand v \<Longrightarrow> stream_inv v" "enc_inv hand v \<Longrightarrow> key_inv v"
  by (simp_all add: enc_inv_def)

text \<open>Updates of fields that the invariant is not about.\<close>

lemma enc_inv_other:
  assumes "enc_inv hand v"
  shows "enc_inv hand (v\<lparr>ve_consumers := c\<rparr>)" "enc_inv hand (v\<lparr>ve_wants_frames := b\<rparr>)" "enc_inv hand (v\<lparr>ve_draining := b\<rparr>)"
    "enc_inv hand (v\<lparr>ve_init_attempts := n\<rparr>)" "enc_inv hand (v\<lparr>ve_geometry_dirty := b\<rparr>)" "enc_inv hand (v\<lparr>ve_frame_error_streak := n\<rparr>)"
    "enc_inv hand (v\<lparr>ve_video_width := w\<rparr>)" "enc_inv hand (v\<lparr>ve_video_height := h\<rparr>)" "enc_inv hand (v\<lparr>ve_cur_width := n\<rparr>)"
    "enc_inv hand (v\<lparr>ve_cur_height := n\<rparr>)"
  using assms by (auto simp: enc_inv_def pool_inv_def held_def queued_def stream_inv_def key_inv_def)

lemma recompute_inv: "enc_inv hand v \<Longrightarrow> enc_inv hand (recompute_wants_frames ops v)"
  by (simp add: recompute_wants_frames_def enc_inv_other)

lemma encoder_failed_inv: "enc_inv hand v \<Longrightarrow> enc_inv hand (encoder_failed ops v)"
  by (simp add: encoder_failed_def enc_inv_other recompute_inv)

text \<open>One access unit.\<close>

definition emit_pts :: "'c VideoEncoder \<Rightarrow> int" where
  "emit_pts v = (case ve_submitted_pts v of p # ps \<Rightarrow> p | [] \<Rightarrow> ve_last_emitted_pts v)"

definition emitted :: "'c VideoEncoder \<Rightarrow> 'c VideoEncoder" where
  "emitted v = v\<lparr>ve_unmatched := ve_unmatched v \<or> ve_submitted_pts v = [], ve_session := (fst (ve_session v), snd (ve_session v) @ [emit_pts v]),
     ve_submitted_pts := tl (ve_submitted_pts v), ve_last_emitted_pts := emit_pts v, ve_frames_emitted := ve_frames_emitted v + 1\<rparr>"

lemma emit_eq:
  "emit ops data v =
     (let au = \<lparr>au_data = data, au_pts_ms = emit_pts v, au_keyframe = au_is_keyframe data\<rparr>; w = interfere_enc ops (emitted v)
      in w\<lparr>ve_consumers := map (\<lambda>s. if op_active ops s then op_on_access_unit ops au s else s) (ve_consumers w), ve_units := ve_units w @ [au]\<rparr>)"
  by (cases "ve_submitted_pts v") (simp_all add: emit_def emitted_def emit_pts_def Let_def)

lemma emit_thread:
  "ve_encoder (emit ops data v) = ve_encoder v" "ve_wb_pending (emit ops data v) = ve_wb_pending v" "ve_writeback (emit ops data v) = ve_writeback v"
  using interfere_same [of "emitted v" ops] by (simp_all add: emit_eq Let_def same_thread_def emitted_def)

lemma emitted_stream:
  assumes "stream_inv v" "same_thread (emitted v) w" "data \<noteq> []"
  shows "stream_inv (w\<lparr>ve_consumers := c, ve_units := ve_units w @ [\<lparr>au_data = data, au_pts_ms = emit_pts v, au_keyframe = au_is_keyframe data\<rparr>]\<rparr>)"
  using assms
  by (cases "ve_submitted_pts v") (auto simp: stream_inv_def same_thread_def emitted_def emit_pts_def unit_marked_def)

lemma emit_inv:
  assumes "enc_inv hand v" "data \<noteq> []"
  shows "enc_inv hand (emit ops data v)"
proof (rule enc_invI)
  let ?w = "interfere_enc ops (emitted v)"
  have same: "same_thread (emitted v) ?w" by (rule interfere_same)
  have "pool_inv hand (emitted v)"
    using enc_invD(1) [OF assms(1)] by (rule pool_inv_cong) (simp_all add: emitted_def)
  from interfere_pool [OF this] show "pool_inv hand (emit ops data v)"
    by (rule pool_inv_cong) (simp_all add: emit_eq Let_def)
  have "key_inv (emitted v)"
    using enc_invD(3) [OF assms(1)] by (rule key_inv_cong) (simp_all add: emitted_def)
  from same_thread_inv(2) [OF same this] show "key_inv (emit ops data v)"
    by (rule key_inv_cong) (simp_all add: emit_eq Let_def)
  show "stream_inv (emit ops data v)"
    unfolding emit_eq Let_def using enc_invD(2) [OF assms(1)] same assms(2) by (rule emitted_stream)
qed

lemma drain_inv:
  fixes ops :: "'c StreamConsumer" and gs
  assumes "enc_inv hand v"
  defines "w \<equiv> drain_to_consumers ops gs v"
  shows "enc_inv hand w" "ve_encoder w = ve_encoder v" "ve_wb_pending w = ve_wb_pending v" "ve_writeback w = ve_writeback v"
proof -
  let ?P = "\<lambda>w. enc_inv hand w \<and> ve_encoder w = ve_encoder v \<and> ve_wb_pending w = ve_wb_pending v \<and> ve_writeback w = ve_writeback v"
  have "?P (mpp_drain (emit ops) gs (v\<lparr>ve_draining := True\<rparr>))"
    by (rule mpp_drain_inv) (use assms in \<open>auto simp: enc_inv_other emit_inv emit_thread\<close>)
  then have "?P w"
    using assms by (auto simp: w_def drain_to_consumers_def enc_inv_other)
  then show "enc_inv hand w" "ve_encoder w = ve_encoder v" "ve_wb_pending w = ve_wb_pending v" "ve_writeback w = ve_writeback v"
    by simp_all
qed

lemma flush_inv:
  fixes ops :: "'c StreamConsumer" and gs
  assumes "enc_inv hand v"
  defines "w \<equiv> mpp_flush (flush_nal ops) gs v"
  shows "enc_inv hand w" "ve_encoder w = ve_encoder v" "ve_wb_pending w = ve_wb_pending v" "ve_writeback w = ve_writeback v"
proof -
  let ?P = "\<lambda>w. enc_inv hand w \<and> ve_encoder w = ve_encoder v \<and> ve_wb_pending w = ve_wb_pending v \<and> ve_writeback w = ve_writeback v"
  have "?P w"
    unfolding w_def by (rule mpp_flush_inv) (use assms in \<open>auto simp: flush_nal_def emit_inv emit_thread\<close>)
  then show "enc_inv hand w" "ve_encoder w = ve_encoder v" "ve_wb_pending w = ve_wb_pending v" "ve_writeback w = ve_writeback v"
    by simp_all
qed

text \<open>The buffer the library has read is given back.\<close>

abbreviation (input) release_pending :: "'c VideoEncoder \<Rightarrow> 'c VideoEncoder" where
  "release_pending v \<equiv> (if ve_wb_pending v \<ge> 0 then (pp_wb_release (ve_wb_pending v) v)\<lparr>ve_wb_pending := -1\<rparr> else v)"

lemma release_pending_inv:
  assumes "enc_inv hand v"
  shows "enc_inv hand (release_pending v)"
proof (cases "ve_wb_pending v \<ge> 0")
  case True
  have "pool_ok (ve_busy v) (held hand v) (frame_fds (queued v @ hand)) (ve_open_fds v) (ve_writeback v)"
    using enc_invD(1) [OF assms] by (simp add: pool_inv_ok)
  then have "pool_ok (ve_busy (pp_wb_release (ve_wb_pending v) v)) (frame_slots (queued v @ hand) @ slot_list (ve_capture v))
      (frame_fds (queued v @ hand)) (ve_open_fds v) (ve_writeback v)"
    by (rule pp_wb_release_pool) (simp add: held_def ac_simps)
  then have "pool_inv hand (release_pending v)"
    using True enc_invD(1) [OF assms] by (simp add: pool_inv_ok held_def queued_def slot_list_def)
  moreover have "stream_inv (release_pending v)"
    using enc_invD(2) [OF assms] by (rule stream_inv_cong) (simp_all add: pp_wb_release_def)
  moreover have "key_inv (release_pending v)"
    using enc_invD(3) [OF assms] by (rule key_inv_cong) (simp_all add: pp_wb_release_def)
  ultimately show ?thesis by (rule enc_invI)
qed (use assms in simp)

lemma release_pending_thread [simp]:
  "ve_encoder (release_pending v) = ve_encoder v" "ve_writeback (release_pending v) = ve_writeback v" "ve_wb_pending (release_pending v) < 0"
  by (auto simp: pp_wb_release_def)

text \<open>The end of a session: its time stamps are filed and the counters start again.\<close>

lemma end_session_inv:
  assumes "enc_inv hand v"
  defines "w \<equiv> v\<lparr>ve_encoder := mpp_cleanup (ve_encoder v), ve_submitted_pts := [], ve_frames_submitted := 0, ve_frames_emitted := 0,
           ve_idr_requested := True, ve_session := ([], []), ve_sessions := ve_sessions v @ [ve_session v]\<rparr>"
  shows "enc_inv hand w"
proof (rule enc_invI)
  show "pool_inv hand w"
    using enc_invD(1) [OF assms(1)] by (rule pool_inv_cong) (simp_all add: w_def)
  show "stream_inv w"
    using enc_invD(2) [OF assms(1)] by (auto simp: stream_inv_def w_def split_beta)
  show "key_inv w"
    using enc_invD(3) [OF assms(1)] by (auto simp: key_inv_def w_def)
qed

lemma eos_inv:
  assumes "enc_inv hand v"
  shows "enc_inv hand (v\<lparr>ve_encoder := (ve_encoder v)\<lparr>me_calls := me_calls (ve_encoder v) @ [Mpp_Eos]\<rparr>\<rparr>)" (is "enc_inv hand ?w")
proof (rule enc_invI)
  show "pool_inv hand ?w" using enc_invD(1) [OF assms] by (rule pool_inv_cong) simp_all
  show "stream_inv ?w" using enc_invD(2) [OF assms] by (rule stream_inv_cong) simp_all
  show "key_inv ?w" using enc_invD(3) [OF assms] by (auto simp: key_inv_def)
qed

lemma teardown_inv:
  assumes "enc_inv hand v"
  shows "enc_inv hand (enc_teardown ops io v)" "\<not> me_ctx (ve_encoder (enc_teardown ops io v))" "ve_wb_pending (enc_teardown ops io v) < 0"
proof -
  define u where "u = (if me_ctx (ve_encoder v) then
      let v = drain_to_consumers ops (td_drain io) v;
          v = v\<lparr>ve_encoder := (ve_encoder v)\<lparr>me_calls := me_calls (ve_encoder v) @ [Mpp_Eos]\<rparr>\<rparr>
      in mpp_flush (flush_nal ops) (td_flush io) v else v)"
  have "enc_inv hand u"
    using assms by (simp add: u_def Let_def drain_inv(1) eos_inv flush_inv(1))
  then have r: "enc_inv hand (release_pending u)"
    by (rule release_pending_inv)
  have eq: "enc_teardown ops io v = (let v = release_pending u in v\<lparr>ve_encoder := mpp_cleanup (ve_encoder v), ve_submitted_pts := [],
      ve_frames_submitted := 0, ve_frames_emitted := 0, ve_idr_requested := True, ve_session := ([], []), ve_sessions := ve_sessions v @ [ve_session v]\<rparr>)"
    by (simp only: enc_teardown_def u_def Let_def)
  show "enc_inv hand (enc_teardown ops io v)"
    unfolding eq Let_def using r by (rule end_session_inv)
  show "\<not> me_ctx (ve_encoder (enc_teardown ops io v))" "ve_wb_pending (enc_teardown ops io v) < 0"
    using release_pending_thread(3) [of u] by (simp_all add: eq Let_def)
qed

lemma set_encoder_inv:
  assumes "enc_inv hand v" "\<not> me_ctx (ve_encoder v)" "mpp_init io w h hor ver fps br (ve_encoder v) = (k, e)"
  shows "enc_inv hand (v\<lparr>ve_encoder := e, ve_cur_width := cw, ve_cur_height := ch, ve_idr_requested := True\<rparr>)"
    "\<not> k \<Longrightarrow> enc_inv hand (v\<lparr>ve_encoder := e\<rparr>)" "me_ctx e = k"
proof -
  note e = mpp_init_cases [OF assms(2,3)]
  show "me_ctx e = k" by (rule e(1))
  let ?w = "v\<lparr>ve_encoder := e, ve_cur_width := cw, ve_cur_height := ch, ve_idr_requested := True\<rparr>"
  have "pool_inv hand ?w" using enc_invD(1) [OF assms(1)] by (rule pool_inv_cong) simp_all
  moreover have "stream_inv ?w" using enc_invD(2) [OF assms(1)] by (rule stream_inv_cong) simp_all
  moreover have "key_inv ?w" using enc_invD(3) [OF assms(1)] e(2) by (auto simp: key_inv_def)
  ultimately show "enc_inv hand ?w" by (rule enc_invI)
  let ?x = "v\<lparr>ve_encoder := e\<rparr>"
  have "pool_inv hand ?x" using enc_invD(1) [OF assms(1)] by (rule pool_inv_cong) simp_all
  moreover have "stream_inv ?x" using enc_invD(2) [OF assms(1)] by (rule stream_inv_cong) simp_all
  moreover have "key_inv ?x" if "\<not> k" using enc_invD(3) [OF assms(1)] e(1,2) that by (auto simp: key_inv_def)
  ultimately show "enc_inv hand ?x" if "\<not> k" using that by (intro enc_invI)
qed

lemma enc_init_inv:
  assumes "enc_inv hand v" "\<not> me_ctx (ve_encoder v)" "enc_init io v = (k, w)"
  shows "enc_inv hand w" "me_ctx (ve_encoder w) = k" "ve_writeback w = ve_writeback v"
proof -
  note m = set_encoder_inv [OF assms(1,2) prod.collapse [symmetric]]
  have "enc_inv hand w \<and> me_ctx (ve_encoder w) = k \<and> ve_writeback w = ve_writeback v"
    using assms by (auto simp: enc_init_def Let_def split_beta m split: if_splits)
  then show "enc_inv hand w" "me_ctx (ve_encoder w) = k" "ve_writeback w = ve_writeback v"
    by simp_all
qed

lemma ensure_inv:
  assumes "enc_inv hand v" "ensure_encoder ops io v = (k, w)"
  shows "enc_inv hand w" "k \<Longrightarrow> me_ctx (ve_encoder w)"
proof -
  let ?t = "(enc_teardown ops (ei_ensure io) (v\<lparr>ve_init_attempts := ve_init_attempts v + 1\<rparr>))\<lparr>ve_geometry_dirty := False\<rparr>"
  obtain k' x where i: "enc_init (ei_init io) ?t = (k', x)"
    by fastforce
  have "enc_inv hand (v\<lparr>ve_init_attempts := ve_init_attempts v + 1\<rparr>)"
    using assms(1) by (rule enc_inv_other)
  from teardown_inv [OF this] have "enc_inv hand ?t" "\<not> me_ctx (ve_encoder ?t)"
    by (simp_all add: enc_inv_other)
  note x = enc_init_inv [OF this i]
  have "enc_inv hand w \<and> (k \<longrightarrow> me_ctx (ve_encoder w))"
    using assms x i
    by (auto simp: ensure_encoder_def Let_def enc_inv_other encoder_failed_inv split: if_splits prod.splits)
  then show "enc_inv hand w" "k \<Longrightarrow> me_ctx (ve_encoder w)"
    by simp_all
qed

text \<open>A frame is handed to the library, after a request for a keyframe where one is due.\<close>

definition idr_due :: "int \<Rightarrow> 'c VideoEncoder \<Rightarrow> bool" where
  "idr_due pts v \<longleftrightarrow> ve_idr_requested v \<or> pts < ve_last_idr_pts v \<or> pts - ve_last_idr_pts v \<ge> KEYFRAME_INTERVAL_MS"

definition idr_sent :: "int \<Rightarrow> 'c VideoEncoder \<Rightarrow> 'c VideoEncoder" where
  "idr_sent pts v = v\<lparr>ve_encoder := mpp_request_idr (ve_encoder v), ve_last_idr_pts := pts\<rparr>"

lemma maybe_request_eq:
  "maybe_request_idr ops pts v =
     (let w = interfere_enc ops v in if idr_due pts w then (interfere_enc ops (idr_sent pts w))\<lparr>ve_idr_requested := False\<rparr> else w)"
  by (simp add: maybe_request_idr_def idr_due_def idr_sent_def Let_def)

lemma maybe_request_pool:
  assumes "pool_inv hand v"
  shows "pool_inv hand (maybe_request_idr ops pts v)"
proof -
  let ?w = "interfere_enc ops v"
  have w: "pool_inv hand ?w" using assms by (rule interfere_pool)
  then have "pool_inv hand (idr_sent pts ?w)" by (rule pool_inv_cong) (simp_all add: idr_sent_def)
  from interfere_pool [OF this] have "pool_inv hand ((interfere_enc ops (idr_sent pts ?w))\<lparr>ve_idr_requested := False\<rparr>)"
    by (rule pool_inv_cong) simp_all
  with w show ?thesis by (simp add: maybe_request_eq Let_def)
qed

lemma maybe_request_thread:
  fixes ops :: "'c StreamConsumer" and pts v
  defines "w \<equiv> maybe_request_idr ops pts v"
  shows "me_ctx (ve_encoder w) = me_ctx (ve_encoder v)" "ve_wb_pending w = ve_wb_pending v"
    "ve_writeback w = ve_writeback v" "stream_inv v \<Longrightarrow> stream_inv w"
proof -
  let ?u = "interfere_enc ops v"
  note u = interfere_same [of v ops] and x = interfere_same [of "idr_sent pts ?u" ops]
  show "me_ctx (ve_encoder w) = me_ctx (ve_encoder v)" "ve_wb_pending w = ve_wb_pending v"
    "ve_writeback w = ve_writeback v"
    using u x by (simp_all add: w_def maybe_request_eq Let_def same_thread_def idr_sent_def mpp_request_idr_def)
  show "stream_inv w" if "stream_inv v"
  proof -
    have s: "stream_inv ?u" using same_thread_inv(1) [OF u that] .
    then have "stream_inv (idr_sent pts ?u)" by (rule stream_inv_cong) (simp_all add: idr_sent_def)
    from same_thread_inv(1) [OF x this] have "stream_inv ((interfere_enc ops (idr_sent pts ?u))\<lparr>ve_idr_requested := False\<rparr>)"
      by (rule stream_inv_cong) simp_all
    with s show ?thesis by (simp add: w_def maybe_request_eq Let_def)
  qed
qed

lemma request_put_key:
  fixes ops :: "'c StreamConsumer" and pts
  assumes "key_inv v" "me_ctx (ve_encoder v)"
  defines "w \<equiv> maybe_request_idr ops pts v"
  shows "key_inv (w\<lparr>ve_encoder := mpp_submit pts (ve_encoder w)\<rparr>)"
proof -
  let ?u = "interfere_enc ops v"
  have ctx: "me_ctx (ve_encoder ?u)"
    using interfere_same [of v ops] assms(2) by (simp add: same_thread_def)
  have "key_inv ?u" using same_thread_inv(2) [OF interfere_same assms(1)] .
  then obtain key where key: "cadence (me_calls (ve_encoder ?u)) = (True, False, key)"
      "\<not> ve_idr_requested ?u \<Longrightarrow> key = Some (ve_last_idr_pts ?u)"
    using ctx by (auto simp: key_inv_def)
  show ?thesis
  proof (cases "idr_due pts ?u")
    case True
    have "ve_encoder w = mpp_request_idr (ve_encoder ?u)" "ve_last_idr_pts w = pts"
      using True interfere_same [of "idr_sent pts ?u" ops] by (simp_all add: w_def maybe_request_eq Let_def same_thread_def idr_sent_def)
    then show ?thesis
      using key(1) ctx by (simp add: key_inv_def mpp_submit_def mpp_request_idr_def)
  next
    case False
    then have "w = ?u" by (simp add: w_def maybe_request_eq Let_def)
    with False key show ?thesis by (simp add: idr_due_def key_inv_def mpp_submit_def)
  qed
qed

lemma submit_inv:
  assumes "enc_inv hand v" "me_ctx (ve_encoder v)" "submit_frame ops io info v = (k, w)"
  shows "enc_inv hand w" "ve_wb_pending w = ve_wb_pending v"
proof -
  define m where "m = maybe_request_idr ops (fi_pts info) v"
  let ?x = "m\<lparr>ve_encoder := mpp_submit (fi_pts info) (ve_encoder m)\<rparr>"
  have p: "pool_inv hand ?x"
    using maybe_request_pool [OF enc_invD(1) [OF assms(1)]] unfolding m_def by (rule pool_inv_cong) simp_all
  have st: "stream_inv ?x"
    using maybe_request_thread(4) [OF enc_invD(2) [OF assms(1)]] unfolding m_def by (rule stream_inv_cong) simp_all
  have k: "key_inv ?x"
    unfolding m_def using enc_invD(3) [OF assms(1)] assms(2) by (rule request_put_key)
  let ?y = "?x\<lparr>ve_submitted_pts := ve_submitted_pts ?x @ [fi_pts info], ve_frames_submitted := ve_frames_submitted ?x + 1,
    ve_session := (fst (ve_session ?x) @ [fi_pts info], snd (ve_session ?x)), ve_frame_error_streak := 0\<rparr>"
  have "pool_inv hand ?y" using p by (rule pool_inv_cong) simp_all
  moreover have "key_inv ?y" using k by (rule key_inv_cong) simp_all
  moreover have "stream_inv ?y" using st by (simp add: stream_inv_def)
  ultimately have "enc_inv hand ?y" by (intro enc_invI)
  moreover have "enc_inv hand ?x" using p st k by (rule enc_invI)
  ultimately show "enc_inv hand w"
    using assms(1,3) by (auto simp: submit_frame_def m_def [symmetric] Let_def frame_error_def enc_inv_other split: if_splits)
  show "ve_wb_pending w = ve_wb_pending v"
    using assms(3) maybe_request_thread(2) [of ops "fi_pts info" v]
    by (auto simp: submit_frame_def m_def [symmetric] Let_def frame_error_def split: if_splits)
qed

text \<open>The frame in hand: its fence is closed, its buffer is released or becomes the one the library reads.\<close>

lemma close_fence_inv:
  assumes "enc_inv [info] v"
  defines "w \<equiv> (if fi_fence_fd info \<ge> 0 then close_fd (fi_fence_fd info) v else v)"
  shows "enc_inv [info\<lparr>fi_fence_fd := -1\<rparr>] w" "ve_encoder w = ve_encoder v"
proof -
  have "pool_ok (ve_busy v) (held [info] v) (frame_fds (queued v @ [info])) (ve_open_fds v) (ve_writeback v)"
    using enc_invD(1) [OF assms(1)] by (simp add: pool_inv_ok)
  then have "pool_ok (ve_busy v) (held [info] v) (frame_fds (queued v)) (ve_open_fds w) (ve_writeback v)"
    unfolding w_def by (rule close_fence_pool) (simp add: ac_simps)
  then have "pool_inv [info\<lparr>fi_fence_fd := -1\<rparr>] w"
    using enc_invD(1) [OF assms(1)] by (simp add: pool_inv_ok w_def held_def queued_def slot_list_def [of "-1"] split: if_splits)
  moreover have "same_thread v w"
    using same_thread_release(3) [of v "fi_fence_fd info"] by (simp add: w_def same_thread_def)
  ultimately show "enc_inv [info\<lparr>fi_fence_fd := -1\<rparr>] w" "ve_encoder w = ve_encoder v"
    using same_thread_inv enc_invD(2,3) [OF assms(1)] by (auto simp: enc_inv_def same_thread_def)
qed

lemma release_inv: "enc_inv (fi # hand) v \<Longrightarrow> enc_inv hand (release_wb_frame fi v)"
  using same_thread_release(1) [of v fi] by (auto simp: enc_inv_def release_wb_frame_pool same_thread_inv)

lemma release_slot_inv:
  assumes "enc_inv [info\<lparr>fi_fence_fd := -1\<rparr>] v"
  shows "enc_inv [] (pp_wb_release (fi_wb_index info) v)"
  using release_inv [OF assms] by (simp add: release_wb_frame_eq)

lemma keep_slot_inv:
  assumes "enc_inv [info\<lparr>fi_fence_fd := -1\<rparr>] v" "ve_wb_pending v < 0"
  shows "enc_inv [] (v\<lparr>ve_wb_pending := fi_wb_index info\<rparr>)"
proof (rule enc_invI)
  show "pool_inv [] (v\<lparr>ve_wb_pending := fi_wb_index info\<rparr>)"
    using enc_invD(1) [OF assms(1)] assms(2) by (auto simp: pool_inv_def held_def queued_def slot_list_def)
  show "stream_inv (v\<lparr>ve_wb_pending := fi_wb_index info\<rparr>)"
    using enc_invD(2) [OF assms(1)] by (rule stream_inv_cong) simp_all
  show "key_inv (v\<lparr>ve_wb_pending := fi_wb_index info\<rparr>)"
    using enc_invD(3) [OF assms(1)] by (rule key_inv_cong) simp_all
qed

lemma frame_error_inv: "enc_inv hand v \<Longrightarrow> enc_inv hand (frame_error v)"
  by (simp add: frame_error_def enc_inv_other)

lemma encode_wb_inv:
  assumes "enc_inv [info] v" "me_ctx (ve_encoder v)"
  shows "enc_inv [] (encode_wb ops io info v)"
proof -
  let ?info = "info\<lparr>fi_fence_fd := -1\<rparr>"
  define u where "u = (if fi_fence_fd info \<ge> 0 then close_fd (fi_fence_fd info) v else v)"
  define d where "d = drain_to_consumers ops (ei_drain io) u"
  obtain k w where s: "submit_frame ops io info (release_pending d) = (k, w)" by fastforce
  have u: "enc_inv [?info] u" "me_ctx (ve_encoder u)"
    using close_fence_inv [OF assms(1)] assms(2) by (simp_all add: u_def)
  have "enc_inv [?info] d" "me_ctx (ve_encoder d)"
    using drain_inv(1,2) [OF u(1)] u(2) by (simp_all add: d_def)
  then have "enc_inv [?info] (release_pending d)" "me_ctx (ve_encoder (release_pending d))"
    using release_pending_inv release_pending_thread(1) by metis+
  note w = submit_inv [OF this s]
  have "ve_wb_pending w < 0"
    using w(2) release_pending_thread(3) [of d] by simp
  with w(1) have "enc_inv [] (if k then w\<lparr>ve_wb_pending := fi_wb_index info\<rparr> else pp_wb_release (fi_wb_index info) w)"
    by (simp add: keep_slot_inv release_slot_inv)
  moreover have "enc_inv [] (frame_error (pp_wb_release (fi_wb_index info) u))"
    using u(1) by (intro frame_error_inv release_slot_inv)
  ultimately show ?thesis
    by (simp only: encode_wb_def Let_def u_def [symmetric] d_def [symmetric] s prod.case simp_thms split: if_split)
qed

lemma no_slots_inv:
  assumes "enc_inv [info] v" "\<not> ve_writeback v"
  shows "enc_inv [] v"
  using assms by (auto simp: enc_inv_def pool_inv_def held_def)

lemma strides_inv: "enc_inv hand v \<Longrightarrow> enc_inv hand (v\<lparr>ve_encoder := mpp_sync_strides hor ver (ve_encoder v)\<rparr>)"
  by (auto simp: enc_inv_def pool_inv_def held_def queued_def stream_inv_def key_inv_def mpp_sync_strides_def)

lemma encode_inv:
  assumes "enc_inv [info] v" "me_ctx (ve_encoder v)"
  shows "enc_inv [] (encode ops io info v)"
proof (cases "ve_writeback v")
  case False
  let ?d = "drain_to_consumers ops (ei_drain io) v"
  let ?s = "if sint (fi_hor_stride info) \<noteq> me_hor_stride (ve_encoder ?d) \<or> sint (fi_ver_stride info) \<noteq> me_ver_stride (ve_encoder ?d)
    then ?d\<lparr>ve_encoder := mpp_sync_strides (sint (fi_hor_stride info)) (sint (fi_ver_stride info)) (ve_encoder ?d)\<rparr> else ?d"
  have "enc_inv [] v" using assms(1) False by (rule no_slots_inv)
  note d = drain_inv(1,2) [OF this, of ops "ei_drain io"]
  have "enc_inv [] ?s"
    using d(1) strides_inv [OF d(1)] by (simp only: simp_thms split: if_split)
  moreover have "me_ctx (ve_encoder ?s)"
    using d(2) assms(2) by (simp add: mpp_sync_strides_def)
  ultimately have "enc_inv [] (snd (submit_frame ops io info ?s))"
    using surjective_pairing by (rule submit_inv(1))
  with False show ?thesis by (simp add: encode_def Let_def)
qed (use assms in \<open>simp add: encode_def encode_wb_inv\<close>)

section \<open>The loop\<close>

lemma frame_task_inv:
  assumes "enc_inv [info] v"
  shows "enc_inv [] (frame_task ops io info v)"
proof -
  let ?u = "interfere_enc ops v"
  have u: "enc_inv [info] ?u" using assms by (rule interfere_inv)
  obtain k w where e: "ensure_encoder ops io ?u = (k, w)" by fastforce
  note w = ensure_inv [OF u e]
  have "enc_inv [] (encode ops io info w)" if k
    using w(1) w(2) [OF that] by (rule encode_inv)
  with u w(1) show ?thesis
    by (simp add: frame_task_def Let_def e release_inv encoder_failed_inv enc_inv_other)
qed

lemma end_of_round_inv: "enc_inv [] v \<Longrightarrow> enc_inv [] (end_of_round ops io v)"
  by (simp add: end_of_round_def Let_def interfere_inv teardown_inv(1))

lemma run_task_inv: "enc_inv [] v \<Longrightarrow> enc_inv [] (run_task ops io f v)"
  by (cases f) (simp_all add: enc_inv_other drain_pending_def drain_inv(1) Let_def)

lemma enc_round_inv:
  assumes "enc_inv [] v"
  shows "enc_inv [] (snd (enc_round ops io v))"
proof -
  let ?u = "interfere_enc ops v"
  have u: "enc_inv [] ?u" using assms by (rule interfere_inv)
  show ?thesis
  proof (cases "ve_queue ?u")
    case Nil
    then have "enc_inv [] (?u\<lparr>ve_queue := []\<rparr>)"
      using u by (auto simp: enc_inv_def pool_inv_def held_def queued_def stream_inv_def key_inv_def)
    from enc_inv_other(1) [OF this] Nil show ?thesis by (simp add: enc_round_def Let_def)
  next
    case (Cons t q)
    have "enc_inv (task_infos t) (?u\<lparr>ve_queue := q\<rparr>)"
      using pop_pool [OF enc_invD(1) [OF u] Cons] u by (auto simp: enc_inv_def stream_inv_def key_inv_def)
    then have "enc_inv (task_infos t) (?u\<lparr>ve_queue := q, ve_consumers := map (op_on_tick ops) (ve_consumers ?u)\<rparr>)"
      by (rule enc_inv_other)
    then show ?thesis
      using Cons by (cases t) (simp_all add: enc_round_def Let_def end_of_round_inv frame_task_inv recompute_inv run_task_inv)
  qed
qed

lemma enc_loop_inv:
  assumes "enc_inv [] v" "enc_loop ops ios final v = (finished, w)"
  shows "enc_inv [] w \<and> (finished \<longrightarrow> ve_wb_pending w < 0 \<and> \<not> me_ctx (ve_encoder w))"
  using assms
proof (induction ios arbitrary: v)
  case (Cons io ios)
  obtain f u where r: "enc_round ops io v = (f, u)" by fastforce
  have "enc_inv [] u" using enc_round_inv [OF Cons.prems(1), of ops io] r by simp
  then show ?case
    using Cons r teardown_inv [of "[]" u ops final] by (auto split: if_splits)
qed simp

lemma new_encoder_inv: "enc_inv [] (fold (add_consumer ops) cs (new_VideoEncoder wb fps br w h hor ver sched))"
proof -
  have "enc_inv [] (new_VideoEncoder wb fps br w h hor ver sched)"
    by (auto simp: enc_inv_def pool_inv_def stream_inv_def key_inv_def new_VideoEncoder_def held_def queued_def slot_list_def busy_slots_def
      new_MppEncoder_def)
  moreover have "enc_inv [] (fold (add_consumer ops) cs v)" if "enc_inv [] v" for v
    using that by (induction cs arbitrary: v) (simp_all add: add_consumer_def recompute_inv enc_inv_other)
  ultimately show ?thesis by blast
qed

section \<open>Properties\<close>

text \<open>C4: whatever the display, the decoder, the consumers and the MPP library do, and in whatever order: at every turn of the encoder thread each
  buffer of the capture pool has at most one user, which is a queued frame, the last frame handed to the library and not yet followed by a drain, or
  the capture of the display; a buffer is marked busy exactly while it has one, so none leaks and none is captured into while it is queued. The open descriptors are the fences of the queued
  frames. At most three frames wait. When the thread has ended, the library holds no buffer and its context is destroyed.\<close>

theorem encoder_buffers:
  assumes "enc_loop ops ios final (fold (add_consumer ops) cs (new_VideoEncoder wb fps bitrate width height hor ver sched)) = (finished, v)"
  shows "distinct (held [] v) \<and> (\<forall>i. i \<in> set (held [] v) \<longleftrightarrow> 0 \<le> i \<and> i < int WB_BUF_COUNT \<and> ve_busy v ! nat i)
    \<and> mset (ve_open_fds v) = mset (frame_fds (queued v)) \<and> length (queued v) \<le> MAX_PENDING_FRAMES
    \<and> (finished \<longrightarrow> ve_wb_pending v < 0 \<and> \<not> me_ctx (ve_encoder v))"
proof -
  note v = enc_loop_inv [OF new_encoder_inv assms]
  then have p: "pool_inv [] v" by (simp add: enc_inv_def)
  then have m: "mset (held [] v) = mset (busy_slots (ve_busy v))" and l: "length (ve_busy v) = WB_BUF_COUNT"
    by (simp_all add: pool_inv_def)
  have "distinct (held [] v)"
    using mset_eq_imp_distinct_iff [OF m] distinct_busy_slots by blast
  moreover have "i \<in> set (held [] v) \<longleftrightarrow> 0 \<le> i \<and> i < int WB_BUF_COUNT \<and> ve_busy v ! nat i" for i
    using mset_eq_setD [OF m] l by (auto simp: in_busy_slots)
  ultimately show ?thesis
    using v p by (simp add: pool_inv_def)
qed

text \<open>C13: whatever the library answers and the other threads do: a frame handed to the library with no request for a keyframe lies less than 500 ms
  behind one of the same session with a request; every access unit is not empty and marked as a keyframe exactly if it holds an IRAP unit; and the
  time stamps of the access units of a session are those of its first frames, in order, unless the library has produced an access unit when
  none was due.\<close>

theorem encoder_stream:
  assumes "enc_loop ops ios final (fold (add_consumer ops) cs (new_VideoEncoder wb fps bitrate width height hor ver sched)) = (finished, v)"
  shows "fst (cadence (me_calls (ve_encoder v))) \<and> list_all unit_marked (ve_units v)
    \<and> map au_pts_ms (ve_units v) = concat (map snd (ve_sessions v @ [ve_session v]))
    \<and> (\<not> ve_unmatched v \<longrightarrow> list_all (\<lambda>(sub, out). prefix out sub) (ve_sessions v @ [ve_session v]))"
proof -
  have v: "enc_inv [] v"
    using enc_loop_inv [OF new_encoder_inv assms] by simp
  then show ?thesis
    by (auto simp: enc_inv_def stream_inv_def key_inv_def split_beta)
qed

definition enc_example_ops :: "nat StreamConsumer" where
  "enc_example_ops = \<lparr>op_active = (\<lambda>_. True), op_on_access_unit = (\<lambda>_ n. n + 1), op_on_encoder_reset = (\<lambda>_ _ n. n), op_on_encoder_failed = (\<lambda>n. n),
     op_on_tick = (\<lambda>n. n)\<rparr>"

definition enc_example_info :: "int \<Rightarrow> enc_frame_info" where
  "enc_example_info pts = \<lparr>fi_prime_fd = 5, fi_hor_stride = 0, fi_ver_stride = 0, fi_width = 0, fi_height = 0, fi_buf_size = 0, fi_pts = pts,
     fi_fence_fd = -1, fi_wb_index = -1\<rparr>"

definition enc_example_io :: "mpp_get list \<Rightarrow> enc_io" where
  "enc_example_io gs = \<lparr>ei_ensure = \<lparr>td_drain = [], td_flush = []\<rparr>,
     ei_init = \<lparr>mi_create = 0, mi_init = 0, mi_cfg_init = 0, mi_get_cfg = 0, mi_set_cfg = 0, mi_header_mode = 0, mi_timeout = 0\<rparr>,
     ei_drain = gs, ei_poll = 1, ei_import = True, ei_submit = 0, ei_end = \<lparr>td_drain = [], td_flush = []\<rparr>\<rparr>"

text \<open>Two captures and the shutdown; the display has a third capture under way when the thread ends.\<close>

definition enc_example_start :: "nat VideoEncoder" where
  "enc_example_start = fold (add_consumer enc_example_ops) [0] (new_VideoEncoder True 60 8000000 1920 1080 1920 1080
     [[Capture_Arm True, Capture_Commit 0 7 (enc_example_info 10)], [], [], [], [], [Capture_Arm True, Capture_Commit 0 8 (enc_example_info 26)],
      [Capture_Arm True], [], [], [], [Shutdown_Encoder]])"

definition enc_example_run :: "bool \<times> nat VideoEncoder" where
  "enc_example_run = enc_loop enc_example_ops [enc_example_io [], enc_example_io [Get_Packet [0, 0, 1, 38, 1] False], enc_example_io []]
     \<lparr>td_drain = [], td_flush = [(False, Get_Timeout), (False, Get_Packet [0, 0, 1, 2, 1] True)]\<rparr> enc_example_start"

lemma enc_example_run_values:
  "fst enc_example_run" "map au_pts_ms (ve_units (snd enc_example_run)) = [10, 26]" "map au_keyframe (ve_units (snd enc_example_run)) = [True, False]"
  "held [] (snd enc_example_run) = [2]" "me_calls (ve_encoder (snd enc_example_run)) = [Mpp_Idr, Mpp_Put 10, Mpp_Put 26, Mpp_Eos, Mpp_Destroy]"
  "\<not> ve_unmatched (snd enc_example_run)"
  by code_simp+

theorem encoder_buffers_witness:
  "held [] (snd enc_example_run) = [2] \<and> (\<forall>i. i \<in> set (held [] (snd enc_example_run)) \<longleftrightarrow> 0 \<le> i \<and> i < int WB_BUF_COUNT \<and> ve_busy (snd enc_example_run) ! nat i)
    \<and> ve_wb_pending (snd enc_example_run) < 0 \<and> \<not> me_ctx (ve_encoder (snd enc_example_run))"
  using encoder_buffers [OF surjective_pairing] enc_example_run_values(1,4)
  unfolding enc_example_run_def enc_example_start_def by blast

theorem encoder_stream_witness:
  "map au_pts_ms (ve_units (snd enc_example_run)) = [10, 26] \<and> fst (cadence (me_calls (ve_encoder (snd enc_example_run))))
    \<and> list_all (\<lambda>(sub, out). prefix out sub) (ve_sessions (snd enc_example_run) @ [ve_session (snd enc_example_run)])"
  using encoder_stream [OF surjective_pairing] enc_example_run_values(2,6)
  unfolding enc_example_run_def enc_example_start_def by blast

end
