(* ===== verification/Storage_Guard.thy ===== *)
theory Storage_Guard
  imports Rtp_Util
begin

text \<open>
  \<open>src/dvr/storage_guard.cpp\<close>: whether the storage can take a recording. What the system calls answer is the argument
  \<open>fs\<close>: the device of the recording directory and of the root (\<open>stat\<close>), the block size and the free and total
  blocks (\<open>statvfs\<close>), and the type of the file system (\<open>statfs\<close>), each \<open>None\<close> when the call fails. The reasons for a refusal
  are constructors instead of messages.
\<close>

record fs_io =
  fs_dir_dev :: "u64 option"
  fs_root_dev :: "u64 option"
  fs_statvfs :: "(u64 \<times> u64 \<times> u64) option"
  fs_type :: "u32 option"

record StorageGuard =
  sg_min_free_bytes :: u64
  sg_require_mount :: bool

datatype not_ready = No_Directory | Not_Mounted | Free_Space_Unknown | Low_Free_Space u64 u64

definition FAT32_FILE_SIZE_CAP :: u64 where "FAT32_FILE_SIZE_CAP = push_bit 30 4 - push_bit 20 128"
definition MSDOS_SUPER_MAGIC :: u32 where "MSDOS_SUPER_MAGIC = 0x4D44"

definition free_bytes :: "fs_io \<Rightarrow> u64 option" where
  "free_bytes fs = (case fs_statvfs fs of None \<Rightarrow> None | Some (frsize, bavail, blocks) \<Rightarrow> Some (frsize * bavail))"

definition space_bytes :: "fs_io \<Rightarrow> (u64 \<times> u64) option" where
  "space_bytes fs = (case fs_statvfs fs of None \<Rightarrow> None | Some (frsize, bavail, blocks) \<Rightarrow> Some (frsize * bavail, frsize * blocks))"

definition device_id :: "fs_io \<Rightarrow> u64 option" where
  "device_id fs = fs_dir_dev fs"

definition is_external_mount :: "fs_io \<Rightarrow> bool" where
  "is_external_mount fs = (case (fs_dir_dev fs, fs_root_dev fs) of (Some d, Some r) \<Rightarrow> d \<noteq> r | _ \<Rightarrow> False)"

definition file_size_cap :: "fs_io \<Rightarrow> u64" where
  "file_size_cap fs = (case fs_type fs of None \<Rightarrow> FAT32_FILE_SIZE_CAP
     | Some t \<Rightarrow> if t = MSDOS_SUPER_MAGIC then FAT32_FILE_SIZE_CAP else 0)"

definition mount_ok :: "StorageGuard \<Rightarrow> fs_io \<Rightarrow> bool" where
  "mount_ok g fs \<longleftrightarrow> \<not> sg_require_mount g \<or> is_external_mount fs"

definition has_enough_free :: "StorageGuard \<Rightarrow> u64 \<Rightarrow> bool" where
  "has_enough_free g estimate \<longleftrightarrow> estimate \<ge> sg_min_free_bytes g"

definition is_ready :: "StorageGuard \<Rightarrow> fs_io \<Rightarrow> not_ready option" where
  "is_ready g fs =
     (if fs_dir_dev fs = None then Some No_Directory
      else if sg_require_mount g \<and> \<not> is_external_mount fs then Some Not_Mounted
      else case free_bytes fs of
        None \<Rightarrow> Some Free_Space_Unknown
      | Some available \<Rightarrow>
          if available < sg_min_free_bytes g
          then Some (Low_Free_Space (available div (1024 * 1024)) (sg_min_free_bytes g div (1024 * 1024)))
          else None)"

lemma is_ready_iff:
  "is_ready g fs = None \<longleftrightarrow> fs_dir_dev fs \<noteq> None \<and> mount_ok g fs \<and> (\<exists>n. free_bytes fs = Some n \<and> has_enough_free g n)"
  by (auto simp: is_ready_def mount_ok_def has_enough_free_def split: option.splits)

text \<open>A file below the cap stays below the 4 GB that FAT32 allows, with an access unit of up to 128 MB more.\<close>

lemma file_size_cap_margin:
  "file_size_cap fs \<noteq> 0 \<Longrightarrow> unat (file_size_cap fs) + 128 * 2 ^ 20 = 2 ^ 32"
  by (auto simp: file_size_cap_def FAT32_FILE_SIZE_CAP_def split: option.splits if_splits)

end
