(* ===== verification/Dvr_Worker.thy ===== *)
theory Dvr_Worker
  imports Ts_Writer Storage_Guard Stream_Consumer
begin

text \<open>
  \<open>src/dvr/dvr.cpp\<close>: the recorder. A worker thread takes commands and access units from a queue, opens, writes and closes the
  files and watches the storage. Other threads run at the same time: the encoder delivers access units and
  checks in \<open>on_tick\<close> whether the worker is stuck; the control functions may be called by any thread.

  The steps of the other threads are explicit. \<open>dv_sched\<close> holds what they do, in lists of steps; before each access of the worker to shared
  state (the atomic variables and what the mutex protects) the next list runs (\<open>interfere\<close>). A theorem for all schedules
  therefore holds for every interleaving. A call of another thread is one step, except \<open>on_tick\<close>, which has a program counter, as
  the worker can run between any two of its writes. \<open>int64_t\<close> values are integers. Messages to the log have no counterpart.
\<close>

section \<open>State\<close>

datatype DvrState = Idle | Recording | Disabled

datatype dvr_rpc = RPC_AU "u8 list" int bool | RPC_START | RPC_STOP | RPC_TOGGLE | RPC_DISABLE | RPC_ROTATE | RPC_FAIL string | RPC_SHUTDOWN

fun rpc_data :: "dvr_rpc \<Rightarrow> u8 list" where
  "rpc_data (RPC_AU data pts keyframe) = data"
| "rpc_data _ = []"

datatype tick_pc = Tick_Idle | Tick_Loaded int | Tick_Declared | Tick_Disabled | Tick_Disarmed

datatype thread_step =
    Start_Recording | Stop_Recording | Toggle_Recording | Disable_Dvr | Shutdown_Dvr
  | Run_Posted "AccessUnit list" | Deliver AccessUnit | Encoder_Reset | Encoder_Failed string | Tick int

record Dvr =
  dv_state :: DvrState
  dv_armed :: bool
  dv_queue :: "dvr_rpc list"
  dv_queue_bytes :: u64
  dv_queue_overflow :: bool
  dv_busy_since :: int
  dv_stalled :: bool
  dv_tick :: tick_pc
  dv_posted :: "dvr_rpc list"
  dv_sched :: "thread_step list list"
  dv_segment_limit_ms :: int
  dv_segment_video_ticks :: int
  dv_nominal_fps :: int
  dv_storage :: StorageGuard
  dv_max_file_bytes :: u64
  dv_session_free_at_start :: u64
  dv_session_free_known :: bool
  dv_session_dev :: u64
  dv_session_dev_known :: bool
  dv_last_storage_check_ms :: int
  dv_storage_status_dev :: u64
  dv_storage_status_dev_known :: bool
  dv_storage_total_bytes :: u64
  dv_storage_total_known :: bool
  dv_pending_open :: bool
  dv_open_attempts :: int
  dv_writer :: TsWriter
  dv_current_filename :: string
  dv_frames_written :: u32
  dv_rec_start_pts :: int
  dv_last_good_duration :: int
  dv_osd_recording :: bool
  dv_osd_status :: nat
  dv_osd_available :: u64
  dv_keyframe_requests :: nat
  dv_files :: "(string \<times> u8 list) list"

text \<open>What one round of the worker gets from the system: the clock, the file system, the name that \<open>generate_filename\<close> builds
  (empty when the directory does not exist), and the answers to opening, writing, closing and removing a file. \<open>dv_files\<close> collects the
  closed files with what was written to them.\<close>

record dvr_io =
  di_now_busy :: int
  di_now_check :: int
  di_now_open :: int
  di_status_fs :: fs_io
  di_start_fs :: fs_io
  di_open_fs :: fs_io
  di_filename :: string
  di_open :: ts_io
  di_write :: ts_io
  di_close :: ts_io
  di_remove :: bool

definition TS_TIMEBASE_90K :: int where "TS_TIMEBASE_90K = 90000"
definition MS_TO_90K :: int where "MS_TO_90K = 90"
definition MAX_FRAME_DURATION_90K :: int where "MAX_FRAME_DURATION_90K = TS_TIMEBASE_90K div 4"
definition STORAGE_CHECK_INTERVAL_MS :: int where "STORAGE_CHECK_INTERVAL_MS = 3000"
definition MAX_CONSECUTIVE_WRITE_FAILURES :: u32 where "MAX_CONSECUTIVE_WRITE_FAILURES = 5"
definition MAX_OPEN_ATTEMPTS :: int where "MAX_OPEN_ATTEMPTS = 3"
definition MAX_QUEUE_BYTES :: u64 where "MAX_QUEUE_BYTES = 32 * 1024 * 1024"
definition STORAGE_TIMEOUT_MS :: int where "STORAGE_TIMEOUT_MS = 5000"

definition new_Dvr :: "int \<Rightarrow> StorageGuard \<Rightarrow> int \<Rightarrow> thread_step list list \<Rightarrow> Dvr" where
  "new_Dvr segment_minutes guard fps sched =
     \<lparr>dv_state = Idle, dv_armed = False, dv_queue = [], dv_queue_bytes = 0, dv_queue_overflow = False, dv_busy_since = 0,
      dv_stalled = False, dv_tick = Tick_Idle, dv_posted = [], dv_sched = sched, dv_segment_limit_ms = segment_minutes * 60 * 1000,
      dv_segment_video_ticks = 0, dv_nominal_fps = (if fps > 0 then fps else 60), dv_storage = guard, dv_max_file_bytes = 0,
      dv_session_free_at_start = 0, dv_session_free_known = False, dv_session_dev = 0, dv_session_dev_known = False,
      dv_last_storage_check_ms = 0, dv_storage_status_dev = 0, dv_storage_status_dev_known = False, dv_storage_total_bytes = 0,
      dv_storage_total_known = False, dv_pending_open = False, dv_open_attempts = 0, dv_writer = new_TsWriter,
      dv_current_filename = [], dv_frames_written = 0, dv_rec_start_pts = -1, dv_last_good_duration = 0, dv_osd_recording = False,
      dv_osd_status = 0, dv_osd_available = 0, dv_keyframe_requests = 0, dv_files = []\<rparr>"

section \<open>The other threads\<close>

definition cas_idle :: "Dvr \<Rightarrow> Dvr" where
  "cas_idle d = (if dv_state d = Recording then d\<lparr>dv_state := Idle\<rparr> else d)"

definition enqueue :: "dvr_rpc \<Rightarrow> Dvr \<Rightarrow> Dvr" where
  "enqueue rpc d = d\<lparr>dv_queue_bytes := dv_queue_bytes d + of_nat (length (rpc_data rpc)), dv_queue := dv_queue d @ [rpc]\<rparr>"

text \<open>\<open>post\<close> hands a function to the encoder thread, which later delivers the pending access units and then queues the command.\<close>

definition enqueue_dvr_command :: "dvr_rpc \<Rightarrow> Dvr \<Rightarrow> Dvr" where
  "enqueue_dvr_command rpc d =
     (if rpc \<in> {RPC_START, RPC_TOGGLE} \<and> dv_state d = Disabled then d else d\<lparr>dv_posted := dv_posted d @ [rpc]\<rparr>)"

definition disable :: "Dvr \<Rightarrow> Dvr" where
  "disable d = (if dv_state d = Disabled then d else enqueue_dvr_command RPC_DISABLE (d\<lparr>dv_state := Disabled\<rparr>))"

definition on_access_unit :: "AccessUnit \<Rightarrow> Dvr \<Rightarrow> Dvr" where
  "on_access_unit au d =
     (if \<not> dv_armed d \<or> au_data au = [] then d
      else if dv_queue_bytes d + of_nat (length (au_data au)) > MAX_QUEUE_BYTES then d\<lparr>dv_queue_overflow := True\<rparr>
      else d\<lparr>dv_queue_bytes := dv_queue_bytes d + of_nat (length (au_data au)),
             dv_queue := dv_queue d @ [RPC_AU (au_data au) (au_pts_ms au) (au_keyframe au)]\<rparr>)"

fun is_au :: "dvr_rpc \<Rightarrow> bool" where
  "is_au (RPC_AU data pts keyframe) = True"
| "is_au _ = False"

definition on_tick :: "int \<Rightarrow> Dvr \<Rightarrow> Dvr" where
  "on_tick now d =
     (case dv_tick d of
        Tick_Idle \<Rightarrow> if dv_busy_since d = 0 then d else d\<lparr>dv_tick := Tick_Loaded (dv_busy_since d)\<rparr>
      | Tick_Loaded since \<Rightarrow>
          if now - since < STORAGE_TIMEOUT_MS \<or> dv_state d = Disabled \<or> dv_stalled d then d\<lparr>dv_tick := Tick_Idle\<rparr>
          else d\<lparr>dv_stalled := True, dv_tick := Tick_Declared\<rparr>
      | Tick_Declared \<Rightarrow> d\<lparr>dv_state := Disabled, dv_tick := Tick_Disabled\<rparr>
      | Tick_Disabled \<Rightarrow> d\<lparr>dv_armed := False, dv_tick := Tick_Disarmed\<rparr>
      | Tick_Disarmed \<Rightarrow> d\<lparr>dv_queue := filter (\<lambda>r. \<not> is_au r) (dv_queue d), dv_queue_bytes := 0, dv_queue_overflow := False,
          dv_osd_recording := False, dv_osd_status := 0, dv_tick := Tick_Idle\<rparr>)"

definition encoder_thread :: "(Dvr \<Rightarrow> Dvr) \<Rightarrow> Dvr \<Rightarrow> Dvr" where
  "encoder_thread f d = (if dv_tick d = Tick_Idle then f d else d)"

fun run_step :: "thread_step \<Rightarrow> Dvr \<Rightarrow> Dvr" where
  "run_step Start_Recording d = enqueue_dvr_command RPC_START d"
| "run_step Stop_Recording d = enqueue_dvr_command RPC_STOP (cas_idle d)"
| "run_step Toggle_Recording d = enqueue_dvr_command RPC_TOGGLE d"
| "run_step Disable_Dvr d = disable d"
| "run_step Shutdown_Dvr d = enqueue_dvr_command RPC_SHUTDOWN (cas_idle d)"
| "run_step (Run_Posted aus) d = encoder_thread (\<lambda>d. case dv_posted d of [] \<Rightarrow> d
     | rpc # rest \<Rightarrow> enqueue rpc (fold on_access_unit aus (d\<lparr>dv_posted := rest\<rparr>))) d"
| "run_step (Deliver au) d = encoder_thread (on_access_unit au) d"
| "run_step Encoder_Reset d = encoder_thread (enqueue RPC_ROTATE) d"
| "run_step (Encoder_Failed reason) d = encoder_thread (enqueue (RPC_FAIL reason)) d"
| "run_step (Tick now) d = on_tick now d"

definition interfere :: "Dvr \<Rightarrow> Dvr" where
  "interfere d = (case dv_sched d of [] \<Rightarrow> d | es # rest \<Rightarrow> fold run_step es (d\<lparr>dv_sched := rest\<rparr>))"

section \<open>Files\<close>

definition is_open :: "Dvr \<Rightarrow> bool" where
  "is_open d \<longleftrightarrow> tw_file (dv_writer d) \<noteq> None"

definition finalize_current_file :: "dvr_io \<Rightarrow> Dvr \<Rightarrow> Dvr" where
  "finalize_current_file io d =
     (if \<not> is_open d \<and> dv_current_filename d = [] then d
      else let empty = (dv_frames_written d = 0);
               (k, w, content) = ts_close (di_close io) (dv_writer d);
               removed = empty \<and> dv_current_filename d \<noteq> [] \<and> di_remove io;
               files = (case content of Some f \<Rightarrow> if removed then [] else [(dv_current_filename d, f)] | None \<Rightarrow> [])
           in d\<lparr>dv_writer := w, dv_files := dv_files d @ files, dv_current_filename := [], dv_segment_video_ticks := 0\<rparr>)"

definition request_rotate :: "Dvr \<Rightarrow> Dvr" where
  "request_rotate d =
     (if dv_pending_open d then d else d\<lparr>dv_pending_open := True, dv_keyframe_requests := dv_keyframe_requests d + 1\<rparr>)"

definition stop :: "dvr_io \<Rightarrow> Dvr \<Rightarrow> Dvr" where
  "stop io d =
     (let d = (interfere d)\<lparr>dv_armed := False\<rparr>;
          d = d\<lparr>dv_pending_open := False\<rparr>;
          d = (interfere d)\<lparr>dv_queue_overflow := False\<rparr>;
          d = d\<lparr>dv_osd_recording := False\<rparr>;
          d = cas_idle (interfere d)
      in finalize_current_file io d)"

definition fail :: "dvr_io \<Rightarrow> bool \<Rightarrow> Dvr \<Rightarrow> Dvr" where
  "fail io fatal d =
     (let d = interfere d in
      if fatal \<and> dv_state d = Disabled then d
      else let d = stop io d in if fatal then (interfere d)\<lparr>dv_state := Disabled\<rparr> else d)"

definition open_output_file :: "dvr_io \<Rightarrow> Dvr \<Rightarrow> bool \<times> Dvr" where
  "open_output_file io d =
     (if di_filename io = [] then (False, d)
      else let (k, w) = ts_open (di_open io) (dv_writer d); d = d\<lparr>dv_writer := w\<rparr> in
        if \<not> k then (False, d)
        else let d = d\<lparr>dv_current_filename := di_filename io\<rparr>; (k, w) = begin_video (dv_writer d); d = d\<lparr>dv_writer := w\<rparr> in
          if \<not> k then let (c, w, content) = ts_close (di_close io) (dv_writer d) in
            (False, d\<lparr>dv_writer := w, dv_current_filename := []\<rparr>)
          else let fs = di_open_fs io in
            (True, d\<lparr>dv_max_file_bytes := file_size_cap fs,
              dv_session_dev_known := device_id fs \<noteq> None,
              dv_session_dev := (case device_id fs of Some v \<Rightarrow> v | None \<Rightarrow> dv_session_dev d),
              dv_session_free_known := free_bytes fs \<noteq> None,
              dv_session_free_at_start := (case free_bytes fs of Some n \<Rightarrow> n | None \<Rightarrow> 0),
              dv_last_storage_check_ms := di_now_open io\<rparr>))"

definition open_next_file :: "dvr_io \<Rightarrow> Dvr \<Rightarrow> bool \<times> Dvr" where
  "open_next_file io d =
     (let d = finalize_current_file io d;
          d = d\<lparr>dv_frames_written := 0, dv_rec_start_pts := -1, dv_segment_video_ticks := 0\<rparr>;
          (k, d) = open_output_file io d
      in if \<not> k then
           let d = d\<lparr>dv_open_attempts := dv_open_attempts d + 1\<rparr> in
           (False, if dv_open_attempts d \<ge> MAX_OPEN_ATTEMPTS then fail io True d else d)
         else (True, d\<lparr>dv_open_attempts := 0\<rparr>))"

definition next_frame_duration :: "int \<Rightarrow> Dvr \<Rightarrow> int \<times> Dvr" where
  "next_frame_duration pts d =
     (let default_duration = TS_TIMEBASE_90K div dv_nominal_fps d;
          d = (if dv_rec_start_pts d < 0 then d\<lparr>dv_rec_start_pts := pts\<rparr> else d);
          target = (pts - dv_rec_start_pts d) * MS_TO_90K;
          duration = target - dv_segment_video_ticks d;
          duration = (if duration < 1 then 1 else duration);
          (duration, d) =
            (if duration > MAX_FRAME_DURATION_90K
             then (if dv_last_good_duration d > 0 then dv_last_good_duration d else default_duration, d\<lparr>dv_segment_video_ticks := target\<rparr>)
             else (duration, d))
      in (duration, d\<lparr>dv_last_good_duration := duration, dv_segment_video_ticks := dv_segment_video_ticks d + duration\<rparr>))"

section \<open>Commands\<close>

definition start :: "dvr_io \<Rightarrow> Dvr \<Rightarrow> Dvr" where
  "start io d =
     (if is_ready (dv_storage d) (di_start_fs io) \<noteq> None then d\<lparr>dv_osd_recording := False\<rparr>
      else let d = interfere d in
        if dv_state d \<noteq> Idle then d\<lparr>dv_osd_recording := False\<rparr>
        else let d = d\<lparr>dv_state := Recording\<rparr>;
                 d = d\<lparr>dv_frames_written := 0, dv_rec_start_pts := -1, dv_segment_video_ticks := 0, dv_open_attempts := 0,
                   dv_pending_open := True\<rparr>;
                 d = (interfere d)\<lparr>dv_armed := True\<rparr>
             in d\<lparr>dv_osd_recording := True, dv_keyframe_requests := dv_keyframe_requests d + 1\<rparr>)"

text \<open>The end of \<open>handle_access_unit\<close>, behind a successful opening.\<close>

definition write_unit :: "dvr_io \<Rightarrow> u8 list \<Rightarrow> int \<Rightarrow> Dvr \<Rightarrow> Dvr option" where
  "write_unit io data pts d =
     (if \<not> is_open d then Some d
      else do {
        let (duration, d) = next_frame_duration pts d;
        (k, w) \<leftarrow> write_nal (di_write io) data duration (dv_writer d);
        let d = d\<lparr>dv_writer := w\<rparr>;
        let d = (if k then d\<lparr>dv_frames_written := dv_frames_written d + 1\<rparr> else d);
        let d = (if dv_max_file_bytes d > 0 \<and> tw_file_size_bytes w \<ge> dv_max_file_bytes d then request_rotate d
                 else if dv_segment_limit_ms d > 0 \<and> dv_segment_video_ticks d \<ge> dv_segment_limit_ms d * MS_TO_90K then request_rotate d
                 else d);
        Some (if tw_write_fail_streak w \<ge> MAX_CONSECUTIVE_WRITE_FAILURES then fail io True d else d) })"

definition handle_access_unit :: "dvr_io \<Rightarrow> u8 list \<Rightarrow> int \<Rightarrow> bool \<Rightarrow> Dvr \<Rightarrow> Dvr option" where
  "handle_access_unit io data pts keyframe d =
     (let d = interfere d in
      if \<not> dv_armed d then Some d
      else let d = interfere d; overflowed = dv_queue_overflow d; d = d\<lparr>dv_queue_overflow := False\<rparr> in
        if overflowed then Some (fail io True d)
        else if dv_pending_open d then
          if \<not> keyframe then Some d
          else let (k, d) = open_next_file io d in
            if \<not> k then Some d else write_unit io data pts (d\<lparr>dv_pending_open := False\<rparr>)
        else write_unit io data pts d)"

section \<open>The worker\<close>

definition file_active :: "Dvr \<Rightarrow> bool \<times> Dvr" where
  "file_active d = (let d = interfere d in (dv_armed d \<and> is_open d, d))"

definition forget_storage :: "Dvr \<Rightarrow> Dvr" where
  "forget_storage d = d\<lparr>dv_storage_status_dev_known := False, dv_storage_total_known := False, dv_osd_status := 0\<rparr>"

definition publish_storage :: "dvr_io \<Rightarrow> u64 \<Rightarrow> Dvr \<Rightarrow> Dvr" where
  "publish_storage io available d =
     (let (active, d) = file_active d;
          d = (if active \<and> dv_session_free_known d \<and> \<not> has_enough_free (dv_storage d) available then fail io False d else d);
          min_free = sg_min_free_bytes (dv_storage d);
          low_space = (available \<le> min_free \<or> dv_storage_total_bytes d > 0 \<and> available < dv_storage_total_bytes d div 10)
      in d\<lparr>dv_osd_available := (if available > min_free then available - min_free else 0), dv_osd_status := (if low_space then 2 else 1)\<rparr>)"

definition update_storage_status :: "dvr_io \<Rightarrow> bool \<Rightarrow> Dvr \<Rightarrow> Dvr" where
  "update_storage_status io force d =
     (let fs = di_status_fs io in
      if \<not> force \<and> di_now_check io - dv_last_storage_check_ms d < STORAGE_CHECK_INTERVAL_MS then d
      else let d = d\<lparr>dv_last_storage_check_ms := di_now_check io\<rparr> in
        if \<not> mount_ok (dv_storage d) fs then
          let (active, d) = file_active d in forget_storage (if active then fail io True d else d)
        else case device_id fs of
          None \<Rightarrow> let (active, d) = file_active d in forget_storage (if active \<and> dv_session_dev_known d then fail io True d else d)
        | Some now_dev \<Rightarrow>
            let same = dv_session_dev_known d \<and> now_dev = dv_session_dev d; (active, d) = file_active d in
            if active \<and> dv_session_dev_known d \<and> \<not> same then (fail io True d)\<lparr>dv_osd_status := 0\<rparr>
            else if (\<not> dv_storage_status_dev_known d \<or> now_dev \<noteq> dv_storage_status_dev d) \<or> \<not> dv_storage_total_known d then
              (case space_bytes fs of
                 None \<Rightarrow> d\<lparr>dv_osd_status := 0\<rparr>
               | Some (available, total_bytes) \<Rightarrow> publish_storage io available
                   (d\<lparr>dv_storage_total_bytes := total_bytes, dv_storage_status_dev := now_dev, dv_storage_status_dev_known := True,
                      dv_storage_total_known := True\<rparr>))
            else let (active, d) = file_active d in
              if active \<and> dv_session_free_known d \<and> same then
                let written = tw_file_size_bytes (dv_writer d) in
                publish_storage io (if dv_session_free_at_start d > written then dv_session_free_at_start d - written else 0) d
              else (case free_bytes fs of
                 None \<Rightarrow> d\<lparr>dv_osd_status := 0\<rparr>
               | Some available \<Rightarrow> publish_storage io available d))"

definition finish_storage_work :: "dvr_io \<Rightarrow> Dvr \<Rightarrow> bool \<times> Dvr" where
  "finish_storage_work io d =
     (let d = (interfere d)\<lparr>dv_busy_since := 0\<rparr>;
          d = interfere d
      in if \<not> dv_stalled d then (False, d) else (True, stop io (d\<lparr>dv_stalled := False\<rparr>)))"

definition finish_round :: "dvr_io \<Rightarrow> Dvr \<Rightarrow> bool \<times> Dvr" where
  "finish_round io d =
     (let (k, d) = finish_storage_work io d in
      if k then (True, d) else let d = interfere d in (dv_state d = Disabled, d))"

definition when_armed :: "(Dvr \<Rightarrow> Dvr) \<Rightarrow> (Dvr \<Rightarrow> Dvr) \<Rightarrow> Dvr \<Rightarrow> Dvr" where
  "when_armed f g d = (let d = interfere d in if dv_armed d then f d else g d)"

fun handle_rpc :: "dvr_io \<Rightarrow> dvr_rpc \<Rightarrow> Dvr \<Rightarrow> Dvr option" where
  "handle_rpc io (RPC_AU data pts keyframe) d = handle_access_unit io data pts keyframe d"
| "handle_rpc io RPC_START d = Some (when_armed id (start io) d)"
| "handle_rpc io RPC_STOP d = Some (when_armed (stop io) id d)"
| "handle_rpc io RPC_TOGGLE d = Some (when_armed (stop io) (start io) d)"
| "handle_rpc io RPC_DISABLE d = Some ((when_armed (stop io) id d)\<lparr>dv_osd_recording := False\<rparr>)"
| "handle_rpc io RPC_ROTATE d = Some (when_armed request_rotate id d)"
| "handle_rpc io (RPC_FAIL reason) d = Some (when_armed (fail io True) id d)"
| "handle_rpc io RPC_SHUTDOWN d = Some d"

text \<open>One round of \<open>loop\<close>; \<open>True\<close> ends it.\<close>

definition worker_round :: "dvr_io \<Rightarrow> Dvr \<Rightarrow> (bool \<times> Dvr) option" where
  "worker_round io d =
     (let d = interfere d in
      case dv_queue d of
        [] \<Rightarrow> let d = (interfere d)\<lparr>dv_busy_since := di_now_busy io\<rparr> in Some (finish_round io (update_storage_status io True d))
      | rpc # rest \<Rightarrow>
          let d = d\<lparr>dv_queue := rest, dv_queue_bytes := dv_queue_bytes d - of_nat (length (rpc_data rpc))\<rparr>;
              d = (interfere d)\<lparr>dv_busy_since := di_now_busy io\<rparr>;
              d = interfere (update_storage_status io False d)
          in if dv_state d = Disabled \<and> rpc \<noteq> RPC_SHUTDOWN \<and> rpc \<noteq> RPC_DISABLE then Some (True, snd (finish_storage_work io d))
             else if rpc = RPC_SHUTDOWN then Some (True, d)
             else do { d \<leftarrow> handle_rpc io rpc d; Some (finish_round io d) })"

definition worker_end :: "dvr_io \<Rightarrow> Dvr \<Rightarrow> Dvr" where
  "worker_end io d =
     (let d = when_armed (stop io) id d;
          (k, d) = finish_storage_work io d
      in (interfere d)\<lparr>dv_queue := [], dv_queue_bytes := 0, dv_queue_overflow := False\<rparr>)"

text \<open>The rounds of the worker, as many as \<open>ios\<close>; \<open>True\<close>: the thread has ended, with the answers \<open>final\<close>.\<close>

fun loop :: "dvr_io list \<Rightarrow> dvr_io \<Rightarrow> Dvr \<Rightarrow> (bool \<times> Dvr) option" where
  "loop [] final d = Some (False, d)"
| "loop (io # ios) final d = do {
     (finished, d) \<leftarrow> worker_round io d;
     if finished then Some (True, worker_end final d) else loop ios final d }"

section \<open>Interference\<close>

text \<open>The length of an access unit is an \<open>int\<close>.\<close>

definition au_ok :: "bool \<Rightarrow> AccessUnit \<Rightarrow> bool" where
  "au_ok clean au \<longleftrightarrow> length (au_data au) < 2 ^ 31 \<and> (clean \<longrightarrow> au_keyframe au \<longrightarrow> au_is_keyframe (au_data au))"

fun step_ok :: "bool \<Rightarrow> thread_step \<Rightarrow> bool" where
  "step_ok clean (Run_Posted aus) = list_all (au_ok clean) aus"
| "step_ok clean (Deliver au) = au_ok clean au"
| "step_ok clean _ = True"

definition sched_ok :: "bool \<Rightarrow> Dvr \<Rightarrow> bool" where
  "sched_ok clean d \<longleftrightarrow> list_all (list_all (step_ok clean)) (dv_sched d)"

text \<open>What the steps of the other threads keep, holds after any interference.\<close>

locale shared_invariant =
  fixes clean :: bool and P :: "Dvr \<Rightarrow> bool"
  assumes step: "\<lbrakk>P d; step_ok clean e\<rbrakk> \<Longrightarrow> P (run_step e d)"
    and sched: "P d \<Longrightarrow> P (d\<lparr>dv_sched := s\<rparr>)"
begin

lemma steps: "\<lbrakk>P d; list_all (step_ok clean) es\<rbrakk> \<Longrightarrow> P (fold run_step es d)"
  by (induction es arbitrary: d) (simp_all add: step)

lemma interfere: "\<lbrakk>P d; sched_ok clean d\<rbrakk> \<Longrightarrow> P (interfere d)"
  by (auto simp: interfere_def sched_ok_def sched steps split: list.split)

end

lemma run_step_intro:
  assumes "P d" "step_ok clean e"
    and unit: "\<And>au d. \<lbrakk>P d; au_ok clean au\<rbrakk> \<Longrightarrow> P (on_access_unit au d)"
    and enq: "\<And>rpc d. P d \<Longrightarrow> P (enqueue rpc d)"
    and posted: "\<And>ps d. P d \<Longrightarrow> P (d\<lparr>dv_posted := ps\<rparr>)"
    and idle: "\<And>d. P d \<Longrightarrow> P (cas_idle d)"
    and dis: "\<And>d. P d \<Longrightarrow> P (d\<lparr>dv_state := Disabled\<rparr>)"
    and tick: "\<And>now d. P d \<Longrightarrow> P (on_tick now d)"
  shows "P (run_step e d)"
proof -
  have units: "P (fold on_access_unit aus d)" if "P d" "list_all (au_ok clean) aus" for aus d
    using that by (induction aus arbitrary: d) (simp_all add: unit)
  have cmd: "P (enqueue_dvr_command rpc d)" if "P d" for rpc d
    using that posted by (simp add: enqueue_dvr_command_def)
  show ?thesis
    using assms(1,2)
    by (cases e) (auto simp: cmd idle dis tick enq unit units posted disable_def encoder_thread_def split: list.split)
qed

lemma on_tick_cases:
  assumes "P d"
    and "\<And>t d. P d \<Longrightarrow> dv_tick d = Tick_Idle \<Longrightarrow> P (d\<lparr>dv_tick := Tick_Loaded t\<rparr>)"
    and "\<And>s d. P d \<Longrightarrow> dv_tick d = Tick_Loaded s \<Longrightarrow> P (d\<lparr>dv_tick := Tick_Idle\<rparr>)"
    and "\<And>s d. P d \<Longrightarrow> dv_tick d = Tick_Loaded s \<Longrightarrow> P (d\<lparr>dv_stalled := True, dv_tick := Tick_Declared\<rparr>)"
    and "P d \<Longrightarrow> dv_tick d = Tick_Declared \<Longrightarrow> P (d\<lparr>dv_state := Disabled, dv_tick := Tick_Disabled\<rparr>)"
    and "P d \<Longrightarrow> dv_tick d = Tick_Disabled \<Longrightarrow> P (d\<lparr>dv_armed := False, dv_tick := Tick_Disarmed\<rparr>)"
    and "P d \<Longrightarrow> dv_tick d = Tick_Disarmed \<Longrightarrow> P (d\<lparr>dv_queue := filter (\<lambda>r. \<not> is_au r) (dv_queue d), dv_queue_bytes := 0,
        dv_queue_overflow := False, dv_osd_recording := False, dv_osd_status := 0, dv_tick := Tick_Idle\<rparr>)"
  shows "P (on_tick now d)"
  using assms by (auto simp: on_tick_def split: tick_pc.split)

interpretation latch: shared_invariant clean "\<lambda>d. dv_state d = Disabled" for clean
proof
  fix d :: Dvr and e assume "dv_state d = Disabled" "step_ok clean e"
  then show "dv_state (run_step e d) = Disabled"
    by (rule run_step_intro [where P = "\<lambda>d. dv_state d = Disabled"])
      (auto simp: on_access_unit_def enqueue_def cas_idle_def intro: on_tick_cases [where P = "\<lambda>d. dv_state d = Disabled"])
qed simp

lemma sched_run_step [simp]: "dv_sched (run_step e d) = dv_sched d"
proof -
  have units: "dv_sched (fold on_access_unit aus d) = dv_sched d" for aus d
    by (induction aus arbitrary: d) (simp_all add: on_access_unit_def)
  show ?thesis
    by (cases e) (auto simp: units enqueue_dvr_command_def cas_idle_def disable_def encoder_thread_def enqueue_def on_access_unit_def on_tick_def
        split: list.split tick_pc.split)
qed

lemma sched_ok_interfere [simp]: "sched_ok clean d \<Longrightarrow> sched_ok clean (interfere d)"
proof -
  have "dv_sched (fold run_step es d) = dv_sched d" for es d
    by (induction es arbitrary: d) simp_all
  then show "sched_ok clean d \<Longrightarrow> sched_ok clean (interfere d)"
    by (auto simp: sched_ok_def interfere_def split: list.splits)
qed

text \<open>\<open>on_tick\<close> disables the recorder after it has declared the stall, and disarms it after it has disabled it.\<close>

definition tick_ok :: "Dvr \<Rightarrow> bool" where
  "tick_ok d \<longleftrightarrow> (dv_tick d \<in> {Tick_Declared, Tick_Disabled} \<longrightarrow> dv_stalled d) \<and> (dv_tick d = Tick_Disabled \<longrightarrow> dv_state d = Disabled)"

interpretation disarmed: shared_invariant clean "\<lambda>d. \<not> dv_armed d" for clean
proof
  fix d :: Dvr and e assume "\<not> dv_armed d" "step_ok clean e"
  then show "\<not> dv_armed (run_step e d)"
    by (rule run_step_intro [where P = "\<lambda>d. \<not> dv_armed d"])
      (auto simp: on_access_unit_def enqueue_def cas_idle_def on_tick_def split: tick_pc.split)
qed simp

interpretation not_recording: shared_invariant clean "\<lambda>d. dv_state d \<noteq> Recording" for clean
proof
  fix d :: Dvr and e assume "dv_state d \<noteq> Recording" "step_ok clean e"
  then show "dv_state (run_step e d) \<noteq> Recording"
    by (rule run_step_intro [where P = "\<lambda>d. dv_state d \<noteq> Recording"])
      (auto simp: on_access_unit_def enqueue_def cas_idle_def on_tick_def split: tick_pc.split)
qed simp

interpretation ticks: shared_invariant clean tick_ok for clean
proof
  fix d :: Dvr and e assume "tick_ok d" "step_ok clean e"
  then show "tick_ok (run_step e d)"
    by (rule run_step_intro) (auto simp: tick_ok_def on_access_unit_def enqueue_def cas_idle_def on_tick_def split: tick_pc.split)
qed (simp add: tick_ok_def)

interpretation active: shared_invariant clean "\<lambda>d. tick_ok d \<and> (dv_armed d \<or> dv_stalled d)" for clean
proof
  fix d :: Dvr and e assume "tick_ok d \<and> (dv_armed d \<or> dv_stalled d)" "step_ok clean e"
  then show "tick_ok (run_step e d) \<and> (dv_armed (run_step e d) \<or> dv_stalled (run_step e d))"
    by (rule run_step_intro [where P = "\<lambda>d. tick_ok d \<and> (dv_armed d \<or> dv_stalled d)"])
      (auto simp: tick_ok_def on_access_unit_def enqueue_def cas_idle_def on_tick_def split: tick_pc.split)
qed (simp add: tick_ok_def)

interpretation armed: shared_invariant clean "\<lambda>d. tick_ok d \<and> (dv_state d = Recording \<longrightarrow> dv_armed d)" for clean
proof
  fix d :: Dvr and e assume "tick_ok d \<and> (dv_state d = Recording \<longrightarrow> dv_armed d)" "step_ok clean e"
  then show "tick_ok (run_step e d) \<and> (dv_state (run_step e d) = Recording \<longrightarrow> dv_armed (run_step e d))"
    by (rule run_step_intro [where P = "\<lambda>d. tick_ok d \<and> (dv_state d = Recording \<longrightarrow> dv_armed d)"])
      (auto simp: tick_ok_def on_access_unit_def enqueue_def cas_idle_def on_tick_def split: tick_pc.split)
qed (simp add: tick_ok_def)

text \<open>What only the worker changes.\<close>

definition own_state :: "Dvr \<Rightarrow> Dvr" where
  "own_state d = d\<lparr>dv_state := Idle, dv_armed := False, dv_queue := [], dv_queue_bytes := 0, dv_queue_overflow := False,
     dv_stalled := False, dv_tick := Tick_Idle, dv_posted := [], dv_sched := [], dv_osd_recording := False, dv_osd_status := 0\<rparr>"

interpretation priv: shared_invariant clean "\<lambda>d. own_state d = p" for clean p
proof
  fix d :: Dvr and e assume "own_state d = p" "step_ok clean e"
  then show "own_state (run_step e d) = p"
    by (rule run_step_intro [where P = "\<lambda>d. own_state d = p"])
      (auto simp: own_state_def on_access_unit_def enqueue_def cas_idle_def on_tick_def split: tick_pc.split)
qed (simp add: own_state_def)

lemma interfere_private:
  assumes "sched_ok clean d"
  shows "dv_writer (interfere d) = dv_writer d" "dv_pending_open (interfere d) = dv_pending_open d"
    "dv_current_filename (interfere d) = dv_current_filename d" "dv_frames_written (interfere d) = dv_frames_written d"
    "dv_files (interfere d) = dv_files d" "dv_storage (interfere d) = dv_storage d"
    "dv_last_good_duration (interfere d) = dv_last_good_duration d" "dv_rec_start_pts (interfere d) = dv_rec_start_pts d"
    "dv_segment_video_ticks (interfere d) = dv_segment_video_ticks d"
proof -
  have "own_state (interfere d) = own_state d"
    by (rule priv.interfere [OF refl assms])
  note arg_cong [OF this]
  from this [of dv_writer] this [of dv_pending_open] this [of dv_current_filename] this [of dv_frames_written] this [of dv_files] this [of dv_storage] this [of dv_last_good_duration] this [of dv_rec_start_pts] this [of dv_segment_video_ticks]
  show "dv_writer (interfere d) = dv_writer d" "dv_pending_open (interfere d) = dv_pending_open d"
    "dv_current_filename (interfere d) = dv_current_filename d" "dv_frames_written (interfere d) = dv_frames_written d"
    "dv_files (interfere d) = dv_files d" "dv_storage (interfere d) = dv_storage d"
    "dv_last_good_duration (interfere d) = dv_last_good_duration d" "dv_rec_start_pts (interfere d) = dv_rec_start_pts d"
    "dv_segment_video_ticks (interfere d) = dv_segment_video_ticks d"
    by (simp_all add: own_state_def)
qed

end
