(* ===== verification/Dvr_Invariant.thy ===== *)
theory Dvr_Invariant
  imports Dvr_Worker
begin

text \<open>
  The recorder under every interleaving: its consistency, the latch of the disabled state, the files it leaves behind, and the timeline of a
  recording. \<open>keeps clean d d'\<close> is what every operation of the worker does to a consistent recorder. With \<open>clean\<close>, the
  file system takes what is written and the encoder marks as keyframes only units that hold one.
\<close>

section \<open>The worker keeps the recorder consistent\<close>

text \<open>The bytes in the queue are counted exactly and bounded; with \<open>clean\<close>, the units marked as keyframes hold one.\<close>

fun key_ok :: "dvr_rpc \<Rightarrow> bool" where
  "key_ok (RPC_AU data pts keyframe) \<longleftrightarrow> data \<noteq> [] \<and> (keyframe \<longrightarrow> au_is_keyframe data)"
| "key_ok _ \<longleftrightarrow> True"

definition queue_ok :: "bool \<Rightarrow> Dvr \<Rightarrow> bool" where
  "queue_ok clean d \<longleftrightarrow> unat (dv_queue_bytes d) = sum_list (map (length \<circ> rpc_data) (dv_queue d)) \<and> dv_queue_bytes d \<le> MAX_QUEUE_BYTES
     \<and> list_all (\<lambda>r. \<not> is_au r) (dv_posted d) \<and> (clean \<longrightarrow> list_all key_ok (dv_queue d))"

lemma not_au: "\<not> is_au r \<Longrightarrow> rpc_data r = [] \<and> key_ok r"
  by (cases r) simp_all

lemma queue_ok_unit:
  assumes "queue_ok clean d" "au_ok clean au"
  shows "queue_ok clean (on_access_unit au d)"
proof -
  let ?n = "of_nat (length (au_data au)) :: u64"
  have n: "unat ?n = length (au_data au)"
    using assms(2) by (simp add: au_ok_def unat_of_nat)
  have "unat (dv_queue_bytes d) \<le> 32 * 1024 * 1024"
    using assms(1) by (simp add: queue_ok_def MAX_QUEUE_BYTES_def word_le_nat_alt)
  then have "unat (dv_queue_bytes d + ?n) = unat (dv_queue_bytes d) + length (au_data au)"
    using assms(2) n by (subst unat_add_lem [THEN iffD1]) (simp_all add: au_ok_def)
  then show ?thesis
    using assms by (auto simp: on_access_unit_def queue_ok_def au_ok_def)
qed

interpretation queue: shared_invariant clean "queue_ok clean" for clean
proof
  fix d e assume d: "queue_ok clean d" and e: "step_ok clean e"
  have units: "queue_ok clean (fold on_access_unit aus d)" if "queue_ok clean d" "list_all (au_ok clean) aus" for aus d
    using that by (induction aus arbitrary: d) (simp_all add: queue_ok_unit)
  have posted: "dv_posted (fold on_access_unit aus d) = dv_posted d" for aus d
    by (induction aus arbitrary: d) (simp_all add: on_access_unit_def)
  have enq: "queue_ok clean (enqueue r d)" if "queue_ok clean d" "\<not> is_au r" for r d
    using that not_au [OF that(2)] by (simp add: queue_ok_def enqueue_def)
  have post: "queue_ok clean (enqueue_dvr_command r d)" if "queue_ok clean d" "\<not> is_au r" for r d
    using that by (simp add: queue_ok_def enqueue_dvr_command_def)
  have idle: "queue_ok clean (cas_idle d)" "queue_ok clean (d\<lparr>dv_state := Disabled\<rparr>)" if "queue_ok clean d" for d
    using that by (simp_all add: queue_ok_def cas_idle_def)
  have rest: "queue_ok clean (d\<lparr>dv_posted := rest\<rparr>)" if "dv_posted d = r # rest" "queue_ok clean d" for r rest
    using that by (simp add: queue_ok_def)
  have tick: "queue_ok clean (on_tick now d)" for now
  proof (rule on_tick_cases [where P = "queue_ok clean", OF d])
    have "sum_list (map (length \<circ> rpc_data) (filter (\<lambda>r. \<not> is_au r) q)) = 0" "list_all key_ok (filter (\<lambda>r. \<not> is_au r) q)" for q
      by (induction q) (auto simp: not_au)
    then show "queue_ok clean (d\<lparr>dv_queue := filter (\<lambda>r. \<not> is_au r) (dv_queue d), dv_queue_bytes := 0,
        dv_queue_overflow := False, dv_osd_recording := False, dv_osd_status := 0, dv_tick := Tick_Idle\<rparr>)"
      using d by (simp add: queue_ok_def)
  qed (simp_all add: queue_ok_def)
  have run: "queue_ok clean (enqueue r (fold on_access_unit aus (d\<lparr>dv_posted := rest\<rparr>)))"
    if "dv_posted d = r # rest" "list_all (au_ok clean) aus" for r rest aus
    using that d by (intro enq units rest) (simp_all add: queue_ok_def)
  show "queue_ok clean (run_step e d)"
    using d e by (cases e) (auto simp: post idle enq tick run queue_ok_unit disable_def encoder_thread_def split: list.split)
qed (simp add: queue_ok_def)

text \<open>A playable file: a stream that begins with the tables and a random access point.\<close>

definition keyed :: "ts_packet list \<Rightarrow> bool" where
  "keyed ps \<longleftrightarrow> (case found_units ps of [] \<Rightarrow> False | (rai, u) # us \<Rightarrow> rai)"

definition playable :: "u8 list \<Rightarrow> bool" where
  "playable f \<longleftrightarrow> (\<exists>ps. ts_demux f = Some ps \<and> tables_ok ps \<and> counters_ok ps \<and> tables_first ps \<and> keyed ps)"

definition files_ok :: "Dvr \<Rightarrow> bool" where
  "files_ok d \<longleftrightarrow> (\<forall>(name, f) \<in> set (dv_files d). playable f)"

text \<open>While the worker runs: an open file means that the recorder is armed, or that a stall was declared, whose end the worker will notice; and
  the recorder counts as recording only while it is armed. With \<open>clean\<close>, the closed files are playable, and the open
  one is, unless it is new and \<open>data\<close>, which holds a keyframe, is written next.\<close>

definition writable :: "bool \<Rightarrow> u8 list \<Rightarrow> Dvr \<Rightarrow> bool" where
  "writable clean data d \<longleftrightarrow> sched_ok clean d \<and> queue_ok clean d \<and> tw_wf (dv_writer d) \<and> tick_ok d
     \<and> (is_open d \<longrightarrow> dv_armed d \<or> dv_stalled d) \<and> (dv_state d = Recording \<longrightarrow> dv_armed d)
     \<and> (clean \<longrightarrow> files_ok d \<and> (is_open d \<longrightarrow> (\<exists>ps. muxed (dv_writer d) ps \<and> (if ps = [] then au_is_keyframe data else keyed ps))))"

definition dvr_inv :: "bool \<Rightarrow> Dvr \<Rightarrow> bool" where
  "dvr_inv clean d \<longleftrightarrow> writable clean [] d"

definition working :: "bool \<Rightarrow> Dvr \<Rightarrow> bool" where
  "working clean d \<longleftrightarrow> dvr_inv clean d \<and> (dv_armed d \<or> dv_stalled d)"

definition ended :: "bool \<Rightarrow> Dvr \<Rightarrow> bool" where
  "ended clean d \<longleftrightarrow> sched_ok clean d \<and> queue_ok clean d \<and> tw_wf (dv_writer d) \<and> \<not> is_open d \<and> \<not> dv_armed d \<and> dv_state d \<noteq> Recording
     \<and> (clean \<longrightarrow> files_ok d)"

lemma is_open_interfere [simp]: "sched_ok clean d \<Longrightarrow> is_open (interfere d) = is_open d"
  by (simp add: is_open_def interfere_private)

lemma files_ok_interfere [simp]: "sched_ok clean d \<Longrightarrow> files_ok (interfere d) = files_ok d"
  by (simp add: files_ok_def interfere_private)

lemma writable_interfere: "writable clean data d \<Longrightarrow> writable clean data (interfere d)"
proof -
  assume w: "writable clean data d"
  then have s: "sched_ok clean d" "tick_ok d" "queue_ok clean d" by (simp_all add: writable_def)
  have "tick_ok (interfere d)" "is_open d \<longrightarrow> dv_armed (interfere d) \<or> dv_stalled (interfere d)"
      "dv_state (interfere d) = Recording \<longrightarrow> dv_armed (interfere d)"
    using active.interfere [of d clean] armed.interfere [of d clean] ticks.interfere [OF s(2,1)] w by (auto simp: writable_def)
  then show ?thesis
    using w queue.interfere [OF s(3,1)] sched_ok_interfere [OF s(1)]
    unfolding writable_def is_open_def files_ok_def interfere_private [OF s(1)] by blast
qed

lemma dvr_inv_interfere: "dvr_inv clean d \<Longrightarrow> dvr_inv clean (interfere d)"
  by (simp add: dvr_inv_def writable_interfere)

lemma inv_parts:
  assumes "dvr_inv clean d"
  shows "sched_ok clean d" "tw_wf (dv_writer d)" "tick_ok d" "queue_ok clean d"
  using assms by (simp_all add: dvr_inv_def writable_def)

lemma working_interfere: "working clean d \<Longrightarrow> working clean (interfere d)"
  using active.interfere [of d clean] dvr_inv_interfere [of clean d] by (auto simp: working_def inv_parts)

lemma ended_interfere: "ended clean d \<Longrightarrow> ended clean (interfere d)"
proof -
  assume e: "ended clean d"
  then have s: "sched_ok clean d" "queue_ok clean d" "\<not> dv_armed d" "dv_state d \<noteq> Recording" by (simp_all add: ended_def)
  show ?thesis
    using e sched_ok_interfere [OF s(1)] queue.interfere [OF s(2,1)] disarmed.interfere [OF s(3,1)] not_recording.interfere [OF s(4,1)]
    unfolding ended_def is_open_def files_ok_def interfere_private [OF s(1)] by blast
qed

lemma ended_inv: "\<lbrakk>ended clean d; tick_ok d\<rbrakk> \<Longrightarrow> dvr_inv clean d"
  by (simp add: ended_def dvr_inv_def writable_def)

subsection \<open>Closing\<close>

definition rec_ok :: "Dvr \<Rightarrow> bool" where
  "rec_ok d \<longleftrightarrow> files_ok d \<and> (is_open d \<longrightarrow> (\<exists>ps. muxed (dv_writer d) ps \<and> keyed ps))"

definition stoppable :: "bool \<Rightarrow> Dvr \<Rightarrow> bool" where
  "stoppable clean d \<longleftrightarrow> sched_ok clean d \<and> queue_ok clean d \<and> tw_wf (dv_writer d) \<and> (clean \<longrightarrow> rec_ok d)"

lemma keyed_not_Nil: "keyed ps \<Longrightarrow> ps \<noteq> []"
  by (auto simp: keyed_def found_units_def)

lemma inv_rec: "dvr_inv clean d \<Longrightarrow> clean \<Longrightarrow> rec_ok d"
  by (auto simp: dvr_inv_def writable_def rec_ok_def split: if_splits)

lemma inv_stoppable: "dvr_inv clean d \<Longrightarrow> stoppable clean d"
  using inv_rec [of clean d] by (cases clean) (simp_all add: stoppable_def inv_parts)

lemma muxed_playable: "\<lbrakk>muxed w ps; keyed ps; tw_file w = Some f\<rbrakk> \<Longrightarrow> playable f"
  using keyed_not_Nil [of ps] by (auto simp: muxed_def playable_def)

lemma ts_close_file [simp]: "tw_file (fst (snd (ts_close io w))) = None" "tw_wf (fst (snd (ts_close io w))) = tw_wf w"
    "snd (snd (ts_close io w)) = tw_file w"
  by (simp_all add: ts_close_def sync_now_def tw_wf_def Let_def)

lemma finalize_fields [simp]:
  "dv_state (finalize_current_file io d) = dv_state d" "dv_armed (finalize_current_file io d) = dv_armed d"
  "dv_stalled (finalize_current_file io d) = dv_stalled d" "dv_tick (finalize_current_file io d) = dv_tick d"
  "dv_sched (finalize_current_file io d) = dv_sched d" "\<not> is_open (finalize_current_file io d)"
  "tw_wf (dv_writer (finalize_current_file io d)) = tw_wf (dv_writer d)"
  "dv_queue (finalize_current_file io d) = dv_queue d" "dv_queue_bytes (finalize_current_file io d) = dv_queue_bytes d"
  "dv_posted (finalize_current_file io d) = dv_posted d"
  by (auto simp: finalize_current_file_def is_open_def split_beta Let_def)

lemma finalize_files: "rec_ok d \<Longrightarrow> files_ok (finalize_current_file io d)"
  by (auto simp: rec_ok_def files_ok_def is_open_def finalize_current_file_def split_beta Let_def
      intro: muxed_playable split: option.splits if_splits)

lemma stoppable_interfere: "stoppable clean d \<Longrightarrow> stoppable clean (interfere d)"
proof -
  assume w: "stoppable clean d"
  then have s: "sched_ok clean d" "queue_ok clean d" by (simp_all add: stoppable_def)
  show ?thesis
    using w queue.interfere [OF s(2,1)] sched_ok_interfere [OF s(1)]
    unfolding stoppable_def rec_ok_def is_open_def files_ok_def interfere_private [OF s(1)] by blast
qed

lemma stoppable_update:
  assumes "stoppable clean d" "dv_sched d' = dv_sched d" "dv_queue d' = dv_queue d" "dv_queue_bytes d' = dv_queue_bytes d"
    "dv_posted d' = dv_posted d" "dv_writer d' = dv_writer d" "dv_files d' = dv_files d"
  shows "stoppable clean d'"
  using assms by (simp add: stoppable_def sched_ok_def queue_ok_def rec_ok_def files_ok_def is_open_def)

lemma stop_ended:
  assumes "stoppable clean d"
  shows "ended clean (stop io d)" "tick_ok d \<Longrightarrow> tick_ok (stop io d)" "dv_state d = Disabled \<Longrightarrow> dv_state (stop io d) = Disabled"
proof -
  define a where "a = (interfere d)\<lparr>dv_armed := False, dv_pending_open := False\<rparr>"
  define b where "b = (interfere a)\<lparr>dv_queue_overflow := False, dv_osd_recording := False\<rparr>"
  define c where "c = cas_idle (interfere b)"
  have stop: "stop io d = finalize_current_file io c"
    by (simp add: stop_def a_def b_def c_def Let_def)
  have a: "stoppable clean a"
    by (rule stoppable_update [OF stoppable_interfere [OF assms]]) (simp_all add: a_def)
  have b: "stoppable clean b"
    by (rule stoppable_update [OF stoppable_interfere [OF a]]) (simp_all add: b_def)
  have c: "stoppable clean c"
    by (rule stoppable_update [OF stoppable_interfere [OF b]]) (simp_all add: c_def cas_idle_def)
  have s: "sched_ok clean d" "sched_ok clean a" "sched_ok clean b"
    using assms a b by (simp_all add: stoppable_def)
  have "\<not> dv_armed (interfere a)"
    using s(2) by (intro disarmed.interfere) (simp_all add: a_def)
  then have "\<not> dv_armed (interfere b)"
    using s(3) by (intro disarmed.interfere) (simp_all add: b_def)
  then have "\<not> dv_armed c" "dv_state c \<noteq> Recording"
    by (simp_all add: c_def cas_idle_def)
  then show "ended clean (stop io d)"
    unfolding stop using c finalize_files [of c io] by (simp add: ended_def stoppable_def sched_ok_def queue_ok_def)
  show "tick_ok (stop io d)" if "tick_ok d"
  proof -
    have "tick_ok a" using ticks.interfere [OF that s(1)] by (simp add: a_def tick_ok_def)
    then have "tick_ok b" using ticks.interfere [OF _ s(2)] by (simp add: b_def tick_ok_def)
    then have "tick_ok (interfere b)" by (rule ticks.interfere [OF _ s(3)])
    then show ?thesis unfolding stop by (auto simp: tick_ok_def cas_idle_def c_def)
  qed
  show "dv_state (stop io d) = Disabled" if "dv_state d = Disabled"
  proof -
    have "dv_state a = Disabled" using latch.interfere [OF that s(1)] by (simp add: a_def)
    then have "dv_state b = Disabled" using latch.interfere [OF _ s(2)] by (simp add: b_def)
    then have "dv_state (interfere b) = Disabled" by (rule latch.interfere [OF _ s(3)])
    then show ?thesis unfolding stop by (simp add: cas_idle_def c_def)
  qed
qed

lemma stop_inv: "dvr_inv clean d \<Longrightarrow> dvr_inv clean (stop io d)"
  using stop_ended [OF inv_stoppable] by (auto intro: ended_inv simp: inv_parts)

lemma inv_update:
  assumes "dvr_inv clean d" "dv_state d' = dv_state d \<or> dv_state d' = Disabled" "dv_armed d' = dv_armed d" "dv_stalled d' = dv_stalled d"
    "dv_tick d' = dv_tick d" "dv_sched d' = dv_sched d" "dv_queue d' = dv_queue d" "dv_queue_bytes d' = dv_queue_bytes d"
    "dv_posted d' = dv_posted d" "dv_writer d' = dv_writer d" "dv_files d' = dv_files d"
  shows "dvr_inv clean d'"
  using assms by (auto simp: dvr_inv_def writable_def tick_ok_def sched_ok_def queue_ok_def files_ok_def is_open_def)

lemma fail_inv: "dvr_inv clean d \<Longrightarrow> dvr_inv clean (fail io fatal d)"
proof -
  assume "dvr_inv clean d"
  then have i: "dvr_inv clean (interfere d)" by (rule dvr_inv_interfere)
  have "dvr_inv clean ((interfere (stop io (interfere d)))\<lparr>dv_state := Disabled\<rparr>)"
    by (rule inv_update [OF dvr_inv_interfere [OF stop_inv [OF i]]]) simp_all
  with i stop_inv [OF i, of io] show ?thesis
    by (simp add: fail_def Let_def)
qed

lemma fail_latch: "\<lbrakk>dvr_inv clean d; dv_state d = Disabled\<rbrakk> \<Longrightarrow> dv_state (fail io fatal d) = Disabled"
  using latch.interfere [of d clean] stop_ended(3) [OF inv_stoppable [OF dvr_inv_interfere], of clean d io]
  by (auto simp: fail_def Let_def inv_parts)

text \<open>What every operation of the worker does to a consistent recorder.\<close>

definition keeps :: "bool \<Rightarrow> Dvr \<Rightarrow> Dvr \<Rightarrow> bool" where
  "keeps clean d d' \<longleftrightarrow> dvr_inv clean d' \<and> (dv_state d = Disabled \<longrightarrow> dv_state d' = Disabled)"

lemma keeps_refl: "dvr_inv clean d \<Longrightarrow> keeps clean d d"
  by (simp add: keeps_def)

lemma keeps_trans: "\<lbrakk>keeps clean d d'; keeps clean d' d''\<rbrakk> \<Longrightarrow> keeps clean d d''"
  by (simp add: keeps_def)

lemma keeps_inv: "keeps clean d d' \<Longrightarrow> dvr_inv clean d'"
  by (simp add: keeps_def)

lemma keeps_stop: "dvr_inv clean d \<Longrightarrow> keeps clean d (stop io d)"
  using stop_inv stop_ended(3) [OF inv_stoppable] by (auto simp: keeps_def)

lemma keeps_fail: "dvr_inv clean d \<Longrightarrow> keeps clean d (fail io fatal d)"
  using fail_inv fail_latch by (auto simp: keeps_def)

lemma keeps_interfere: "dvr_inv clean d \<Longrightarrow> keeps clean d (interfere d)"
  using dvr_inv_interfere latch.interfere [of d clean] by (auto simp: keeps_def inv_parts)

lemma keeps_update:
  assumes "dvr_inv clean d" "dv_state d' = dv_state d" "dv_armed d' = dv_armed d" "dv_stalled d' = dv_stalled d" "dv_tick d' = dv_tick d"
    "dv_sched d' = dv_sched d" "dv_queue d' = dv_queue d" "dv_queue_bytes d' = dv_queue_bytes d" "dv_posted d' = dv_posted d"
    "dv_writer d' = dv_writer d" "dv_files d' = dv_files d"
  shows "keeps clean d d'"
  using inv_update [of clean d d'] assms by (simp add: keeps_def)

subsection \<open>Opening and writing\<close>

text \<open>The parts of the state on which consistency depends, for a recorder whose file was exchanged.\<close>

lemma writable_file:
  assumes "working clean d" "dv_state d' = dv_state d" "dv_armed d' = dv_armed d" "dv_stalled d' = dv_stalled d" "dv_tick d' = dv_tick d"
    "dv_sched d' = dv_sched d" "dv_queue d' = dv_queue d" "dv_queue_bytes d' = dv_queue_bytes d" "dv_posted d' = dv_posted d"
    "tw_wf (dv_writer d')" "clean \<Longrightarrow> files_ok d'"
    "clean \<Longrightarrow> is_open d' \<Longrightarrow> \<exists>ps. muxed (dv_writer d') ps \<and> (if ps = [] then au_is_keyframe data else keyed ps)"
  shows "writable clean data d'"
  using assms by (auto simp: working_def dvr_inv_def writable_def tick_ok_def sched_ok_def queue_ok_def)

lemma muxed_new:
  assumes "io_fopen io"
  shows "muxed (snd (begin_video (snd (ts_open io w)))) []"
  using assms by (simp add: ts_open_def begin_video_def muxed_def tables_ok_def counters_ok_def)

lemma open_output_file_ok:
  fixes io :: dvr_io
  assumes "working clean d" "\<not> is_open d" "clean \<Longrightarrow> au_is_keyframe data"
  defines "e \<equiv> snd (open_output_file io d)"
  shows "dv_state e = dv_state d" "dv_armed e = dv_armed d" "dv_stalled e = dv_stalled d"
    "writable clean (if fst (open_output_file io d) then data else []) e"
proof -
  have w: "tw_wf (snd (ts_open (di_open io) (dv_writer d)))" "tw_wf (snd (begin_video (snd (ts_open (di_open io) (dv_writer d)))))"
    using assms(1) by (auto simp: ts_open_def begin_video_def tw_wf_def working_def dest: inv_parts(2))
  have f: "files_ok d" if clean
    using assms(1) that by (simp add: working_def dvr_inv_def writable_def)
  have closed: "tw_file (snd (ts_open (di_open io) (dv_writer d))) = None" if "\<not> fst (ts_open (di_open io) (dv_writer d))"
    using that by (auto simp: ts_open_def split: if_splits)
  have b: "fst (begin_video (snd (ts_open (di_open io) (dv_writer d)))) \<and> io_fopen (di_open io)" if "fst (ts_open (di_open io) (dv_writer d))"
    using that by (auto simp: ts_open_def begin_video_def split: if_splits)
  show "dv_state e = dv_state d" "dv_armed e = dv_armed d" "dv_stalled e = dv_stalled d"
    by (simp_all add: e_def open_output_file_def Let_def split_beta)
  consider "di_filename io = []" | "di_filename io \<noteq> []" "\<not> fst (ts_open (di_open io) (dv_writer d))"
    | "di_filename io \<noteq> []" "fst (ts_open (di_open io) (dv_writer d))" by blast
  then show "writable clean (if fst (open_output_file io d) then data else []) e"
  proof cases
    case 1
    then show ?thesis using assms(1) by (simp add: e_def open_output_file_def working_def dvr_inv_def)
  next
    case 2
    then show ?thesis
      unfolding e_def using w f closed
      by (intro writable_file [OF assms(1)]) (simp_all add: open_output_file_def Let_def split_beta files_ok_def is_open_def)
  next
    case 3
    with b muxed_new [of "di_open io" "dv_writer d"] assms(3) show ?thesis
      unfolding e_def using w f
      by (intro writable_file [OF assms(1)])
        (auto simp: open_output_file_def Let_def split_beta files_ok_def is_open_def intro!: exI [of _ "[]"])
  qed
qed

lemma open_next_file_ok:
  fixes io :: dvr_io
  assumes "working clean d" "clean \<Longrightarrow> au_is_keyframe data"
  defines "e \<equiv> snd (open_next_file io d)"
  shows "dv_state d = Disabled \<longrightarrow> dv_state e = Disabled"
    "if fst (open_next_file io d) then writable clean data e else dvr_inv clean e"
proof -
  define a where "a = (finalize_current_file io d)\<lparr>dv_frames_written := 0, dv_rec_start_pts := -1, dv_segment_video_ticks := 0\<rparr>"
  define b where "b = snd (open_output_file io a)"
  have i: "dvr_inv clean d" using assms(1) by (simp add: working_def)
  have closed: "\<not> is_open a"
    using finalize_fields(6) [of io d] by (simp add: a_def is_open_def)
  have "writable clean [] a"
    using closed finalize_files [OF inv_rec [OF i], of io] inv_parts(2) [OF i]
    by (intro writable_file [OF assms(1)]) (simp_all add: a_def files_ok_def)
  then have a: "working clean a"
    using assms(1) by (simp add: working_def dvr_inv_def a_def)
  note b = open_output_file_ok [OF a closed assms(2), of io, folded b_def]
  have s: "dv_state b = dv_state d"
    using b(1) by (simp add: a_def)
  have c: "writable clean x (b\<lparr>dv_open_attempts := n\<rparr>)" if "writable clean x b" for x n
    using that by (simp add: writable_def tick_ok_def sched_ok_def queue_ok_def files_ok_def is_open_def)
  have fl: "dvr_inv clean (fail io True (b\<lparr>dv_open_attempts := n\<rparr>))"
      "dv_state d = Disabled \<longrightarrow> dv_state (fail io True (b\<lparr>dv_open_attempts := n\<rparr>)) = Disabled"
    if "\<not> fst (open_output_file io a)" for n
    using keeps_fail [of clean "b\<lparr>dv_open_attempts := n\<rparr>" io True] c [of "[]"] b(4) that s by (auto simp: keeps_def dvr_inv_def)
  show "dv_state d = Disabled \<longrightarrow> dv_state e = Disabled"
    unfolding e_def open_next_file_def a_def [symmetric] Let_def split_beta b_def [symmetric] using s fl(2) by simp
  show "if fst (open_next_file io d) then writable clean data e else dvr_inv clean e"
    unfolding e_def open_next_file_def a_def [symmetric] Let_def split_beta b_def [symmetric]
    using c fl(1) b(4) by (auto simp: dvr_inv_def)
qed

lemma next_frame_duration_fields [simp]:
  "dv_state (snd (next_frame_duration pts d)) = dv_state d" "dv_armed (snd (next_frame_duration pts d)) = dv_armed d"
  "dv_stalled (snd (next_frame_duration pts d)) = dv_stalled d" "dv_tick (snd (next_frame_duration pts d)) = dv_tick d"
  "dv_sched (snd (next_frame_duration pts d)) = dv_sched d" "dv_writer (snd (next_frame_duration pts d)) = dv_writer d"
  "dv_queue (snd (next_frame_duration pts d)) = dv_queue d" "dv_queue_bytes (snd (next_frame_duration pts d)) = dv_queue_bytes d"
  "dv_posted (snd (next_frame_duration pts d)) = dv_posted d" "dv_files (snd (next_frame_duration pts d)) = dv_files d"
  by (simp_all add: next_frame_duration_def Let_def)

lemma keeps_rotate: "dvr_inv clean d \<Longrightarrow> keeps clean d (request_rotate d)"
  by (intro keeps_update) (simp_all add: request_rotate_def)

lemma keyed_append:
  assumes "if ps = [] then au_is_keyframe data else keyed ps" "found_units (ps @ v) = found_units ps @ expected t [(data, n)]"
  shows "keyed (ps @ v)"
  using assms by (auto simp: keyed_def found_units_def split: if_splits list.splits)

lemma write_unit_ok:
  assumes "writable clean data d" "clean \<Longrightarrow> full_write (di_write io) \<and> data \<noteq> []"
  shows "ok (keeps clean d) (write_unit io data pts d)"
proof (cases "is_open d")
  case True
  let ?n = "next_frame_duration pts d"
  have wf: "tw_wf (dv_writer d)" using assms(1) by (simp add: writable_def)
  obtain k w where w: "write_nal (di_write io) data (fst ?n) (dv_writer d) = Some (k, w)" "tw_wf w"
    using write_nal_any [OF wf, of data "di_write io" "fst ?n"] by (elim okE) auto
  have m: "\<exists>ps. muxed w ps \<and> keyed ps" if c: clean
  proof -
    obtain ps where ps: "muxed (dv_writer d) ps" "if ps = [] then au_is_keyframe data else keyed ps"
      using assms(1) True c by (auto simp: writable_def)
    from write_nal_ok [OF ps(1), of data "di_write io" "fst ?n"] assms(2) [OF c] w(1) obtain v
      where "muxed w (ps @ v)" "found_units (ps @ v) = found_units ps @ expected (tw_media_ticks (dv_writer d)) [(data, fst ?n)]" by auto
    with keyed_append [OF ps(2)] show ?thesis by blast
  qed
  define a where "a = (snd ?n)\<lparr>dv_writer := w\<rparr>"
  define b where "b = (if k then a\<lparr>dv_frames_written := dv_frames_written a + 1\<rparr> else a)"
  have "dvr_inv clean b"
    using assms(1) True w(2) m keyed_not_Nil
    by (auto simp: a_def b_def dvr_inv_def writable_def tick_ok_def sched_ok_def queue_ok_def files_ok_def is_open_def)
  then have b: "keeps clean d b"
    by (simp add: keeps_def a_def b_def)
  define c where "c = (if dv_max_file_bytes b > 0 \<and> tw_file_size_bytes w \<ge> dv_max_file_bytes b then request_rotate b
    else if dv_segment_limit_ms b > 0 \<and> dv_segment_video_ticks b \<ge> dv_segment_limit_ms b * MS_TO_90K then request_rotate b else b)"
  have c: "keeps clean d c"
    using keeps_trans [OF b keeps_rotate [OF keeps_inv [OF b]]] b by (auto simp: c_def)
  have "write_unit io data pts d = Some (if tw_write_fail_streak w \<ge> MAX_CONSECUTIVE_WRITE_FAILURES then fail io True c else c)"
    using True w(1) by (simp add: write_unit_def split_beta Let_def a_def b_def c_def)
  then show ?thesis
    using c keeps_trans [OF c keeps_fail [OF keeps_inv [OF c]]] by simp
qed (use assms(1) in \<open>simp add: write_unit_def keeps_def dvr_inv_def writable_def\<close>)

lemma handle_access_unit_ok:
  assumes "dvr_inv clean d" "clean \<Longrightarrow> full_write (di_write io) \<and> key_ok (RPC_AU data pts keyframe)"
  shows "ok (keeps clean d) (handle_access_unit io data pts keyframe d)"
proof -
  define a where "a = interfere d"
  define b where "b = (interfere a)\<lparr>dv_queue_overflow := False\<rparr>"
  have a: "keeps clean d a"
    unfolding a_def by (rule keeps_interfere [OF assms(1)])
  have "keeps clean a (interfere a)"
    by (rule keeps_interfere [OF keeps_inv [OF a]])
  moreover have "keeps clean (interfere a) b"
    by (rule keeps_update [OF keeps_inv [OF calculation]]) (simp_all add: b_def)
  ultimately have b: "keeps clean d b"
    using a keeps_trans by blast
  have working: "working clean b" if "dv_armed a"
  proof -
    have "working clean a" using that keeps_inv [OF a] by (simp add: working_def)
    from working_interfere [OF this] b show ?thesis
      by (simp add: working_def b_def keeps_def)
  qed
  have f: "keeps clean d (fail io True b)"
    using b keeps_fail [OF keeps_inv] keeps_trans by blast
  have old: "ok (keeps clean d) (write_unit io data pts b)"
  proof -
    have "writable clean data b"
      using keeps_inv [OF b] by (auto simp: dvr_inv_def writable_def split: if_splits)
    then have "ok (keeps clean b) (write_unit io data pts b)"
      using assms(2) by (intro write_unit_ok) auto
    then show ?thesis
      by (rule okI_mono) (rule keeps_trans [OF b])
  qed
  have new: "keeps clean d (snd (open_next_file io b))" if "dv_armed a" keyframe "\<not> fst (open_next_file io b)"
    using open_next_file_ok [OF working [OF that(1)], of data io] assms(2) that b by (auto simp: keeps_def)
  have fresh: "ok (keeps clean d) (write_unit io data pts ((snd (open_next_file io b))\<lparr>dv_pending_open := False\<rparr>))"
    if "dv_armed a" keyframe "fst (open_next_file io b)"
  proof -
    let ?e = "(snd (open_next_file io b))\<lparr>dv_pending_open := False\<rparr>"
    have "writable clean data (snd (open_next_file io b))" and l: "dv_state d = Disabled \<longrightarrow> dv_state ?e = Disabled"
      using open_next_file_ok [OF working [OF that(1)], of data io] assms(2) that b by (auto simp: keeps_def)
    then have "writable clean data ?e"
      by (simp add: writable_def tick_ok_def sched_ok_def queue_ok_def files_ok_def is_open_def)
    then have "ok (keeps clean ?e) (write_unit io data pts ?e)"
      using assms(2) by (intro write_unit_ok) auto
    then show ?thesis
      by (rule okI_mono) (use l in \<open>simp add: keeps_def\<close>)
  qed
  show ?thesis
    unfolding handle_access_unit_def a_def [symmetric] Let_def b_def [symmetric] split_beta
    using a f old b new fresh by auto
qed

subsection \<open>Commands and rounds\<close>

lemma keeps_start:
  assumes "dvr_inv clean d"
  shows "keeps clean d (start io d)"
proof -
  define a where "a = interfere d"
  define b where "b = a\<lparr>dv_state := Recording, dv_frames_written := 0, dv_rec_start_pts := -1, dv_segment_video_ticks := 0,
    dv_open_attempts := 0, dv_pending_open := True\<rparr>"
  have a: "keeps clean d a"
    unfolding a_def by (rule keeps_interfere [OF assms])
  have osd: "keeps clean d (e\<lparr>dv_osd_recording := x\<rparr>)" if "keeps clean d e" for e x
    using that inv_update [of clean e "e\<lparr>dv_osd_recording := x\<rparr>"] by (simp add: keeps_def)
  have s: "keeps clean d ((interfere b)\<lparr>dv_armed := True, dv_osd_recording := True, dv_keyframe_requests := n\<rparr>)" if "dv_state a = Idle" for n
  proof -
    have i: "sched_ok clean b" "tick_ok b" "queue_ok clean b" "dv_writer b = dv_writer a" "dv_files b = dv_files a"
      using keeps_inv [OF a] that by (auto simp: b_def dvr_inv_def writable_def sched_ok_def tick_ok_def queue_ok_def)
    have "dv_state d \<noteq> Disabled"
      using a that by (auto simp: keeps_def)
    moreover have "writable clean [] a"
      using keeps_inv [OF a] by (simp add: dvr_inv_def)
    ultimately show ?thesis
      using ticks.interfere [OF i(2,1)] sched_ok_interfere [OF i(1)] queue.interfere [OF i(3,1)] interfere_private [OF i(1)] i(4,5)
      by (simp add: keeps_def dvr_inv_def writable_def tick_ok_def sched_ok_def queue_ok_def files_ok_def is_open_def)
  qed
  show ?thesis
    unfolding start_def a_def [symmetric] Let_def
    using osd [OF a] osd [OF keeps_refl [OF assms]] s by (auto simp: b_def)
qed

lemma keeps_osd:
  "keeps clean d e \<Longrightarrow> keeps clean d (e\<lparr>dv_osd_status := s\<rparr>)" "keeps clean d e \<Longrightarrow> keeps clean d (e\<lparr>dv_osd_recording := r\<rparr>)"
  "keeps clean d e \<Longrightarrow> keeps clean d (e\<lparr>dv_busy_since := t\<rparr>)" "keeps clean d e \<Longrightarrow> keeps clean d (e\<lparr>dv_last_storage_check_ms := t\<rparr>)"
  "keeps clean d e \<Longrightarrow> keeps clean d (e\<lparr>dv_osd_available := n, dv_osd_status := s\<rparr>)"
  "keeps clean d e \<Longrightarrow> keeps clean d (e\<lparr>dv_storage_total_bytes := n, dv_storage_status_dev := v, dv_storage_status_dev_known := True, dv_storage_total_known := True\<rparr>)"
  "keeps clean d e \<Longrightarrow> keeps clean d (forget_storage e)"
  by (auto simp: keeps_def forget_storage_def elim: inv_update)

lemma keeps_pop:
  assumes "keeps clean d e" "dv_queue e = rpc # rest"
  shows "keeps clean d (e\<lparr>dv_queue := rest, dv_queue_bytes := dv_queue_bytes e - of_nat (length (rpc_data rpc))\<rparr>)"
    "clean \<Longrightarrow> key_ok rpc"
proof -
  have q: "queue_ok clean e"
    using inv_parts(4) [OF keeps_inv [OF assms(1)]] .
  then show "clean \<Longrightarrow> key_ok rpc"
    using assms(2) by (simp add: queue_ok_def)
  have n: "length (rpc_data rpc) \<le> unat (dv_queue_bytes e)" "unat (dv_queue_bytes e) \<le> 32 * 1024 * 1024"
    using q assms(2) by (auto simp: queue_ok_def MAX_QUEUE_BYTES_def word_le_nat_alt)
  then have "unat (of_nat (length (rpc_data rpc)) :: u64) = length (rpc_data rpc)"
    by (simp add: unat_of_nat)
  with n have "unat (dv_queue_bytes e - of_nat (length (rpc_data rpc))) = unat (dv_queue_bytes e) - length (rpc_data rpc)"
    by (simp add: unat_sub word_le_nat_alt)
  with q assms(2) n have "queue_ok clean (e\<lparr>dv_queue := rest, dv_queue_bytes := dv_queue_bytes e - of_nat (length (rpc_data rpc))\<rparr>)"
    by (auto simp: queue_ok_def word_le_nat_alt)
  then show "keeps clean d (e\<lparr>dv_queue := rest, dv_queue_bytes := dv_queue_bytes e - of_nat (length (rpc_data rpc))\<rparr>)"
    using assms(1) by (simp add: keeps_def dvr_inv_def writable_def tick_ok_def sched_ok_def files_ok_def is_open_def)
qed

lemma keeps_then_fail: "keeps clean d e \<Longrightarrow> keeps clean d (fail io fatal e)"
  using keeps_trans keeps_fail keeps_inv by blast

lemma keeps_then_stop: "keeps clean d e \<Longrightarrow> keeps clean d (stop io e)"
  using keeps_trans keeps_stop keeps_inv by blast

lemma keeps_then_interfere: "keeps clean d e \<Longrightarrow> keeps clean d (interfere e)"
  using keeps_trans keeps_interfere keeps_inv by blast

lemma keeps_file_active: "keeps clean d e \<Longrightarrow> keeps clean d (snd (file_active e))"
  by (simp add: file_active_def Let_def keeps_then_interfere)

lemma keeps_publish: "keeps clean d e \<Longrightarrow> keeps clean d (publish_storage io n e)"
  unfolding publish_storage_def Let_def split_beta
  by (intro keeps_osd(5)) (auto intro: keeps_then_fail keeps_file_active)

lemma keeps_if: "\<lbrakk>keeps clean d x; keeps clean d y\<rbrakk> \<Longrightarrow> keeps clean d (if P then x else y)"
  by simp

lemma keeps_option: "\<lbrakk>keeps clean d x; \<And>v. keeps clean d (f v)\<rbrakk> \<Longrightarrow> keeps clean d (case r of None \<Rightarrow> x | Some v \<Rightarrow> f v)"
  by (simp split: option.split)

lemma keeps_status: "keeps clean d e \<Longrightarrow> keeps clean d (update_storage_status io force e)"
  unfolding update_storage_status_def Let_def split_beta
  by (intro keeps_if keeps_option keeps_osd keeps_then_fail keeps_file_active keeps_publish)

lemma keeps_when_armed:
  assumes "keeps clean d e" "\<And>e. keeps clean d e \<Longrightarrow> keeps clean d (f e)" "\<And>e. keeps clean d e \<Longrightarrow> keeps clean d (g e)"
  shows "keeps clean d (when_armed f g e)"
  using assms keeps_then_interfere by (simp add: when_armed_def Let_def)

lemma handle_rpc_ok:
  assumes "keeps clean d e" "clean \<Longrightarrow> full_write (di_write io) \<and> key_ok rpc"
  shows "ok (keeps clean d) (handle_rpc io rpc e)"
proof -
  have start: "keeps clean d (start io e)" if "keeps clean d e" for e
    using keeps_trans keeps_start keeps_inv that by blast
  have rotate: "keeps clean d (request_rotate e)" if "keeps clean d e" for e
    using keeps_trans keeps_rotate keeps_inv that by blast
  have au: "ok (keeps clean d) (handle_access_unit io data pts keyframe e)" if "rpc = RPC_AU data pts keyframe" for data pts keyframe
    by (rule okI_mono [OF handle_access_unit_ok [OF keeps_inv [OF assms(1)]]]) (use assms(2) that in \<open>auto intro: keeps_trans [OF assms(1)]\<close>)
  show ?thesis
    by (cases rpc) (use assms(1) au in \<open>auto intro!: keeps_when_armed keeps_osd keeps_then_stop keeps_then_fail start rotate\<close>)
qed

text \<open>The end of a piece of work: either the worker goes on with a consistent recorder, or the file is closed.\<close>

lemma finish_storage_work_ok:
  assumes "keeps clean d e"
  shows "if fst (finish_storage_work io e) then ended clean (snd (finish_storage_work io e))
      \<and> (dv_state d = Disabled \<longrightarrow> dv_state (snd (finish_storage_work io e)) = Disabled)
    else keeps clean d (snd (finish_storage_work io e)) \<and> \<not> dv_stalled (snd (finish_storage_work io e))"
proof -
  define a where "a = interfere ((interfere e)\<lparr>dv_busy_since := 0\<rparr>)"
  have a: "keeps clean d a"
    unfolding a_def using assms by (intro keeps_then_interfere keeps_osd(3))
  have "stoppable clean (a\<lparr>dv_stalled := False\<rparr>)"
    by (rule stoppable_update [OF inv_stoppable [OF keeps_inv [OF a]]]) simp_all
  note s = stop_ended [OF this]
  show ?thesis
    unfolding finish_storage_work_def Let_def a_def [symmetric] using a s(1,3) [of io] by (auto simp: keeps_def)
qed

lemma finish_round_ok:
  assumes "keeps clean d e"
  shows "if fst (finish_round io e) then (dvr_inv clean (snd (finish_round io e)) \<or> ended clean (snd (finish_round io e)))
      \<and> (dv_state d = Disabled \<longrightarrow> dv_state (snd (finish_round io e)) = Disabled)
    else keeps clean d (snd (finish_round io e)) \<and> dv_state (snd (finish_round io e)) \<noteq> Disabled"
proof -
  show ?thesis
  proof (cases "fst (finish_storage_work io e)")
    case True
    with finish_storage_work_ok [OF assms, of io] show ?thesis
      by (simp add: finish_round_def split_beta)
  next
    case False
    with finish_storage_work_ok [OF assms, of io] have "keeps clean d (interfere (snd (finish_storage_work io e)))"
      by (simp add: keeps_then_interfere)
    with False show ?thesis
      by (auto simp: finish_round_def split_beta Let_def keeps_def)
  qed
qed

lemma worker_round_ok:
  assumes "dvr_inv clean d" "clean \<Longrightarrow> full_write (di_write io)"
  shows "ok (\<lambda>(x, e). if x then (dvr_inv clean e \<or> ended clean e) \<and> (dv_state d = Disabled \<longrightarrow> dv_state e = Disabled)
      else keeps clean d e \<and> dv_state e \<noteq> Disabled) (worker_round io d)"
proof -
  define a where "a = interfere d"
  have a: "keeps clean d a"
    unfolding a_def by (rule keeps_interfere [OF assms(1)])
  show ?thesis
  proof (cases "dv_queue a")
    case Nil
    have "keeps clean d (update_storage_status io True ((interfere a)\<lparr>dv_busy_since := di_now_busy io\<rparr>))"
      by (intro keeps_status keeps_osd keeps_then_interfere a)
    from finish_round_ok [OF this, of io] Nil show ?thesis
      by (simp add: worker_round_def a_def [symmetric] split_beta)
  next
    case (Cons rpc rest)
    define b where "b = interfere (update_storage_status io False ((interfere (a\<lparr>dv_queue := rest,
      dv_queue_bytes := dv_queue_bytes a - of_nat (length (rpc_data rpc))\<rparr>))\<lparr>dv_busy_since := di_now_busy io\<rparr>))"
    have b: "keeps clean d b"
      unfolding b_def by (intro keeps_then_interfere keeps_status keeps_osd keeps_pop(1) [OF a Cons])
    have fin: "dvr_inv clean e \<or> ended clean e" "dv_state d = Disabled \<longrightarrow> dv_state e = Disabled" if "e = snd (finish_storage_work io b)" for e
      using finish_storage_work_ok [OF b, of io] unfolding that keeps_def by (simp_all split: if_splits)
    have "ok (\<lambda>(x, e). if x then (dvr_inv clean e \<or> ended clean e) \<and> (dv_state d = Disabled \<longrightarrow> dv_state e = Disabled)
      else keeps clean d e \<and> dv_state e \<noteq> Disabled) (do { d \<leftarrow> handle_rpc io rpc b; Some (finish_round io d) })"
      (is "ok ?Q _")
    proof -
      have "?Q (finish_round io e)" if "keeps clean d e" for e
        using finish_round_ok [OF that, of io] by (cases "finish_round io e") (simp split: if_splits)
      then show ?thesis
        unfolding ok_bind ok_Some using assms(2) keeps_pop(2) [OF a Cons] by (intro okI_mono [OF handle_rpc_ok [OF b]]) auto
    qed
    moreover have "worker_round io d =
        (if dv_state b = Disabled \<and> rpc \<noteq> RPC_SHUTDOWN \<and> rpc \<noteq> RPC_DISABLE then Some (True, snd (finish_storage_work io b))
         else if rpc = RPC_SHUTDOWN then Some (True, b) else do { d \<leftarrow> handle_rpc io rpc b; Some (finish_round io d) })"
      unfolding worker_round_def Let_def a_def [symmetric] Cons list.case b_def [symmetric] by (rule refl)
    ultimately show ?thesis
      using fin [OF refl] b by (simp add: keeps_def)
  qed
qed

text \<open>Once disabled, the worker ends with the round.\<close>

lemma disabled_round:
  assumes "dvr_inv clean d" "dv_state d = Disabled" "clean \<Longrightarrow> full_write (di_write io)"
  shows "ok (\<lambda>(x, e). x \<and> dv_state e = Disabled \<and> (dvr_inv clean e \<or> ended clean e)) (worker_round io d)"
proof -
  have "ok (\<lambda>(x, e). (x \<and> (dvr_inv clean e \<or> ended clean e) \<and> dv_state e = Disabled) \<or> \<not> x \<and> keeps clean d e \<and> dv_state e \<noteq> Disabled) (worker_round io d)"
    by (rule okI_mono [OF worker_round_ok [OF assms(1,3)]]) (use assms(2) in \<open>auto split: if_splits\<close>)
  then show ?thesis
    by (rule okI_mono) (use assms(2) in \<open>auto simp: keeps_def\<close>)
qed

lemma ended_finish:
  assumes "ended clean d"
  shows "ended clean (snd (finish_storage_work io d))" "dv_state d = Disabled \<Longrightarrow> dv_state (snd (finish_storage_work io d)) = Disabled"
proof -
  define a where "a = (interfere d)\<lparr>dv_busy_since := 0\<rparr>"
  define b where "b = interfere a"
  have b: "ended clean b"
    using ended_interfere [OF assms] ended_interfere [of clean a]
    by (simp add: a_def b_def ended_def sched_ok_def queue_ok_def files_ok_def is_open_def)
  then have s: "stoppable clean (b\<lparr>dv_stalled := False\<rparr>)"
    by (simp add: ended_def stoppable_def sched_ok_def queue_ok_def rec_ok_def files_ok_def is_open_def)
  show "ended clean (snd (finish_storage_work io d))"
    using b stop_ended(1) [OF s] by (simp add: finish_storage_work_def Let_def a_def [symmetric] b_def [symmetric])
  assume "dv_state d = Disabled"
  then have "dv_state a = Disabled"
    using latch.interfere [of d clean] assms by (simp add: a_def ended_def)
  moreover have "sched_ok clean a"
    using sched_ok_interfere [of clean d] assms by (simp add: a_def ended_def sched_ok_def)
  ultimately have "dv_state b = Disabled"
    unfolding b_def by (rule latch.interfere)
  then show "dv_state (snd (finish_storage_work io d)) = Disabled"
    using stop_ended(3) [OF s] by (simp add: finish_storage_work_def Let_def a_def [symmetric] b_def [symmetric])
qed

lemma finish_disarmed:
  assumes "sched_ok clean d" "\<not> dv_armed d" "\<not> fst (finish_storage_work io d)"
  shows "\<not> dv_armed (snd (finish_storage_work io d))"
proof -
  define a where "a = (interfere d)\<lparr>dv_busy_since := 0\<rparr>"
  have "sched_ok clean a" "\<not> dv_armed a"
    using assms sched_ok_interfere [of clean d] disarmed.interfere [of d clean] by (simp_all add: a_def sched_ok_def)
  from disarmed.interfere [OF this(2,1)] show ?thesis
    using assms(3) by (auto simp: finish_storage_work_def Let_def a_def [symmetric] split: if_splits)
qed

lemma worker_end_ok:
  assumes "dvr_inv clean d \<or> ended clean d"
  shows "ended clean (worker_end io d)" "dv_queue (worker_end io d) = []" "dv_state d = Disabled \<Longrightarrow> dv_state (worker_end io d) = Disabled"
proof -
  define a where "a = when_armed (stop io) id d"
  define b where "b = snd (finish_storage_work io a)"
  have s: "stoppable clean d" "sched_ok clean d"
    using assms inv_stoppable by (auto simp: stoppable_def ended_def rec_ok_def)
  have e: "worker_end io d = (interfere b)\<lparr>dv_queue := [], dv_queue_bytes := 0, dv_queue_overflow := False\<rparr>"
    by (simp add: worker_end_def a_def b_def Let_def split_beta)
  have b: "ended clean b \<and> (dv_state d = Disabled \<longrightarrow> dv_state b = Disabled)"
  proof (cases "dv_armed (interfere d)")
    case True
    then have "ended clean a" "dv_state d = Disabled \<longrightarrow> dv_state a = Disabled"
      using stop_ended [OF stoppable_interfere [OF s(1)], of io] latch.interfere [of d clean] s(2) by (auto simp: a_def when_armed_def)
    then show ?thesis
      using ended_finish [of clean a io] by (simp add: b_def)
  next
    case False
    then have a: "a = interfere d"
      by (simp add: a_def when_armed_def)
    have d: "dv_state d = Disabled \<longrightarrow> dv_state a = Disabled"
      using s latch.interfere [of d clean] by (simp add: a)
    show ?thesis
    proof (cases "ended clean a")
      case True
      with ended_finish [of clean a io] d show ?thesis by (simp add: b_def)
    next
      case not_ended: False
      with assms a have i: "dvr_inv clean a"
        using dvr_inv_interfere ended_interfere by blast
      have f: "if fst (finish_storage_work io a) then ended clean b \<and> (dv_state a = Disabled \<longrightarrow> dv_state b = Disabled)
          else keeps clean a b \<and> \<not> dv_stalled b"
        using finish_storage_work_ok [OF keeps_refl [OF i], of io] by (simp add: b_def)
      have "\<not> dv_armed b" if "\<not> fst (finish_storage_work io a)"
        using finish_disarmed [OF inv_parts(1) [OF i] _ that] False a by (simp add: b_def)
      with f d show ?thesis
        by (auto simp: keeps_def dvr_inv_def writable_def ended_def split: if_splits)
    qed
  qed
  then show "ended clean (worker_end io d)"
    using ended_interfere [of clean b] unfolding e by (simp add: ended_def sched_ok_def queue_ok_def files_ok_def is_open_def)
  show "dv_queue (worker_end io d) = []"
    by (simp add: e)
  show "dv_state (worker_end io d) = Disabled" if "dv_state d = Disabled"
    using b that latch.interfere [of b clean] unfolding e by (simp add: ended_def)
qed

lemma loop_ok:
  "\<lbrakk>dvr_inv clean d; clean \<longrightarrow> (\<forall>io \<in> set ios. full_write (di_write io))\<rbrakk> \<Longrightarrow>
   ok (\<lambda>(finished, e). (if finished then ended clean e \<and> dv_queue e = [] else dvr_inv clean e)
      \<and> (dv_state d = Disabled \<longrightarrow> dv_state e = Disabled)) (loop ios final d)"
proof (induction ios arbitrary: d)
  case Nil
  then show ?case by simp
next
  case (Cons io ios)
  have "ok (\<lambda>(x, e). if x then (dvr_inv clean e \<or> ended clean e) \<and> (dv_state d = Disabled \<longrightarrow> dv_state e = Disabled)
      else keeps clean d e \<and> dv_state e \<noteq> Disabled) (worker_round io d)"
    using Cons.prems by (intro worker_round_ok) auto
  then obtain x e where x: "worker_round io d = Some (x, e)" "if x then (dvr_inv clean e \<or> ended clean e) \<and> (dv_state d = Disabled \<longrightarrow> dv_state e = Disabled)
      else keeps clean d e \<and> dv_state e \<noteq> Disabled" by (elim okE) auto
  show ?case
  proof (cases x)
    case True
    then show ?thesis using x worker_end_ok [of clean e final] by simp
  next
    case False
    then have e: "keeps clean d e" using x(2) by simp
    have "ok (\<lambda>(finished, f). (if finished then ended clean f \<and> dv_queue f = [] else dvr_inv clean f)
      \<and> (dv_state e = Disabled \<longrightarrow> dv_state f = Disabled)) (loop ios final e)"
      using Cons.prems(2) by (intro Cons.IH [OF keeps_inv [OF e]]) simp
    then show ?thesis
      using x(1) False e by (auto simp: keeps_def elim!: okI_mono)
  qed
qed

lemma new_Dvr_inv: "list_all (list_all (step_ok clean)) sched \<Longrightarrow> dvr_inv clean (new_Dvr minutes guard fps sched)"
  by (simp add: new_Dvr_def dvr_inv_def writable_def sched_ok_def queue_ok_def tick_ok_def is_open_def files_ok_def new_TsWriter_def tw_wf_def
      MAX_QUEUE_BYTES_def)

lemma steps_inv: "\<lbrakk>dvr_inv clean d; list_all (step_ok clean) es\<rbrakk> \<Longrightarrow> dvr_inv clean (fold run_step es d)"
  using dvr_inv_interfere [of clean "d\<lparr>dv_sched := es # dv_sched d\<rparr>"]
  by (simp add: interfere_def dvr_inv_def writable_def sched_ok_def tick_ok_def queue_ok_def files_ok_def is_open_def)

section \<open>Durations\<close>

text \<open>\<open>rec_start_pts\<close> is the time of the first frame of the segment.\<close>

definition timeline_ok :: "Dvr \<Rightarrow> bool" where
  "timeline_ok d \<longleftrightarrow> 0 \<le> dv_segment_video_ticks d \<and> 0 \<le> dv_last_good_duration d \<and> dv_last_good_duration d \<le> MAX_FRAME_DURATION_90K
     \<and> (0 \<le> dv_rec_start_pts d \<longrightarrow> 1 \<le> dv_last_good_duration d)"

fun durations :: "int list \<Rightarrow> Dvr \<Rightarrow> int list \<times> Dvr" where
  "durations [] d = ([], d)"
| "durations (pts # ps) d = (let (n, d) = next_frame_duration pts d; (ns, d) = durations ps d in (n # ns, d))"

lemma next_frame_duration_ok:
  assumes "timeline_ok d"
  shows "fst (next_frame_duration pts d) \<in> {1..MAX_FRAME_DURATION_90K}" "timeline_ok (snd (next_frame_duration pts d))"
  using assms by (auto simp: next_frame_duration_def timeline_ok_def Let_def MAX_FRAME_DURATION_90K_def TS_TIMEBASE_90K_def MS_TO_90K_def)

lemma durations_ok:
  "timeline_ok d \<Longrightarrow> set (fst (durations ps d)) \<subseteq> {1..MAX_FRAME_DURATION_90K} \<and> timeline_ok (snd (durations ps d))"
  using next_frame_duration_ok by (induction ps arbitrary: d) (fastforce simp: Let_def split_beta)+

text \<open>Times that grow by at most a quarter of a second.\<close>

fun steady :: "int \<Rightarrow> int list \<Rightarrow> bool" where
  "steady p [] \<longleftrightarrow> True"
| "steady p (q # qs) \<longleftrightarrow> p < q \<and> q \<le> p + 250 \<and> steady q qs"

lemma duration_in_time:
  assumes "0 \<le> dv_rec_start_pts d" "dv_segment_video_ticks d < (q - dv_rec_start_pts d) * 90"
    "(q - dv_rec_start_pts d) * 90 \<le> dv_segment_video_ticks d + 22500"
  shows "fst (next_frame_duration q d) = (q - dv_rec_start_pts d) * 90 - dv_segment_video_ticks d"
    "dv_segment_video_ticks (snd (next_frame_duration q d)) = (q - dv_rec_start_pts d) * 90"
    "dv_rec_start_pts (snd (next_frame_duration q d)) = dv_rec_start_pts d"
  using assms by (simp_all add: next_frame_duration_def Let_def MAX_FRAME_DURATION_90K_def TS_TIMEBASE_90K_def MS_TO_90K_def)

lemma durations_steady:
  "\<lbrakk>0 \<le> dv_rec_start_pts d; steady p ps; dv_segment_video_ticks d \<in> {(p - dv_rec_start_pts d) * 90, (p - dv_rec_start_pts d) * 90 + 1}; ps \<noteq> []\<rbrakk>
   \<Longrightarrow> sum_list (fst (durations ps d)) = (last ps - dv_rec_start_pts d) * 90 - dv_segment_video_ticks d"
proof (induction ps arbitrary: p d)
  case (Cons q qs)
  have q: "dv_segment_video_ticks d < (q - dv_rec_start_pts d) * 90" "(q - dv_rec_start_pts d) * 90 \<le> dv_segment_video_ticks d + 22500"
    using Cons.prems(2,3) by auto
  note n = duration_in_time [OF Cons.prems(1) q]
  show ?case
  proof (cases "qs = []")
    case False
    have "sum_list (fst (durations qs (snd (next_frame_duration q d)))) = (last qs - dv_rec_start_pts d) * 90 - (q - dv_rec_start_pts d) * 90"
      using Cons.IH [of "snd (next_frame_duration q d)" q] Cons.prems(1,2) False n(2,3) by simp
    then show ?thesis
      using False n(1) by (simp add: Let_def split_beta)
  qed (use n(1) in \<open>simp add: Let_def split_beta\<close>)
qed simp

section \<open>Properties\<close>

text \<open>C2: The recorder stays consistent under every interleaving with the threads of the encoder and of the control functions: whatever the storage
  answers, no step goes wrong, a file is open only while the recorder is armed or a declared stall waits for the worker, it counts as recording only
  while it is armed, and the queue counts its bytes exactly and holds at most 32 MB. When the worker ends, for whatever reason, the
  file is closed, the recorder is disarmed and not recording, and the queue is empty.\<close>

theorem dvr_consistent:
  assumes "list_all (list_all (step_ok False)) sched"
  shows "ok (\<lambda>(finished, d).
      unat (dv_queue_bytes d) = sum_list (map (length \<circ> rpc_data) (dv_queue d)) \<and> dv_queue_bytes d \<le> MAX_QUEUE_BYTES
      \<and> (dv_state d = Recording \<longrightarrow> dv_armed d)
      \<and> (if finished then \<not> is_open d \<and> \<not> dv_armed d \<and> dv_queue d = [] else is_open d \<longrightarrow> dv_armed d \<or> dv_stalled d))
    (loop ios final (new_Dvr minutes guard fps sched))"
  using new_Dvr_inv [OF assms, of minutes guard fps]
  by (intro okI_mono [OF loop_ok [of False]]) (auto simp: ended_def dvr_inv_def writable_def queue_ok_def split: if_splits)

text \<open>A system where everything succeeds, and a schedule that starts a recording, delivers a keyframe, and shuts down.\<close>

definition example_ts_io :: ts_io where
  "example_ts_io = \<lparr>io_fopen = True, io_fwrite = (\<lambda>n. n), io_fflush = True, io_fdatasync = True, io_fclose = True, io_monotonic_ms = 5\<rparr>"

definition example_fs :: fs_io where
  "example_fs = \<lparr>fs_dir_dev = Some 8, fs_root_dev = Some 1, fs_statvfs = Some (4096, 1000000, 2000000), fs_type = Some 0xEF53\<rparr>"

definition example_io :: dvr_io where
  "example_io = \<lparr>di_now_busy = 10, di_now_check = 10, di_now_open = 10, di_status_fs = example_fs, di_start_fs = example_fs,
     di_open_fs = example_fs, di_filename = ''rec.ts'', di_open = example_ts_io, di_write = example_ts_io, di_close = example_ts_io,
     di_remove = True\<rparr>"

definition example_guard :: StorageGuard where
  "example_guard = \<lparr>sg_min_free_bytes = 1000, sg_require_mount = True\<rparr>"

definition example_unit :: AccessUnit where
  "example_unit = \<lparr>au_data = [0, 0, 1, 0x26, 7], au_pts_ms = 40, au_keyframe = True\<rparr>"

definition example_sched :: "thread_step list list" where
  "example_sched = [[Start_Recording, Run_Posted []]] @ replicate 8 [] @ [[Deliver example_unit], [Tick 20]] @ replicate 12 []
     @ [[Shutdown_Dvr, Run_Posted []]]"

lemma example_sched_ok: "list_all (list_all (step_ok clean)) example_sched"
  by (auto simp: example_sched_def example_unit_def au_ok_def list_all_iff)

theorem dvr_consistent_witness:
  "ok (\<lambda>(finished, d).
      unat (dv_queue_bytes d) = sum_list (map (length \<circ> rpc_data) (dv_queue d)) \<and> dv_queue_bytes d \<le> MAX_QUEUE_BYTES
      \<and> (dv_state d = Recording \<longrightarrow> dv_armed d)
      \<and> (if finished then \<not> is_open d \<and> \<not> dv_armed d \<and> dv_queue d = [] else is_open d \<longrightarrow> dv_armed d \<or> dv_stalled d))
    (loop (replicate 4 example_io) example_io (new_Dvr 5 example_guard 60 example_sched))"
  by (rule dvr_consistent [OF example_sched_ok])

text \<open>C14: Disabled is a latch: once other threads have disabled the recorder, by a request or for a stall, the next round of the worker is its
  last one, it ends with the file closed and the recorder disarmed, and whatever is requested meanwhile, the recorder is still disabled then.\<close>

theorem dvr_disabled_latch:
  assumes "list_all (list_all (step_ok False)) sched"
    and "loop ios final (new_Dvr minutes guard fps sched) = Some (False, c)"
    and "list_all (step_ok False) es" "d = fold run_step es c" "dv_state d = Disabled"
  shows "ok (\<lambda>(finished, e). finished \<and> dv_state e = Disabled \<and> \<not> is_open e \<and> \<not> dv_armed e \<and> dv_queue e = []) (loop (io # ios') final' d)"
proof -
  have "dvr_inv False c"
    using loop_ok [OF new_Dvr_inv [OF assms(1), of minutes guard fps], where ios = ios and final = final] assms(2)
    by simp
  from steps_inv [OF this assms(3)] have d: "dvr_inv False d"
    by (simp add: assms(4))
  obtain e where e: "worker_round io d = Some (True, e)" "dv_state e = Disabled" "dvr_inv False e \<or> ended False e"
    using disabled_round [OF d assms(5), of io] by (auto simp: ok_iff)
  then show ?thesis
    using worker_end_ok [OF e(3), of final'] by (simp add: ended_def)
qed

theorem dvr_disabled_latch_witness:
  "ok (\<lambda>(finished, e). finished \<and> dv_state e = Disabled \<and> \<not> is_open e \<and> \<not> dv_armed e \<and> dv_queue e = [])
    (loop [example_io, example_io] example_io (fold run_step [Disable_Dvr] (new_Dvr 5 example_guard 60 example_sched)))"
  by (rule dvr_disabled_latch [OF example_sched_ok, of "[]" example_io 5 example_guard 60 _ "[Disable_Dvr]"])
    (simp_all add: disable_def enqueue_dvr_command_def)



text \<open>C31: The timeline of a recording follows the time stamps: each frame lasts at least one tick and at most a quarter of a second, whatever the time
  stamps are, and for time stamps that grow by at most a quarter of a second the frames of a segment together last exactly as long as the
  recorded time, without drift.\<close>

theorem frame_timeline:
  assumes "timeline_ok d" "dv_rec_start_pts d < 0" "dv_segment_video_ticks d = 0"
  shows "set (fst (durations ps d)) \<subseteq> {1..22500}
    \<and> (0 \<le> p \<and> steady p qs \<and> qs \<noteq> [] \<longrightarrow> sum_list (fst (durations (p # qs) d)) = (last qs - p) * 90)"
proof -
  have n: "fst (next_frame_duration p d) = 1" "dv_rec_start_pts (snd (next_frame_duration p d)) = p"
      "dv_segment_video_ticks (snd (next_frame_duration p d)) = 1"
    using assms(2,3) by (simp_all add: next_frame_duration_def Let_def MAX_FRAME_DURATION_90K_def TS_TIMEBASE_90K_def)
  then have "sum_list (fst (durations qs (snd (next_frame_duration p d)))) = (last qs - p) * 90 - 1" if "0 \<le> p" "steady p qs" "qs \<noteq> []"
    using durations_steady [of "snd (next_frame_duration p d)" p qs] that by simp
  then show ?thesis
    using durations_ok [OF assms(1), of ps] n(1) by (auto simp: MAX_FRAME_DURATION_90K_def TS_TIMEBASE_90K_def Let_def split_beta)
qed

theorem frame_timeline_witness:
  "set (fst (durations [5, 3, 9000, 9001] (new_Dvr 5 example_guard 60 []))) \<subseteq> {1..22500}
    \<and> sum_list (fst (durations (100 # [116, 133, 150]) (new_Dvr 5 example_guard 60 []))) = 4500"
  using frame_timeline [of "new_Dvr 5 example_guard 60 []" "[5, 3, 9000, 9001]" 100 "[116, 133, 150]"]
  by (simp add: new_Dvr_def timeline_ok_def MAX_FRAME_DURATION_90K_def TS_TIMEBASE_90K_def del: durations.simps)

text \<open>While the next file waits for a keyframe, the units before it are lost.\<close>

lemma rotation_loses_units:
  assumes "dv_sched d = []" "dv_armed d" "\<not> dv_queue_overflow d" "dv_pending_open d"
  shows "handle_access_unit io data pts False d = Some d"
  using assms by (simp add: handle_access_unit_def interfere_def Let_def)

end
