(* ===== verification/Dvr_Filename.thy ===== *)
theory Dvr_Filename
  imports C_Prelude
begin

text \<open>
  \<open>generate_filename\<close> of \<open>src/dvr/dvr.cpp\<close>: the name of the next recording. The template of the name may hold \<open>%N\<close>, which stands for a
  sequence number, and the conversions of \<open>strftime\<close>. The number is one more than the largest one among the files of the directory whose
  name matches the template; a regular expression built from the template tells which do.

  The regular expressions of the standard library are modelled as far as \<open>build_sequence_pattern\<close> uses them: \<open>regex_items\<close> reads the
  text of the pattern and fails on everything else, and \<open>re_match\<close> is the greedy search with backtracking. The entries of the directory,
  the exception of an iteration that fails, and \<open>strftime\<close> are arguments. \<open>filename_fresh\<close> shows that the name is new.
\<close>

section \<open>The pattern\<close>

definition backslash :: char where "backslash = CHR 0x5C"

definition re_special :: "char set" where
  "re_special = set (backslash # ''.^$|()[]{}*+?'')"

text \<open>\<open>strchr\<close> also finds the terminating zero.\<close>

definition re_literal :: "char \<Rightarrow> string" where
  "re_literal c = (if c \<in> re_special \<or> c = CHR 0x00 then [backslash, c] else [c])"

fun pattern_from :: "bool \<Rightarrow> string \<Rightarrow> string" where
  "pattern_from added [] = ''$''"
| "pattern_from added [c] = re_literal c @ ''$''"
| "pattern_from added (c # spec # r) =
     (if c = CHR ''%'' then
        if spec = CHR ''N'' then (if added then backslash # ''d+'' else CHR ''('' # backslash # ''d+)'') @ pattern_from True r
        else if spec = CHR ''Y'' then (backslash # ''d{4}'') @ pattern_from added r
        else (backslash # ''d{2}'') @ pattern_from added r
      else re_literal c @ pattern_from added (spec # r))"

definition build_sequence_pattern :: "string \<Rightarrow> string" where
  "build_sequence_pattern filename_pattern = CHR ''^'' # pattern_from False filename_pattern"

section \<open>Regular expressions\<close>

datatype re_item = Re_Begin | Re_End | Re_Char char | Re_Digits nat | Re_Some | Re_Capture

fun regex_items :: "string \<Rightarrow> re_item list option" where
  "regex_items [] = Some []"
| "regex_items (c # r) =
     (if c = CHR ''^'' then map_option (Cons Re_Begin) (regex_items r)
      else if c = CHR ''$'' then map_option (Cons Re_End) (regex_items r)
      else if c = CHR ''('' then
        if take 4 r = backslash # ''d+)'' then map_option (Cons Re_Capture) (regex_items (drop 4 r)) else None
      else if c = backslash then
        (case r of
           [] \<Rightarrow> None
         | e # s \<Rightarrow>
             if e = CHR ''d'' then
               if take 1 s = ''+'' then map_option (Cons Re_Some) (regex_items (drop 1 s))
               else if take 3 s = ''{4}'' then map_option (Cons (Re_Digits 4)) (regex_items (drop 3 s))
               else if take 3 s = ''{2}'' then map_option (Cons (Re_Digits 2)) (regex_items (drop 3 s))
               else None
             else if e \<in> re_special then map_option (Cons (Re_Char e)) (regex_items s)
             else None)
      else if c \<in> re_special then None
      else map_option (Cons (Re_Char c)) (regex_items r))"

definition is_digit :: "char \<Rightarrow> bool" where
  "is_digit c \<longleftrightarrow> 48 \<le> (of_char c :: nat) \<and> (of_char c :: nat) \<le> 57"

text \<open>The first of the lengths with which the rest matches.\<close>

definition first_some :: "(nat \<Rightarrow> 'a option) \<Rightarrow> nat list \<Rightarrow> 'a option" where
  "first_some f ks = (case filter (\<lambda>k. f k \<noteq> None) ks of [] \<Rightarrow> None | k # r \<Rightarrow> f k)"

definition digit_runs :: "string \<Rightarrow> nat list" where
  "digit_runs s = rev [1..<Suc (length (takeWhile is_digit s))]"

text \<open>\<open>regex_match\<close>: the whole name must match. The result is what the group has captured, empty when there is no group.\<close>

fun re_match :: "re_item list \<Rightarrow> bool \<Rightarrow> string \<Rightarrow> string \<Rightarrow> string option" where
  "re_match [] start cap s = (if s = [] then Some cap else None)"
| "re_match (Re_Begin # r) start cap s = (if start then re_match r start cap s else None)"
| "re_match (Re_End # r) start cap s = (if s = [] then re_match r start cap s else None)"
| "re_match (Re_Char c # r) start cap s = (if s \<noteq> [] \<and> hd s = c then re_match r False cap (tl s) else None)"
| "re_match (Re_Digits n # r) start cap s =
     (if n \<le> length s \<and> list_all is_digit (take n s) then re_match r False cap (drop n s) else None)"
| "re_match (Re_Some # r) start cap s = first_some (\<lambda>k. re_match r False cap (drop k s)) (digit_runs s)"
| "re_match (Re_Capture # r) start cap s = first_some (\<lambda>k. re_match r False (take k s) (drop k s)) (digit_runs s)"

section \<open>The sequence number\<close>

definition LONG_MAX :: nat where "LONG_MAX = 2 ^ 63 - 1"
definition SEQUENCE_PADDING :: nat where "SEQUENCE_PADDING = 4"

definition digits_value :: "string \<Rightarrow> nat" where
  "digits_value s = foldl (\<lambda>n c. 10 * n + (of_char c - 48)) 0 s"

text \<open>\<open>strtol\<close> on a string of digits; \<open>None\<close> when it sets \<open>errno\<close>.\<close>

definition strtol :: "string \<Rightarrow> nat option" where
  "strtol s = (if digits_value s \<le> LONG_MAX then Some (digits_value s) else None)"

fun to_decimal :: "nat \<Rightarrow> string" where
  "to_decimal n = (if n < 10 then [char_of (48 + n)] else to_decimal (n div 10) @ [char_of (48 + n mod 10)])"

declare to_decimal.simps [simp del]

definition padded :: "nat \<Rightarrow> string" where
  "padded n = replicate (SEQUENCE_PADDING - length (to_decimal n)) (CHR ''0'') @ to_decimal n"

text \<open>The number of a file: the name matches and the number is accepted.\<close>

definition sequence_number :: "re_item list \<Rightarrow> string \<Rightarrow> nat option" where
  "sequence_number pattern filename =
     (case re_match pattern True [] filename of
        None \<Rightarrow> None
      | Some cap \<Rightarrow> (case strtol cap of None \<Rightarrow> None | Some number \<Rightarrow> if number < INT_MAX then Some number else None))"

record name_io =
  ni_exists :: bool
  ni_entries :: "(bool \<times> string) list"
  ni_throws :: bool
  ni_strftime :: "string \<Rightarrow> string"

fun scan_entry :: "re_item list \<Rightarrow> bool \<times> string \<Rightarrow> int \<Rightarrow> int" where
  "scan_entry pattern (regular, filename) maxNumber =
     (if \<not> regular then maxNumber
      else case sequence_number pattern filename of None \<Rightarrow> maxNumber | Some number \<Rightarrow> max maxNumber (int number))"

definition scan_directory :: "name_io \<Rightarrow> string \<Rightarrow> int" where
  "scan_directory io filename_pattern =
     (case regex_items (build_sequence_pattern filename_pattern) of
        None \<Rightarrow> -1
      | Some pattern \<Rightarrow> if ni_throws io then -1 else fold (scan_entry pattern) (ni_entries io) (-1))"

fun has_sequence :: "string \<Rightarrow> bool" where
  "has_sequence (c # spec # r) \<longleftrightarrow> c = CHR ''%'' \<and> spec = CHR ''N'' \<or> has_sequence (spec # r)"
| "has_sequence _ \<longleftrightarrow> False"

fun replace_sequence :: "string \<Rightarrow> string \<Rightarrow> string" where
  "replace_sequence sequence (c # spec # r) =
     (if c = CHR ''%'' \<and> spec = CHR ''N'' then sequence @ replace_sequence sequence r else c # replace_sequence sequence (spec # r))"
| "replace_sequence sequence s = s"

definition path_filename :: "string \<Rightarrow> string" where
  "path_filename path = rev (takeWhile (\<lambda>c. c \<noteq> CHR ''/'') (rev path))"

definition generate_filename :: "name_io \<Rightarrow> string \<Rightarrow> string \<Rightarrow> string" where
  "generate_filename io rec_dir filename_template =
     (let filename_pattern = path_filename filename_template in
      if \<not> ni_exists io then []
      else let maxNumber = scan_directory io filename_pattern;
               nextFileNumber = (if maxNumber = -1 then 0 else nat (maxNumber + 1));
               filename_pattern = (if has_sequence filename_pattern then replace_sequence (padded nextFileNumber) filename_pattern
                 else filename_pattern)
           in rec_dir @ ''/'' @ ni_strftime io filename_pattern)"

section \<open>Templates\<close>

text \<open>What \<open>strftime\<close> makes of a template when \<open>conv\<close> gives the text of the conversions, and the templates all of whose conversions
  have the width that \<open>build_sequence_pattern\<close> expects: four digits for the year, two for the others.\<close>

fun expand :: "(char \<Rightarrow> string) \<Rightarrow> string \<Rightarrow> string" where
  "expand conv [] = []"
| "expand conv [c] = [c]"
| "expand conv (c # spec # r) = (if c = CHR ''%'' then conv spec @ expand conv r else c # expand conv (spec # r))"

definition conv_width :: "char \<Rightarrow> nat" where
  "conv_width spec = (if spec = CHR ''Y'' then 4 else 2)"

fun dated :: "(char \<Rightarrow> string) \<Rightarrow> string \<Rightarrow> bool" where
  "dated conv [] \<longleftrightarrow> True"
| "dated conv [c] \<longleftrightarrow> c \<noteq> CHR ''%''"
| "dated conv (c # spec # r) \<longleftrightarrow>
     (if c = CHR ''%'' then spec \<notin> {CHR ''N'', CHR ''%''} \<and> list_all is_digit (conv spec) \<and> length (conv spec) = conv_width spec \<and> dated conv r
      else dated conv (spec # r))"

fun fixed_items :: "string \<Rightarrow> re_item list" where
  "fixed_items [] = []"
| "fixed_items [c] = [Re_Char c]"
| "fixed_items (c # spec # r) =
     (if c = CHR ''%'' then Re_Digits (conv_width spec) # fixed_items r else Re_Char c # fixed_items (spec # r))"

lemma template_skip [simp]:
  assumes "c \<noteq> CHR ''%''"
  shows "expand conv (c # s) = c # expand conv s" "replace_sequence q (c # s) = c # replace_sequence q s"
    "has_sequence (c # s) = has_sequence s" "fixed_items (c # s) = Re_Char c # fixed_items s"
    "pattern_from added (c # s) = re_literal c @ pattern_from added s" "dated conv (c # s) = dated conv s"
  using assms by (cases s; simp)+

lemma re_literal_items [simp]:
  "CHR 0x00 \<noteq> c \<Longrightarrow> regex_items (re_literal c @ s) = map_option (Cons (Re_Char c)) (regex_items s)"
  by (auto simp: re_literal_def re_special_def backslash_def)

lemma fixed_pattern:
  "\<lbrakk>dated conv a; CHR 0x00 \<notin> set a\<rbrakk> \<Longrightarrow>
   regex_items (pattern_from added (a @ t)) = map_option ((@) (fixed_items a)) (regex_items (pattern_from added t))"
proof (induction conv a rule: dated.induct)
  case (3 conv c spec r)
  then show ?case
    by (cases "c = CHR ''%''"; cases "regex_items (pattern_from added t)") (simp_all add: backslash_def conv_width_def)
qed (cases "regex_items (pattern_from added t)", simp_all)+

lemma expand_append: "dated conv a \<Longrightarrow> expand conv (a @ t) = expand conv a @ expand conv t"
  by (induction conv a rule: dated.induct) (auto split: if_splits)

lemma replace_append: "dated conv a \<Longrightarrow> replace_sequence q (a @ t) = a @ replace_sequence q t"
  by (induction conv a rule: dated.induct) (auto split: if_splits)

lemma has_sequence_append: "dated conv a \<Longrightarrow> has_sequence (a @ t) = has_sequence t"
  by (induction conv a rule: dated.induct) (auto split: if_splits)

lemma dated_no_sequence: "dated conv b \<Longrightarrow> replace_sequence q b = b"
  using replace_append [of conv b q "[]"] by simp

text \<open>The items of a template with one \<open>%N\<close>.\<close>

lemma template_items:
  assumes "dated conv a" "dated conv b" "CHR 0x00 \<notin> set (a @ b)"
  shows "regex_items (build_sequence_pattern (a @ ''%N'' @ b)) = Some (Re_Begin # fixed_items a @ Re_Capture # fixed_items b @ [Re_End])"
  using assms fixed_pattern [of conv a False "''%N'' @ b"] fixed_pattern [of conv b True "[]"]
  by (simp add: build_sequence_pattern_def backslash_def)

section \<open>Matching\<close>

lemma re_match_start: "Re_Begin \<notin> set r \<Longrightarrow> re_match r start cap s = re_match r False cap s"
proof (induction r arbitrary: s)
  case (Cons i r)
  then show ?case by (cases i) simp_all
qed simp

lemma match_fixed:
  "\<lbrakk>dated conv a; Re_Begin \<notin> set r\<rbrakk> \<Longrightarrow> re_match (fixed_items a @ r) start cap (expand conv a @ s) = re_match r False cap s"
proof (induction conv a arbitrary: start rule: dated.induct)
  case (1 conv)
  then show ?case using re_match_start [of r start cap s] by simp
qed (auto split: if_splits)

lemma match_width:
  "\<lbrakk>dated conv b; re_match (fixed_items b @ [Re_End]) start cap s \<noteq> None\<rbrakk> \<Longrightarrow> length s = length (expand conv b)"
proof (induction conv b arbitrary: start s rule: dated.induct)
  case (2 conv c)
  then show ?case by (cases s) (auto split: if_splits)
next
  case (3 conv c spec r)
  show ?case
  proof (cases "c = CHR ''%''")
    case True
    then have "conv_width spec \<le> length s" "re_match (fixed_items r @ [Re_End]) False cap (drop (conv_width spec) s) \<noteq> None"
      using 3(4) by (auto split: if_splits)
    with 3(1) [OF True] 3(3) True show ?thesis by fastforce
  next
    case False
    then obtain t where "s = c # t" "re_match (fixed_items (spec # r) @ [Re_End]) False cap t \<noteq> None"
      using 3(4) by (cases s) (auto split: if_splits)
    with 3(2) [OF False] 3(3) False show ?thesis by auto
  qed
qed (auto split: if_splits)

lemma first_some_longest:
  assumes "f m = Some y" "1 \<le> m" "m \<le> n" "\<And>k. \<lbrakk>m < k; k \<le> n\<rbrakk> \<Longrightarrow> f k = None"
  shows "first_some f (rev [1..<Suc n]) = Some y"
  using assms(3,4)
proof (induction n)
  case (Suc n)
  show ?case
  proof (cases "m = Suc n")
    case True
    then show ?thesis using assms(1) by (simp add: first_some_def)
  next
    case False
    then have "f (Suc n) = None" "first_some f (rev [1..<Suc n]) = Some y"
      using Suc by auto
    then show ?thesis by (simp add: first_some_def)
  qed
qed (use assms(2) in simp)

lemma match_capture:
  assumes "dated conv b" "list_all is_digit q" "q \<noteq> []"
  shows "re_match (Re_Capture # fixed_items b @ [Re_End]) start cap (q @ expand conv b) = Some q"
proof -
  let ?f = "\<lambda>k. re_match (fixed_items b @ [Re_End]) False (take k (q @ expand conv b)) (drop k (q @ expand conv b))"
  have "?f (length q) = Some q"
    using match_fixed [OF assms(1), of "[Re_End]" False q "[]"] by simp
  moreover have "?f k = None" if "length q < k" "k \<le> length (q @ expand conv b)" for k
    using match_width [OF assms(1), of False _ "drop k (q @ expand conv b)"] that by fastforce
  moreover have "takeWhile is_digit (q @ expand conv b) = q @ takeWhile is_digit (expand conv b)"
    using assms(2) by (simp add: list_all_iff)
  moreover have "length (takeWhile is_digit (expand conv b)) \<le> length (expand conv b)"
    by (rule length_takeWhile_le)
  moreover have "1 \<le> length q"
    using assms(3) by (cases q) simp_all
  ultimately have "first_some ?f (rev [1..<Suc (length (takeWhile is_digit (q @ expand conv b)))]) = Some q"
    by (intro first_some_longest [where m = "length q"]) auto
  then show ?thesis by (simp add: digit_runs_def)
qed

lemma match_template:
  assumes "dated conv a" "dated conv b" "list_all is_digit q" "q \<noteq> []"
  shows "re_match (Re_Begin # fixed_items a @ Re_Capture # fixed_items b @ [Re_End]) True [] (expand conv a @ q @ expand conv b) = Some q"
proof -
  have "Re_Begin \<notin> set (fixed_items b)"
    by (induction b rule: fixed_items.induct) auto
  then show ?thesis
    using match_fixed [OF assms(1), of "Re_Capture # fixed_items b @ [Re_End]" True "[]" "q @ expand conv b"]
      match_capture [OF assms(2-4), of False "[]"] by simp
qed

section \<open>Decimal numbers\<close>

lemma of_char_digit: "d < 10 \<Longrightarrow> of_char (char_of (48 + d) :: char) = 48 + d"
  for d :: nat
  by simp

lemma is_digit_char: "d < 10 \<Longrightarrow> is_digit (char_of (48 + d))"
  for d :: nat
  by (simp add: is_digit_def)

lemma digits_value_append: "digits_value (s @ [c]) = 10 * digits_value s + (of_char c - 48)"
  by (simp add: digits_value_def)

lemma to_decimal_digits: "list_all is_digit (to_decimal n)"
proof (induction n rule: to_decimal.induct)
  case (1 n)
  then show ?case by (simp add: to_decimal.simps [of n] is_digit_char)
qed

lemma to_decimal_value: "digits_value (to_decimal n) = n"
proof (induction n rule: to_decimal.induct)
  case (1 n)
  have "digits_value [char_of (48 + d)] = d" if "d < 10" for d
    using of_char_digit [OF that] by (simp add: digits_value_def)
  with 1 show ?case by (simp add: to_decimal.simps [of n] digits_value_append of_char_digit)
qed

lemma zeros_value: "digits_value (replicate k (CHR ''0'') @ s) = digits_value s"
  by (induction k) (simp_all add: digits_value_def)

lemma padded_number:
  "list_all is_digit (padded n)" "padded n \<noteq> []" "digits_value (padded n) = n"
proof -
  have "to_decimal n \<noteq> []"
    by (simp add: to_decimal.simps [of n])
  then show "list_all is_digit (padded n)" "padded n \<noteq> []" "digits_value (padded n) = n"
    using to_decimal_digits [of n] by (simp_all add: padded_def zeros_value to_decimal_value list_all_iff is_digit_def ball_Un)
qed

section \<open>The new name\<close>

lemma scan_bound:
  "m \<le> fold (scan_entry p) es m"
  "\<lbrakk>(True, x) \<in> set es; sequence_number p x = Some k\<rbrakk> \<Longrightarrow> int k \<le> fold (scan_entry p) es m"
proof -
  have le: "m \<le> fold (scan_entry p) es m" for m es
  proof (induction es arbitrary: m)
    case (Cons e es)
    have "m \<le> scan_entry p e m" by (cases e) (auto split: option.split)
    also have "\<dots> \<le> fold (scan_entry p) es (scan_entry p e m)" by (rule Cons)
    finally show ?case by simp
  qed simp
  show "m \<le> fold (scan_entry p) es m" by (rule le)
  show "int k \<le> fold (scan_entry p) es m" if "(True, x) \<in> set es" "sequence_number p x = Some k"
    using that
  proof (induction es arbitrary: m)
    case (Cons e es)
    then show ?case using le [of "max m (int k)" es] by (cases "e = (True, x)") auto
  qed simp
qed

lemma scan_attained:
  "fold (scan_entry p) es m = m \<or> (\<exists>x k. (True, x) \<in> set es \<and> sequence_number p x = Some k \<and> fold (scan_entry p) es m = int k)"
proof (induction es arbitrary: m)
  case (Cons e es)
  have "scan_entry p e m = m \<or> (\<exists>x k. e = (True, x) \<and> sequence_number p x = Some k \<and> scan_entry p e m = int k)"
    by (cases e) (auto split: option.split simp: max_def)
  with Cons [of "scan_entry p e m"] show ?case by fastforce
qed simp

definition file_number :: "string \<Rightarrow> string \<Rightarrow> nat option" where
  "file_number filename_pattern filename =
     Option.bind (regex_items (build_sequence_pattern filename_pattern)) (\<lambda>pattern. sequence_number pattern filename)"

lemma path_filename_append: "CHR ''/'' \<notin> set p \<Longrightarrow> path_filename (d @ ''/'' @ p) = p"
proof -
  assume "CHR ''/'' \<notin> set p"
  then have "\<forall>c \<in> set (rev p). c \<noteq> CHR ''/''" by auto
  then have "takeWhile (\<lambda>c. c \<noteq> CHR ''/'') (rev p @ CHR ''/'' # rev d) = rev p"
    by (subst takeWhile_append2) auto
  then show ?thesis by (simp add: path_filename_def)
qed

lemma is_digit_percent [simp]: "\<not> is_digit (CHR ''%'')"
  by (simp add: is_digit_def)

lemma expand_digits: "list_all is_digit q \<Longrightarrow> expand conv (q @ t) = q @ expand conv t"
proof (induction q)
  case (Cons c q)
  then have "c \<noteq> CHR ''%''" by auto
  with Cons show ?case by simp
qed simp

lemma to_decimal_length: "n < 10 ^ Suc k \<Longrightarrow> length (to_decimal n) \<le> Suc k"
proof (induction k arbitrary: n)
  case (Suc k)
  then have "n div 10 < 10 ^ Suc k" by (simp add: less_mult_imp_div_less mult.commute)
  then show ?case using Suc(1) [of "n div 10"] by (simp add: to_decimal.simps [of n])
next
  case 0
  then show ?case by (simp add: to_decimal.simps [of n])
qed

lemma padded_length: "n \<le> INT_MAX \<Longrightarrow> length (padded n) \<le> 10"
  using to_decimal_length [of n 9] by (simp add: padded_def SEQUENCE_PADDING_def INT_MAX_def)

text \<open>The number of the new file, and the name it gives.\<close>

lemma generated_name:
  assumes ab: "dated conv a" "dated conv b" and "CHR 0x00 \<notin> set (a @ b)" "CHR ''/'' \<notin> set (a @ b)" "ni_exists io"
    and strftime: "\<forall>f. length (expand conv f) < 256 \<longrightarrow> ni_strftime io f = expand conv f" "length (expand conv (a @ b)) < 246"
    and n: "n = (if scan_directory io (a @ ''%N'' @ b) = -1 then 0 else nat (scan_directory io (a @ ''%N'' @ b) + 1))" "n \<le> INT_MAX"
  shows "generate_filename io d (d @ ''/'' @ a @ ''%N'' @ b) = d @ ''/'' @ expand conv a @ padded n @ expand conv b"
    and "file_number (a @ ''%N'' @ b) (expand conv a @ padded n @ expand conv b) = (if n < INT_MAX then Some n else None)"
proof -
  have e: "expand conv (a @ padded n @ b) = expand conv a @ padded n @ expand conv b"
    using ab by (simp add: expand_append expand_digits padded_number)
  have "length (expand conv a @ padded n @ expand conv b) < 256"
    using strftime(2) padded_length [OF n(2)] by (simp add: expand_append [OF ab(1)])
  then have "ni_strftime io (a @ padded n @ b) = expand conv a @ padded n @ expand conv b"
    using strftime(1) e by simp
  moreover have "has_sequence (a @ ''%N'' @ b)" "replace_sequence (padded n) (a @ ''%N'' @ b) = a @ padded n @ b"
    using ab by (simp_all add: has_sequence_append replace_append dated_no_sequence)
  moreover have "path_filename (d @ ''/'' @ a @ ''%N'' @ b) = a @ ''%N'' @ b"
    using assms(4) by (intro path_filename_append) simp
  ultimately show "generate_filename io d (d @ ''/'' @ a @ ''%N'' @ b) = d @ ''/'' @ expand conv a @ padded n @ expand conv b"
    using assms(5) n(1) by (simp add: generate_filename_def Let_def del: append.simps)
  have "n \<le> LONG_MAX"
    using n(2) by (simp add: INT_MAX_def LONG_MAX_def)
  then show "file_number (a @ ''%N'' @ b) (expand conv a @ padded n @ expand conv b) = (if n < INT_MAX then Some n else None)"
    using template_items [OF ab assms(3)] match_template [OF ab, of "padded n"] padded_number [of n]
    by (simp add: file_number_def sequence_number_def strtol_def)
qed

lemma scan_numbers:
  assumes "\<not> ni_throws io" "regex_items (build_sequence_pattern p) \<noteq> None"
  shows "-1 \<le> scan_directory io p"
    and "\<lbrakk>(True, x) \<in> set (ni_entries io); file_number p x = Some k\<rbrakk> \<Longrightarrow> int k \<le> scan_directory io p"
    and "scan_directory io p = -1 \<or> (\<exists>x k. (True, x) \<in> set (ni_entries io) \<and> file_number p x = Some k \<and> scan_directory io p = int k)"
proof -
  obtain q where q: "regex_items (build_sequence_pattern p) = Some q"
    using assms(2) by blast
  show "-1 \<le> scan_directory io p"
    and "\<lbrakk>(True, x) \<in> set (ni_entries io); file_number p x = Some k\<rbrakk> \<Longrightarrow> int k \<le> scan_directory io p"
    and "scan_directory io p = -1 \<or> (\<exists>x k. (True, x) \<in> set (ni_entries io) \<and> file_number p x = Some k \<and> scan_directory io p = int k)"
    using assms(1) q scan_bound [where p = q and es = "ni_entries io" and m = "-1"] scan_attained [of q "ni_entries io" "-1"]
    by (simp_all add: scan_directory_def file_number_def)
qed

lemma file_number_less: "file_number p x = Some k \<Longrightarrow> k < INT_MAX"
  by (auto simp: file_number_def sequence_number_def bind_eq_Some_conv split: option.splits if_splits)

section \<open>Properties\<close>

text \<open>C5: The name of a new recording is not that of a file that is already there. For a template with one sequence number and conversions
  of the width that the pattern expects, the name is new and carries a number larger than that of every file of the template, whatever
  dates these files carry, as long as the numbers are not used up.\<close>

theorem filename_fresh:
  assumes "dated conv a" "dated conv b" "CHR 0x00 \<notin> set (a @ b)" "CHR ''/'' \<notin> set (a @ b)"
    and "\<forall>f. length (expand conv f) < 256 \<longrightarrow> ni_strftime io f = expand conv f" "length (expand conv (a @ b)) < 246"
    and "ni_exists io" "\<not> ni_throws io"
    and "\<forall>y. (True, y) \<in> set (ni_entries io) \<longrightarrow> file_number (a @ ''%N'' @ b) y \<noteq> Some (INT_MAX - 1)"
  shows "\<exists>x n. generate_filename io d (d @ ''/'' @ a @ ''%N'' @ b) = d @ ''/'' @ x \<and> (True, x) \<notin> set (ni_entries io)
    \<and> file_number (a @ ''%N'' @ b) x = Some n
    \<and> (\<forall>y m. (True, y) \<in> set (ni_entries io) \<longrightarrow> file_number (a @ ''%N'' @ b) y = Some m \<longrightarrow> m < n)"
proof -
  let ?p = "a @ ''%N'' @ b" and ?m = "scan_directory io (a @ ''%N'' @ b)"
  define n where "n = (if ?m = -1 then 0 else nat (?m + 1))"
  have items: "regex_items (build_sequence_pattern ?p) \<noteq> None"
    using template_items [OF assms(1,2,3)] by simp
  note m = scan_numbers [OF assms(8) items]
  have n: "int n = ?m + 1"
    using m(1) by (auto simp: n_def)
  have "n < INT_MAX"
    using m(3) n assms(9) file_number_less by (fastforce simp: INT_MAX_def)
  note x = generated_name [OF assms(1-4,7,5,6) n_def less_imp_le [OF \<open>n < INT_MAX\<close>]]
  have "(True, expand conv a @ padded n @ expand conv b) \<notin> set (ni_entries io)"
    using m(2) x(2) n \<open>n < INT_MAX\<close> by fastforce
  moreover have "\<forall>y k. (True, y) \<in> set (ni_entries io) \<longrightarrow> file_number ?p y = Some k \<longrightarrow> k < n"
    using m(2) n by fastforce
  ultimately show ?thesis
    using x \<open>n < INT_MAX\<close> by auto
qed

definition example_conv :: "char \<Rightarrow> string" where
  "example_conv c = (if c = CHR ''Y'' then ''2025'' else if c = CHR ''j'' then ''123'' else ''07'')"

definition example_name_io :: name_io where
  "example_name_io = \<lparr>ni_exists = True, ni_entries = [(True, ''rec_2024-11-30_0009.ts''), (True, ''rec_2025-07-07_0003.ts''), (True, ''notes.txt'')],
     ni_throws = False, ni_strftime = expand example_conv\<rparr>"

theorem filename_fresh_witness:
  "\<exists>x n. generate_filename example_name_io ''/media'' (''/media'' @ ''/'' @ ''rec_%Y-%m-%d_'' @ ''%N'' @ ''.ts'') = ''/media'' @ ''/'' @ x
    \<and> (True, x) \<notin> set (ni_entries example_name_io) \<and> file_number (''rec_%Y-%m-%d_'' @ ''%N'' @ ''.ts'') x = Some n
    \<and> (\<forall>y m. (True, y) \<in> set (ni_entries example_name_io) \<longrightarrow> file_number (''rec_%Y-%m-%d_'' @ ''%N'' @ ''.ts'') y = Some m \<longrightarrow> m < n)"
proof (rule filename_fresh [where conv = example_conv])
  show "\<forall>y. (True, y) \<in> set (ni_entries example_name_io) \<longrightarrow> file_number (''rec_%Y-%m-%d_'' @ ''%N'' @ ''.ts'') y \<noteq> Some (INT_MAX - 1)"
  proof -
    have "file_number (''rec_%Y-%m-%d_'' @ ''%N'' @ ''.ts'') ''rec_2024-11-30_0009.ts'' = Some 9"
      "file_number (''rec_%Y-%m-%d_'' @ ''%N'' @ ''.ts'') ''rec_2025-07-07_0003.ts'' = Some 3"
      "file_number (''rec_%Y-%m-%d_'' @ ''%N'' @ ''.ts'') ''notes.txt'' = None"
      by (simp_all add: file_number_def build_sequence_pattern_def re_literal_def re_special_def backslash_def sequence_number_def
        first_some_def digit_runs_def is_digit_def upt_rec strtol_def digits_value_def INT_MAX_def LONG_MAX_def)
    then show ?thesis by (auto simp: example_name_io_def INT_MAX_def)
  qed
qed (simp_all add: example_name_io_def example_conv_def is_digit_def conv_width_def)

text \<open>With a conversion of another width, the day of the year with its three digits, no file matches the pattern, the number stays 0, and
  the name is that of the recording already there.\<close>

lemma sequence_reset:
  "let io = example_name_io\<lparr>ni_entries := [(True, ''rec_123_0000.ts'')]\<rparr> in
   generate_filename io ''/media'' ''/media/rec_%j_%N.ts'' = ''/media/rec_123_0000.ts''"
  by code_simp

end
