(* ===== verification/Spec2Isabelle.thy ===== *)
theory Spec2Isabelle
  imports Restream_Service Encoder_Invariant Dvr_Invariant Dvr_Filename Rtp_Time Rtp_Member_List Rtcp_Rtpfb Rtcp_Psfb Rtcp_Xr Rtp_Api H264_Pack H265_Pack
begin

text \<open>
  PixelPilot_rk is a ground station for video links. It receives H.264 or H.265 over RTP, decodes and shows it, re-encodes it as
  H.265, records the result to MPEG transport stream files and sends it on over RTP. This development models its network
  path, from the socket to the application and from the encoder to the socket, the encoder thread, and the recorder. File names below are relative
  to the root of the repository.

  \<^bold>\<open>The parts and how they interact.\<close> The receiver thread (\<open>src/rtp_receiver.cpp\<close>) takes datagrams from its socket, classifies them
  (\<open>src/rtp_codec_detector.cpp\<close>) and feeds the demuxer of the RTP library (\<open>lib/librtp\<close>). The demuxer copies each datagram into a block,
  puts it into the reorder queue, and hands the packets the queue gives back to the session, which keeps the statistics of the
  participants and builds the RTCP reports, and to the unpacker of the payload format, which calls the application with NAL units.
  In the other direction the encoder thread (\<open>src/encoder\<close>) takes frames from the decoder, or from the display through the capture pool of
  \<open>src/main.cpp\<close>, and gives access units to its consumers: the restreamer (\<open>src/video_restreamer.cpp\<close>) packs them and sends the
  packets, the recorder (\<open>src/dvr\<close>) queues them for a worker thread that writes the files.

  \<^bold>\<open>Conventions\<close> (\<open>C_Prelude\<close>). Machine integers are words of their width; an \<open>int\<close> whose overflow the code excludes or leaves undefined
  is an integer with a test. A read pointer is the list of the bytes behind it. Every operation that may fail yields an \<open>option\<close>: \<open>None\<close> is
  undefined behaviour (an access outside a buffer, a signed overflow, a failed assertion, a use after free), so \<open>ok Q m\<close> says that \<open>m\<close>
  runs without it and its result satisfies \<open>Q\<close>. The error codes of the code are ordinary results. The record \<open>env\<close>
  tells whether assertions are compiled in and which allocations succeed; heaps are maps from addresses to cells with reference
  counts (participants) or blocks (packets). What the kernel, the C library and the encoder answer, the clock, random numbers and the callbacks
  of the application are arguments, and the theorems hold for all of them. A loop that ends is a function with a
  termination proof; loops that depend on wrap-around are \<open>partial_function\<close>s, and that they return is proved. No fuel is used.

  \<^bold>\<open>The library, bottom up.\<close>
  \<^item> \<open>Rtp_Util\<close>, \<open>Rtp_Packet\<close> (\<open>include/rtp-util.h\<close>, \<open>rtp-header.h\<close>, \<open>source/rtp-packet.c\<close>): headers and packets. Parsing is safe on every datagram,
    aborts exactly on three kinds of malformed ones when assertions are on, and inverts writing.
  \<^item> \<open>Rtp_Queue\<close>, \<open>Rtp_Queue_Owner\<close> (\<open>source/rtp-queue.c\<close>): the ring with its binary search, growth, probation and resynchronisation. The
    locale \<open>reorder_buffer\<close> states the ring as a list; insertion refines insertion into that list, reading gives the head,
    a stream without loss passes unchanged, and every packet is owned by the queue or handed back.
  \<^item> \<open>Rtp_Bitstream\<close>, \<open>Rtp_Payload_Helper\<close>, \<open>H264_Unpack\<close>, \<open>H265_Unpack\<close>, \<open>Packet_Sink\<close>, \<open>H264_Pack\<close>, \<open>H265_Pack\<close> (\<open>payload/\<close>): splitting byte
    streams, unpackers and packers. The locale \<open>payload_decoder\<close> is the contract of an unpacker, \<open>packet_sink\<close> that of the callbacks of a
    packer. Unpackers answer every datagram inside their buffers; unpacking inverts packing.
  \<^item> \<open>Rtp_Time\<close>, \<open>Rtp_Member\<close>, \<open>Rtp_Member_List\<close>, \<open>Rtp_Session\<close>, \<open>Rtcp_Report\<close>, \<open>Rtcp_Items\<close>, \<open>Rtcp_Rtpfb\<close>, \<open>Rtcp_Psfb\<close>, \<open>Rtcp_Xr\<close>, \<open>Rtcp_Control\<close>, \<open>Rtp_Api\<close>
    (\<open>source/rtp-member*.c\<close>, \<open>rtcp*.c\<close>, \<open>rtp.c\<close>): the session. Its invariant covers the reference counts of all participants; reports are
    exact, round trips hold for all reports and for the feedback messages whose packers are correct, and the faults of the others
    are stated as lemmas. The locale \<open>source_list\<close> is the contract of the list of participants, \<open>fixed_item\<close> that of a message of fixed items. A session that is created, used in any way and destroyed leaves nothing allocated.
  \<^item> \<open>Rtp_Payload\<close>, \<open>Rtp_Demuxer\<close> (\<open>payload/rtp-payload.c\<close>, \<open>source/rtp-demuxer.c\<close>): the dispatch and the demuxer, generic in the unpacker through
    \<open>payload_decoder\<close>. For datagrams in sequence the demuxer is the unpacker; for any datagrams it is safe and frees every block.
  \<^item> \<open>Codec_Detector\<close>, \<open>Rtp_Receiver\<close>, \<open>Receiver_Stream\<close>: classification and the receiver thread. The codec changes exactly with the fifth
    mismatch in a row.
  \<^item> \<open>Video_Restreamer\<close>, \<open>Restream_Service\<close>, \<open>Stream_Consumer\<close>: the restreamer, and the way of its access units to a receiver.
  \<^item> \<open>Ts_Writer\<close> (\<open>src/dvr/ts_writer.cpp\<close>): the multiplexer, with a reference demultiplexer that gets everything back.
  \<^item> \<open>Storage_Guard\<close>, \<open>Dvr_Worker\<close>, \<open>Dvr_Invariant\<close>, \<open>Dvr_Filename\<close> (\<open>src/dvr/storage_guard.cpp\<close>, \<open>dvr.cpp\<close>): the recorder. The steps of the other
    threads are explicit and run before every access of the worker to shared state, so that the theorems cover every interleaving
    at that grain; the locale \<open>shared_invariant\<close> collects what such steps keep. The recorder stays consistent, ends with its file closed,
    stays disabled once it was, writes only files that begin with a random access point, and gives them new names.
  \<^item> \<open>Mpp_Encoder\<close>, \<open>Video_Encoder\<close>, \<open>Encoder_Invariant\<close> (\<open>src/encoder/mpp_encoder.cpp\<close>, \<open>video_encoder.cpp\<close>, the pool of \<open>src/main.cpp\<close>): the encoder
    thread, with explicit steps of the other threads as in the recorder. Every capture buffer and fence has one owner and none leaks,
    keyframes are requested often enough, and access units are marked and carry the time stamps of their frames.
  \<^item> This theory: an H.264 access unit from the packer through the demuxer and through the receiver thread.

  \<^bold>\<open>Not modelled.\<close> Display and decoding (\<open>src/drm.c\<close>, \<open>src/main.cpp\<close> but for the capture pool), the on-screen display (\<open>src/osd\<close>,
  \<open>lib/libosd\<close>), the configuration (\<open>src/config\<close>), the radio link client (\<open>src/wfbcli.cpp\<close>) and the sockets themselves consist of calls of the
  kernel and of libraries outside the repository, whose behaviour would have to be made up. \<open>lib/inih\<close> is vendored. The
  other payload formats and the header extensions of \<open>lib/librtp\<close> are never selected by this program. Messages to the log,
  and weak memory effects (the atomic variables are sequentially consistent here), are left out.
\<close>

section \<open>From the packer to the application\<close>

text \<open>A demuxer for H.264, as the receiver creates it, on the datagrams of an access unit.\<close>

definition fresh_h264 :: "env \<Rightarrow> (payload_format \<Rightarrow> (rtp_decode_h264_t, 's) rtp_payload_decode_t) \<Rightarrow> 's \<Rightarrow> (rtp_decode_h264_t, 's) rtp_demuxer_t \<Rightarrow> bool" where
  "fresh_h264 E decoders param d \<longleftrightarrow> demux_ok u4_inv {#} d \<and> rtp_queue_init 0 90000 = Some (d_queue d)
     \<and> d_payload d = \<lparr>pd_decoder = decoders F_h264, pd_packer = rtp_h264_unpack_create\<rparr> \<and> d_param d = param
     \<and> d_max d = int RTP_PAYLOAD_MAX_SIZE"

lemma create_h264:
  assumes "nd E" "\<forall>n. mem E n" "decoders F_h264 = rtp_h264_decode handler"
  shows "ok (\<lambda>c. case c of Inl m \<Rightarrow> False | Inr d \<Rightarrow> fresh_h264 E decoders param d)
    (rtp_demuxer_create E decoders 0 90000 96 (Some ''H264'') param clock clock' ssrc)"
proof -
  have dec: "dec_create (decoders F_h264) E = Some rtp_h264_unpack_create"
      "dec_input (decoders F_h264) E = rtp_h264_unpack_input True (mem E) handler"
    using assms by (simp_all add: rtp_h264_decode_def)
  show ?thesis
    by (rule okI_mono [OF h264_dec.create_demux [where decoders = decoders, OF assms(2,1) find_video(1) dec]])
      (simp add: fresh_h264_def split: sum.splits)
qed

lemma stream_in_sequence:
  assumes "plain_hdr h" "h_pt h = 96" "14 < sz" "sz \<le> RTP_PAYLOAD_MAX_SIZE"
  shows "in_sequence (h_seq h) (nal_stream (h264_payloads sz) h ns)"
  using assms length_h264_payload [OF assms(3)] by (intro nal_stream_in_sequence) fastforce+

lemma run_h264:
  assumes E: "nd E" "\<forall>n. mem E n" "decoders F_h264 = rtp_h264_decode handler" and d: "fresh_h264 E decoders param d"
    and h: "plain_hdr h" "h_pt h = 96" and sz: "14 < sz" "sz \<le> RTP_PAYLOAD_MAX_SIZE"
    and ns: "\<forall>n \<in> set ns. n \<noteq> [] \<and> H264_NAL (hd n) \<in> {1..23} \<and> length n \<le> RTP_PAYLOAD_MAX_SIZE"
  shows "ok (\<lambda>(rs, d'). d_param d' = emit_all handler param (h_timestamp h) ns \<and> ok (nothing_left True) (rtp_demuxer_destroy E d'))
    (demux_run E (map (\<lambda>p. (addr, p, int (length p))) (nal_stream (h264_payloads sz) h ns)) d)"
proof -
  let ?ds = "nal_stream (h264_payloads sz) h ns"
  note seq = stream_in_sequence [OF h sz, of ns]
  have m: "mem E = (\<lambda>_. True)" using E(2) by blast
  obtain rs u where f: "h264_dec.feed (mem E) handler rtp_h264_unpack_create param ?ds = Some (rs, u, emit_all handler param (h_timestamp h) ns)"
    using h264_unpack_stream [OF h(1) u4_sync_create sz(1) ns, of handler param] unfolding m by (auto simp: ok_iff)
  have "demux_ok u4_inv {#} d" "dec_input (pd_decoder (d_payload d)) E = rtp_h264_unpack_input True (mem E) handler"
    using d E by (simp_all add: fresh_h264_def rtp_h264_decode_def)
  with d f E seq show ?thesis
    by (intro okI_mono [OF h264_dec.in_order_run [OF E(2,1), of "{#}" d "mem E" handler "h_seq h" ?ds rs u _ addr]])
      (auto simp: fresh_h264_def expects_def nothing_left_def exact_blocks_def split: if_splits intro!: okI_mono [OF h264_dec.destroy_demux])
qed

text \<open>C8: The receiver gets what a packer with the callbacks of the restreamer sends: an access unit of H.264 NAL units that is packed with payload type
  96 and any packet size from 15 bytes to 10 MB, whatever the sequence number it starts with, and whose
  packets arrive in order at a demuxer as the receiver sets it up, is handed to the application as the same NAL units in
  the same order, each behind a start code and with the timestamp of the access unit. The destruction of the
  demuxer then leaves no block and no participant behind.\<close>

theorem stream_end_to_end:
  assumes "nd E" "\<forall>n. mem E n" "decoders F_h264 = rtp_h264_decode handler"
    and "p4_inv p" "h_pt (pk_rtp (p4_pkt p)) = 96" "p4_size p \<le> int RTP_PAYLOAD_MAX_SIZE" "vr_out s = []" "ns \<noteq> []"
    and "\<forall>n \<in> set ns. nal_ok n \<and> H264_NAL (hd n) \<in> {1..23} \<and> length n \<le> RTP_PAYLOAD_MAX_SIZE"
  shows "ok (\<lambda>(r, p', s'). r = 0 \<and>
      ok (\<lambda>c. case c of Inl m \<Rightarrow> False | Inr d \<Rightarrow>
          ok (\<lambda>(rs, d'). d_param d' = emit_all handler param ts ns \<and> ok (nothing_left True) (rtp_demuxer_destroy E d'))
            (demux_run E (map (\<lambda>(d, t). (addr, d, int (length d))) (vr_out s')) d))
        (rtp_demuxer_create E decoders 0 90000 96 (Some ''H264'') param clock clock' ssrc))
    (rtp_h264_pack_input ndebug (restream_handler send) p s (annexb_stream ns) (length (annexb_stream ns)) ts)"
proof -
  define h where "h = (pk_rtp (p4_pkt p))\<lparr>h_m := 0, h_timestamp := ts\<rparr>"
  have sz: "14 < nat (p4_size p)" "nat (p4_size p) \<le> RTP_PAYLOAD_MAX_SIZE" and h: "plain_hdr h" "h_pt h = 96" "h_timestamp h = ts"
    using assms(4-6) by (auto simp: p4_inv_def plain_pkt_def plain_hdr_def h_def)
  have nal: "\<forall>n \<in> set ns. nal_ok n" "\<forall>n \<in> set ns. n \<noteq> [] \<and> H264_NAL (hd n) \<in> {1..23} \<and> length n \<le> RTP_PAYLOAD_MAX_SIZE"
    using assms(9) by (auto simp: nal_ok_def)
  have create: "ok (\<lambda>c. case c of Inl m \<Rightarrow> False | Inr d \<Rightarrow>
          ok (\<lambda>(rs, d'). d_param d' = emit_all handler param ts ns \<and> ok (nothing_left True) (rtp_demuxer_destroy E d'))
            (demux_run E (map (\<lambda>p. (addr, p, int (length p))) (nal_stream (h264_payloads (nat (p4_size p))) h ns)) d))
        (rtp_demuxer_create E decoders 0 90000 96 (Some ''H264'') param clock clock' ssrc)"
    using run_h264 [where decoders = decoders, OF assms(1-3) _ h(1,2) sz nal(2)] h(3)
    by (intro okI_mono [OF create_h264 [where decoders = decoders, OF assms(1-3)]]) (auto split: sum.splits)
  show ?thesis
    by (rule okI_mono [OF vr.h264_pack_stream [OF assms(4,8) nal(1), where s = s and ts = ts and nd = ndebug and send = send]])
      (use create assms(7) in \<open>auto simp: h_def comp_def\<close>)
qed

theorem stream_end_to_end_witness:
  "ok (\<lambda>(r, p', s'). r = 0 \<and>
      ok (\<lambda>c. case c of Inl m \<Rightarrow> False | Inr d \<Rightarrow>
          ok (\<lambda>(rs, d'). d_param d' = [(start_code, 90000, 0), ([0x67, 1, 2], 90000, 0),
              (start_code, 90000, 0), ([0x65, 1, 2, 3, 4, 5, 6, 7, 8, 9, 10], 90000, 0)]
            \<and> ok (nothing_left True) (rtp_demuxer_destroy (example_env\<lparr>nd := True\<rparr>) d'))
            (demux_run (example_env\<lparr>nd := True\<rparr>) (map (\<lambda>(d, t). (0, d, int (length d))) (vr_out s')) d))
        (rtp_demuxer_create (example_env\<lparr>nd := True\<rparr>) (\<lambda>_. rtp_h264_decode recorder) 0 90000 96 (Some ''H264'') [] 5 6 7))
    (rtp_h264_pack_input False (restream_handler (\<lambda>i d. -1)) (rtp_h264_pack_create 20 96 65535 7) new_restreamer
      (annexb_stream [[0x67, 1, 2], [0x65, 1, 2, 3, 4, 5, 6, 7, 8, 9, 10]])
      (length (annexb_stream [[0x67, 1, 2], [0x65, 1, 2, 3, 4, 5, 6, 7, 8, 9, 10]])) 90000)"
proof -
  let ?ns = "[[0x67, 1, 2], [0x65, 1, 2, 3, 4, 5, 6, 7, 8, 9, 10]] :: u8 list list"
  let ?p = "rtp_h264_pack_create 20 96 65535 7"
  have E: "nd (example_env\<lparr>nd := True\<rparr>)" "\<forall>n. mem (example_env\<lparr>nd := True\<rparr>) n"
    by (simp_all add: example_env_def)
  have p: "p4_inv ?p" "h_pt (pk_rtp (p4_pkt ?p)) = 96" "p4_size ?p \<le> int RTP_PAYLOAD_MAX_SIZE" "vr_out new_restreamer = []" "?ns \<noteq> []"
    by (simp_all add: p4_inv_def rtp_h264_pack_create_def blank_packet_def plain_pkt_def RTP_PAYLOAD_MAX_SIZE_def new_restreamer_def)
  have "\<forall>n \<in> set ?ns. nal_ok n"
    by code_simp
  then have n: "\<forall>n \<in> set ?ns. nal_ok n \<and> H264_NAL (hd n) \<in> {1..23} \<and> length n \<le> RTP_PAYLOAD_MAX_SIZE"
    by (simp add: H264_NAL_def RTP_PAYLOAD_MAX_SIZE_def)
  have e: "emit_all recorder [] 90000 ?ns = [(start_code, 90000, 0), ([0x67, 1, 2], 90000, 0),
      (start_code, 90000, 0), ([0x65, 1, 2, 3, 4, 5, 6, 7, 8, 9, 10], 90000, 0)]"
    by (simp add: emit_nal_def recorder_def)
  show ?thesis
    using stream_end_to_end [where decoders = "\<lambda>_. rtp_h264_decode recorder" and addr = 0 and param = "[]" and ts = 90000
        and send = "\<lambda>i d. -1" and ndebug = False, OF E refl p n]
    unfolding e .
qed

section \<open>From the packer through the receiver thread\<close>

lemma emit_all_callback:
  "packet_cb handler = rtp_onpacket (Some (main_rtp_cb m_cb)) \<Longrightarrow>
   emit_all handler s ts ns = foldl (\<lambda>s n. m_cb (m_cb s start_code False) n False) s ns"
  by (induction ns arbitrary: s) (simp_all add: emit_nal_def rtp_onpacket_def main_rtp_cb_def)

lemma not_h265: "c \<noteq> H265 \<longleftrightarrow> c \<in> {UNKNOWN, H264}"
  by (cases c) simp_all

text \<open>C7: The receiver thread hands the application the access units of the sender: when an access unit of H.264 reference slices and
  parameter sets is packed with payload type 96 and any packet size, and its datagrams arrive in order at the socket of a
  receiver of H.264, with any number of timeouts, interruptions and foreign poll events between them and anything behind them in the
  buffer, the callback is called with a start code and then the NAL unit for each of them, in order and with
  nothing else, the codec stays, and when the thread ends no block and no participant is left.\<close>

theorem receiver_end_to_end:
  assumes "nd E" "\<forall>n. mem E n" "decoders F_h264 = rtp_h264_decode handler" "packet_cb handler = rtp_onpacket (Some (main_rtp_cb m_cb))"
    and "p4_inv p" "h_pt (pk_rtp (p4_pkt p)) = 96" "p4_size p \<le> int RTP_PAYLOAD_MAX_SIZE" "vr_out s = []" "ns \<noteq> []"
    and "\<forall>n \<in> set ns. nal_ok n \<and> h264_coded n \<and> length n \<le> RTP_PAYLOAD_MAX_SIZE"
  shows "ok (\<lambda>(r, p', s'). r = 0 \<and> (carries es (map fst (vr_out s')) \<longrightarrow>
      ok (\<lambda>(codec, mismatch, t, x). codec = H264 \<and> mismatch = 0
          \<and> t = foldl (\<lambda>s n. m_cb (m_cb s start_code False) n False) param ns \<and> (\<exists>y. x = Some y \<and> nothing_left True y))
        (rtp_receiver_thread E decoders addr m_cb clock clock' ssrc es H264 0 param)))
    (rtp_h264_pack_input ndebug (restream_handler send) p s (annexb_stream ns) (length (annexb_stream ns)) ts)"
proof -
  define h where "h = (pk_rtp (p4_pkt p))\<lparr>h_m := 0, h_timestamp := ts\<rparr>"
  define ds where "ds = nal_stream (h264_payloads (nat (p4_size p))) h ns"
  have sz: "14 < nat (p4_size p)" "nat (p4_size p) \<le> RTP_PAYLOAD_MAX_SIZE" and h: "plain_hdr h" "h_pt h = 96" "h_timestamp h = ts"
    using assms(5-7) by (auto simp: p4_inv_def plain_pkt_def plain_hdr_def h_def)
  have nal: "\<forall>n \<in> set ns. nal_ok n" "\<forall>n \<in> set ns. h264_coded n"
      "\<forall>n \<in> set ns. n \<noteq> [] \<and> H264_NAL (hd n) \<in> {1..23} \<and> length n \<le> RTP_PAYLOAD_MAX_SIZE"
    using assms(10) by (auto simp: nal_ok_def h264_coded_def H264_NAL_def)
  have cls: "\<forall>d \<in> set ds. 12 \<le> length d \<and> (d ! 1 < RTCP_FIR \<or> RTCP_LIMIT < d ! 1)
      \<and> ok (\<lambda>c. c \<in> {UNKNOWN, H264}) (rtp_classify_codec d (int (length d)))"
    using in_sequence_datagrams [OF stream_in_sequence [OF h(1,2) sz]] stream_classes(1) [OF h(1) nal(2)] unfolding ds_def not_h265 by simp
  have thread: "ok (\<lambda>(codec, mismatch, t, x). codec = H264 \<and> mismatch = 0
          \<and> t = foldl (\<lambda>s n. m_cb (m_cb s start_code False) n False) param ns \<and> (\<exists>y. x = Some y \<and> nothing_left True y))
        (rtp_receiver_thread E decoders addr m_cb clock clock' ssrc es H264 0 param)" if es: "carries es ds"
  proof -
    obtain d where d: "rtp_demuxer_create E decoders 0 90000 96 (Some ''H264'') param clock clock' ssrc = Some (Inr d)"
        "fresh_h264 E decoders param d"
      using create_h264 [where decoders = decoders, OF assms(1-3), of param clock clock' ssrc] by (elim okE) (auto split: sum.splits)
    obtain rs d' y where "demux_run E (map (\<lambda>p. (addr, p, int (length p))) ds) d = Some (rs, d')"
        "d_param d' = emit_all handler param ts ns" "rtp_demuxer_destroy E d' = Some y" "nothing_left True y"
      using run_h264 [where decoders = decoders, OF assms(1-3) d(2) h(1,2) sz nal(3), of addr] h(3) unfolding ds_def by (auto simp: ok_iff)
    then show ?thesis
      using loop_carried [OF es cls, of E addr m_cb d] d(1) emit_all_callback [OF assms(4)]
      by (cases y) (simp add: rtp_receiver_thread_def codec_type_name_def RTP_PAYLOAD_DYNAMIC_def)
  qed
  show ?thesis
    by (rule okI_mono [OF vr.h264_pack_stream [OF assms(5,9) nal(1), where s = s and ts = ts and nd = ndebug and send = send]])
      (use thread assms(8) in \<open>auto simp: ds_def h_def comp_def\<close>)
qed

text \<open>A parameter set and a slice in packets of 20 bytes; the callback collects what it gets. The datagrams arrive with two bytes behind each
  and a timeout before each.\<close>

theorem receiver_end_to_end_witness:
  "let E = example_env\<lparr>nd := True\<rparr>; collect = (\<lambda>s p c. s @ [(p, c)]); ns = [[0x67, 1, 2], [0x65, 1, 2, 3, 4, 5, 6, 7, 8, 9, 10]];
       handler = \<lparr>alloc_cb = \<lambda>s n. (None, s), free_cb = \<lambda>s b. s, packet_cb = rtp_onpacket (Some (main_rtp_cb collect))\<rparr>
   in ok (\<lambda>(r, p', s').
      ok (\<lambda>(codec, mismatch, t, x). codec = H264 \<and> mismatch = 0
          \<and> t = [(start_code, False), ([0x67, 1, 2], False), (start_code, False), ([0x65, 1, 2, 3, 4, 5, 6, 7, 8, 9, 10], False)]
          \<and> (\<exists>y. x = Some y \<and> nothing_left True y))
        (rtp_receiver_thread E (\<lambda>_. rtp_h264_decode handler) 0 collect 5 6 7 (framed [1, 2] (map fst (vr_out s'))) H264 0 []))
    (rtp_h264_pack_input False (restream_handler (\<lambda>i d. -1)) (rtp_h264_pack_create 20 96 65535 7) new_restreamer
      (annexb_stream ns) (length (annexb_stream ns)) 90000)"
proof -
  let ?E = "example_env\<lparr>nd := True\<rparr>" and ?ns = "[[0x67, 1, 2], [0x65, 1, 2, 3, 4, 5, 6, 7, 8, 9, 10]] :: u8 list list"
  let ?p = "rtp_h264_pack_create 20 96 65535 7" and ?cb = "\<lambda>s p (c :: bool). s @ [(p, c)]"
  let ?h = "\<lparr>alloc_cb = \<lambda>s n. (None, s), free_cb = \<lambda>s b. s, packet_cb = rtp_onpacket (Some (main_rtp_cb ?cb))\<rparr>"
  have E: "nd ?E" "\<forall>n. mem ?E n"
    by (simp_all add: example_env_def)
  have p: "p4_inv ?p" "h_pt (pk_rtp (p4_pkt ?p)) = 96" "p4_size ?p \<le> int RTP_PAYLOAD_MAX_SIZE" "vr_out new_restreamer = []" "?ns \<noteq> []"
    by (simp_all add: p4_inv_def rtp_h264_pack_create_def blank_packet_def plain_pkt_def RTP_PAYLOAD_MAX_SIZE_def new_restreamer_def)
  have nal: "\<forall>n \<in> set ?ns. nal_ok n"
    by code_simp
  then have n: "\<forall>n \<in> set ?ns. nal_ok n \<and> h264_coded n \<and> length n \<le> RTP_PAYLOAD_MAX_SIZE"
    by (simp add: h264_coded_def RTP_PAYLOAD_MAX_SIZE_def)
  obtain p' s' where s': "rtp_h264_pack_input False (restream_handler (\<lambda>i d. -1)) ?p new_restreamer
      (annexb_stream ?ns) (length (annexb_stream ?ns)) 90000 = Some (0, p', s')"
      "map fst (vr_out s') = nal_stream (h264_payloads 20) ((pk_rtp (p4_pkt ?p))\<lparr>h_m := 0, h_timestamp := 90000\<rparr>) ?ns"
    using vr.h264_pack_stream [OF p(1,5) nal, where s = new_restreamer and ts = 90000 and nd = False and send = "\<lambda>i d. -1"] p(4)
    by (elim okE) (auto simp: comp_def rtp_h264_pack_create_def)
  have "\<forall>d \<in> set (map fst (vr_out s')). d \<noteq> []"
    unfolding s'(2) using nal_stream_not_Nil by blast
  from framed_carries [OF this, of "[1, 2]"]
  show ?thesis
    using receiver_end_to_end [where decoders = "\<lambda>_. rtp_h264_decode ?h" and addr = 0 and param = "[]" and ts = 90000 and m_cb = ?cb
        and es = "framed [1, 2] (map fst (vr_out s'))" and send = "\<lambda>i d. -1" and ndebug = False and clock = 5 and clock' = 6 and ssrc = 7,
        OF E refl _ p n] s'(1)
    by (simp add: Let_def)
qed

end
